(* ===== verification/Prelude.thy ===== *)
theory Prelude
  imports Main "HOL-Library.Monad_Syntax"
begin

text \<open>
  Shared vocabulary of the development. Byte strings (\<open>std::string\<close>, \<open>std::vector<char>\<close>,
  pointer ranges) are \<^typ>\<open>string\<close>; a position inside a byte range is its offset from the start of
  the range. The searching functions of the C++ library the sources use (\<open>std::find\<close>,
  \<open>std::search\<close>, \<open>std::string::find\<close>) return such an offset, with \<^term>\<open>None\<close> for \<open>npos\<close> or the
  end iterator. A failing \<open>assert\<close> aborts the process (the build type is Debug by default): an
  operation with assertions returns \<^term>\<open>None\<close> when one of them fails. A loop that may not
  terminate returns a \<open>run\<close>, which also says when the fuel ran out.
\<close>

named_theorems buf_simps \<open>readable contents after a buffer operation\<close>
named_theorems inv_intros \<open>preservation of component invariants\<close>

type_synonym bytes = string
type_synonym 'a checked = "'a option"

section \<open>Runs of possibly diverging code\<close>

datatype 'a run = Done 'a | Assert_failed | Out_of_fuel

fun of_checked :: "'a checked \<Rightarrow> 'a run" where
  "of_checked None = Assert_failed"
| "of_checked (Some x) = Done x"

fun run_bind :: "'a run \<Rightarrow> ('a \<Rightarrow> 'b run) \<Rightarrow> 'b run" where
  "run_bind (Done x) f = f x"
| "run_bind Assert_failed f = Assert_failed"
| "run_bind Out_of_fuel f = Out_of_fuel"

section \<open>Searching\<close>

definition starts_with :: "string \<Rightarrow> string \<Rightarrow> bool" where
  "starts_with p s \<longleftrightarrow> take (length p) s = p"

fun find_char :: "char \<Rightarrow> string \<Rightarrow> nat option" where
  "find_char c [] = None"
| "find_char c (x # xs) = (if x = c then Some 0 else map_option Suc (find_char c xs))"

fun find_sub :: "string \<Rightarrow> string \<Rightarrow> nat option" where
  "find_sub p [] = (if p = [] then Some 0 else None)"
| "find_sub p (x # xs) =
     (if starts_with p (x # xs) then Some 0 else map_option Suc (find_sub p xs))"

definition find_sub_from :: "string \<Rightarrow> string \<Rightarrow> nat \<Rightarrow> nat option" where
  "find_sub_from p s i = (if length s < i then None else map_option ((+) i) (find_sub p (drop i s)))"

fun find_last_char :: "char \<Rightarrow> string \<Rightarrow> nat option" where
  "find_last_char c [] = None"
| "find_last_char c (x # xs) =
     (case find_last_char c xs of
        Some i \<Rightarrow> Some (Suc i)
      | None \<Rightarrow> (if x = c then Some 0 else None))"

section \<open>Character classes and numbers\<close>

definition is_space :: "char \<Rightarrow> bool" where
  "is_space c \<longleftrightarrow> of_char c = (32 :: nat) \<or> (9 \<le> (of_char c :: nat) \<and> of_char c \<le> (13 :: nat))"

definition is_digit :: "char \<Rightarrow> bool" where
  "is_digit c \<longleftrightarrow> 48 \<le> (of_char c :: nat) \<and> of_char c \<le> (57 :: nat)"

definition digit_val :: "char \<Rightarrow> nat" where
  "digit_val c = of_char c - 48"

definition to_lower :: "char \<Rightarrow> char" where
  "to_lower c =
     (if 65 \<le> (of_char c :: nat) \<and> of_char c \<le> (90 :: nat) then char_of (of_char c + (32 :: nat)) else c)"

definition cr :: char where "cr = CHR 0x0D"
definition lf :: char where "lf = CHR 0x0A"
definition quote_char :: char where "quote_char = CHR 0x22"
definition CRLF :: string where "CRLF = [CHR 0x0D, CHR 0x0A]"

fun show_nat :: "nat \<Rightarrow> string" where
  "show_nat n =
     (if n < 10 then [char_of (48 + n)] else show_nat (n div 10) @ [char_of (48 + n mod 10)])"

declare show_nat.simps [simp del]

definition show_int :: "int \<Rightarrow> string" where
  "show_int i = (if i < 0 then CHR 0x2D # show_nat (nat (- i)) else show_nat (nat i))"

definition nat_of_digits :: "string \<Rightarrow> nat" where
  "nat_of_digits s = foldl (\<lambda>n c. 10 * n + digit_val c) 0 s"

section \<open>Lemmas on searching\<close>

lemma starts_with_Nil [simp]: "starts_with [] s"
  by (simp add: starts_with_def)

lemma starts_with_Cons [simp]:
  "starts_with (a # p) s \<longleftrightarrow> (\<exists>s'. s = a # s' \<and> starts_with p s')"
  by (cases s) (auto simp: starts_with_def)

lemma starts_with_length: "starts_with p s \<Longrightarrow> length p \<le> length s"
  by (metis length_take min.cobounded1 starts_with_def)

lemma starts_with_append [simp]: "starts_with p (p @ s)"
  by (simp add: starts_with_def)

lemma find_char_Some:
  "find_char c s = Some i \<Longrightarrow> i < length s \<and> s ! i = c \<and> c \<notin> set (take i s)"
  by (induction s arbitrary: i) (auto split: if_splits)

lemma find_char_None: "find_char c s = None \<longleftrightarrow> c \<notin> set s"
  by (induction s) auto

lemma find_char_append [simp]:
  "c \<notin> set xs \<Longrightarrow> find_char c (xs @ c # ys) = Some (length xs)"
  by (induction xs) auto

lemma find_char_split:
  assumes "find_char c s = Some i"
  shows "s = take i s @ c # drop (Suc i) s"
  using find_char_Some [OF assms] id_take_nth_drop [of i s] by simp

lemma find_sub_Some:
  assumes "find_sub p s = Some i"
  shows "i + length p \<le> length s" and "starts_with p (drop i s)"
    and "\<forall>j<i. \<not> starts_with p (drop j s)"
proof -
  have "i + length p \<le> length s \<and> starts_with p (drop i s) \<and> (\<forall>j<i. \<not> starts_with p (drop j s))"
    using assms
  proof (induction s arbitrary: i)
    case Nil
    then show ?case by (auto split: if_splits)
  next
    case (Cons x xs)
    show ?case
    proof (cases "starts_with p (x # xs)")
      case True
      with Cons.prems show ?thesis using starts_with_length [OF True] by auto
    next
      case False
      with Cons.prems obtain k where k: "find_sub p xs = Some k" "i = Suc k" by auto
      from Cons.IH [OF k(1)] False k(2) show ?thesis
        by (auto simp: less_Suc_eq_0_disj)
    qed
  qed
  then show "i + length p \<le> length s" and "starts_with p (drop i s)"
    and "\<forall>j<i. \<not> starts_with p (drop j s)" by auto
qed

lemma find_sub_None:
  "find_sub p s = None \<longleftrightarrow> (\<forall>j. \<not> starts_with p (drop j s))"
proof (induction s)
  case Nil
  then show ?case by (cases p) auto
next
  case (Cons x xs)
  have "(\<forall>j. \<not> starts_with p (drop j (x # xs))) \<longleftrightarrow>
      \<not> starts_with p (x # xs) \<and> (\<forall>j. \<not> starts_with p (drop j xs))"
    by (metis drop0 drop_Suc_Cons not0_implies_Suc)
  with Cons.IH show ?case by simp
qed

lemma find_sub_split:
  assumes "find_sub p s = Some i"
  shows "s = take i s @ p @ drop (i + length p) s"
proof -
  have "drop i s = p @ drop (length p) (drop i s)"
    using find_sub_Some(2) [OF assms] unfolding starts_with_def
    by (metis append_take_drop_id)
  then show ?thesis by (metis add.commute append_take_drop_id drop_drop)
qed

lemma find_sub_eqI:
  assumes "starts_with p (drop i s)" and "\<forall>j<i. \<not> starts_with p (drop j s)"
  shows "find_sub p s = Some i"
proof (cases "find_sub p s")
  case None
  with assms(1) show ?thesis by (simp add: find_sub_None)
next
  case (Some k)
  from find_sub_Some [OF Some] assms have "k = i"
    by (metis linorder_neqE_nat)
  with Some show ?thesis by simp
qed

lemma drop_length_add: "drop (length xs + n) (xs @ ys) = drop n ys"
  by simp

section \<open>Lemmas on decimal numerals\<close>

lemma is_digit_char_of: "d < (10 :: nat) \<Longrightarrow> is_digit (char_of (48 + d))"
  by (simp add: is_digit_def)

lemma digit_val_char_of: "d < (10 :: nat) \<Longrightarrow> digit_val (char_of (48 + d)) = d"
  by (simp add: digit_val_def)

lemma show_nat_nonempty [simp]: "show_nat n \<noteq> []"
  by (subst show_nat.simps) simp

lemma show_nat_digits: "list_all is_digit (show_nat n)"
proof (induction n rule: show_nat.induct)
  case (1 n)
  then show ?case
    by (subst show_nat.simps) (auto simp: is_digit_char_of)
qed

lemma nat_of_digits_snoc: "nat_of_digits (s @ [c]) = 10 * nat_of_digits s + digit_val c"
  by (simp add: nat_of_digits_def)

lemma nat_of_digits_show_nat [simp]: "nat_of_digits (show_nat n) = n"
proof (induction n rule: show_nat.induct)
  case (1 n)
  show ?case
  proof (cases "n < 10")
    case True
    then show ?thesis
      by (subst show_nat.simps) (simp add: nat_of_digits_def digit_val_char_of)
  next
    case False
    with "1.IH" show ?thesis
      by (subst show_nat.simps) (simp add: nat_of_digits_snoc digit_val_char_of)
  qed
qed

lemma show_nat_inject: "show_nat m = show_nat n \<Longrightarrow> m = n"
  by (metis nat_of_digits_show_nat)

lemma show_int_inject: "show_int i = show_int j \<Longrightarrow> i = j"
proof -
  assume eq: "show_int i = show_int j"
  have no_minus: "show_nat n \<noteq> CHR 0x2D # s" for n s
    using show_nat_digits [of n] by (auto simp: is_digit_def)
  from eq no_minus show "i = j"
    by (auto simp: show_int_def dest: show_nat_inject split: if_splits) (metis no_minus)+
qed

lemma length_show_nat_le: "0 < k \<Longrightarrow> n < 10 ^ k \<Longrightarrow> length (show_nat n) \<le> k"
proof (induction n arbitrary: k rule: show_nat.induct)
  case (1 n)
  show ?case
  proof (cases "n < 10")
    case True
    then show ?thesis using 1(2) by (subst show_nat.simps) simp
  next
    case False
    obtain j where k: "k = Suc j" using 1(2) by (cases k) auto
    moreover have "0 < j" using False 1(3) k by (intro gr0I) auto
    ultimately have j: "k = Suc j" "0 < j" by simp_all
    then have "n div 10 < 10 ^ j" using 1(3) by (simp add: less_mult_imp_div_less mult.commute)
    then have "length (show_nat (n div 10)) \<le> j" using 1(1) [OF False] j by blast
    then show ?thesis using False j by (subst show_nat.simps) simp
  qed
qed

lemma nat_of_digits_bound: "list_all is_digit s \<Longrightarrow> nat_of_digits s < 10 ^ length s"
proof (induction s rule: rev_induct)
  case (snoc c s)
  then have "is_digit c" by simp
  then have "digit_val c \<le> 9" unfolding is_digit_def digit_val_def by linarith
  moreover have "nat_of_digits s < 10 ^ length s" using snoc by simp
  ultimately show ?case by (simp add: nat_of_digits_snoc)
qed (simp add: nat_of_digits_def)

end
