(* ===== verification/EventLoop.thy ===== *)
theory EventLoop
  imports Prelude
begin

text \<open>
  The event loop of \<open>net/EventLoop.h\<close> and \<open>net/EventLoop.cc\<close>: its flags, the queue of pending
  functors that other threads add to, and the event descriptor that wakes the poller. A functor is a
  value of any type; running one calls back into the loop. The threads interleave as a step relation:
  another thread pushes a functor under the mutex in one step and writes the wake-up in a later one,
  while the loop thread enters \<open>loop\<close>, polls, handles events, swaps the queue out, runs what it took and leaves.
\<close>

section \<open>State and operations\<close>

record 'f event_loop =
  el_looping :: bool
  el_quit :: bool
  el_eventHandling :: bool
  el_callingPendingFunctors :: bool
  el_pendingFunctors :: "'f list"
  el_wakeupCount :: nat
  el_activeChannels :: "nat list"
  el_currentActiveChannel :: "nat option"

definition new_event_loop :: "'f event_loop" where
  "new_event_loop = \<lparr>el_looping = False, el_quit = False, el_eventHandling = False,
     el_callingPendingFunctors = False, el_pendingFunctors = [], el_wakeupCount = 0,
     el_activeChannels = [], el_currentActiveChannel = None\<rparr>"

text \<open>The event descriptor is a counter: a write adds one, a read takes everything.\<close>

definition wakeup :: "'f event_loop \<Rightarrow> 'f event_loop" where
  "wakeup l = l\<lparr>el_wakeupCount := el_wakeupCount l + 1\<rparr>"

definition loop_handleRead :: "'f event_loop \<Rightarrow> 'f event_loop" where
  "loop_handleRead l = l\<lparr>el_wakeupCount := 0\<rparr>"

definition push_functor :: "'f \<Rightarrow> 'f event_loop \<Rightarrow> 'f event_loop" where
  "push_functor f l = l\<lparr>el_pendingFunctors := el_pendingFunctors l @ [f]\<rparr>"

definition queueInLoop :: "bool \<Rightarrow> 'f \<Rightarrow> 'f event_loop \<Rightarrow> 'f event_loop" where
  "queueInLoop inLoopThread f l =
     (let l1 = push_functor f l
      in if \<not> inLoopThread \<or> el_callingPendingFunctors l1 then wakeup l1 else l1)"

definition runInLoop :: "('f \<Rightarrow> 'f event_loop \<Rightarrow> 'f event_loop) \<Rightarrow> bool \<Rightarrow> 'f \<Rightarrow> 'f event_loop \<Rightarrow> 'f event_loop" where
  "runInLoop run inLoopThread f l = (if inLoopThread then run f l else queueInLoop inLoopThread f l)"

definition quit :: "bool \<Rightarrow> 'f event_loop \<Rightarrow> 'f event_loop" where
  "quit inLoopThread l =
     (let l1 = l\<lparr>el_quit := True\<rparr> in if inLoopThread then l1 else wakeup l1)"

definition loop_removeChannel :: "bool \<Rightarrow> nat \<Rightarrow> 'f event_loop \<Rightarrow> unit checked" where
  "loop_removeChannel inLoopThread ch l =
     (if inLoopThread \<and> (el_eventHandling l \<longrightarrow>
           el_currentActiveChannel l = Some ch \<or> ch \<notin> set (el_activeChannels l))
      then Some () else None)"

text \<open>\<open>doPendingFunctors\<close>: swap the queue out, then run what was taken, in order.\<close>

definition take_functors :: "'f event_loop \<Rightarrow> 'f list \<times> 'f event_loop" where
  "take_functors l = (el_pendingFunctors l, l\<lparr>el_pendingFunctors := [], el_callingPendingFunctors := True\<rparr>)"

definition doPendingFunctors :: "('f \<Rightarrow> 'f event_loop \<Rightarrow> 'f event_loop) \<Rightarrow> 'f event_loop \<Rightarrow> 'f event_loop" where
  "doPendingFunctors run l =
     (let (functors, l1) = take_functors l
      in (fold run functors l1)\<lparr>el_callingPendingFunctors := False\<rparr>)"

text \<open>
  \<open>loop\<close>: the prologue clears \<open>quit_\<close>; an iteration polls, dispatches every active channel and runs
  the pending functors. \<open>polled\<close> gives the active channels of each round; the number of rounds is
  bounded by its length.
\<close>

definition loop_enter :: "bool \<Rightarrow> 'f event_loop \<Rightarrow> 'f event_loop checked" where
  "loop_enter inLoopThread l =
     (if \<not> el_looping l \<and> inLoopThread then Some (l\<lparr>el_looping := True, el_quit := False\<rparr>) else None)"

fun dispatch_active :: "(nat \<Rightarrow> 'f event_loop \<Rightarrow> 'f event_loop) \<Rightarrow> nat list \<Rightarrow> 'f event_loop \<Rightarrow> 'f event_loop" where
  "dispatch_active handle [] l = l"
| "dispatch_active handle (c # cs) l =
     dispatch_active handle cs (handle c (l\<lparr>el_currentActiveChannel := Some c\<rparr>))"

definition loop_iteration ::
  "('f \<Rightarrow> 'f event_loop \<Rightarrow> 'f event_loop) \<Rightarrow> (nat \<Rightarrow> 'f event_loop \<Rightarrow> 'f event_loop) \<Rightarrow> nat list
     \<Rightarrow> 'f event_loop \<Rightarrow> 'f event_loop" where
  "loop_iteration run handle active l =
     (let l1 = l\<lparr>el_activeChannels := active, el_eventHandling := True\<rparr>;
          l2 = dispatch_active handle active l1;
          l3 = l2\<lparr>el_currentActiveChannel := None, el_eventHandling := False\<rparr>
      in doPendingFunctors run l3)"

fun loop_rounds ::
  "('f \<Rightarrow> 'f event_loop \<Rightarrow> 'f event_loop) \<Rightarrow> (nat \<Rightarrow> 'f event_loop \<Rightarrow> 'f event_loop) \<Rightarrow> nat list list
     \<Rightarrow> 'f event_loop \<Rightarrow> 'f event_loop option" where
  "loop_rounds run handle polled l =
     (if el_quit l then Some (l\<lparr>el_looping := False\<rparr>)
      else case polled of
             [] \<Rightarrow> None
           | active # polled' \<Rightarrow> loop_rounds run handle polled' (loop_iteration run handle active l))"

declare loop_rounds.simps [simp del]

section \<open>Interleavings\<close>









lemmas loop_ops = push_functor_def wakeup_def loop_handleRead_def queueInLoop_def take_functors_def quit_def
  loop_enter_def Let_def






text \<open>
  A round of \<open>doPendingFunctors\<close> with functors that only queue further ones: what was queued before
  the round is run in order and exactly once, and everything queued during the round is left for the
  next one, with a wake-up pending for it; so a functor that queues itself cannot starve the poller.
\<close>

lemma pending_round:
  assumes "\<And>f l. run f l = fold (queueInLoop True) (spawn f) l"
  shows "el_pendingFunctors (doPendingFunctors run l) = concat (map spawn (el_pendingFunctors l))
    \<and> el_wakeupCount (doPendingFunctors run l) = el_wakeupCount l + length (concat (map spawn (el_pendingFunctors l)))"
proof -
  have q: "el_pendingFunctors (fold (queueInLoop True) fs k) = el_pendingFunctors k @ fs
      \<and> el_wakeupCount (fold (queueInLoop True) fs k) = el_wakeupCount k + length fs
      \<and> el_callingPendingFunctors (fold (queueInLoop True) fs k)"
    if "el_callingPendingFunctors k" for fs :: "'a list" and k
    using that by (induction fs arbitrary: k) (auto simp: loop_ops)
  have "el_pendingFunctors (fold run fs k) = el_pendingFunctors k @ concat (map spawn fs)
      \<and> el_wakeupCount (fold run fs k) = el_wakeupCount k + length (concat (map spawn fs))"
    if "el_callingPendingFunctors k" for fs k
    using that by (induction fs arbitrary: k) (auto simp: assms q)
  then show ?thesis by (simp add: doPendingFunctors_def take_functors_def)
qed

lemma pending_round_witness:
  "el_pendingFunctors (doPendingFunctors (\<lambda>f. fold (queueInLoop True) [f, f + 1])
      (push_functor (3 :: nat) new_event_loop)) = [3, 4]"
  using pending_round [of "\<lambda>f. fold (queueInLoop True) [f, f + 1]" "\<lambda>f. [f, f + 1]" "push_functor (3 :: nat) new_event_loop"]
  by (simp add: push_functor_def new_event_loop_def)

text \<open>
  A \<open>quit\<close> that another thread calls before \<open>loop\<close> is entered is lost: \<open>loop\<close> resets the flag, so
  as long as no handler or functor quits, the loop goes on for every number of rounds.
\<close>

lemma early_quit_lost:
  assumes "\<not> el_looping l" and "\<And>f k. el_quit (run f k) = el_quit k" and "\<And>c k. el_quit (handle c k) = el_quit k"
  shows "\<exists>l'. loop_enter True (quit False l) = Some l' \<and> loop_rounds run handle polled l' = None"
proof -
  have d: "el_quit (dispatch_active handle cs k) = el_quit k" for cs k
    by (induction cs arbitrary: k) (auto simp: assms(3))
  have f: "el_quit (fold run fs k) = el_quit k" for fs k
    by (induction fs arbitrary: k) (auto simp: assms(2))
  have i: "el_quit (loop_iteration run handle a k) = el_quit k" for a k
    by (simp add: loop_iteration_def doPendingFunctors_def take_functors_def Let_def f d)
  have "\<not> el_quit k \<Longrightarrow> loop_rounds run handle polled k = None" for k
  proof (induction polled arbitrary: k)
    case (Cons a polled)
    then show ?case by (subst loop_rounds.simps) (simp add: i)
  qed (simp add: loop_rounds.simps)
  with assms(1) show ?thesis by (simp add: loop_enter_def quit_def wakeup_def)
qed

lemma early_quit_lost_witness:
  "\<exists>l'. loop_enter True (quit False (new_event_loop :: nat event_loop)) = Some l'
     \<and> loop_rounds (\<lambda>f k. k) (\<lambda>c k. k) [[], [], []] l' = None"
  by (rule early_quit_lost) (simp_all add: new_event_loop_def)

end
