(* ===== verification/Channel.thy ===== *)
theory Channel
  imports Prelude "HOL-Library.Word"
begin

text \<open>
  The event channel of \<open>net/Channel.h\<close> and \<open>net/Channel.cc\<close>: the interest set of one file
  descriptor, its registration state, and the dispatch of reported events to the four callbacks.
  Event sets are 32-bit words with the flag values of \<open><poll.h>\<close>. \<open>update()\<close> and \<open>remove()\<close> call
  the poller; here they do what they do to the channel itself, and theory \<open>Pollers\<close> composes them
  with the two pollers.
\<close>

unbundle bit_operations_syntax

section \<open>Data\<close>

type_synonym events = "32 word"

definition POLLIN :: events where "POLLIN = 0x001"
definition POLLPRI :: events where "POLLPRI = 0x002"
definition POLLOUT :: events where "POLLOUT = 0x004"
definition POLLERR :: events where "POLLERR = 0x008"
definition POLLHUP :: events where "POLLHUP = 0x010"
definition POLLNVAL :: events where "POLLNVAL = 0x020"
definition POLLRDHUP :: events where "POLLRDHUP = 0x2000"

definition kNoneEvent :: events where "kNoneEvent = 0"
definition kReadEvent :: events where "kReadEvent = POLLIN OR POLLPRI"
definition kWriteEvent :: events where "kWriteEvent = POLLOUT"

lemmas event_defs = POLLIN_def POLLPRI_def POLLOUT_def POLLERR_def POLLHUP_def POLLNVAL_def POLLRDHUP_def
  kNoneEvent_def kReadEvent_def kWriteEvent_def

record channel =
  ch_fd :: int
  ch_events :: events
  ch_revents :: events
  ch_index :: int
  ch_eventHandling :: bool
  ch_addedToLoop :: bool
  ch_tied :: bool

definition new_channel :: "int \<Rightarrow> channel" where
  "new_channel fd = \<lparr>ch_fd = fd, ch_events = 0, ch_revents = 0, ch_index = -1, ch_eventHandling = False,
     ch_addedToLoop = False, ch_tied = False\<rparr>"

section \<open>Interest\<close>

definition isNoneEvent :: "channel \<Rightarrow> bool" where
  "isNoneEvent c \<longleftrightarrow> ch_events c = kNoneEvent"

definition isWriting :: "channel \<Rightarrow> bool" where
  "isWriting c \<longleftrightarrow> ch_events c AND kWriteEvent \<noteq> 0"

definition isReading :: "channel \<Rightarrow> bool" where
  "isReading c \<longleftrightarrow> ch_events c AND kReadEvent \<noteq> 0"

text \<open>The channel's half of \<open>update()\<close>, with the interest the caller has just assigned.\<close>

definition chan_update :: "events \<Rightarrow> channel \<Rightarrow> channel" where
  "chan_update e c = c\<lparr>ch_events := e, ch_addedToLoop := True\<rparr>"

definition enableReading :: "channel \<Rightarrow> channel" where
  "enableReading c = chan_update (ch_events c OR kReadEvent) c"

definition disableReading :: "channel \<Rightarrow> channel" where
  "disableReading c = chan_update (ch_events c AND NOT kReadEvent) c"

definition enableWriting :: "channel \<Rightarrow> channel" where
  "enableWriting c = chan_update (ch_events c OR kWriteEvent) c"

definition disableWriting :: "channel \<Rightarrow> channel" where
  "disableWriting c = chan_update (ch_events c AND NOT kWriteEvent) c"

definition disableAll :: "channel \<Rightarrow> channel" where
  "disableAll c = chan_update kNoneEvent c"

definition chan_remove :: "channel \<Rightarrow> channel checked" where
  "chan_remove c = (if isNoneEvent c then Some (c\<lparr>ch_addedToLoop := False\<rparr>) else None)"

definition tie :: "channel \<Rightarrow> channel" where
  "tie c = c\<lparr>ch_tied := True\<rparr>"

definition destroy_channel :: "(channel \<Rightarrow> bool) \<Rightarrow> channel \<Rightarrow> unit checked" where
  "destroy_channel hasChannel c =
     (if \<not> ch_eventHandling c \<and> \<not> ch_addedToLoop c \<and> \<not> hasChannel c then Some () else None)"

section \<open>Dispatch\<close>

datatype event_callback = CloseCallback | ErrorCallback | ReadCallback | WriteCallback

text \<open>The callbacks one event set leads to, in the order the code calls them.\<close>

definition dispatch :: "events \<Rightarrow> event_callback list" where
  "dispatch revents =
     (if revents AND POLLHUP \<noteq> 0 \<and> revents AND POLLIN = 0 then [CloseCallback] else [])
     @ (if revents AND (POLLERR OR POLLNVAL) \<noteq> 0 then [ErrorCallback] else [])
     @ (if revents AND (POLLIN OR POLLPRI OR POLLRDHUP) \<noteq> 0 then [ReadCallback] else [])
     @ (if revents AND POLLOUT \<noteq> 0 then [WriteCallback] else [])"

fun run_callbacks :: "(event_callback \<Rightarrow> 's \<Rightarrow> 's checked) \<Rightarrow> event_callback list \<Rightarrow> 's \<Rightarrow> 's checked" where
  "run_callbacks cb [] s = Some s"
| "run_callbacks cb (k # ks) s = do { s' \<leftarrow> cb k s; run_callbacks cb ks s' }"

text \<open>
  \<open>handleEvent\<close> on an owner state that holds the channel: \<open>alive\<close> is whether the tied owner could be
  locked; \<open>getc\<close> and \<open>setc\<close> read and write the channel inside the owner.
\<close>

definition handleEventWithGuard ::
  "('s \<Rightarrow> channel) \<Rightarrow> (channel \<Rightarrow> 's \<Rightarrow> 's) \<Rightarrow> (event_callback \<Rightarrow> 's \<Rightarrow> 's checked) \<Rightarrow> 's \<Rightarrow> 's checked" where
  "handleEventWithGuard getc setc cb s =
     do { s' \<leftarrow> run_callbacks cb (dispatch (ch_revents (getc s))) (setc (getc s\<lparr>ch_eventHandling := True\<rparr>) s);
          Some (setc (getc s'\<lparr>ch_eventHandling := False\<rparr>) s') }"

definition handleEvent ::
  "bool \<Rightarrow> ('s \<Rightarrow> channel) \<Rightarrow> (channel \<Rightarrow> 's \<Rightarrow> 's) \<Rightarrow> (event_callback \<Rightarrow> 's \<Rightarrow> 's checked) \<Rightarrow> 's \<Rightarrow> 's checked" where
  "handleEvent alive getc setc cb s =
     (if ch_tied (getc s)
      then (if alive then handleEventWithGuard getc setc cb s else Some s)
      else handleEventWithGuard getc setc cb s)"

definition eventsToString :: "int \<Rightarrow> events \<Rightarrow> string" where
  "eventsToString fd ev =
     show_int fd @ '': ''
     @ (if ev AND POLLIN \<noteq> 0 then ''IN '' else [])
     @ (if ev AND POLLPRI \<noteq> 0 then ''PRI '' else [])
     @ (if ev AND POLLOUT \<noteq> 0 then ''OUT '' else [])
     @ (if ev AND POLLHUP \<noteq> 0 then ''HUP '' else [])
     @ (if ev AND POLLRDHUP \<noteq> 0 then ''RDHUP '' else [])
     @ (if ev AND POLLERR \<noteq> 0 then ''ERR '' else [])
     @ (if ev AND POLLNVAL \<noteq> 0 then ''NVAL '' else [])"

section \<open>Lemmas\<close>

text \<open>The interest sets a channel can have: reading and writing are the two independent switches.\<close>

definition interest_of :: "bool \<Rightarrow> bool \<Rightarrow> events" where
  "interest_of r w = (if r then kReadEvent else 0) OR (if w then kWriteEvent else 0)"

definition chan_inv :: "channel \<Rightarrow> bool" where
  "chan_inv c \<longleftrightarrow> ch_events c = interest_of (isReading c) (isWriting c)"

lemma interest_of_values:
  "interest_of False False = 0" "interest_of True False = 3" "interest_of False True = 4" "interest_of True True = 7"
  by (simp_all add: interest_of_def event_defs)

lemma chan_inv_cases:
  assumes "chan_inv c"
  obtains "ch_events c = 0" | "ch_events c = 3" | "ch_events c = 4" | "ch_events c = 7"
  using assms interest_of_values unfolding chan_inv_def by (metis (full_types))

lemma chan_inv_iff: "chan_inv c \<longleftrightarrow> ch_events c \<in> {0, 3, 4, 7}"
proof
  assume "chan_inv c"
  then show "ch_events c \<in> {0, 3, 4, 7}" by (rule chan_inv_cases) auto
next
  assume "ch_events c \<in> {0, 3, 4, 7}"
  then show "chan_inv c"
    by (auto simp: chan_inv_def isReading_def isWriting_def interest_of_def event_defs)
qed

lemmas interest_ops = enableReading_def disableReading_def enableWriting_def disableWriting_def disableAll_def
  chan_update_def

lemma interest_switches:
  assumes "chan_inv c"
  shows "isReading (enableReading c)" "isWriting (enableReading c) = isWriting c"
    "\<not> isReading (disableReading c)" "isWriting (disableReading c) = isWriting c"
    "isWriting (enableWriting c)" "isReading (enableWriting c) = isReading c"
    "\<not> isWriting (disableWriting c)" "isReading (disableWriting c) = isReading c"
    "isNoneEvent (disableAll c)" "\<not> isWriting (disableAll c)" "\<not> isReading (disableAll c)"
  using assms
  by (rule chan_inv_cases; simp add: interest_ops isReading_def isWriting_def isNoneEvent_def event_defs)+

lemma chan_inv_ops [inv_intros]:
  assumes "chan_inv c"
  shows "chan_inv (enableReading c)" "chan_inv (disableReading c)" "chan_inv (enableWriting c)"
    "chan_inv (disableWriting c)" "chan_inv (disableAll c)"
  using assms
  by (rule chan_inv_cases; simp add: interest_ops chan_inv_iff event_defs)+

lemma chan_inv_new [inv_intros]: "chan_inv (new_channel fd)"
  by (simp add: chan_inv_iff new_channel_def)

lemma isNoneEvent_iff: "chan_inv c \<Longrightarrow> isNoneEvent c \<longleftrightarrow> \<not> isReading c \<and> \<not> isWriting c"
  by (erule chan_inv_cases) (simp_all add: isReading_def isWriting_def isNoneEvent_def event_defs)

text \<open>
  An event set leads to the close callback exactly on a hang-up with nothing left to read, and the
  order is always close, error, read, write; so a hang-up together with urgent data or a peer
  half-close runs the read callback after the close callback in the same dispatch.
\<close>

lemma dispatch_close_then_read:
  "(CloseCallback \<in> set (dispatch r) \<longleftrightarrow> r AND POLLHUP \<noteq> 0 \<and> r AND POLLIN = 0)
   \<and> (\<exists>a b c d. dispatch r = filter (\<lambda>k. k = CloseCallback \<and> a \<or> k = ErrorCallback \<and> b \<or> k = ReadCallback \<and> c
        \<or> k = WriteCallback \<and> d) [CloseCallback, ErrorCallback, ReadCallback, WriteCallback])
   \<and> ({CloseCallback, ReadCallback} \<subseteq> set (dispatch r) \<longleftrightarrow>
        r AND POLLHUP \<noteq> 0 \<and> r AND POLLIN = 0 \<and> r AND (POLLPRI OR POLLRDHUP) \<noteq> 0)"
proof (intro conjI)
  show "CloseCallback \<in> set (dispatch r) \<longleftrightarrow> r AND POLLHUP \<noteq> 0 \<and> r AND POLLIN = 0"
    by (simp add: dispatch_def)
  show "\<exists>a b c d. dispatch r = filter (\<lambda>k. k = CloseCallback \<and> a \<or> k = ErrorCallback \<and> b \<or> k = ReadCallback \<and> c
        \<or> k = WriteCallback \<and> d) [CloseCallback, ErrorCallback, ReadCallback, WriteCallback]"
    by (intro exI [of _ "CloseCallback \<in> set (dispatch r)"] exI [of _ "ErrorCallback \<in> set (dispatch r)"]
        exI [of _ "ReadCallback \<in> set (dispatch r)"] exI [of _ "WriteCallback \<in> set (dispatch r)"])
      (simp add: dispatch_def)
  have "r AND POLLIN = 0 \<Longrightarrow> r AND (POLLIN OR POLLPRI OR POLLRDHUP) = r AND (POLLPRI OR POLLRDHUP)"
    by (simp add: bit.conj_disj_distrib)
  then show "{CloseCallback, ReadCallback} \<subseteq> set (dispatch r) \<longleftrightarrow>
        r AND POLLHUP \<noteq> 0 \<and> r AND POLLIN = 0 \<and> r AND (POLLPRI OR POLLRDHUP) \<noteq> 0"
    by (auto simp: dispatch_def)
qed

end
