(* ===== verification/Pollers.thy ===== *)
theory Pollers
  imports Channel
begin

text \<open>
  The two pollers, \<open>net/poller/EPollPoller.cc\<close> and \<open>net/poller/PollPoller.cc\<close>, over the base class
  of \<open>net/Poller.h\<close>. Channels are objects in a store, addressed by pointers (natural numbers); the
  base record holds the store and \<open>channels_\<close>, the map from descriptors to pointers, and each
  poller extends it. The kernel's epoll interest list is explicit: \<open>epoll_ctl\<close> refuses to add a
  listed descriptor and to modify or delete an unlisted one. A failed assertion and \<open>LOG_SYSFATAL\<close>
  both end the process and are \<^term>\<open>None\<close>. All of these run on the loop's thread, so
  \<open>assertInLoopThread\<close> holds.

  The contract both pollers implement is the locale \<open>poller\<close>: what is watched is what was last asked
  for, and no operation within the protocol fails an assertion.
\<close>

unbundle bit_operations_syntax

section \<open>The base class\<close>

type_synonym chan_ptr = nat

record poller_base =
  pl_chans :: "chan_ptr \<Rightarrow> channel"
  pl_channels :: "int \<rightharpoonup> chan_ptr"

definition set_chan :: "chan_ptr \<Rightarrow> channel \<Rightarrow> 'a poller_base_scheme \<Rightarrow> 'a poller_base_scheme" where
  "set_chan p c s = s\<lparr>pl_chans := (pl_chans s)(p := c)\<rparr>"

definition hasChannel :: "'a poller_base_scheme \<Rightarrow> chan_ptr \<Rightarrow> bool" where
  "hasChannel s p \<longleftrightarrow> pl_channels s (ch_fd (pl_chans s p)) = Some p"

definition fd_at :: "'a poller_base_scheme \<Rightarrow> chan_ptr \<Rightarrow> int" where
  "fd_at s p = ch_fd (pl_chans s p)"

section \<open>The epoll poller\<close>

definition kNew :: int where "kNew = -1"
definition kAdded :: int where "kAdded = 1"
definition kDeleted :: int where "kDeleted = 2"

lemmas index_defs = kNew_def kAdded_def kDeleted_def

record epoll_poller = poller_base +
  ep_interest :: "int \<rightharpoonup> events \<times> chan_ptr"
  ep_events :: nat

datatype epoll_op = EPOLL_CTL_ADD | EPOLL_CTL_MOD | EPOLL_CTL_DEL

fun operationToString :: "epoll_op \<Rightarrow> string" where
  "operationToString EPOLL_CTL_ADD = ''ADD''"
| "operationToString EPOLL_CTL_DEL = ''DEL''"
| "operationToString EPOLL_CTL_MOD = ''MOD''"

text \<open>\<open>epoll_ctl(2)\<close>: \<^term>\<open>None\<close> is a failure (\<open>EEXIST\<close>, \<open>ENOENT\<close>).\<close>

fun epoll_ctl :: "epoll_op \<Rightarrow> int \<Rightarrow> events \<times> chan_ptr \<Rightarrow> (int \<rightharpoonup> events \<times> chan_ptr) \<Rightarrow> (int \<rightharpoonup> events \<times> chan_ptr) option" where
  "epoll_ctl EPOLL_CTL_ADD fd ev k = (if k fd = None then Some (k(fd \<mapsto> ev)) else None)"
| "epoll_ctl EPOLL_CTL_MOD fd ev k = (if k fd = None then None else Some (k(fd \<mapsto> ev)))"
| "epoll_ctl EPOLL_CTL_DEL fd ev k = (if k fd = None then None else Some (k(fd := None)))"

definition epoll_update :: "epoll_op \<Rightarrow> chan_ptr \<Rightarrow> epoll_poller \<Rightarrow> epoll_poller checked" where
  "epoll_update op p s =
     (let c = pl_chans s p in
      case epoll_ctl op (ch_fd c) (ch_events c, p) (ep_interest s) of
        Some k \<Rightarrow> Some (s\<lparr>ep_interest := k\<rparr>)
      | None \<Rightarrow> if op = EPOLL_CTL_DEL then Some s else None)"

definition set_index :: "int \<Rightarrow> chan_ptr \<Rightarrow> 'a poller_base_scheme \<Rightarrow> 'a poller_base_scheme" where
  "set_index i p s = set_chan p (pl_chans s p\<lparr>ch_index := i\<rparr>) s"

definition epoll_updateChannel :: "chan_ptr \<Rightarrow> epoll_poller \<Rightarrow> epoll_poller checked" where
  "epoll_updateChannel p s =
     (let c = pl_chans s p; index = ch_index c; fd = ch_fd c in
      if index = kNew \<or> index = kDeleted then
        if index = kNew then
          (if pl_channels s fd = None
           then epoll_update EPOLL_CTL_ADD p (set_index kAdded p (s\<lparr>pl_channels := (pl_channels s)(fd \<mapsto> p)\<rparr>))
           else None)
        else
          (if pl_channels s fd = Some p
           then epoll_update EPOLL_CTL_ADD p (set_index kAdded p s)
           else None)
      else if pl_channels s fd = Some p \<and> index = kAdded then
        if isNoneEvent c
        then do { s' \<leftarrow> epoll_update EPOLL_CTL_DEL p s; Some (set_index kDeleted p s') }
        else epoll_update EPOLL_CTL_MOD p s
      else None)"

definition epoll_removeChannel :: "chan_ptr \<Rightarrow> epoll_poller \<Rightarrow> epoll_poller checked" where
  "epoll_removeChannel p s =
     (let c = pl_chans s p; index = ch_index c; fd = ch_fd c in
      if pl_channels s fd = Some p \<and> isNoneEvent c \<and> (index = kAdded \<or> index = kDeleted) then
        do { s' \<leftarrow> (let s1 = s\<lparr>pl_channels := (pl_channels s)(fd := None)\<rparr>
                    in if index = kAdded then epoll_update EPOLL_CTL_DEL p s1 else Some s1);
             Some (set_index kNew p s') }
      else None)"

text \<open>
  \<open>poll\<close>: \<open>epoll_wait\<close> reports a list of (events, pointer) entries, at most as many as the event
  array holds; the array doubles when it was filled. A failure reports nothing.
\<close>

fun epoll_fillActiveChannels ::
  "(events \<times> chan_ptr) list \<Rightarrow> epoll_poller \<Rightarrow> (chan_ptr list \<times> epoll_poller) checked" where
  "epoll_fillActiveChannels [] s = Some ([], s)"
| "epoll_fillActiveChannels ((ev, p) # evs) s =
     (if hasChannel s p then
        do { (ps, s') \<leftarrow> epoll_fillActiveChannels evs (set_chan p (pl_chans s p\<lparr>ch_revents := ev\<rparr>) s);
             Some (p # ps, s') }
      else None)"

definition kInitEventListSize :: nat where "kInitEventListSize = 16"

definition epoll_poll :: "(events \<times> chan_ptr) list option \<Rightarrow> epoll_poller \<Rightarrow> (chan_ptr list \<times> epoll_poller) checked" where
  "epoll_poll res s =
     (case res of
        None \<Rightarrow> Some ([], s)
      | Some evs \<Rightarrow>
          if evs = [] then Some ([], s)
          else if length evs \<le> ep_events s then
            do { (ps, s') \<leftarrow> epoll_fillActiveChannels evs s;
                 Some (ps, if length evs = ep_events s' then s'\<lparr>ep_events := ep_events s' * 2\<rparr> else s') }
          else None)"

section \<open>The poll poller\<close>

record pollfd =
  pf_fd :: int
  pf_events :: "16 word"
  pf_revents :: "16 word"

record poll_poller = poller_base +
  pp_pollfds :: "pollfd list"

definition poll_updateChannel :: "chan_ptr \<Rightarrow> poll_poller \<Rightarrow> poll_poller checked" where
  "poll_updateChannel p s =
     (let c = pl_chans s p; fd = ch_fd c; pfds = pp_pollfds s in
      if ch_index c < 0 then
        if pl_channels s fd = None then
          let pfd = \<lparr>pf_fd = fd, pf_events = ucast (ch_events c), pf_revents = 0\<rparr>;
              s1 = s\<lparr>pp_pollfds := pfds @ [pfd]\<rparr>;
              s2 = set_index (int (length (pfds @ [pfd])) - 1) p s1
          in Some (s2\<lparr>pl_channels := (pl_channels s2)(fd \<mapsto> p)\<rparr>)
        else None
      else
        let idx = nat (ch_index c) in
        if pl_channels s fd = Some p \<and> idx < length pfds
           \<and> (pf_fd (pfds ! idx) = fd \<or> pf_fd (pfds ! idx) = - fd - 1)
        then Some (s\<lparr>pp_pollfds := pfds[idx := \<lparr>pf_fd = if isNoneEvent c then - fd - 1 else fd,
                                              pf_events = ucast (ch_events c), pf_revents = 0\<rparr>]\<rparr>)
        else None)"

text \<open>\<open>channels_[k]\<close> with a missing key would insert a null pointer and then be dereferenced.\<close>

definition poll_removeChannel :: "chan_ptr \<Rightarrow> poll_poller \<Rightarrow> poll_poller checked" where
  "poll_removeChannel p s =
     (let c = pl_chans s p; fd = ch_fd c; pfds = pp_pollfds s; idx = nat (ch_index c) in
      if pl_channels s fd = Some p \<and> isNoneEvent c \<and> 0 \<le> ch_index c \<and> idx < length pfds
         \<and> pf_fd (pfds ! idx) = - fd - 1 \<and> scast (pf_events (pfds ! idx)) = ch_events c
      then
        let s1 = s\<lparr>pl_channels := (pl_channels s)(fd := None)\<rparr> in
        if idx = length pfds - 1 then Some (s1\<lparr>pp_pollfds := butlast pfds\<rparr>)
        else
          let channelAtEnd = pf_fd (last pfds);
              atEnd = (if channelAtEnd < 0 then - channelAtEnd - 1 else channelAtEnd)
          in case pl_channels s1 atEnd of
               None \<Rightarrow> None
             | Some q \<Rightarrow> Some (set_index (int idx) q (s1\<lparr>pp_pollfds := butlast (pfds[idx := last pfds])\<rparr>))
      else None)"

text \<open>\<open>poll(2)\<close> fills in the \<open>revents\<close> of every entry and returns how many are non-zero.\<close>

fun poll_fillActiveChannels :: "pollfd list \<Rightarrow> nat \<Rightarrow> poll_poller \<Rightarrow> (chan_ptr list \<times> poll_poller) checked" where
  "poll_fillActiveChannels [] n s = Some ([], s)"
| "poll_fillActiveChannels (pfd # pfds) n s =
     (if n = 0 then Some ([], s)
      else if 0 < sint (pf_revents pfd) then
        (case pl_channels s (pf_fd pfd) of
           None \<Rightarrow> None
         | Some p \<Rightarrow>
             if ch_fd (pl_chans s p) = pf_fd pfd then
               do { (ps, s') \<leftarrow> poll_fillActiveChannels pfds (n - 1)
                      (set_chan p (pl_chans s p\<lparr>ch_revents := scast (pf_revents pfd)\<rparr>) s);
                    Some (p # ps, s') }
             else None)
      else poll_fillActiveChannels pfds n s)"

definition poll_poll :: "'e option \<Rightarrow> (16 word list) \<Rightarrow> poll_poller \<Rightarrow> (chan_ptr list \<times> poll_poller) checked" where
  "poll_poll err revs s =
     (let pfds = map2 (\<lambda>pfd r. pfd\<lparr>pf_revents := r\<rparr>) (pp_pollfds s) revs;
          s1 = s\<lparr>pp_pollfds := pfds\<rparr>;
          numEvents = length (filter (\<lambda>r. r \<noteq> 0) revs)
      in if err = None \<and> 0 < numEvents then poll_fillActiveChannels pfds numEvents s1 else Some ([], s))"

section \<open>The operations of a channel through its poller\<close>

text \<open>\<open>events_ = e; update();\<close> and \<open>remove();\<close>, with the poller's operation as an argument.\<close>

definition change_interest ::
  "(chan_ptr \<Rightarrow> 'a poller_base_scheme \<Rightarrow> 'a poller_base_scheme checked) \<Rightarrow> events \<Rightarrow> chan_ptr
     \<Rightarrow> 'a poller_base_scheme \<Rightarrow> 'a poller_base_scheme checked" where
  "change_interest upd e p s = upd p (set_chan p (chan_update e (pl_chans s p)) s)"

definition remove_channel ::
  "(chan_ptr \<Rightarrow> 'a poller_base_scheme \<Rightarrow> 'a poller_base_scheme checked) \<Rightarrow> chan_ptr
     \<Rightarrow> 'a poller_base_scheme \<Rightarrow> 'a poller_base_scheme checked" where
  "remove_channel rem p s = do { c \<leftarrow> chan_remove (pl_chans s p); rem p (set_chan p c s) }"

section \<open>The contract of a poller\<close>

datatype poller_cmd = Interest events chan_ptr | Remove chan_ptr

text \<open>
  The specification state: which channels are registered, which were never registered, the interest
  of each channel, and what is watched per descriptor (no events means not watched).
\<close>

record poll_spec =
  sp_registered :: "chan_ptr \<Rightarrow> bool"
  sp_fresh :: "chan_ptr \<Rightarrow> bool"
  sp_interest :: "chan_ptr \<Rightarrow> events"
  sp_watch :: "int \<Rightarrow> events"

text \<open>The protocol: register with a non-empty interest on a free descriptor, remove only when idle.\<close>

fun spec_allows :: "(chan_ptr \<Rightarrow> int) \<Rightarrow> poller_cmd \<Rightarrow> poll_spec \<Rightarrow> bool" where
  "spec_allows fd (Interest e p) a \<longleftrightarrow> (\<exists>r w. e = interest_of r w) \<and>
     (sp_registered a p \<or> sp_fresh a p \<and> e \<noteq> 0 \<and> (\<forall>q. sp_registered a q \<longrightarrow> fd q \<noteq> fd p))"
| "spec_allows fd (Remove p) a \<longleftrightarrow> sp_registered a p \<and> sp_interest a p = 0"

fun spec_step :: "(chan_ptr \<Rightarrow> int) \<Rightarrow> poller_cmd \<Rightarrow> poll_spec \<Rightarrow> poll_spec" where
  "spec_step fd (Interest e p) a =
     a\<lparr>sp_registered := (sp_registered a)(p := True), sp_fresh := (sp_fresh a)(p := False),
       sp_interest := (sp_interest a)(p := e), sp_watch := (sp_watch a)(fd p := e)\<rparr>"
| "spec_step fd (Remove p) a =
     a\<lparr>sp_registered := (sp_registered a)(p := False), sp_watch := (sp_watch a)(fd p := 0)\<rparr>"

fun spec_run :: "(chan_ptr \<Rightarrow> int) \<Rightarrow> poller_cmd list \<Rightarrow> poll_spec \<Rightarrow> poll_spec option" where
  "spec_run fd [] a = Some a"
| "spec_run fd (c # cs) a = (if spec_allows fd c a then spec_run fd cs (spec_step fd c a) else None)"

fun run_cmds :: "(events \<Rightarrow> chan_ptr \<Rightarrow> 's \<Rightarrow> 's checked) \<Rightarrow> (chan_ptr \<Rightarrow> 's \<Rightarrow> 's checked) \<Rightarrow> poller_cmd list
    \<Rightarrow> 's \<Rightarrow> 's checked" where
  "run_cmds change remove [] s = Some s"
| "run_cmds change remove (Interest e p # cs) s = do { s' \<leftarrow> change e p s; run_cmds change remove cs s' }"
| "run_cmds change remove (Remove p # cs) s = do { s' \<leftarrow> remove p s; run_cmds change remove cs s' }"

locale poller =
  fixes inv :: "'s \<Rightarrow> bool"
    and fd_of :: "'s \<Rightarrow> chan_ptr \<Rightarrow> int"
    and registered :: "'s \<Rightarrow> chan_ptr \<Rightarrow> bool"
    and fresh :: "'s \<Rightarrow> chan_ptr \<Rightarrow> bool"
    and interest :: "'s \<Rightarrow> chan_ptr \<Rightarrow> events"
    and watch :: "'s \<Rightarrow> int \<Rightarrow> events"
    and change :: "events \<Rightarrow> chan_ptr \<Rightarrow> 's \<Rightarrow> 's option"
    and remove :: "chan_ptr \<Rightarrow> 's \<Rightarrow> 's option"
  assumes change_law: "inv s \<Longrightarrow> e = interest_of r w \<Longrightarrow>
      registered s p \<or> fresh s p \<and> e \<noteq> 0 \<and> (\<forall>q. registered s q \<longrightarrow> fd_of s q \<noteq> fd_of s p) \<Longrightarrow>
      \<exists>s'. change e p s = Some s' \<and> inv s' \<and> fd_of s' = fd_of s
        \<and> registered s' = (registered s)(p := True) \<and> fresh s' = (fresh s)(p := False)
        \<and> interest s' = (interest s)(p := e) \<and> watch s' = (watch s)(fd_of s p := e)"
    and remove_law: "inv s \<Longrightarrow> registered s p \<Longrightarrow> interest s p = 0 \<Longrightarrow>
      \<exists>s'. remove p s = Some s' \<and> inv s' \<and> fd_of s' = fd_of s
        \<and> registered s' = (registered s)(p := False) \<and> (\<forall>q. fresh s q \<longrightarrow> fresh s' q)
        \<and> interest s' = interest s \<and> watch s' = (watch s)(fd_of s p := 0)"
begin

definition refines :: "'s \<Rightarrow> poll_spec \<Rightarrow> bool" where
  "refines s a \<longleftrightarrow> inv s \<and> registered s = sp_registered a \<and> (\<forall>p. sp_fresh a p \<longrightarrow> fresh s p)
     \<and> interest s = sp_interest a \<and> watch s = sp_watch a"

lemma run_refines:
  assumes "refines s a" and "spec_run (fd_of s) cs a = Some a'"
  shows "\<exists>s'. run_cmds change remove cs s = Some s' \<and> fd_of s' = fd_of s \<and> refines s' a'"
  using assms
proof (induction cs arbitrary: s a)
  case (Cons c cs)
  from Cons.prems have ok: "spec_allows (fd_of s) c a"
    and run: "spec_run (fd_of s) cs (spec_step (fd_of s) c a) = Some a'" by (auto split: if_splits)
  show ?case
  proof (cases c)
    case (Interest e p)
    with ok Cons.prems(1) obtain r w where e: "e = interest_of r w" and
      "registered s p \<or> fresh s p \<and> e \<noteq> 0 \<and> (\<forall>q. registered s q \<longrightarrow> fd_of s q \<noteq> fd_of s p)"
      by (auto simp: refines_def)
    from change_law [OF _ this] Cons.prems(1) obtain s1 where
      s1: "change e p s = Some s1" "fd_of s1 = fd_of s" "refines s1 (spec_step (fd_of s) c a)"
      by (auto simp: refines_def Interest)
    from Cons.IH [OF s1(3)] run s1(1,2) Interest show ?thesis by auto
  next
    case (Remove p)
    with ok Cons.prems(1) remove_law [of s p] obtain s1 where
      s1: "remove p s = Some s1" "fd_of s1 = fd_of s" "refines s1 (spec_step (fd_of s) c a)"
      by (auto simp: refines_def)
    from Cons.IH [OF s1(3)] run s1(1,2) Remove show ?thesis by auto
  qed
qed simp

end

text \<open>Reading a channel back out of the store.\<close>

lemma set_chan_simps [simp]:
  "pl_channels (set_chan p c s) = pl_channels s" "pl_chans (set_chan p c s) q = (if q = p then c else pl_chans s q)"
  "pl_channels (set_index i p s) = pl_channels s"
  "pl_chans (set_index i p s) q = (if q = p then pl_chans s p\<lparr>ch_index := i\<rparr> else pl_chans s q)"
  by (simp_all add: set_chan_def set_index_def)

lemma set_chan_epoll [simp]:
  "ep_interest (set_chan p c s) = ep_interest s" "ep_events (set_chan p c s) = ep_events s"
  "ep_interest (set_index i p s) = ep_interest s" "ep_events (set_index i p s) = ep_events s"
  by (simp_all add: set_chan_def set_index_def)

lemma set_chan_poll [simp]:
  "pp_pollfds (set_chan p c s) = pp_pollfds s" "pp_pollfds (set_index i p s) = pp_pollfds s"
  by (simp_all add: set_chan_def set_index_def)

definition chan_interest :: "'a poller_base_scheme \<Rightarrow> chan_ptr \<Rightarrow> events" where
  "chan_interest s p = ch_events (pl_chans s p)"

section \<open>The epoll poller meets the contract\<close>

definition ep_inv :: "epoll_poller \<Rightarrow> bool" where
  "ep_inv s \<longleftrightarrow>
     (\<forall>fd p. pl_channels s fd = Some p \<longrightarrow> fd_at s p = fd)
     \<and> (\<forall>p. if hasChannel s p then ch_index (pl_chans s p) = kAdded \<or> ch_index (pl_chans s p) = kDeleted
            else ch_index (pl_chans s p) = kNew)
     \<and> (\<forall>p. ch_index (pl_chans s p) \<noteq> kAdded \<longrightarrow> chan_interest s p = 0)
     \<and> (\<forall>fd. ep_interest s fd =
           (case pl_channels s fd of
              Some p \<Rightarrow> if ch_index (pl_chans s p) = kAdded then Some (chan_interest s p, p) else None
            | None \<Rightarrow> None))"

definition ep_fresh :: "epoll_poller \<Rightarrow> chan_ptr \<Rightarrow> bool" where
  "ep_fresh s p \<longleftrightarrow> ch_index (pl_chans s p) = kNew"

definition ep_watch :: "epoll_poller \<Rightarrow> int \<Rightarrow> events" where
  "ep_watch s fd = (case ep_interest s fd of Some (e, p) \<Rightarrow> e | None \<Rightarrow> 0)"

lemma ep_watch_eq:
  assumes "ep_inv s"
  shows "ep_watch s = (\<lambda>fd. case pl_channels s fd of Some p \<Rightarrow> chan_interest s p | None \<Rightarrow> 0)"
  using assms by (fastforce simp: ep_inv_def ep_watch_def fun_eq_iff split: option.splits)

abbreviation epoll_change :: "events \<Rightarrow> chan_ptr \<Rightarrow> epoll_poller \<Rightarrow> epoll_poller checked" where
  "epoll_change \<equiv> change_interest epoll_updateChannel"

abbreviation epoll_remove :: "chan_ptr \<Rightarrow> epoll_poller \<Rightarrow> epoll_poller checked" where
  "epoll_remove \<equiv> remove_channel epoll_removeChannel"

text \<open>The state after a change of interest: the channel's index says whether the kernel lists it.\<close>

definition ep_after :: "int \<Rightarrow> events \<Rightarrow> chan_ptr \<Rightarrow> epoll_poller \<Rightarrow> epoll_poller" where
  "ep_after i e p s =
     s\<lparr>pl_chans := (pl_chans s)(p := chan_update e (pl_chans s p)\<lparr>ch_index := i\<rparr>),
       pl_channels := (pl_channels s)(fd_at s p \<mapsto> p),
       ep_interest := (ep_interest s)(fd_at s p := if i = kAdded then Some (e, p) else None)\<rparr>"

lemma ep_invD:
  assumes "ep_inv s"
  shows "pl_channels s fd = Some p \<Longrightarrow> fd_at s p = fd"
    and "hasChannel s p \<Longrightarrow> ch_index (pl_chans s p) = kAdded \<or> ch_index (pl_chans s p) = kDeleted"
    and "\<not> hasChannel s p \<Longrightarrow> ch_index (pl_chans s p) = kNew"
    and "ch_index (pl_chans s p) \<noteq> kAdded \<Longrightarrow> chan_interest s p = 0"
    and "ep_interest s fd = (case pl_channels s fd of
              Some p \<Rightarrow> if ch_index (pl_chans s p) = kAdded then Some (chan_interest s p, p) else None
            | None \<Rightarrow> None)"
proof -
  have "(if hasChannel s p then ch_index (pl_chans s p) = kAdded \<or> ch_index (pl_chans s p) = kDeleted
            else ch_index (pl_chans s p) = kNew)"
    using assms by (simp add: ep_inv_def)
  then show "hasChannel s p \<Longrightarrow> ch_index (pl_chans s p) = kAdded \<or> ch_index (pl_chans s p) = kDeleted"
    and "\<not> hasChannel s p \<Longrightarrow> ch_index (pl_chans s p) = kNew" by simp_all
qed (use assms in \<open>simp_all add: ep_inv_def\<close>)

lemma ep_fd_free:
  assumes "ep_inv s" and "\<not> hasChannel s p" and "\<forall>q. hasChannel s q \<longrightarrow> fd_at s q \<noteq> fd_at s p"
  shows "pl_channels s (fd_at s p) = None"
proof (cases "pl_channels s (fd_at s p)")
  case (Some q)
  with ep_invD(1) [OF assms(1) Some] have "hasChannel s q" by (simp add: hasChannel_def fd_at_def)
  with assms(3) ep_invD(1) [OF assms(1) Some] show ?thesis by simp
qed

lemma index_idem: "ch_index c = i \<Longrightarrow> c\<lparr>ch_events := e, ch_addedToLoop := True, ch_index := i\<rparr>
    = c\<lparr>ch_events := e, ch_addedToLoop := True\<rparr>"
  by (cases c) simp

lemma epoll_change_eq:
  assumes "ep_inv s" and "hasChannel s p \<or> (\<forall>q. hasChannel s q \<longrightarrow> fd_at s q \<noteq> fd_at s p)"
  shows "\<exists>i. (i = kAdded \<or> i = kDeleted \<and> e = 0) \<and> epoll_change e p s = Some (ep_after i e p s)"
proof (cases "hasChannel s p")
  case False
  from ep_fd_free [OF assms(1) False] assms(2) False have n: "pl_channels s (fd_at s p) = None" by blast
  with ep_invD(5) [OF assms(1), of "fd_at s p"] have k: "ep_interest s (fd_at s p) = None" by simp
  show ?thesis
    using n k ep_invD(3) [OF assms(1) False]
    by (intro exI [of _ kAdded])
       (simp add: change_interest_def epoll_updateChannel_def epoll_update_def Let_def chan_update_def fd_at_def
          ep_after_def set_chan_def set_index_def)
next
  case True
  then have c: "pl_channels s (fd_at s p) = Some p" by (simp add: hasChannel_def fd_at_def)
  note k = ep_invD(5) [OF assms(1), of "fd_at s p", unfolded c option.case]
  from ep_invD(2) [OF assms(1) True] show ?thesis
  proof
    assume a: "ch_index (pl_chans s p) = kAdded"
    with k c show ?thesis
      by (intro exI [of _ "if e = 0 then kDeleted else kAdded"])
         (simp add: change_interest_def epoll_updateChannel_def epoll_update_def Let_def chan_update_def fd_at_def
            ep_after_def set_chan_def set_index_def index_defs isNoneEvent_def kNoneEvent_def fun_upd_idem index_idem)
  next
    assume a: "ch_index (pl_chans s p) = kDeleted"
    with k c show ?thesis
      by (intro exI [of _ kAdded])
         (simp add: change_interest_def epoll_updateChannel_def epoll_update_def Let_def chan_update_def fd_at_def
            ep_after_def set_chan_def set_index_def index_defs fun_upd_idem)
  qed
qed

lemma ep_after_simps [simp]:
  "pl_channels (ep_after i e p s) = (pl_channels s)(fd_at s p \<mapsto> p)"
  "pl_chans (ep_after i e p s) q = (if q = p then chan_update e (pl_chans s p)\<lparr>ch_index := i\<rparr> else pl_chans s q)"
  "ep_interest (ep_after i e p s) = (ep_interest s)(fd_at s p := if i = kAdded then Some (e, p) else None)"
  "fd_at (ep_after i e p s) = fd_at s"
  "chan_interest (ep_after i e p s) = (chan_interest s)(p := e)"
  by (auto simp: ep_after_def fd_at_def chan_update_def chan_interest_def fun_eq_iff)

lemma ep_after_has:
  assumes "ep_inv s" and "hasChannel s p \<or> (\<forall>q. hasChannel s q \<longrightarrow> fd_at s q \<noteq> fd_at s p)"
  shows "hasChannel (ep_after i e p s) = (hasChannel s)(p := True)"
proof
  fix q
  have "hasChannel s q \<Longrightarrow> q \<noteq> p \<Longrightarrow> fd_at s q \<noteq> fd_at s p"
    using assms(2) by (auto simp: hasChannel_def fd_at_def)
  then show "hasChannel (ep_after i e p s) q = ((hasChannel s)(p := True)) q"
    by (auto simp: hasChannel_def fd_at_def chan_update_def)
qed

lemma ep_after_inv:
  assumes "ep_inv s" and "hasChannel s p \<or> (\<forall>q. hasChannel s q \<longrightarrow> fd_at s q \<noteq> fd_at s p)"
    and "i = kAdded \<or> i = kDeleted \<and> e = 0"
  shows "ep_inv (ep_after i e p s)"
  unfolding ep_inv_def ep_after_has [OF assms(1,2)]
proof (intro conjI allI)
  fix fd q
  show "pl_channels (ep_after i e p s) fd = Some q \<longrightarrow> fd_at (ep_after i e p s) q = fd"
    using ep_invD(1) [OF assms(1)] by auto
  have o: "pl_channels s fd = Some p \<Longrightarrow> fd = fd_at s p" for fd
    using ep_invD(1) [OF assms(1)] by blast
  show "ep_interest (ep_after i e p s) fd = (case pl_channels (ep_after i e p s) fd of
      None \<Rightarrow> None
      | Some q \<Rightarrow> if ch_index (pl_chans (ep_after i e p s) q) = kAdded
                 then Some (chan_interest (ep_after i e p s) q, q) else None)"
    using ep_invD(5) [OF assms(1), of fd] o [of fd] by (auto split: option.splits)
next
  fix q
  show "if ((hasChannel s)(p := True)) q
     then ch_index (pl_chans (ep_after i e p s) q) = kAdded \<or> ch_index (pl_chans (ep_after i e p s) q) = kDeleted
     else ch_index (pl_chans (ep_after i e p s) q) = kNew"
    using ep_invD(2,3) [OF assms(1), of q] assms(3) by auto
  show "ch_index (pl_chans (ep_after i e p s) q) \<noteq> kAdded \<longrightarrow> chan_interest (ep_after i e p s) q = 0"
    using ep_invD(4) [OF assms(1), of q] assms(3) by auto
qed

lemma ep_remove_eq:
  assumes "ep_inv s" and "hasChannel s p" and "chan_interest s p = 0"
  shows "epoll_remove p s = Some (s\<lparr>pl_chans := (pl_chans s)(p := pl_chans s p\<lparr>ch_addedToLoop := False, ch_index := kNew\<rparr>),
       pl_channels := (pl_channels s)(fd_at s p := None), ep_interest := (ep_interest s)(fd_at s p := None)\<rparr>)"
proof -
  have c: "pl_channels s (fd_at s p) = Some p" using assms(2) by (simp add: hasChannel_def fd_at_def)
  note k = ep_invD(5) [OF assms(1), of "fd_at s p", unfolded c option.case]
  from ep_invD(2) [OF assms(1,2)] c k assms(3) show ?thesis
    by (auto simp: remove_channel_def epoll_removeChannel_def epoll_update_def Let_def chan_remove_def fd_at_def
        set_chan_def set_index_def index_defs isNoneEvent_def kNoneEvent_def chan_interest_def fun_upd_idem)
qed

lemma ep_remove_law:
  assumes "ep_inv s" and "hasChannel s p" and "chan_interest s p = 0"
  shows "\<exists>s'. epoll_remove p s = Some s' \<and> ep_inv s' \<and> fd_at s' = fd_at s
        \<and> hasChannel s' = (hasChannel s)(p := False) \<and> (\<forall>q. ep_fresh s q \<longrightarrow> ep_fresh s' q)
        \<and> chan_interest s' = chan_interest s"
proof -
  let ?s = "s\<lparr>pl_chans := (pl_chans s)(p := pl_chans s p\<lparr>ch_addedToLoop := False, ch_index := kNew\<rparr>),
       pl_channels := (pl_channels s)(fd_at s p := None), ep_interest := (ep_interest s)(fd_at s p := None)\<rparr>"
  have fd: "fd_at ?s = fd_at s" and ci: "chan_interest ?s = chan_interest s"
    by (auto simp: fd_at_def chan_interest_def fun_eq_iff)
  have u: "pl_channels s fd = Some q \<Longrightarrow> fd = fd_at s q" for fd q using ep_invD(1) [OF assms(1)] by blast
  have h: "hasChannel ?s = (hasChannel s)(p := False)"
    using assms(2) by (auto simp: hasChannel_def fd_at_def fun_eq_iff)
  have f: "\<forall>q. ep_fresh s q \<longrightarrow> ep_fresh ?s q" by (simp add: ep_fresh_def)
  have "ep_inv ?s"
    unfolding ep_inv_def h fd ci
  proof (intro conjI allI)
    fix q
    show "if ((hasChannel s)(p := False)) q
       then ch_index (pl_chans ?s q) = kAdded \<or> ch_index (pl_chans ?s q) = kDeleted
       else ch_index (pl_chans ?s q) = kNew"
      using ep_invD(2,3) [OF assms(1), of q] by auto
    show "ch_index (pl_chans ?s q) \<noteq> kAdded \<longrightarrow> chan_interest s q = 0"
      using ep_invD(4) [OF assms(1), of q] assms(3) by auto
    fix fd
    show "pl_channels ?s fd = Some q \<longrightarrow> fd_at s q = fd" using ep_invD(1) [OF assms(1)] by auto
    show "ep_interest ?s fd = (case pl_channels ?s fd of None \<Rightarrow> None
       | Some q \<Rightarrow> if ch_index (pl_chans ?s q) = kAdded then Some (chan_interest s q, q) else None)"
      using ep_invD(5) [OF assms(1), of fd] u [of fd] by (auto split: option.splits)
  qed
  with ep_remove_eq [OF assms] fd h f ci show ?thesis by blast
qed

lemma watch_update:
  assumes "pl_channels s' = (pl_channels s)(fd := v)" and "chan_interest s' = (chan_interest s)(p := e)"
    and "\<And>fd'. pl_channels s fd' = Some p \<Longrightarrow> fd' = fd" and "v = Some p"
  shows "(\<lambda>fd. case pl_channels s' fd of Some p \<Rightarrow> chan_interest s' p | None \<Rightarrow> 0)
    = (\<lambda>fd. case pl_channels s fd of Some p \<Rightarrow> chan_interest s p | None \<Rightarrow> 0)(fd := e)"
  using assms by (auto simp: fun_eq_iff split: option.splits)

interpretation ep: poller ep_inv fd_at hasChannel ep_fresh chan_interest ep_watch epoll_change epoll_remove
proof unfold_locales
  fix s :: epoll_poller and e :: events and r w p
  assume inv: "ep_inv s" and "hasChannel s p \<or> ep_fresh s p \<and> e \<noteq> 0 \<and> (\<forall>q. hasChannel s q \<longrightarrow> fd_at s q \<noteq> fd_at s p)"
  then have ok: "hasChannel s p \<or> (\<forall>q. hasChannel s q \<longrightarrow> fd_at s q \<noteq> fd_at s p)" by blast
  from epoll_change_eq [OF inv ok, of e] obtain i where
    i: "i = kAdded \<or> i = kDeleted \<and> e = 0" "epoll_change e p s = Some (ep_after i e p s)" by blast
  note inv' = ep_after_inv [OF inv ok i(1)]
  have "ep_watch (ep_after i e p s) = (ep_watch s)(fd_at s p := e)"
    unfolding ep_watch_eq [OF inv] ep_watch_eq [OF inv']
    by (rule watch_update) (use ep_invD(1) [OF inv] in auto)
  moreover have "ep_fresh (ep_after i e p s) = (ep_fresh s)(p := False)"
    using i(1) by (auto simp: ep_fresh_def fun_eq_iff index_defs)
  ultimately show "\<exists>s'. epoll_change e p s = Some s' \<and> ep_inv s' \<and> fd_at s' = fd_at s
        \<and> hasChannel s' = (hasChannel s)(p := True) \<and> ep_fresh s' = (ep_fresh s)(p := False)
        \<and> chan_interest s' = (chan_interest s)(p := e) \<and> ep_watch s' = (ep_watch s)(fd_at s p := e)"
    using i(2) inv' ep_after_has [OF inv ok] by auto
next
  fix s :: epoll_poller and p
  assume a: "ep_inv s" "hasChannel s p" "chan_interest s p = 0"
  from ep_remove_law [OF a] ep_remove_eq [OF a] obtain s' where
    s': "epoll_remove p s = Some s'" "ep_inv s'" "fd_at s' = fd_at s" "hasChannel s' = (hasChannel s)(p := False)"
      "\<forall>q. ep_fresh s q \<longrightarrow> ep_fresh s' q" "chan_interest s' = chan_interest s"
      "pl_channels s' = (pl_channels s)(fd_at s p := None)" by auto
  have "ep_watch s' = (ep_watch s)(fd_at s p := 0)"
    unfolding ep_watch_eq [OF a(1)] ep_watch_eq [OF s'(2)] using s'(6,7) by (auto simp: fun_eq_iff split: option.splits)
  with s' show "\<exists>s'. epoll_remove p s = Some s' \<and> ep_inv s' \<and> fd_at s' = fd_at s
        \<and> hasChannel s' = (hasChannel s)(p := False) \<and> (\<forall>q. ep_fresh s q \<longrightarrow> ep_fresh s' q)
        \<and> chan_interest s' = chan_interest s \<and> ep_watch s' = (ep_watch s)(fd_at s p := 0)" by blast
qed

section \<open>The poll poller meets the contract\<close>

abbreviation chan_idx :: "poll_poller \<Rightarrow> chan_ptr \<Rightarrow> int" where
  "chan_idx s p \<equiv> ch_index (pl_chans s p)"

text \<open>The entry of a channel: a negated descriptor makes the kernel skip it.\<close>

definition pp_entry :: "poll_poller \<Rightarrow> chan_ptr \<Rightarrow> pollfd \<Rightarrow> bool" where
  "pp_entry s p pfd \<longleftrightarrow> pf_fd pfd = (if chan_interest s p = 0 then - fd_at s p - 1 else fd_at s p)
     \<and> pf_events pfd = ucast (chan_interest s p)"

definition pp_inv :: "poll_poller \<Rightarrow> bool" where
  "pp_inv s \<longleftrightarrow>
     (\<forall>fd p. pl_channels s fd = Some p \<longrightarrow> fd_at s p = fd \<and> 0 \<le> fd)
     \<and> (\<forall>p. hasChannel s p \<longrightarrow> 0 \<le> chan_idx s p \<and> nat (chan_idx s p) < length (pp_pollfds s)
            \<and> pp_entry s p (pp_pollfds s ! nat (chan_idx s p)))
     \<and> (\<forall>i<length (pp_pollfds s). \<exists>p. hasChannel s p \<and> chan_idx s p = int i)
     \<and> (\<forall>p. chan_inv (pl_chans s p))"

definition pp_fresh :: "poll_poller \<Rightarrow> chan_ptr \<Rightarrow> bool" where
  "pp_fresh s p \<longleftrightarrow> chan_idx s p < 0 \<and> 0 \<le> fd_at s p"

definition pp_watch :: "poll_poller \<Rightarrow> int \<Rightarrow> events" where
  "pp_watch s fd =
     (if fd < 0 then 0
      else case find (\<lambda>pfd. pf_fd pfd = fd) (pp_pollfds s) of Some pfd \<Rightarrow> scast (pf_events pfd) | None \<Rightarrow> 0)"

abbreviation poll_change :: "events \<Rightarrow> chan_ptr \<Rightarrow> poll_poller \<Rightarrow> poll_poller checked" where
  "poll_change \<equiv> change_interest poll_updateChannel"

abbreviation poll_remove :: "chan_ptr \<Rightarrow> poll_poller \<Rightarrow> poll_poller checked" where
  "poll_remove \<equiv> remove_channel poll_removeChannel"

lemma pp_invD:
  assumes "pp_inv s"
  shows "pl_channels s fd = Some p \<Longrightarrow> fd_at s p = fd" "pl_channels s fd = Some p \<Longrightarrow> 0 \<le> fd"
    "hasChannel s p \<Longrightarrow> 0 \<le> chan_idx s p" "hasChannel s p \<Longrightarrow> nat (chan_idx s p) < length (pp_pollfds s)"
    "hasChannel s p \<Longrightarrow> pp_entry s p (pp_pollfds s ! nat (chan_idx s p))"
    "i < length (pp_pollfds s) \<Longrightarrow> \<exists>p. hasChannel s p \<and> chan_idx s p = int i"
    "chan_inv (pl_chans s p)"
  using assms by (auto simp: pp_inv_def)

lemma hasChannel_fd: "hasChannel s p \<longleftrightarrow> pl_channels s (fd_at s p) = Some p"
  by (simp add: hasChannel_def fd_at_def)

lemma pp_fd_nonneg: "pp_inv s \<Longrightarrow> hasChannel s p \<Longrightarrow> 0 \<le> fd_at s p"
  using pp_invD(2) by (simp add: hasChannel_fd)

lemma pp_entry_inj:
  assumes "pp_inv s" and "hasChannel s p" and "hasChannel s q" and "pp_entry s p e" and "pp_entry s q e"
  shows "p = q"
proof -
  have "fd_at s p = fd_at s q"
    using assms(4,5) pp_fd_nonneg [OF assms(1,2)] pp_fd_nonneg [OF assms(1,3)]
    by (auto simp: pp_entry_def split: if_splits)
  with assms(2,3) show ?thesis by (simp add: hasChannel_fd)
qed

lemma pp_index_inj:
  assumes "pp_inv s" and "hasChannel s p" and "hasChannel s q" and "chan_idx s p = chan_idx s q"
  shows "p = q"
  using pp_entry_inj [OF assms(1-3)] pp_invD(5) [OF assms(1,2)] pp_invD(5) [OF assms(1,3)] assms(4) by auto

lemma pp_listed:
  assumes "pp_inv s" and "pfd \<in> set (pp_pollfds s)"
  obtains p where "hasChannel s p" "pp_entry s p pfd"
proof -
  from assms(2) obtain i where i: "i < length (pp_pollfds s)" "pp_pollfds s ! i = pfd"
    by (auto simp: in_set_conv_nth)
  from pp_invD(6) [OF assms(1) i(1)] obtain p where "hasChannel s p" "chan_idx s p = int i" by blast
  with pp_invD(5) [OF assms(1), of p] i(2) that show ?thesis by simp
qed

lemma scast_events: "chan_inv c \<Longrightarrow> scast (ucast (ch_events c) :: 16 word) = ch_events c"
  by (erule chan_inv_cases) simp_all

lemma pp_watch_eq:
  assumes "pp_inv s"
  shows "pp_watch s = (\<lambda>fd. case pl_channels s fd of Some p \<Rightarrow> chan_interest s p | None \<Rightarrow> 0)"
proof
  fix fd
  show "pp_watch s fd = (case pl_channels s fd of Some p \<Rightarrow> chan_interest s p | None \<Rightarrow> 0)"
  proof (cases "0 \<le> fd")
    case False
    then have "pl_channels s fd = None" using pp_invD(2) [OF assms] by fastforce
    with False show ?thesis by (simp add: pp_watch_def)
  next
    case True
    have hit: "pl_channels s fd = Some p \<and> chan_interest s p \<noteq> 0"
      if "hasChannel s p" "pp_entry s p pfd" "pf_fd pfd = fd" for p pfd
      using that True pp_fd_nonneg [OF assms that(1)] by (auto simp: pp_entry_def hasChannel_fd split: if_splits)
    show ?thesis
    proof (cases "find (\<lambda>pfd. pf_fd pfd = fd) (pp_pollfds s)")
      case None
      have "chan_interest s p = 0" if "pl_channels s fd = Some p" for p
      proof (rule ccontr)
        assume nz: "chan_interest s p \<noteq> 0"
        from that have h: "hasChannel s p" and fd: "fd_at s p = fd"
          using pp_invD(1) [OF assms that] by (simp_all add: hasChannel_fd)
        from pp_invD(5) [OF assms h] nz fd have "pf_fd (pp_pollfds s ! nat (chan_idx s p)) = fd"
          by (simp add: pp_entry_def)
        with None pp_invD(4) [OF assms h] show False by (auto simp: find_None_iff)
      qed
      with None True show ?thesis by (auto simp: pp_watch_def split: option.splits)
    next
      case (Some pfd)
      then have m: "pfd \<in> set (pp_pollfds s)" "pf_fd pfd = fd" by (auto simp: find_Some_iff)
      from pp_listed [OF assms m(1)] obtain p where p: "hasChannel s p" "pp_entry s p pfd" by blast
      from hit [OF this m(2)] p(2) Some True scast_events [OF pp_invD(7) [OF assms], of p] show ?thesis
        by (simp add: pp_watch_def pp_entry_def chan_interest_def)
    qed
  qed
qed

lemma chan_inv_interest: "chan_inv (chan_update (interest_of r w) c)"
  by (cases r; cases w) (simp_all add: chan_inv_iff chan_update_def interest_of_values)

text \<open>Registering a channel: a new entry at the end of the array.\<close>

definition pp_added :: "events \<Rightarrow> chan_ptr \<Rightarrow> poll_poller \<Rightarrow> poll_poller" where
  "pp_added e p s =
     s\<lparr>pl_chans := (pl_chans s)(p := chan_update e (pl_chans s p)\<lparr>ch_index := int (length (pp_pollfds s))\<rparr>),
       pl_channels := (pl_channels s)(fd_at s p \<mapsto> p),
       pp_pollfds := pp_pollfds s @ [\<lparr>pf_fd = fd_at s p, pf_events = ucast e, pf_revents = 0\<rparr>]\<rparr>"

definition pp_changed :: "events \<Rightarrow> chan_ptr \<Rightarrow> poll_poller \<Rightarrow> poll_poller" where
  "pp_changed e p s =
     s\<lparr>pl_chans := (pl_chans s)(p := chan_update e (pl_chans s p)),
       pp_pollfds := (pp_pollfds s)[nat (chan_idx s p) :=
         \<lparr>pf_fd = if e = 0 then - fd_at s p - 1 else fd_at s p, pf_events = ucast e, pf_revents = 0\<rparr>]\<rparr>"

lemma pp_added_fields [simp]:
  "fd_at (pp_added e p s) = fd_at s" "chan_interest (pp_added e p s) = (chan_interest s)(p := e)"
  "chan_idx (pp_added e p s) q = (if q = p then int (length (pp_pollfds s)) else chan_idx s q)"
  "pl_channels (pp_added e p s) = (pl_channels s)(fd_at s p \<mapsto> p)"
  "fd_at (pp_changed e p s) = fd_at s" "chan_interest (pp_changed e p s) = (chan_interest s)(p := e)"
  "chan_idx (pp_changed e p s) q = chan_idx s q" "pl_channels (pp_changed e p s) = pl_channels s"
  by (auto simp: pp_added_def pp_changed_def fd_at_def chan_interest_def chan_update_def fun_eq_iff)

lemma pp_change_eq:
  assumes "pp_inv s"
  shows "hasChannel s p \<Longrightarrow> poll_change e p s = Some (pp_changed e p s)"
    and "chan_idx s p < 0 \<Longrightarrow> pl_channels s (fd_at s p) = None \<Longrightarrow> poll_change e p s = Some (pp_added e p s)"
proof -
  assume h: "hasChannel s p"
  with pp_invD(3-5) [OF assms h] show "poll_change e p s = Some (pp_changed e p s)"
    by (simp add: change_interest_def poll_updateChannel_def Let_def hasChannel_fd pp_entry_def fd_at_def
        chan_update_def pp_changed_def set_chan_def isNoneEvent_def kNoneEvent_def split: if_splits)
next
  assume "chan_idx s p < 0" "pl_channels s (fd_at s p) = None"
  then show "poll_change e p s = Some (pp_added e p s)"
    by (simp add: change_interest_def poll_updateChannel_def Let_def fd_at_def chan_update_def pp_added_def
        set_chan_def set_index_def)
qed

lemma pp_changed_inv:
  assumes "pp_inv s" and "hasChannel s p" and "e = interest_of r w"
  shows "pp_inv (pp_changed e p s)" and "hasChannel (pp_changed e p s) = hasChannel s"
proof -
  let ?s = "pp_changed e p s"
  show h: "hasChannel ?s = hasChannel s" by (auto simp: hasChannel_fd fun_eq_iff)
  have "pp_entry ?s q (pp_pollfds ?s ! nat (chan_idx s q))" if q: "hasChannel s q" for q
  proof (cases "q = p")
    case True
    then show ?thesis using pp_invD(4) [OF assms(1,2)]
      by (simp add: pp_entry_def) (simp add: pp_changed_def)
  next
    case False
    then have "nat (chan_idx s q) \<noteq> nat (chan_idx s p)"
      using pp_index_inj [OF assms(1) q assms(2)] pp_invD(3) [OF assms(1) q] pp_invD(3) [OF assms(1,2)]
      by (auto simp: eq_nat_nat_iff)
    then show ?thesis using pp_invD(5) [OF assms(1) q] False
      by (simp add: pp_entry_def) (simp add: pp_changed_def)
  qed
  moreover have "length (pp_pollfds ?s) = length (pp_pollfds s)" by (simp add: pp_changed_def)
  moreover have "chan_inv (pl_chans ?s q)" for q
    using chan_inv_interest [of r w "pl_chans s p"] pp_invD(7) [OF assms(1)] assms(3) by (simp add: pp_changed_def)
  ultimately show "pp_inv ?s" using assms(1) unfolding pp_inv_def h by simp
qed

lemma pp_added_inv:
  assumes "pp_inv s" and "chan_idx s p < 0" and "0 \<le> fd_at s p" and "pl_channels s (fd_at s p) = None"
    and "e = interest_of r w" and "e \<noteq> 0"
  shows "pp_inv (pp_added e p s)" and "hasChannel (pp_added e p s) = (hasChannel s)(p := True)"
proof -
  let ?s = "pp_added e p s"
  have np: "hasChannel s q \<Longrightarrow> q \<noteq> p" for q using assms(4) by (auto simp: hasChannel_fd)
  show h: "hasChannel ?s = (hasChannel s)(p := True)"
    using assms(4) by (auto simp: hasChannel_fd fun_eq_iff)
  have len: "length (pp_pollfds ?s) = Suc (length (pp_pollfds s))" by (simp add: pp_added_def)
  have entry: "pp_entry ?s p (pp_pollfds ?s ! length (pp_pollfds s))"
    using assms(6) by (simp add: pp_entry_def) (simp add: pp_added_def)
  have old: "nat (chan_idx s q) < length (pp_pollfds ?s) \<and> pp_entry ?s q (pp_pollfds ?s ! nat (chan_idx s q))"
    if q: "hasChannel s q" for q
    using pp_invD(4,5) [OF assms(1) q] np [OF q] by (simp add: pp_entry_def) (simp add: pp_added_def nth_append)
  show "pp_inv ?s"
    unfolding pp_inv_def h len
  proof (intro conjI allI impI)
    fix q assume "((hasChannel s)(p := True)) q"
    then show "0 \<le> chan_idx ?s q" "nat (chan_idx ?s q) < Suc (length (pp_pollfds s))"
        "pp_entry ?s q (pp_pollfds ?s ! nat (chan_idx ?s q))"
      using entry old pp_invD(3) [OF assms(1)] len by (auto split: if_splits)
  next
    fix i assume "i < Suc (length (pp_pollfds s))"
    then consider "i = length (pp_pollfds s)" | q where "hasChannel s q" "chan_idx s q = int i"
      using pp_invD(6) [OF assms(1), of i] by (auto simp: less_Suc_eq)
    then show "\<exists>q. ((hasChannel s)(p := True)) q \<and> chan_idx ?s q = int i"
      using np by cases (auto intro: exI [of _ p])
  next
    fix q
    show "chan_inv (pl_chans ?s q)"
      using chan_inv_interest [of r w "pl_chans s p"] pp_invD(7) [OF assms(1)] assms(5)
      by (simp add: pp_added_def chan_inv_iff)
  qed (use assms(3) pp_invD(1,2) [OF assms(1)] in \<open>auto split: if_splits\<close>)
qed

text \<open>Removing a channel: the last entry moves into its place.\<close>

definition pp_removed :: "chan_ptr \<Rightarrow> chan_ptr \<Rightarrow> poll_poller \<Rightarrow> poll_poller" where
  "pp_removed q p s =
     s\<lparr>pl_chans := ((pl_chans s)(p := pl_chans s p\<lparr>ch_addedToLoop := False\<rparr>))
         (q := (if q = p then pl_chans s p\<lparr>ch_addedToLoop := False\<rparr> else pl_chans s q\<lparr>ch_index := chan_idx s p\<rparr>)),
       pl_channels := (pl_channels s)(fd_at s p := None),
       pp_pollfds := butlast ((pp_pollfds s)[nat (chan_idx s p) := last (pp_pollfds s)])\<rparr>"

lemma pp_removed_fields [simp]:
  "fd_at (pp_removed q p s) = fd_at s" "chan_interest (pp_removed q p s) = chan_interest s"
  "chan_idx (pp_removed q p s) r = (if r = q then chan_idx s p else chan_idx s r)"
  "pl_channels (pp_removed q p s) = (pl_channels s)(fd_at s p := None)"
  by (auto simp: pp_removed_def fd_at_def chan_interest_def fun_eq_iff)

lemma pp_remove_eq:
  assumes "pp_inv s" and "hasChannel s p" and "chan_interest s p = 0"
    and q: "hasChannel s q" "chan_idx s q = int (length (pp_pollfds s) - 1)"
  shows "poll_remove p s = Some (pp_removed q p s)"
proof -
  let ?n = "length (pp_pollfds s)" and ?i = "nat (chan_idx s p)"
  note i = pp_invD(3-5) [OF assms(1,2)]
  have ne: "pp_pollfds s \<noteq> []" using i(2) by auto
  have e: "isNoneEvent (pl_chans s p)" using assms(3) by (simp add: isNoneEvent_def chan_interest_def kNoneEvent_def)
  show ?thesis
  proof (cases "?i = ?n - 1")
    case True
    with q(2) i(1) have "q = p" using pp_index_inj [OF assms(1) q(1) assms(2)] by simp
    moreover have "(pp_pollfds s)[?n - 1 := last (pp_pollfds s)] = pp_pollfds s"
      using ne by (simp add: last_conv_nth)
    ultimately show ?thesis using True i e assms(2,3)
      by (simp add: remove_channel_def poll_removeChannel_def Let_def chan_remove_def hasChannel_fd pp_entry_def
          fd_at_def chan_interest_def pp_removed_def set_chan_def isNoneEvent_def kNoneEvent_def)
  next
    case False
    then have pq: "q \<noteq> p" using q(2) by auto
    have le: "pp_entry s q (last (pp_pollfds s))"
      using pp_invD(5) [OF assms(1) q(1)] q(2) ne by (simp add: last_conv_nth)
    then have dec: "(if pf_fd (last (pp_pollfds s)) < 0 then - pf_fd (last (pp_pollfds s)) - 1
        else pf_fd (last (pp_pollfds s))) = fd_at s q"
      using pp_fd_nonneg [OF assms(1) q(1)] by (simp add: pp_entry_def)
    have fdq: "fd_at s q \<noteq> fd_at s p" "pl_channels s (fd_at s q) = Some q"
      using pq q(1) assms(2) by (auto simp: hasChannel_fd)
    show ?thesis using False i e assms(2,3) fdq pq
      by (simp add: remove_channel_def poll_removeChannel_def chan_remove_def hasChannel_fd pp_entry_def
          chan_interest_def fd_at_def [symmetric] Let_def dec)
         (simp add: pp_removed_def set_chan_def set_index_def isNoneEvent_def kNoneEvent_def fd_at_def fun_upd_twist)
  qed
qed

lemma pp_removed_inv:
  assumes "pp_inv s" and "hasChannel s p"
    and q: "hasChannel s q" "chan_idx s q = int (length (pp_pollfds s) - 1)"
  shows "pp_inv (pp_removed q p s)" and "hasChannel (pp_removed q p s) = (hasChannel s)(p := False)"
proof -
  let ?s = "pp_removed q p s" and ?n = "length (pp_pollfds s)" and ?i = "nat (chan_idx s p)"
  note i = pp_invD(3-5) [OF assms(1,2)]
  show h: "hasChannel ?s = (hasChannel s)(p := False)"
    using assms(2) by (auto simp: hasChannel_fd fun_eq_iff)
  have ne: "pp_pollfds s \<noteq> []" using i(2) by auto
  have len: "length (pp_pollfds ?s) = ?n - 1" by (simp add: pp_removed_def)
  have nth: "pp_pollfds ?s ! j = (if j = ?i then pp_pollfds s ! (?n - 1) else pp_pollfds s ! j)" if "j < ?n - 1" for j
    using that i(2) ne by (simp add: pp_removed_def nth_butlast last_conv_nth nth_list_update)
  have inj: "chan_idx s r = chan_idx s r' \<Longrightarrow> r = r'" if "hasChannel s r" "hasChannel s r'" for r r'
    using pp_index_inj [OF assms(1) that] .
  have in_range: "0 \<le> chan_idx ?s r" "nat (chan_idx ?s r) < ?n - 1"
      "pp_entry s r (pp_pollfds ?s ! nat (chan_idx ?s r))"
    if r: "hasChannel s r" "r \<noteq> p" for r
  proof -
    note ri = pp_invD(3-5) [OF assms(1) r(1)]
    show "0 \<le> chan_idx ?s r" using ri(1) i(1) by simp
    have ip: "chan_idx s r \<noteq> chan_idx s p" using inj [OF r(1) assms(2)] r(2) by blast
    have iq: "r \<noteq> q \<Longrightarrow> chan_idx s r \<noteq> chan_idx s q" using inj [OF r(1) q(1)] by blast
    have lt: "nat (chan_idx ?s r) < ?n - 1"
    proof (cases "r = q")
      case True
      with ip q(2) i(1,2) show ?thesis by simp
    next
      case False
      with iq q(2) ri(1,2) show ?thesis by simp
    qed
    then show "nat (chan_idx ?s r) < ?n - 1" .
    show "pp_entry s r (pp_pollfds ?s ! nat (chan_idx ?s r))"
    proof (cases "r = q")
      case True
      with nth [OF lt] ri(3) q(2) show ?thesis by simp
    next
      case False
      moreover have "nat (chan_idx s r) \<noteq> ?i" using ip ri(1) i(1) by (simp add: eq_nat_nat_iff)
      ultimately show ?thesis using nth [OF lt] ri(3) by simp
    qed
  qed
  show "pp_inv ?s"
    unfolding pp_inv_def h len
  proof (intro conjI allI impI)
    fix r assume "((hasChannel s)(p := False)) r"
    then have r: "hasChannel s r" "r \<noteq> p" by (auto split: if_splits)
    from in_range [OF r] show "0 \<le> chan_idx ?s r" "nat (chan_idx ?s r) < ?n - 1" by auto
    from in_range(3) [OF r] show "pp_entry ?s r (pp_pollfds ?s ! nat (chan_idx ?s r))" by (simp add: pp_entry_def)
  next
    fix j assume j: "j < ?n - 1"
    show "\<exists>r. ((hasChannel s)(p := False)) r \<and> chan_idx ?s r = int j"
    proof (cases "j = ?i")
      case True
      then have "q \<noteq> p" using j q(2) by auto
      with True q(1) i(1) show ?thesis by (intro exI [of _ q]) simp
    next
      case False
      have "j < ?n" using j by linarith
      from pp_invD(6) [OF assms(1) this] obtain r where r: "hasChannel s r" "chan_idx s r = int j" by auto
      moreover have "r \<noteq> p" "r \<noteq> q" using False r(2) q(2) j i(1) by auto
      ultimately show ?thesis by (intro exI [of _ r]) simp
    qed
  next
    fix r
    show "chan_inv (pl_chans ?s r)"
      using pp_invD(7) [OF assms(1)] by (simp add: pp_removed_def chan_inv_iff)
  qed (use pp_invD(1,2) [OF assms(1)] in \<open>auto split: if_splits\<close>)
qed

interpretation pp: poller pp_inv fd_at hasChannel pp_fresh chan_interest pp_watch poll_change poll_remove
proof unfold_locales
  fix s :: poll_poller and e :: events and r w p
  assume inv: "pp_inv s" and e: "e = interest_of r w" and
    ok: "hasChannel s p \<or> pp_fresh s p \<and> e \<noteq> 0 \<and> (\<forall>q. hasChannel s q \<longrightarrow> fd_at s q \<noteq> fd_at s p)"
  show "\<exists>s'. poll_change e p s = Some s' \<and> pp_inv s' \<and> fd_at s' = fd_at s
        \<and> hasChannel s' = (hasChannel s)(p := True) \<and> pp_fresh s' = (pp_fresh s)(p := False)
        \<and> chan_interest s' = (chan_interest s)(p := e) \<and> pp_watch s' = (pp_watch s)(fd_at s p := e)"
  proof (cases "hasChannel s p")
    case True
    note i = pp_changed_inv [OF inv True e]
    have "pp_watch (pp_changed e p s) = (pp_watch s)(fd_at s p := e)"
      unfolding pp_watch_eq [OF inv] pp_watch_eq [OF i(1)]
    proof (rule watch_update [where v = "Some p"])
      show "pl_channels (pp_changed e p s) = (pl_channels s)(fd_at s p \<mapsto> p)"
        using True by (simp only: pp_added_fields hasChannel_fd fun_upd_idem)
    qed (use pp_invD(1) [OF inv] in simp_all)
    moreover have "pp_fresh (pp_changed e p s) = (pp_fresh s)(p := False)"
      using pp_invD(3) [OF inv True] by (auto simp: pp_fresh_def fun_eq_iff)
    moreover have "hasChannel (pp_changed e p s) = (hasChannel s)(p := True)"
      using True unfolding i(2) by (metis (full_types) fun_upd_idem)
    ultimately show ?thesis using pp_change_eq(1) [OF inv True, of e] i(1)
      by (intro exI [of _ "pp_changed e p s"]) simp
  next
    case False
    with ok have f: "chan_idx s p < 0" "0 \<le> fd_at s p" "e \<noteq> 0" and
      n: "\<forall>q. hasChannel s q \<longrightarrow> fd_at s q \<noteq> fd_at s p" by (auto simp: pp_fresh_def)
    have c: "pl_channels s (fd_at s p) = None"
    proof (cases "pl_channels s (fd_at s p)")
      case (Some q)
      with pp_invD(1) [OF inv Some] n show ?thesis by (metis hasChannel_fd)
    qed
    note i = pp_added_inv [OF inv f(1,2) c e f(3)]
    have "pp_watch (pp_added e p s) = (pp_watch s)(fd_at s p := e)"
      unfolding pp_watch_eq [OF inv] pp_watch_eq [OF i(1)]
      by (rule watch_update) (use pp_invD(1) [OF inv] in auto)
    moreover have "pp_fresh (pp_added e p s) = (pp_fresh s)(p := False)"
      by (auto simp: pp_fresh_def fun_eq_iff)
    ultimately show ?thesis using pp_change_eq(2) [OF inv f(1) c, of e] i by auto
  qed
next
  fix s :: poll_poller and p
  assume a: "pp_inv s" "hasChannel s p" "chan_interest s p = 0"
  have "pp_pollfds s \<noteq> []" using pp_invD(4) [OF a(1,2)] by auto
  then obtain q where q: "hasChannel s q" "chan_idx s q = int (length (pp_pollfds s) - 1)"
    using pp_invD(6) [OF a(1), of "length (pp_pollfds s) - 1"] by auto
  note i = pp_removed_inv [OF a(1,2) q]
  have "pp_watch (pp_removed q p s) = (pp_watch s)(fd_at s p := 0)"
    unfolding pp_watch_eq [OF a(1)] pp_watch_eq [OF i(1)] by (auto simp: fun_eq_iff split: option.splits)
  moreover have "\<forall>r. pp_fresh s r \<longrightarrow> pp_fresh (pp_removed q p s) r"
    using pp_invD(3) [OF a(1) q(1)] by (auto simp: pp_fresh_def)
  ultimately show "\<exists>s'. poll_remove p s = Some s' \<and> pp_inv s' \<and> fd_at s' = fd_at s
        \<and> hasChannel s' = (hasChannel s)(p := False) \<and> (\<forall>q. pp_fresh s q \<longrightarrow> pp_fresh s' q)
        \<and> chan_interest s' = chan_interest s \<and> pp_watch s' = (pp_watch s)(fd_at s p := 0)"
    using pp_remove_eq [OF a q] i by auto
qed

section \<open>Properties\<close>

text \<open>The state of a poller with no channel registered; \<open>fd\<close> gives the descriptors of the objects.\<close>

definition new_epoll_poller :: "(chan_ptr \<Rightarrow> int) \<Rightarrow> epoll_poller" where
  "new_epoll_poller fd = \<lparr>pl_chans = (\<lambda>p. new_channel (fd p)), pl_channels = Map.empty, ep_interest = Map.empty,
     ep_events = kInitEventListSize\<rparr>"

definition new_poll_poller :: "(chan_ptr \<Rightarrow> int) \<Rightarrow> poll_poller" where
  "new_poll_poller fd = \<lparr>pl_chans = (\<lambda>p. new_channel (fd p)), pl_channels = Map.empty, pp_pollfds = []\<rparr>"

definition new_poll_spec :: poll_spec where
  "new_poll_spec = \<lparr>sp_registered = (\<lambda>_. False), sp_fresh = (\<lambda>_. True), sp_interest = (\<lambda>_. 0), sp_watch = (\<lambda>_. 0)\<rparr>"

lemma new_pollers_refine:
  shows "ep.refines (new_epoll_poller fd) new_poll_spec"
    and "(\<forall>p. 0 \<le> fd p) \<Longrightarrow> pp.refines (new_poll_poller fd) new_poll_spec"
proof -
  have "ep_inv (new_epoll_poller fd)"
    by (simp add: ep_inv_def new_epoll_poller_def hasChannel_def new_channel_def index_defs chan_interest_def)
  then show "ep.refines (new_epoll_poller fd) new_poll_spec"
    by (auto simp: ep.refines_def new_poll_spec_def hasChannel_def chan_interest_def ep_watch_def ep_fresh_def
        new_epoll_poller_def new_channel_def index_defs)
  have "pp_inv (new_poll_poller fd)"
    by (simp add: pp_inv_def new_poll_poller_def hasChannel_def chan_inv_new)
  then show "(\<forall>p. 0 \<le> fd p) \<Longrightarrow> pp.refines (new_poll_poller fd) new_poll_spec"
    by (auto simp: pp.refines_def new_poll_spec_def hasChannel_def chan_interest_def pp_watch_def pp_fresh_def
        fd_at_def new_poll_poller_def new_channel_def)
qed

lemma new_poller_fds: "fd_at (new_epoll_poller fd) = fd" "fd_at (new_poll_poller fd) = fd"
  by (auto simp: fd_at_def new_epoll_poller_def new_poll_poller_def new_channel_def)

text \<open>
  C12: Every protocol-respecting sequence of interest changes and removals on a fresh epoll poller runs
  without a failed assertion or a fatal \<open>epoll_ctl\<close>, and the kernel's interest list then watches
  exactly what was last asked for on each descriptor.
\<close>

theorem epoll_poller_refines:
  assumes "spec_run fd cs new_poll_spec = Some a"
  shows "\<exists>s. run_cmds epoll_change epoll_remove cs (new_epoll_poller fd) = Some s
    \<and> ep_watch s = sp_watch a \<and> hasChannel s = sp_registered a \<and> chan_interest s = sp_interest a"
  using ep.run_refines [OF new_pollers_refine(1), of fd cs a] assms
  by (auto simp: new_poller_fds ep.refines_def)

text \<open>
  C13: The same holds of the poll-based poller, whose array is compacted by moving the last entry over a
  removed one.
\<close>

theorem poll_poller_refines:
  assumes "spec_run fd cs new_poll_spec = Some a" and "\<forall>p. 0 \<le> fd p"
  shows "\<exists>s. run_cmds poll_change poll_remove cs (new_poll_poller fd) = Some s
    \<and> pp_watch s = sp_watch a \<and> hasChannel s = sp_registered a \<and> chan_interest s = sp_interest a"
  using pp.run_refines [OF new_pollers_refine(2) [OF assms(2)], of cs a] assms(1)
  by (auto simp: new_poller_fds pp.refines_def)

definition example_cmds :: "poller_cmd list" where
  "example_cmds = [Interest 3 0, Interest 4 1, Interest 7 0, Interest 0 1, Remove 1]"

lemma example_cmds_allowed:
  "\<exists>a. spec_run int example_cmds new_poll_spec = Some a \<and> sp_watch a 0 = 7 \<and> sp_watch a 1 = 0"
proof -
  have "\<exists>r w. (3 :: events) = interest_of r w" "\<exists>r w. (4 :: events) = interest_of r w"
    "\<exists>r w. (7 :: events) = interest_of r w" "\<exists>r w. (0 :: events) = interest_of r w"
    using interest_of_values by metis+
  then show ?thesis by (simp add: example_cmds_def new_poll_spec_def)
qed

theorem epoll_poller_refines_witness:
  "\<exists>s. run_cmds epoll_change epoll_remove example_cmds (new_epoll_poller int) = Some s
    \<and> ep_watch s 0 = 7 \<and> ep_watch s 1 = 0"
proof -
  from example_cmds_allowed obtain a where
    "spec_run int example_cmds new_poll_spec = Some a" "sp_watch a 0 = 7" "sp_watch a 1 = 0" by blast
  with epoll_poller_refines [of int example_cmds a] show ?thesis by auto
qed

theorem poll_poller_refines_witness:
  "\<exists>s. run_cmds poll_change poll_remove example_cmds (new_poll_poller int) = Some s
    \<and> pp_watch s 0 = 7 \<and> pp_watch s 1 = 0"
proof -
  from example_cmds_allowed obtain a where
    "spec_run int example_cmds new_poll_spec = Some a" "sp_watch a 0 = 7" "sp_watch a 1 = 0" by blast
  with poll_poller_refines [of int example_cmds a] show ?thesis by auto
qed

lemma epoll_fill_ok:
  assumes "\<forall>(ev, p)\<in>set evs. hasChannel s p"
  shows "\<exists>s'. epoll_fillActiveChannels evs s = Some (map snd evs, s') \<and> ep_events s' = ep_events s
    \<and> (\<forall>p. pl_chans s' p = pl_chans s p\<lparr>ch_revents := (case map_of (rev (map prod.swap evs)) p of Some ev \<Rightarrow> ev
         | None \<Rightarrow> ch_revents (pl_chans s p))\<rparr>)"
  using assms
proof (induction evs arbitrary: s)
  case (Cons e evs)
  obtain ev p where e: "e = (ev, p)" by (cases e)
  let ?s = "set_chan p (pl_chans s p\<lparr>ch_revents := ev\<rparr>) s"
  have "hasChannel ?s q = hasChannel s q" for q by (simp add: hasChannel_def)
  with Cons.prems have "\<forall>(ev, p)\<in>set evs. hasChannel ?s p" by auto
  from Cons.IH [OF this] obtain s' where
    "epoll_fillActiveChannels evs ?s = Some (map snd evs, s')" "ep_events s' = ep_events ?s"
    "\<And>q. pl_chans s' q = pl_chans ?s q\<lparr>ch_revents := (case map_of (rev (map prod.swap evs)) q of Some ev \<Rightarrow> ev
         | None \<Rightarrow> ch_revents (pl_chans ?s q))\<rparr>" by blast
  moreover have "hasChannel s p" using Cons.prems e by simp
  ultimately show ?case by (simp add: e map_add_def split: option.splits)
qed simp

text \<open>
  One \<open>epoll_wait\<close> round. When every reported pointer is registered (the kernel reports only what
  its interest list holds) the round passes every assertion, the active list is the reported pointers
  in order, each channel's \<open>revents_\<close> is what was reported last for it, and the event array doubles
  exactly when it was filled, so that the next round can report more.
\<close>

lemma epoll_poll_active:
  assumes "\<forall>(ev, p)\<in>set evs. hasChannel s p" and "length evs \<le> ep_events s" and "0 < ep_events s"
  shows "\<exists>s'. epoll_poll (Some evs) s = Some (map snd evs, s')
    \<and> (\<forall>p. ch_revents (pl_chans s' p) = (case map_of (rev (map prod.swap evs)) p of Some ev \<Rightarrow> ev
         | None \<Rightarrow> ch_revents (pl_chans s p)))
    \<and> ep_events s' = (if length evs = ep_events s then 2 * ep_events s else ep_events s)"
proof (cases "evs = []")
  case False
  from epoll_fill_ok [OF assms(1)] obtain s' where
    "epoll_fillActiveChannels evs s = Some (map snd evs, s')" "ep_events s' = ep_events s"
    "\<And>p. pl_chans s' p = pl_chans s p\<lparr>ch_revents := (case map_of (rev (map prod.swap evs)) p of Some ev \<Rightarrow> ev
         | None \<Rightarrow> ch_revents (pl_chans s p))\<rparr>" by blast
  with False assms(2) show ?thesis by (auto simp: epoll_poll_def)
qed (use assms in \<open>simp add: epoll_poll_def\<close>)

lemma epoll_poll_active_witness:
  "\<exists>s s'. epoll_change 3 5 (new_epoll_poller int) = Some s \<and> epoll_poll (Some [(1, 5)]) s = Some ([5], s')
     \<and> ch_revents (pl_chans s' 5) = 1"
proof -
  let ?s = "ep_after kAdded 3 5 (new_epoll_poller int)"
  have s: "epoll_change 3 5 (new_epoll_poller int) = Some ?s"
    by (simp add: change_interest_def epoll_updateChannel_def epoll_update_def Let_def chan_update_def fd_at_def
        ep_after_def set_chan_def set_index_def new_epoll_poller_def new_channel_def index_defs)
  have "hasChannel ?s 5" by (simp add: hasChannel_def fd_at_def chan_update_def)
  moreover have "ep_events ?s = 16" by (simp add: ep_after_def new_epoll_poller_def kInitEventListSize_def)
  ultimately obtain s' where "epoll_poll (Some [(1, 5)]) ?s = Some (map snd [(1, 5)], s')"
      "ch_revents (pl_chans s' 5) = 1"
    using epoll_poll_active [of "[(1, 5)]" ?s] by auto
  with s show ?thesis by auto
qed

end
