(* ===== verification/Buffer.thy ===== *)
theory Buffer
  imports Prelude
begin

text \<open>
  The network buffer of \<open>net/Buffer.h\<close> and \<open>net/Buffer.cc\<close>: a byte vector with a reader and a
  writer index. Every operation of the class is one definition; an operation whose source asserts a
  precondition returns \<^term>\<open>None\<close> where the assertion fails. Pointers into the readable region are
  offsets from \<open>peek()\<close>. The interface the connection and the parser rely on is the locale
  \<open>byte_fifo\<close> (what was appended is retrieved, in order); \<open>Buffer\<close> is interpreted as one.
\<close>

section \<open>The buffer\<close>

definition kCheapPrepend :: nat where "kCheapPrepend = 8"
definition kInitialSize :: nat where "kInitialSize = 1024"

record buffer =
  buffer_bytes :: bytes
  readerIndex :: nat
  writerIndex :: nat

definition new_buffer :: "nat \<Rightarrow> buffer" where
  "new_buffer initialSize =
     \<lparr>buffer_bytes = replicate (kCheapPrepend + initialSize) (CHR 0x00),
      readerIndex = kCheapPrepend, writerIndex = kCheapPrepend\<rparr>"

definition readableBytes :: "buffer \<Rightarrow> nat" where
  "readableBytes b = writerIndex b - readerIndex b"

definition writableBytes :: "buffer \<Rightarrow> nat" where
  "writableBytes b = length (buffer_bytes b) - writerIndex b"

definition prependableBytes :: "buffer \<Rightarrow> nat" where
  "prependableBytes b = readerIndex b"

definition peek :: "buffer \<Rightarrow> bytes" where
  "peek b = take (readableBytes b) (drop (readerIndex b) (buffer_bytes b))"

definition findCRLF :: "buffer \<Rightarrow> nat option" where
  "findCRLF b = find_sub CRLF (peek b)"

definition findCRLF_from :: "buffer \<Rightarrow> nat \<Rightarrow> nat option checked" where
  "findCRLF_from b start =
     (if start \<le> readableBytes b
      then Some (map_option ((+) start) (find_sub CRLF (drop start (peek b)))) else None)"

definition findEOL :: "buffer \<Rightarrow> nat option" where
  "findEOL b = find_char lf (peek b)"

definition findEOL_from :: "buffer \<Rightarrow> nat \<Rightarrow> nat option checked" where
  "findEOL_from b start =
     (if start \<le> readableBytes b
      then Some (map_option ((+) start) (find_char lf (drop start (peek b)))) else None)"

definition swap_buffer :: "buffer \<Rightarrow> buffer \<Rightarrow> buffer \<times> buffer" where
  "swap_buffer b rhs = (rhs, b)"

definition retrieveAll :: "buffer \<Rightarrow> buffer" where
  "retrieveAll b = b\<lparr>readerIndex := kCheapPrepend, writerIndex := kCheapPrepend\<rparr>"

definition retrieve :: "nat \<Rightarrow> buffer \<Rightarrow> buffer checked" where
  "retrieve len b =
     (if len \<le> readableBytes b
      then Some (if len < readableBytes b then b\<lparr>readerIndex := readerIndex b + len\<rparr> else retrieveAll b)
      else None)"

definition retrieveUntil :: "nat \<Rightarrow> buffer \<Rightarrow> buffer checked" where
  "retrieveUntil endp b = (if endp \<le> readableBytes b then retrieve endp b else None)"

definition retrieveAsString :: "nat \<Rightarrow> buffer \<Rightarrow> (bytes \<times> buffer) checked" where
  "retrieveAsString len b =
     (if len \<le> readableBytes b
      then do { b' \<leftarrow> retrieve len b; Some (take len (peek b), b') } else None)"

definition retrieveAllAsString :: "buffer \<Rightarrow> (bytes \<times> buffer) checked" where
  "retrieveAllAsString b = retrieveAsString (readableBytes b) b"

text \<open>\<open>std::copy\<close> of a range to an offset, and \<open>std::vector::resize\<close>.\<close>

definition copy_at :: "nat \<Rightarrow> bytes \<Rightarrow> bytes \<Rightarrow> bytes" where
  "copy_at i d xs = take i xs @ d @ drop (i + length d) xs"

definition vresize :: "nat \<Rightarrow> bytes \<Rightarrow> bytes" where
  "vresize n xs = take n xs @ replicate (n - length xs) (CHR 0x00)"

definition makeSpace :: "nat \<Rightarrow> buffer \<Rightarrow> buffer checked" where
  "makeSpace len b =
     (if writableBytes b + prependableBytes b < len + kCheapPrepend
      then Some (b\<lparr>buffer_bytes := vresize (writerIndex b + len) (buffer_bytes b)\<rparr>)
      else if kCheapPrepend < readerIndex b
      then Some (b\<lparr>buffer_bytes := copy_at kCheapPrepend (peek b) (buffer_bytes b),
                  readerIndex := kCheapPrepend, writerIndex := kCheapPrepend + readableBytes b\<rparr>)
      else None)"

definition ensureWritableBytes :: "nat \<Rightarrow> buffer \<Rightarrow> buffer checked" where
  "ensureWritableBytes len b =
     do { b' \<leftarrow> (if writableBytes b < len then makeSpace len b else Some b);
          if len \<le> writableBytes b' then Some b' else None }"

definition hasWritten :: "nat \<Rightarrow> buffer \<Rightarrow> buffer checked" where
  "hasWritten len b =
     (if len \<le> writableBytes b then Some (b\<lparr>writerIndex := writerIndex b + len\<rparr>) else None)"

definition unwrite :: "nat \<Rightarrow> buffer \<Rightarrow> buffer checked" where
  "unwrite len b =
     (if len \<le> readableBytes b then Some (b\<lparr>writerIndex := writerIndex b - len\<rparr>) else None)"

definition buf_append :: "bytes \<Rightarrow> buffer \<Rightarrow> buffer checked" where
  "buf_append d b =
     do { b' \<leftarrow> ensureWritableBytes (length d) b;
          hasWritten (length d) (b'\<lparr>buffer_bytes := copy_at (writerIndex b') d (buffer_bytes b')\<rparr>) }"

definition prepend :: "bytes \<Rightarrow> buffer \<Rightarrow> buffer checked" where
  "prepend d b =
     (if length d \<le> prependableBytes b
      then (let r = readerIndex b - length d
            in Some (b\<lparr>readerIndex := r, buffer_bytes := copy_at r d (buffer_bytes b)\<rparr>))
      else None)"

definition shrink :: "nat \<Rightarrow> buffer \<Rightarrow> buffer checked" where
  "shrink reserve b =
     do { other \<leftarrow> ensureWritableBytes (readableBytes b + reserve) (new_buffer kInitialSize);
          other' \<leftarrow> buf_append (peek b) other;
          Some (fst (swap_buffer b other')) }"

text \<open>
  \<open>readFd\<close>: the kernel's \<open>readv\<close> is the environment. It either fails with an errno or delivers the
  bytes \<open>d\<close>, filling the writable region first and the 64 KB stack buffer after it; the latter is
  offered only when the writable region is smaller than it, so \<open>d\<close> fits the vectors passed.
\<close>

definition extrabuf_size :: nat where "extrabuf_size = 65536"

definition readv_capacity :: "buffer \<Rightarrow> nat" where
  "readv_capacity b =
     (if writableBytes b < extrabuf_size then writableBytes b + extrabuf_size else writableBytes b)"

datatype readv_result = Readv_error nat | Readv_data bytes

definition readFd :: "readv_result \<Rightarrow> buffer \<Rightarrow> (int \<times> nat option \<times> buffer) checked" where
  "readFd res b =
     (case res of
        Readv_error err \<Rightarrow> Some (-1, Some err, b)
      | Readv_data d \<Rightarrow>
          let writable = writableBytes b;
              b1 = b\<lparr>buffer_bytes := copy_at (writerIndex b) (take writable d) (buffer_bytes b)\<rparr>
          in if length d \<le> writable
             then Some (int (length d), None, b1\<lparr>writerIndex := writerIndex b + length d\<rparr>)
             else do { b2 \<leftarrow> buf_append (drop writable d) (b1\<lparr>writerIndex := length (buffer_bytes b1)\<rparr>);
                       Some (int (length d), None, b2) })"

section \<open>Invariant\<close>

definition buf_inv :: "buffer \<Rightarrow> bool" where
  "buf_inv b \<longleftrightarrow> readerIndex b \<le> writerIndex b \<and> writerIndex b \<le> length (buffer_bytes b)
     \<and> kCheapPrepend \<le> length (buffer_bytes b)"

lemmas buf_defs = readableBytes_def writableBytes_def prependableBytes_def peek_def

lemma length_peek [simp]: "buf_inv b \<Longrightarrow> length (peek b) = readableBytes b"
  by (auto simp: buf_inv_def buf_defs)

lemma length_copy_at [simp]:
  "i + length d \<le> length xs \<Longrightarrow> length (copy_at i d xs) = length xs"
  by (simp add: copy_at_def)

lemma buf_inv_new [inv_intros]: "buf_inv (new_buffer n)"
  by (simp add: buf_inv_def new_buffer_def)

lemma peek_new [buf_simps]: "peek (new_buffer n) = []"
  by (simp add: new_buffer_def buf_defs)

lemma buf_inv_retrieveAll [inv_intros]: "buf_inv b \<Longrightarrow> buf_inv (retrieveAll b)"
  by (simp add: buf_inv_def retrieveAll_def)

lemma peek_retrieveAll [buf_simps]: "peek (retrieveAll b) = []"
  by (simp add: retrieveAll_def buf_defs)

lemma retrieve_spec:
  assumes "buf_inv b" and "n \<le> readableBytes b"
  shows "\<exists>b'. retrieve n b = Some b' \<and> buf_inv b' \<and> peek b' = drop n (peek b)"
proof (cases "n < readableBytes b")
  case True
  then have "retrieve n b = Some (b\<lparr>readerIndex := readerIndex b + n\<rparr>)"
    by (simp add: retrieve_def)
  with assms True show ?thesis
    by (auto simp: buf_inv_def buf_defs drop_take add.commute)
next
  case False
  with assms have "retrieve n b = Some (retrieveAll b)" and "n = length (peek b)"
    by (simp_all add: retrieve_def)
  with assms show ?thesis by (simp add: inv_intros buf_simps)
qed

lemma retrieve_None: "retrieve n b = None \<longleftrightarrow> readableBytes b < n"
  by (auto simp: retrieve_def)

lemma retrieveAsString_spec:
  assumes "buf_inv b" and "n \<le> readableBytes b"
  shows "\<exists>b'. retrieveAsString n b = Some (take n (peek b), b') \<and> buf_inv b' \<and> peek b' = drop n (peek b)"
  using retrieve_spec [OF assms] assms(2) by (auto simp: retrieveAsString_def)

lemma retrieveAllAsString_spec:
  assumes "buf_inv b"
  shows "\<exists>b'. retrieveAllAsString b = Some (peek b, b') \<and> buf_inv b' \<and> peek b' = []"
  using retrieveAsString_spec [OF assms, of "readableBytes b"] assms
  by (auto simp: retrieveAllAsString_def)

lemma ensureWritable_enough:
  assumes "buf_inv b"
  shows "\<exists>b'. ensureWritableBytes n b = Some b' \<and> buf_inv b' \<and> peek b' = peek b \<and> n \<le> writableBytes b'"
proof -
  consider (fits) "n \<le> writableBytes b"
    | (grow) "writableBytes b < n" "writableBytes b + prependableBytes b < n + kCheapPrepend"
    | (move) "writableBytes b < n" "n + kCheapPrepend \<le> writableBytes b + prependableBytes b"
    by linarith
  then show ?thesis
  proof cases
    case fits
    with assms show ?thesis by (simp add: ensureWritableBytes_def)
  next
    case grow
    let ?b = "b\<lparr>buffer_bytes := vresize (writerIndex b + n) (buffer_bytes b)\<rparr>"
    have "makeSpace n b = Some ?b" using grow by (simp add: makeSpace_def)
    moreover have "buf_inv ?b" "n \<le> writableBytes ?b"
      using assms grow by (auto simp: buf_inv_def vresize_def buf_defs kCheapPrepend_def)
    moreover have "peek ?b = peek b"
      using assms by (simp add: buf_inv_def vresize_def buf_defs drop_take) linarith
    ultimately show ?thesis using grow by (simp add: ensureWritableBytes_def)
  next
    case move
    let ?b = "b\<lparr>buffer_bytes := copy_at kCheapPrepend (peek b) (buffer_bytes b),
                readerIndex := kCheapPrepend, writerIndex := kCheapPrepend + readableBytes b\<rparr>"
    have k: "kCheapPrepend < readerIndex b" using move by (simp add: buf_defs)
    then have "makeSpace n b = Some ?b" using move by (simp add: makeSpace_def)
    moreover have len: "kCheapPrepend + readableBytes b \<le> length (buffer_bytes b)"
      using assms k by (auto simp: buf_inv_def buf_defs)
    moreover have "buf_inv ?b"
      using assms len by (simp add: buf_inv_def length_peek [OF assms])
    moreover have "n \<le> writableBytes ?b"
      using assms move len by (simp add: length_peek [OF assms] writableBytes_def)
        (auto simp: buf_inv_def buf_defs)
    moreover have "peek ?b = peek b"
    proof -
      have "peek ?b = take (readableBytes b) (drop kCheapPrepend (copy_at kCheapPrepend (peek b) (buffer_bytes b)))"
        by (subst peek_def) (simp add: readableBytes_def)
      also have "\<dots> = take (readableBytes b) (peek b)"
        using assms len by (simp add: copy_at_def)
      finally show ?thesis using assms by simp
    qed
    ultimately show ?thesis using move by (simp add: ensureWritableBytes_def)
  qed
qed

text \<open>Writing into a sufficiently large writable region and advancing the writer index.\<close>

lemma write_region_spec:
  assumes "buf_inv b" and "length d \<le> writableBytes b"
  defines "b' \<equiv> b\<lparr>buffer_bytes := copy_at (writerIndex b) d (buffer_bytes b),
                   writerIndex := writerIndex b + length d\<rparr>"
  shows "buf_inv b'" and "peek b' = peek b @ d"
proof -
  have w: "writerIndex b + length d \<le> length (buffer_bytes b)"
    using assms(1,2) by (auto simp: buf_inv_def writableBytes_def)
  then show "buf_inv b'" using assms(1) by (simp add: b'_def buf_inv_def)
  have r: "readerIndex b \<le> writerIndex b" and wl: "writerIndex b \<le> length (buffer_bytes b)"
    using assms(1) by (auto simp: buf_inv_def)
  have "peek b' = take (writerIndex b - readerIndex b + length d)
      (drop (readerIndex b) (take (writerIndex b) (buffer_bytes b)) @ d @ drop (writerIndex b + length d) (buffer_bytes b))"
    using r wl by (simp add: b'_def buf_defs copy_at_def)
  also have "\<dots> = drop (readerIndex b) (take (writerIndex b) (buffer_bytes b)) @ d"
    using r wl by simp
  also have "drop (readerIndex b) (take (writerIndex b) (buffer_bytes b)) = peek b"
    by (simp add: buf_defs drop_take)
  finally show "peek b' = peek b @ d" .
qed

lemma append_spec:
  assumes "buf_inv b"
  shows "\<exists>b'. buf_append d b = Some b' \<and> buf_inv b' \<and> peek b' = peek b @ d"
proof -
  from ensureWritable_enough [OF assms, of "length d"] obtain b1 where
    b1: "ensureWritableBytes (length d) b = Some b1" "buf_inv b1" "peek b1 = peek b"
      "length d \<le> writableBytes b1" by blast
  have "writerIndex b1 + length d \<le> length (buffer_bytes b1)"
    using b1 by (auto simp: buf_inv_def writableBytes_def)
  then have "buf_append d b = Some (b1\<lparr>buffer_bytes := copy_at (writerIndex b1) d (buffer_bytes b1),
      writerIndex := writerIndex b1 + length d\<rparr>)"
    using b1 by (simp add: buf_append_def hasWritten_def writableBytes_def)
  with write_region_spec [OF b1(2,4)] b1(3) show ?thesis by auto
qed

lemma prepend_spec:
  assumes "buf_inv b" and "length d \<le> prependableBytes b"
  shows "\<exists>b'. prepend d b = Some b' \<and> buf_inv b' \<and> peek b' = d @ peek b"
proof -
  let ?r = "readerIndex b - length d"
  let ?b = "b\<lparr>readerIndex := ?r, buffer_bytes := copy_at ?r d (buffer_bytes b)\<rparr>"
  have l: "length d \<le> readerIndex b" and w: "readerIndex b \<le> writerIndex b"
    and n: "writerIndex b \<le> length (buffer_bytes b)"
    using assms by (auto simp: prependableBytes_def buf_inv_def)
  then have "buf_inv ?b" using assms(1) by (simp add: buf_inv_def)
  moreover have "peek ?b = take (writerIndex b - ?r) (d @ drop (readerIndex b) (buffer_bytes b))"
    using l w n by (simp add: buf_defs copy_at_def)
  moreover have "\<dots> = d @ peek b"
    using l w by (simp add: buf_defs)
  ultimately show ?thesis using assms(2) by (simp add: prepend_def Let_def)
qed

lemma unwrite_spec:
  assumes "buf_inv b" and "n \<le> readableBytes b"
  shows "\<exists>b'. unwrite n b = Some b' \<and> buf_inv b' \<and> peek b' = take (readableBytes b - n) (peek b)"
  using assms by (auto simp: unwrite_def buf_inv_def buf_defs min_def add.commute)

lemma shrink_spec:
  assumes "buf_inv b"
  shows "\<exists>b'. shrink n b = Some b' \<and> buf_inv b' \<and> peek b' = peek b"
proof -
  from ensureWritable_enough [OF buf_inv_new] obtain o1 where
    o1: "ensureWritableBytes (readableBytes b + n) (new_buffer kInitialSize) = Some o1"
      "buf_inv o1" "peek o1 = []" by (metis peek_new)
  from append_spec [OF o1(2)] o1(3) obtain o2 where
    "buf_append (peek b) o1 = Some o2" "buf_inv o2" "peek o2 = peek b" by fastforce
  with o1(1) show ?thesis by (simp add: shrink_def swap_buffer_def)
qed

lemma readFd_spec:
  assumes "buf_inv b" and "length d \<le> readv_capacity b"
  shows "\<exists>b'. readFd (Readv_data d) b = Some (int (length d), None, b') \<and> buf_inv b' \<and> peek b' = peek b @ d"
proof (cases "length d \<le> writableBytes b")
  case True
  then show ?thesis
    using write_region_spec [OF assms(1) True] by (auto simp: readFd_def)
next
  case False
  let ?w = "writableBytes b"
  let ?b1 = "b\<lparr>buffer_bytes := copy_at (writerIndex b) (take ?w d) (buffer_bytes b),
      writerIndex := writerIndex b + length (take ?w d)\<rparr>"
  have fits: "length (take ?w d) \<le> ?w" by simp
  have full: "writerIndex b + length (take ?w d) = length (buffer_bytes b)"
    using False assms(1) by (auto simp: writableBytes_def buf_inv_def)
  note s = write_region_spec [OF assms(1) fits]
  from append_spec [OF s(1)] obtain b2 where
    b2: "buf_append (drop ?w d) ?b1 = Some b2" "buf_inv b2" "peek b2 = peek ?b1 @ drop ?w d"
    by blast
  have "length (copy_at (writerIndex b) (take ?w d) (buffer_bytes b)) = length (buffer_bytes b)"
    using full by simp
  with False b2(1) full have "readFd (Readv_data d) b = Some (int (length d), None, b2)"
    by (simp add: readFd_def Let_def)
  with b2 s(2) show ?thesis by simp
qed

lemma findCRLF_Some:
  assumes "buf_inv b" and "findCRLF b = Some i"
  shows "i + 2 \<le> readableBytes b"
  using find_sub_Some(1) [of CRLF "peek b" i] assms by (simp add: findCRLF_def CRLF_def)

text \<open>A buffer that holds given bytes, as a fresh one does after appending them; for examples.\<close>

definition buffer_of :: "bytes \<Rightarrow> buffer" where
  "buffer_of s = \<lparr>buffer_bytes = replicate kCheapPrepend (CHR 0x00) @ s, readerIndex = kCheapPrepend,
     writerIndex = kCheapPrepend + length s\<rparr>"

lemma buf_inv_buffer_of [inv_intros]: "buf_inv (buffer_of s)"
  by (simp add: buf_inv_def buffer_of_def)

lemma peek_buffer_of [buf_simps]: "peek (buffer_of s) = s"
  by (simp add: buffer_of_def buf_defs)

section \<open>The FIFO interface\<close>

datatype fifo_op = Put bytes | Get nat

text \<open>A history of writes and reads, over any implementation of the two operations.\<close>

fun run_ops ::
  "(bytes \<Rightarrow> 'b \<Rightarrow> 'b option) \<Rightarrow> (nat \<Rightarrow> 'b \<Rightarrow> (bytes \<times> 'b) option) \<Rightarrow> fifo_op list \<Rightarrow> 'b
     \<Rightarrow> (bytes \<times> 'b) option" where
  "run_ops put get [] b = Some ([], b)"
| "run_ops put get (Put d # ops) b = do { b' \<leftarrow> put d b; run_ops put get ops b' }"
| "run_ops put get (Get n # ops) b =
     do { (s, b') \<leftarrow> get n b; (out, b'') \<leftarrow> run_ops put get ops b'; Some (s @ out, b'') }"

text \<open>The abstract queue: a byte string, appended to at the back and read from the front.\<close>

definition list_put :: "bytes \<Rightarrow> bytes \<Rightarrow> bytes option" where
  "list_put d s = Some (s @ d)"

definition list_get :: "nat \<Rightarrow> bytes \<Rightarrow> (bytes \<times> bytes) option" where
  "list_get n s = (if n \<le> length s then Some (take n s, drop n s) else None)"

locale byte_fifo =
  fixes inv :: "'b \<Rightarrow> bool"
    and contents :: "'b \<Rightarrow> bytes"
    and put :: "bytes \<Rightarrow> 'b \<Rightarrow> 'b option"
    and get :: "nat \<Rightarrow> 'b \<Rightarrow> (bytes \<times> 'b) option"
  assumes put_law: "inv b \<Longrightarrow> \<exists>b'. put d b = Some b' \<and> inv b' \<and> contents b' = contents b @ d"
    and get_law: "inv b \<Longrightarrow> n \<le> length (contents b) \<Longrightarrow>
      \<exists>b'. get n b = Some (take n (contents b), b') \<and> inv b' \<and> contents b' = drop n (contents b)"
    and get_guard: "inv b \<Longrightarrow> length (contents b) < n \<Longrightarrow> get n b = None"
begin

lemma refines_list:
  "inv b \<Longrightarrow> map_option (\<lambda>(out, b'). (out, contents b')) (run_ops put get ops b)
     = run_ops list_put list_get ops (contents b)"
proof (induction ops arbitrary: b)
  case Nil
  then show ?case by simp
next
  case (Cons op ops)
  show ?case
  proof (cases op)
    case (Put d)
    from put_law [OF Cons.prems, of d] obtain b1 where
      "put d b = Some b1" "inv b1" "contents b1 = contents b @ d" by blast
    with Cons.IH [of b1] Put show ?thesis by (simp add: list_put_def)
  next
    case (Get n)
    show ?thesis
    proof (cases "n \<le> length (contents b)")
      case True
      from get_law [OF Cons.prems True] obtain b1 where b1: "inv b1"
        "get n b = Some (take n (contents b), b1)" "contents b1 = drop n (contents b)" by blast
      have "list_get n (contents b) = Some (take n (contents b), contents b1)"
        using True b1(3) by (simp add: list_get_def)
      with Cons.IH [OF b1(1), symmetric] b1(2) Get show ?thesis
        by (cases "run_ops put get ops b1") auto
    next
      case False
      then show ?thesis using get_guard [OF Cons.prems] Get by (simp add: list_get_def)
    qed
  qed
qed

lemma run_ops_inv:
  assumes "inv b" and "run_ops put get ops b = Some (out, b')"
  shows "inv b'"
  using assms
proof (induction ops arbitrary: b out)
  case (Cons op ops)
  show ?case
  proof (cases op)
    case (Put d)
    with put_law [OF Cons.prems(1), of d] Cons show ?thesis by auto
  next
    case (Get n)
    with get_guard [OF Cons.prems(1), of n] Cons.prems(2) have "n \<le> length (contents b)"
      by (cases "n \<le> length (contents b)") auto
    from get_law [OF Cons.prems(1) this] Cons Get show ?thesis
      by (auto simp: bind_eq_Some_conv)
  qed
qed simp

end

interpretation buf: byte_fifo buf_inv peek buf_append retrieveAsString
proof unfold_locales
  fix b :: buffer and d
  show "buf_inv b \<Longrightarrow> \<exists>b'. buf_append d b = Some b' \<and> buf_inv b' \<and> peek b' = peek b @ d"
    by (rule append_spec)
next
  fix b :: buffer and n
  show "buf_inv b \<Longrightarrow> n \<le> length (peek b) \<Longrightarrow>
      \<exists>b'. retrieveAsString n b = Some (take n (peek b), b') \<and> buf_inv b' \<and> peek b' = drop n (peek b)"
    by (rule retrieveAsString_spec) simp_all
next
  fix b :: buffer and n
  show "buf_inv b \<Longrightarrow> length (peek b) < n \<Longrightarrow> retrieveAsString n b = None"
    by (simp add: retrieveAsString_def)
qed

text \<open>
  C10: refinement. Every history of appends and retrievals on a buffer gives the bytes and the failures
  it gives on a plain byte string: nothing is lost, duplicated or reordered, whatever growing, moving
  and resetting of the indices happens underneath, and a retrieval is refused exactly when it asks for
  more than is readable.
\<close>

theorem buffer_refines_queue:
  assumes "buf_inv b"
  shows "map_option (\<lambda>(out, b'). (out, peek b')) (run_ops buf_append retrieveAsString ops b)
    = run_ops list_put list_get ops (peek b)"
  using assms by (rule buf.refines_list)

theorem buffer_refines_queue_witness:
  "map_option (\<lambda>(out, b'). (out, peek b'))
     (run_ops buf_append retrieveAsString [Put ''ab'', Get 1, Put ''c'', Get 2] (new_buffer 0))
   = Some (''abc'', [])"
  using buffer_refines_queue [OF buf_inv_new [of 0], of "[Put ''ab'', Get 1, Put ''c'', Get 2]"]
  by (simp add: peek_new list_put_def list_get_def)

text \<open>
  \<open>readFd\<close> appends exactly the bytes the kernel delivered, also when they overflow into the
  stack buffer, and keeps the index invariant; the spill is appended after a completely full buffer.
\<close>

lemma readFd_appends:
  assumes "buf_inv b" and "length d \<le> readv_capacity b"
  shows "\<exists>b'. readFd (Readv_data d) b = Some (int (length d), None, b') \<and> buf_inv b' \<and> peek b' = peek b @ d"
  using assms by (rule readFd_spec)

lemma readFd_appends_witness:
  "\<exists>b'. readFd (Readv_data ''hello'') (buffer_of ''>'') = Some (int (length ''hello''), None, b') \<and> buf_inv b'
     \<and> peek b' = peek (buffer_of ''>'') @ ''hello''"
  by (rule readFd_appends [OF buf_inv_buffer_of])
     (simp add: readv_capacity_def extrabuf_size_def)

text \<open>
  \<open>shrink\<close>, \<open>prepend\<close> and \<open>unwrite\<close> change the readable bytes only as their names say.
\<close>

lemma buffer_edit_ops:
  assumes "buf_inv b" and "length d \<le> prependableBytes b" and "n \<le> readableBytes b"
  shows "map_option peek (shrink r b) = Some (peek b) \<and> map_option peek (prepend d b) = Some (d @ peek b)
    \<and> map_option peek (unwrite n b) = Some (take (readableBytes b - n) (peek b))"
  using shrink_spec [OF assms(1), of r] prepend_spec [OF assms(1,2)] unwrite_spec [OF assms(1,3)] by auto

lemma buffer_edit_ops_witness:
  "map_option peek (shrink 0 (buffer_of ''xyz'')) = Some (peek (buffer_of ''xyz''))
   \<and> map_option peek (prepend ''ab'' (buffer_of ''xyz'')) = Some (''ab'' @ peek (buffer_of ''xyz''))
   \<and> map_option peek (unwrite 1 (buffer_of ''xyz''))
       = Some (take (readableBytes (buffer_of ''xyz'') - 1) (peek (buffer_of ''xyz'')))"
  by (rule buffer_edit_ops [OF buf_inv_buffer_of])
     (simp_all add: buffer_of_def prependableBytes_def readableBytes_def kCheapPrepend_def)

end
