(* ===== verification/HttpRequest.thy ===== *)
theory HttpRequest
  imports Prelude
begin

text \<open>
  The request object of \<open>net/HttpRequest.h\<close>: its fields, setters and the lookups the handlers use
  (\<open>getHeader\<close>, \<open>getQuery\<close>, \<open>getPathParam\<close>, \<open>urlDecode\<close>). \<open>sscanf("%x")\<close> leaves its target
  unwritten on a matching failure; the target of \<open>HttpRequest::urlDecode\<close> is an uninitialised local,
  whose indeterminate value is the argument \<open>junk\<close> of the definitions that read it.
\<close>

section \<open>Data\<close>

datatype http_method = kInvalid | kGet | kPost | kHead | kPut | kDelete

datatype http_version = kUnknown_version | kHttp10 | kHttp11

record http_request =
  rq_method :: http_method
  rq_version :: http_version
  rq_path :: string
  rq_query :: string
  rq_body :: string
  rq_receiveTime :: int
  rq_headers :: "string \<rightharpoonup> string"
  rq_pathParams :: "string \<rightharpoonup> string"

definition new_request :: http_request where
  "new_request = \<lparr>rq_method = kInvalid, rq_version = kUnknown_version, rq_path = [], rq_query = [],
     rq_body = [], rq_receiveTime = 0, rq_headers = Map.empty, rq_pathParams = Map.empty\<rparr>"

section \<open>Setters and getters\<close>

definition setMethod :: "bytes \<Rightarrow> http_request \<Rightarrow> (bool \<times> http_request) checked" where
  "setMethod m r =
     (if rq_method r = kInvalid
      then let k = (if m = ''GET'' then kGet else if m = ''POST'' then kPost
                    else if m = ''HEAD'' then kHead else if m = ''PUT'' then kPut
                    else if m = ''DELETE'' then kDelete else kInvalid)
           in Some (k \<noteq> kInvalid, r\<lparr>rq_method := k\<rparr>)
      else None)"

fun methodString :: "http_method \<Rightarrow> string" where
  "methodString kGet = ''GET''"
| "methodString kPost = ''POST''"
| "methodString kHead = ''HEAD''"
| "methodString kPut = ''PUT''"
| "methodString kDelete = ''DELETE''"
| "methodString kInvalid = ''UNKNOWN''"

definition appendToBody :: "bytes \<Rightarrow> http_request \<Rightarrow> http_request" where
  "appendToBody d r = r\<lparr>rq_body := rq_body r @ d\<rparr>"

definition rtrim :: "string \<Rightarrow> string" where
  "rtrim s = rev (dropWhile is_space (rev s))"

definition addHeader :: "bytes \<Rightarrow> nat \<Rightarrow> http_request \<Rightarrow> http_request" where
  "addHeader line colon r =
     (let field = take colon line;
          value' = rtrim (dropWhile is_space (drop (Suc colon) line))
      in r\<lparr>rq_headers := (rq_headers r)(field \<mapsto> value')\<rparr>)"

definition getHeader :: "http_request \<Rightarrow> string \<Rightarrow> string" where
  "getHeader r field = (case rq_headers r field of Some v \<Rightarrow> v | None \<Rightarrow> [])"

definition getPathParam :: "http_request \<Rightarrow> string \<Rightarrow> string" where
  "getPathParam r name = (case rq_pathParams r name of Some v \<Rightarrow> v | None \<Rightarrow> [])"

definition setPathParams :: "(string \<rightharpoonup> string) \<Rightarrow> http_request \<Rightarrow> http_request" where
  "setPathParams ps r = r\<lparr>rq_pathParams := ps\<rparr>"

text \<open>\<open>swap\<close> exchanges every field except the path parameters.\<close>

definition swap_request :: "http_request \<Rightarrow> http_request \<Rightarrow> http_request \<times> http_request" where
  "swap_request r that =
     (that\<lparr>rq_pathParams := rq_pathParams r\<rparr>, r\<lparr>rq_pathParams := rq_pathParams that\<rparr>)"

section \<open>URL decoding\<close>

text \<open>\<open>sscanf(s, "%x", &v)\<close>: white space, an optional sign, an optional \<open>0x\<close>, then hex digits.\<close>

definition hex_val :: "char \<Rightarrow> nat option" where
  "hex_val c =
     (let n = of_char c :: nat
      in if 48 \<le> n \<and> n \<le> 57 then Some (n - 48)
         else if 97 \<le> n \<and> n \<le> 102 then Some (n - 87)
         else if 65 \<le> n \<and> n \<le> 70 then Some (n - 55) else None)"

definition nat_of_hex :: "string \<Rightarrow> nat" where
  "nat_of_hex s = foldl (\<lambda>n c. 16 * n + (case hex_val c of Some d \<Rightarrow> d | None \<Rightarrow> 0)) 0 s"

definition sscanf_hex :: "string \<Rightarrow> int option" where
  "sscanf_hex s =
     (let s1 = dropWhile is_space s;
          neg = (case s1 of c # _ \<Rightarrow> c = CHR ''-'' | [] \<Rightarrow> False);
          s2 = (case s1 of c # cs \<Rightarrow> if c = CHR ''-'' \<or> c = CHR ''+'' then cs else s1 | [] \<Rightarrow> []);
          s3 = (if take 2 s2 = ''0x'' \<or> take 2 s2 = ''0X'' then drop 2 s2 else s2);
          ds = takeWhile (\<lambda>c. hex_val c \<noteq> None) s3
      in if ds = [] then None else Some (if neg then - int (nat_of_hex ds) else int (nat_of_hex ds)))"

definition char_cast :: "int \<Rightarrow> char" where
  "char_cast i = char_of (nat (i mod 256))"

text \<open>\<open>HttpRequest::urlDecode\<close>: an escape with fewer than two characters after it loses its \<open>%\<close>.\<close>

fun urlDecode :: "int \<Rightarrow> string \<Rightarrow> string" where
  "urlDecode junk [] = []"
| "urlDecode junk (c # cs) =
     (if c \<noteq> CHR ''%'' then (if c = CHR ''+'' then CHR '' '' else c) # urlDecode junk cs
      else if 2 \<le> length cs
      then char_cast (case sscanf_hex (take 2 cs) of Some v \<Rightarrow> v | None \<Rightarrow> junk) # urlDecode junk (drop 2 cs)
      else urlDecode junk cs)"

section \<open>Query parameters\<close>

function split_params :: "string \<Rightarrow> string list" where
  "split_params q =
     (case find_char CHR ''&'' q of
        None \<Rightarrow> [q]
      | Some i \<Rightarrow> take i q # split_params (drop (Suc i) q))"
  by pat_completeness auto
termination
  by (relation "measure length") (auto dest: find_char_Some)

declare split_params.simps [simp del]

fun lookup_param :: "int \<Rightarrow> string \<Rightarrow> string \<Rightarrow> string list \<Rightarrow> string" where
  "lookup_param junk key dflt [] = dflt"
| "lookup_param junk key dflt (p # ps) =
     (case find_char CHR ''='' p of
        Some pos \<Rightarrow> if take pos p = key then urlDecode junk (drop (Suc pos) p)
                    else lookup_param junk key dflt ps
      | None \<Rightarrow> if p = key then ''true'' else lookup_param junk key dflt ps)"

definition getQuery :: "int \<Rightarrow> http_request \<Rightarrow> string \<Rightarrow> string \<Rightarrow> string" where
  "getQuery junk r key dflt =
     (case rq_query r of
        [] \<Rightarrow> dflt
      | c # q \<Rightarrow> if c \<noteq> CHR ''?'' then dflt else lookup_param junk key dflt (split_params q))"

section \<open>Percent encoding, the reference for the decoder\<close>

definition hex_digit :: "nat \<Rightarrow> char" where
  "hex_digit d = (if d < 10 then char_of (48 + d) else char_of (55 + d))"

definition unreserved :: "char \<Rightarrow> bool" where
  "unreserved c \<longleftrightarrow> c \<noteq> CHR ''%'' \<and> c \<noteq> CHR ''+'' \<and> c \<noteq> CHR ''&'' \<and> c \<noteq> CHR ''='' \<and> \<not> is_space c"

fun percent_encode :: "string \<Rightarrow> string" where
  "percent_encode [] = []"
| "percent_encode (c # cs) =
     (if unreserved c then c # percent_encode cs
      else CHR ''%'' # hex_digit (of_char c div 16) # hex_digit (of_char c mod 16) # percent_encode cs)"

fun join_params :: "string list \<Rightarrow> string" where
  "join_params [] = []"
| "join_params [p] = p"
| "join_params (p # q # ps) = p @ CHR ''&'' # join_params (q # ps)"

lemma of_char_hex_digit:
  assumes "d < 16"
  shows "(of_char (hex_digit d) :: nat) = (if d < 10 then 48 + d else 55 + d)"
  using assms by (simp add: hex_digit_def)

lemma hex_digit_props:
  assumes "d < 16"
  shows "hex_val (hex_digit d) = Some d" and "\<not> is_space (hex_digit d)"
    and "hex_digit d \<noteq> CHR ''-''" and "hex_digit d \<noteq> CHR ''+''"
    and "hex_digit d \<noteq> CHR ''x''" and "hex_digit d \<noteq> CHR ''X''"
    and "hex_digit d \<noteq> CHR ''&''" and "hex_digit d \<noteq> CHR ''=''"
  using of_char_hex_digit [OF assms] assms
  by (auto simp: hex_val_def is_space_def split: if_splits)

lemma char_nibbles:
  "of_char c div 16 < (16 :: nat)" "of_char c mod 16 < (16 :: nat)"
  "char_of (16 * (of_char c div 16) + of_char c mod (16 :: nat)) = c"
proof -
  have "(of_char c :: nat) < 256" using nat_of_char_less_256 [of c] by simp
  then show "of_char c div 16 < (16 :: nat)" by presburger
  show "of_char c mod 16 < (16 :: nat)" by simp
  show "char_of (16 * (of_char c div 16) + of_char c mod (16 :: nat)) = c" by simp
qed

lemma sscanf_hex_pair:
  assumes "a < 16" and "b < 16"
  shows "sscanf_hex [hex_digit a, hex_digit b] = Some (int (16 * a + b))"
  using hex_digit_props [OF assms(1)] hex_digit_props [OF assms(2)]
  by (simp add: sscanf_hex_def Let_def nat_of_hex_def)

lemma urlDecode_escape:
  assumes "a < 16" and "b < 16"
  shows "urlDecode junk (CHR ''%'' # hex_digit a # hex_digit b # s)
    = char_of (16 * a + b) # urlDecode junk s"
proof -
  have "int (16 * a + b) mod 256 = int (16 * a + b)" using assms by simp
  then have "char_cast (int (16 * a + b)) = char_of (16 * a + b)"
    unfolding char_cast_def by (simp only: nat_int)
  then show ?thesis using sscanf_hex_pair [OF assms] by (simp del: of_nat_add of_nat_mult)
qed

lemma urlDecode_percent_encode [simp]: "urlDecode junk (percent_encode s) = s"
proof (induction s)
  case (Cons c s)
  show ?case
  proof (cases "unreserved c")
    case True
    with Cons show ?thesis by (auto simp: unreserved_def)
  next
    case False
    with Cons urlDecode_escape [OF char_nibbles(1) [of c] char_nibbles(2) [of c]] char_nibbles(3) [of c]
    show ?thesis by (simp del: urlDecode.simps(2))
  qed
qed simp

lemma percent_encode_clean: "CHR ''&'' \<notin> set (percent_encode s)" "CHR ''='' \<notin> set (percent_encode s)"
proof (induction s)
  case (Cons c s)
  note n = char_nibbles(1) [of c] char_nibbles(2) [of c]
  {
    case 1
    show ?case using Cons hex_digit_props(7) [OF n(1)] hex_digit_props(7) [OF n(2)]
      by (auto simp: unreserved_def)
  next
    case 2
    show ?case using Cons hex_digit_props(8) [OF n(1)] hex_digit_props(8) [OF n(2)]
      by (auto simp: unreserved_def)
  }
qed simp_all

lemma split_params_join:
  "ps \<noteq> [] \<Longrightarrow> \<forall>p \<in> set ps. CHR ''&'' \<notin> set p \<Longrightarrow> split_params (join_params ps) = ps"
proof (induction ps rule: join_params.induct)
  case (2 p)
  then show ?case by (subst split_params.simps) (simp add: find_char_None [THEN iffD2])
next
  case (3 p q ps)
  have "find_char CHR ''&'' (p @ CHR ''&'' # join_params (q # ps)) = Some (length p)"
    using 3 by simp
  with 3 show ?case by (subst split_params.simps) simp
qed simp

definition encode_param :: "string \<times> string \<Rightarrow> string" where
  "encode_param kv = percent_encode (fst kv) @ CHR ''='' # percent_encode (snd kv)"

lemma lookup_param_encoded:
  assumes "\<forall>kv \<in> set kvs. list_all unreserved (fst kv)"
  shows "lookup_param junk key dflt (map encode_param kvs)
    = (case map_of kvs key of Some v \<Rightarrow> v | None \<Rightarrow> dflt)"
  using assms
proof (induction kvs)
  case (Cons kv kvs)
  obtain k v where kv: "kv = (k, v)" by force
  have "list_all unreserved k" using Cons.prems kv by simp
  then have "percent_encode k = k" by (induction k) auto
  with percent_encode_clean(2) [of k] have "find_char CHR ''='' (encode_param kv) = Some (length k)"
    and "take (length k) (encode_param kv) = k"
    and "drop (Suc (length k)) (encode_param kv) = percent_encode v"
    by (simp_all add: encode_param_def kv)
  with Cons kv show ?case by auto
qed simp

lemma query_split:
  assumes "kvs \<noteq> []"
  shows "split_params (join_params (map encode_param kvs)) = map encode_param kvs"
  using assms by (intro split_params_join) (auto simp: encode_param_def percent_encode_clean)

end
