(* ===== verification/HttpContext.thy ===== *)
theory HttpContext
  imports Buffer HttpRequest
begin

text \<open>
  The incremental request parser of \<open>net/HttpContext.h\<close> and \<open>net/HttpContext.cc\<close>, run on the
  connection's input buffer. The loop of \<open>parseRequest\<close> is \<open>parse_loop\<close>, whose first argument
  bounds the number of iterations: \<^term>\<open>Out_of_fuel\<close> for every bound means that the loop does not
  terminate. The per-request user context (\<open>customContext_\<close>, a \<open>shared_ptr<void>\<close>) is polymorphic.
\<close>

section \<open>State\<close>

datatype parse_state = kExpectRequestLine | kExpectHeaders | kExpectBody | kGotAll

datatype parse_result = kError | kNeedMore | kHeadersComplete | kGotRequest

record 'c http_context =
  hc_state :: parse_state
  hc_request :: http_request
  hc_contentLength :: nat
  hc_bodyReceived :: nat
  hc_isChunked :: bool
  hc_custom :: "'c option"

definition new_context :: "'c http_context" where
  "new_context = \<lparr>hc_state = kExpectRequestLine, hc_request = new_request, hc_contentLength = 0,
     hc_bodyReceived = 0, hc_isChunked = False, hc_custom = None\<rparr>"

definition gotAll :: "'c http_context \<Rightarrow> bool" where
  "gotAll c \<longleftrightarrow> hc_state c = kGotAll"

definition expectBody :: "'c http_context \<Rightarrow> bool" where
  "expectBody c \<longleftrightarrow> hc_state c = kExpectBody"

definition headersComplete :: "'c http_context \<Rightarrow> bool" where
  "headersComplete c \<longleftrightarrow> hc_state c = kExpectBody \<or> hc_state c = kGotAll"

definition size_bound :: nat where "size_bound = 2 ^ 64"

definition size_t :: "int \<Rightarrow> nat" where
  "size_t i = nat (i mod int size_bound)"

definition remainingLength :: "'c http_context \<Rightarrow> nat" where
  "remainingLength c = size_t (int (hc_contentLength c) - int (hc_bodyReceived c))"

text \<open>\<open>reset\<close> swaps the request with a fresh one; the path parameters are not swapped.\<close>

definition reset_context :: "'c http_context \<Rightarrow> 'c http_context" where
  "reset_context c =
     c\<lparr>hc_state := kExpectRequestLine, hc_request := fst (swap_request (hc_request c) new_request),
       hc_contentLength := 0, hc_bodyReceived := 0, hc_isChunked := False, hc_custom := None\<rparr>"

section \<open>C library conversions\<close>

definition c_str :: "string \<Rightarrow> string" where
  "c_str s = takeWhile (\<lambda>c. c \<noteq> CHR 0x00) s"

definition strcaseeq :: "string \<Rightarrow> string \<Rightarrow> bool" where
  "strcaseeq s t \<longleftrightarrow> map to_lower (c_str s) = map to_lower (c_str t)"

text \<open>\<open>atoi\<close> is \<open>strtol\<close> (saturating at 64 bits) truncated to a 32-bit signed \<open>int\<close>.\<close>

definition int32_cast :: "int \<Rightarrow> int" where
  "int32_cast i = (i + 2 ^ 31) mod 2 ^ 32 - 2 ^ 31"

definition atoi :: "string \<Rightarrow> int" where
  "atoi s =
     (let s1 = dropWhile is_space s;
          neg = (case s1 of c # _ \<Rightarrow> c = CHR ''-'' | [] \<Rightarrow> False);
          s2 = (case s1 of c # cs \<Rightarrow> if c = CHR ''-'' \<or> c = CHR ''+'' then cs else s1 | [] \<Rightarrow> []);
          v = int (nat_of_digits (takeWhile is_digit s2))
      in int32_cast (if neg then max (- (2 ^ 63)) (- v) else min (2 ^ 63 - 1) v))"

section \<open>The request line\<close>

definition processRequestLine :: "bytes \<Rightarrow> http_request \<Rightarrow> (bool \<times> http_request) checked" where
  "processRequestLine line r =
     (case find_char CHR '' '' line of
        None \<Rightarrow> Some (False, r)
      | Some sp \<Rightarrow>
          do { (okm, r1) \<leftarrow> setMethod (take sp line) r;
               if \<not> okm then Some (False, r1)
               else
                 (let rest = drop (Suc sp) line
                  in case find_char CHR '' '' rest of
                       None \<Rightarrow> Some (False, r1)
                     | Some sp2 \<Rightarrow>
                         (let url = take sp2 rest;
                              r2 = (case find_char CHR ''?'' url of
                                      Some q \<Rightarrow> r1\<lparr>rq_path := take q url, rq_query := drop q url\<rparr>
                                    | None \<Rightarrow> r1\<lparr>rq_path := url\<rparr>);
                              v = drop (Suc sp2) rest
                          in if length v = 8 \<and> take 7 v = ''HTTP/1.''
                             then if v ! 7 = CHR ''1'' then Some (True, r2\<lparr>rq_version := kHttp11\<rparr>)
                                  else if v ! 7 = CHR ''0'' then Some (True, r2\<lparr>rq_version := kHttp10\<rparr>)
                                  else Some (False, r2)
                             else Some (False, r2))) })"

section \<open>Headers\<close>

text \<open>
  One header line. \<open>atoi\<close> is called on a pointer into the vector, so it reads the memory that follows
  the colon (and skips white space, line ends included), not just the rest of the line.
\<close>

definition header_effect :: "buffer \<Rightarrow> nat \<Rightarrow> nat \<Rightarrow> 'c http_context \<Rightarrow> 'c http_context" where
  "header_effect b colon crlf c =
     (let line = take crlf (peek b);
          field = take colon line;
          pos = Suc colon + length (takeWhile is_space (drop (Suc colon) line));
          c1 = c\<lparr>hc_request := addHeader line colon (hc_request c)\<rparr>
      in if strcaseeq field ''Content-Length''
         then c1\<lparr>hc_contentLength := size_t (atoi (drop (readerIndex b + pos) (buffer_bytes b)))\<rparr>
         else if strcaseeq field ''Transfer-Encoding'' \<and> strcaseeq (drop pos line) ''chunked''
         then c1\<lparr>hc_isChunked := True\<rparr>
         else c1)"

lemma retrieveUntil_decreases:
  assumes "findCRLF b = Some i" and "retrieveUntil (i + 2) b = Some b'"
  shows "readableBytes b' < readableBytes b"
proof -
  have "i + 2 \<le> length (peek b)"
    using find_sub_Some(1) [of CRLF "peek b" i] assms(1) by (simp add: findCRLF_def CRLF_def)
  then have "i + 2 \<le> readableBytes b" by (simp add: peek_def)
  then show ?thesis using assms(2)
    by (auto simp: retrieveUntil_def retrieve_def retrieveAll_def readableBytes_def split: if_splits)
qed

function processHeaders :: "'c http_context \<Rightarrow> buffer \<Rightarrow> ('c http_context \<times> buffer) checked" where
  "processHeaders c b =
     (case findCRLF b of
        None \<Rightarrow> Some (c, b)
      | Some crlf \<Rightarrow>
          (case find_char CHR '':'' (take crlf (peek b)) of
             Some colon \<Rightarrow>
               (case retrieveUntil (crlf + 2) b of
                  None \<Rightarrow> None
                | Some b' \<Rightarrow> processHeaders (header_effect b colon crlf c) b')
           | None \<Rightarrow>
               (case retrieveUntil (crlf + 2) b of
                  None \<Rightarrow> None
                | Some b' \<Rightarrow> Some (c\<lparr>hc_state := kExpectBody\<rparr>, b'))))"
  by pat_completeness auto
termination
  by (relation "measure (\<lambda>(c, b). readableBytes b)") (auto dest: retrieveUntil_decreases)

declare processHeaders.simps [simp del]

section \<open>Body\<close>

definition processBody :: "'c http_context \<Rightarrow> buffer \<Rightarrow> (bool \<times> 'c http_context \<times> buffer) checked" where
  "processBody c b =
     (if hc_isChunked c then Some (False, c, b)
      else
        (let toRead = min (readableBytes b) (remainingLength c)
         in do { (c1, b1) \<leftarrow>
                   (if 0 < toRead
                    then do { b' \<leftarrow> retrieve toRead b;
                              Some (c\<lparr>hc_request := appendToBody (take toRead (peek b)) (hc_request c),
                                      hc_bodyReceived := hc_bodyReceived c + toRead\<rparr>, b') }
                    else Some (c, b));
                 Some (hc_contentLength c1 \<le> hc_bodyReceived c1, c1, b1) }))"

section \<open>The parser loop\<close>

fun parse_loop ::
  "nat \<Rightarrow> int \<Rightarrow> parse_result \<Rightarrow> 'c http_context \<Rightarrow> buffer
     \<Rightarrow> (parse_result \<times> 'c http_context \<times> buffer) run" where
  "parse_loop 0 now result c b = Out_of_fuel"
| "parse_loop (Suc n) now result c b =
     (case hc_state c of
        kExpectRequestLine \<Rightarrow>
          (case findCRLF b of
             None \<Rightarrow> Done (result, c, b)
           | Some crlf \<Rightarrow>
               (case processRequestLine (take crlf (peek b)) (hc_request c) of
                  None \<Rightarrow> Assert_failed
                | Some (ok, r) \<Rightarrow>
                    if ok
                    then (case retrieveUntil (crlf + 2) b of
                            None \<Rightarrow> Assert_failed
                          | Some b' \<Rightarrow>
                              parse_loop n now result
                                (c\<lparr>hc_request := r\<lparr>rq_receiveTime := now\<rparr>, hc_state := kExpectHeaders\<rparr>) b')
                    else Done (kError, c\<lparr>hc_request := r\<rparr>, b)))
      | kExpectHeaders \<Rightarrow>
          (case processHeaders c b of
             None \<Rightarrow> Assert_failed
           | Some (c1, b1) \<Rightarrow>
               if hc_state c1 = kExpectBody
               then if hc_contentLength c1 = 0 \<and> \<not> hc_isChunked c1
                    then Done (kGotRequest, c1\<lparr>hc_state := kGotAll\<rparr>, b1)
                    else if 0 < readableBytes b1 then parse_loop n now kHeadersComplete c1 b1
                    else Done (kHeadersComplete, c1, b1)
               else parse_loop n now result c1 b1)
      | kExpectBody \<Rightarrow>
          (case processBody c b of
             None \<Rightarrow> Assert_failed
           | Some (finished, c1, b1) \<Rightarrow>
               if finished then Done (kGotRequest, c1\<lparr>hc_state := kGotAll\<rparr>, b1)
               else if hc_bodyReceived c1 < hc_contentLength c1 then Done (kHeadersComplete, c1, b1)
               else Done (result, c1, b1))
      | kGotAll \<Rightarrow> parse_loop n now result c b)"

definition parseRequest ::
  "nat \<Rightarrow> 'c http_context \<Rightarrow> buffer \<Rightarrow> int \<Rightarrow> (parse_result \<times> 'c http_context \<times> buffer) run" where
  "parseRequest fuel c b now = parse_loop fuel now kNeedMore c b"

section \<open>Invariant and absence of assertion failures\<close>

text \<open>
  The state the parser keeps between calls. The method is unset while the request line is expected:
  \<open>setMethod\<close> asserts it. A failed request line breaks this part of the invariant.
\<close>

definition ctx_inv :: "'c http_context \<Rightarrow> bool" where
  "ctx_inv c \<longleftrightarrow> (hc_state c = kExpectRequestLine \<longrightarrow> rq_method (hc_request c) = kInvalid)
     \<and> (hc_state c = kExpectRequestLine \<or> hc_state c = kExpectHeaders \<longrightarrow> hc_bodyReceived c = 0)
     \<and> hc_bodyReceived c \<le> hc_contentLength c \<and> hc_contentLength c < size_bound"

lemma size_t_less [simp]: "size_t i < size_bound"
  by (simp add: size_t_def size_bound_def nat_less_iff)

lemma size_t_nat [simp]: "n < size_bound \<Longrightarrow> size_t (int n) = n"
  by (simp add: size_t_def)

lemma remainingLength_inv [simp]: "ctx_inv c \<Longrightarrow> remainingLength c = hc_contentLength c - hc_bodyReceived c"
proof -
  assume "ctx_inv c"
  then have "hc_bodyReceived c \<le> hc_contentLength c" "hc_contentLength c < size_bound"
    by (simp_all add: ctx_inv_def)
  moreover from this(1) have "int (hc_contentLength c) - int (hc_bodyReceived c)
      = int (hc_contentLength c - hc_bodyReceived c)" by simp
  ultimately show ?thesis unfolding remainingLength_def by (metis less_imp_diff_less size_t_nat)
qed

lemma ctx_inv_new: "ctx_inv new_context"
  by (simp add: ctx_inv_def new_context_def new_request_def size_bound_def)

lemma ctx_inv_reset: "ctx_inv (reset_context c)"
  by (simp add: ctx_inv_def reset_context_def swap_request_def new_request_def size_bound_def)

lemma retrieve_line:
  assumes "buf_inv b" and "findCRLF b = Some i"
  shows "\<exists>b'. retrieveUntil (i + 2) b = Some b' \<and> buf_inv b' \<and> peek b' = drop (i + 2) (peek b)"
  using findCRLF_Some [OF assms] retrieve_spec [OF assms(1), of "i + 2"]
  by (auto simp: retrieveUntil_def)

lemma processRequestLine_Some:
  "rq_method r = kInvalid \<Longrightarrow> \<exists>ok r'. processRequestLine line r = Some (ok, r')"
  by (auto simp: processRequestLine_def setMethod_def Let_def split: option.splits if_splits)

lemma header_effect_frame [simp]:
  "hc_state (header_effect b i j c) = hc_state c"
  "hc_bodyReceived (header_effect b i j c) = hc_bodyReceived c"
  "hc_custom (header_effect b i j c) = hc_custom c"
  by (simp_all add: header_effect_def Let_def)

lemma header_effect_length:
  "hc_contentLength c < size_bound \<Longrightarrow> hc_contentLength (header_effect b i j c) < size_bound"
  by (simp add: header_effect_def Let_def)

text \<open>
  \<open>processHeaders\<close> never fails an assertion; it stops either after the blank line, in state
  \<^term>\<open>kExpectBody\<close>, or because no complete line is left, in the state it started in.
\<close>

lemma processHeaders_spec:
  assumes "buf_inv b" and "hc_contentLength c < size_bound"
  shows "\<exists>c1 b1. processHeaders c b = Some (c1, b1) \<and> buf_inv b1 \<and> hc_contentLength c1 < size_bound
    \<and> hc_bodyReceived c1 = hc_bodyReceived c \<and> hc_custom c1 = hc_custom c
    \<and> (hc_state c1 = kExpectBody \<or> hc_state c1 = hc_state c \<and> findCRLF b1 = None)"
  using assms
proof (induction c b rule: processHeaders.induct)
  case (1 c b)
  show ?case
  proof (cases "findCRLF b")
    case None
    with 1 show ?thesis by (subst processHeaders.simps) simp
  next
    case (Some crlf)
    from retrieve_line [OF "1.prems"(1) Some] obtain b' where
      b': "retrieveUntil (crlf + 2) b = Some b'" "buf_inv b'" by blast
    show ?thesis
    proof (cases "find_char CHR '':'' (take crlf (peek b))")
      case None
      with Some b' "1.prems" show ?thesis by (subst processHeaders.simps) simp
    next
      case colon: (Some colon)
      from "1.IH" [OF Some colon b'(1) b'(2) header_effect_length [OF "1.prems"(2)]] Some colon b'(1)
      show ?thesis by (subst processHeaders.simps) auto
    qed
  qed
qed

lemma processBody_chunked: "hc_isChunked c \<Longrightarrow> processBody c b = Some (False, c, b)"
  by (simp add: processBody_def)

lemma processBody_spec:
  assumes "buf_inv b" and "ctx_inv c" and "\<not> hc_isChunked c"
  defines "k \<equiv> min (length (peek b)) (hc_contentLength c - hc_bodyReceived c)"
  shows "\<exists>b'. processBody c b = Some (hc_contentLength c \<le> hc_bodyReceived c + k,
      c\<lparr>hc_request := appendToBody (take k (peek b)) (hc_request c), hc_bodyReceived := hc_bodyReceived c + k\<rparr>, b')
      \<and> buf_inv b' \<and> peek b' = drop k (peek b)"
proof -
  have k: "k = min (readableBytes b) (remainingLength c)" using assms by simp
  show ?thesis
  proof (cases "0 < k")
    case True
    have "k \<le> readableBytes b" using k by simp
    from retrieve_spec [OF assms(1) this] obtain b' where
      "retrieve k b = Some b'" "buf_inv b'" "peek b' = drop k (peek b)" by blast
    with True assms(3) show ?thesis by (simp add: processBody_def Let_def k [symmetric])
  next
    case False
    with assms(1,3) show ?thesis by (simp add: processBody_def Let_def k [symmetric] appendToBody_def)
  qed
qed

text \<open>
  One step of the loop, summarised: from a good state the parser never fails an assertion, and the
  state it leaves is good again unless it reports an error.
\<close>

definition parse_post :: "(parse_result \<times> 'c http_context \<times> buffer) run \<Rightarrow> bool" where
  "parse_post out \<longleftrightarrow>
     (case out of
        Done (res, c, b) \<Rightarrow> buf_inv b \<and> (res \<noteq> kError \<longrightarrow> ctx_inv c)
      | Assert_failed \<Rightarrow> False
      | Out_of_fuel \<Rightarrow> True)"

lemma body_step_post:
  assumes "buf_inv b" and "ctx_inv c" and "hc_state c = kExpectBody"
  shows "parse_post (parse_loop (Suc n) now res c b)"
proof (cases "hc_isChunked c")
  case True
  with assms show ?thesis
    by (simp add: processBody_chunked parse_post_def)
next
  case False
  from processBody_spec [OF assms(1,2) False] assms show ?thesis
    by (auto simp: parse_post_def ctx_inv_def)
qed

lemma parse_loop_post:
  assumes "buf_inv b" and "ctx_inv c"
  shows "parse_post (parse_loop n now res c b)"
  using assms
proof (induction n arbitrary: res c b)
  case 0
  then show ?case by (simp add: parse_post_def)
next
  case (Suc n)
  show ?case
  proof (cases "hc_state c")
    case kExpectRequestLine
    show ?thesis
    proof (cases "findCRLF b")
      case None
      with Suc.prems kExpectRequestLine show ?thesis by (simp add: parse_post_def)
    next
      case (Some crlf)
      from retrieve_line [OF Suc.prems(1) Some] obtain b' where
        b': "retrieveUntil (crlf + 2) b = Some b'" "buf_inv b'" by blast
      from Suc.prems(2) kExpectRequestLine
      obtain ok r where "processRequestLine (take crlf (peek b)) (hc_request c) = Some (ok, r)"
        using processRequestLine_Some by (fastforce simp: ctx_inv_def)
      moreover have "ctx_inv (c\<lparr>hc_request := r\<lparr>rq_receiveTime := now\<rparr>, hc_state := kExpectHeaders\<rparr>)"
        using Suc.prems(2) kExpectRequestLine by (simp add: ctx_inv_def)
      ultimately show ?thesis using Suc.IH b' Suc.prems kExpectRequestLine Some
        by (cases ok) (simp_all add: parse_post_def)
    qed
  next
    case kExpectHeaders
    from processHeaders_spec [OF Suc.prems(1), of c] Suc.prems(2)
    obtain c1 b1 where p: "processHeaders c b = Some (c1, b1)" "buf_inv b1" "hc_contentLength c1 < size_bound"
        "hc_bodyReceived c1 = 0" "hc_state c1 = kExpectBody \<or> hc_state c1 = kExpectHeaders"
      using kExpectHeaders by (fastforce simp: ctx_inv_def)
    then have "ctx_inv c1" "ctx_inv (c1\<lparr>hc_state := kGotAll\<rparr>)" by (auto simp: ctx_inv_def)
    with p Suc.IH kExpectHeaders show ?thesis by (simp add: parse_post_def)
  next
    case kExpectBody
    with Suc.prems show ?thesis by (rule body_step_post)
  next
    case kGotAll
    with Suc show ?thesis by simp
  qed
qed

section \<open>Termination and divergence of the loop\<close>

text \<open>Where the loop cannot make progress: it is re-entered with nothing changed.\<close>

definition headers_end :: "'c http_context \<Rightarrow> buffer \<Rightarrow> bool" where
  "headers_end c b =
     (case processHeaders c b of Some (c1, b1) \<Rightarrow> hc_state c1 = kExpectBody | None \<Rightarrow> True)"

fun parse_stuck :: "int \<Rightarrow> 'c http_context \<Rightarrow> buffer \<Rightarrow> bool" where
  "parse_stuck now c b =
     (case hc_state c of
        kGotAll \<Rightarrow> True
      | kExpectBody \<Rightarrow> False
      | kExpectHeaders \<Rightarrow> \<not> headers_end c b
      | kExpectRequestLine \<Rightarrow>
          (case findCRLF b of
             None \<Rightarrow> False
           | Some crlf \<Rightarrow>
               (case processRequestLine (take crlf (peek b)) (hc_request c) of
                  Some (True, r) \<Rightarrow>
                    (case retrieveUntil (crlf + 2) b of
                       Some b' \<Rightarrow>
                         \<not> headers_end (c\<lparr>hc_request := r\<lparr>rq_receiveTime := now\<rparr>, hc_state := kExpectHeaders\<rparr>) b'
                     | None \<Rightarrow> False)
                | _ \<Rightarrow> False)))"

lemma gotAll_diverges: "hc_state c = kGotAll \<Longrightarrow> parse_loop n now res c b = Out_of_fuel"
  by (induction n) simp_all

lemma no_line_diverges:
  "hc_state c = kExpectHeaders \<Longrightarrow> findCRLF b = None \<Longrightarrow> parse_loop n now res c b = Out_of_fuel"
  by (induction n) (simp_all add: processHeaders.simps [of c b])

lemma headers_open_diverges:
  assumes "buf_inv b" and "ctx_inv c" and "hc_state c = kExpectHeaders" and "\<not> headers_end c b"
  shows "parse_loop n now res c b = Out_of_fuel"
proof (cases n)
  case (Suc m)
  from processHeaders_spec [OF assms(1), of c] assms(2-4)
  obtain c1 b1 where "processHeaders c b = Some (c1, b1)" "hc_state c1 = kExpectHeaders" "findCRLF b1 = None"
    by (fastforce simp: ctx_inv_def headers_end_def)
  with assms(3) Suc no_line_diverges [of c1 b1 m now res] show ?thesis by simp
qed simp

lemma headers_closed_returns:
  assumes "buf_inv b" and "ctx_inv c" and "hc_state c = kExpectHeaders" and "headers_end c b"
  shows "parse_loop (Suc (Suc n)) now res c b \<noteq> Out_of_fuel"
proof -
  from processHeaders_spec [OF assms(1), of c] assms(2-4)
  obtain c1 b1 where p: "processHeaders c b = Some (c1, b1)" "hc_state c1 = kExpectBody"
    by (fastforce simp: ctx_inv_def headers_end_def)
  have "parse_loop (Suc n) now r c1 b1 \<noteq> Out_of_fuel" for r
    using p(2) by (auto split: option.splits)
  with p assms(3) show ?thesis by (simp del: parse_loop.simps(2) add: parse_loop.simps(2) [of "Suc n"])
qed

lemma parse_loop_fuel_cases:
  assumes "buf_inv b" and "ctx_inv c"
  shows "parse_stuck now c b \<Longrightarrow> parse_loop n now res c b = Out_of_fuel"
    and "\<not> parse_stuck now c b \<Longrightarrow> parse_loop (n + 3) now res c b \<noteq> Out_of_fuel"
proof -
  have main: "(parse_stuck now c b \<longrightarrow> parse_loop n now res c b = Out_of_fuel) \<and>
      (\<not> parse_stuck now c b \<longrightarrow> parse_loop (Suc (Suc (Suc n))) now res c b \<noteq> Out_of_fuel)"
  proof (cases "hc_state c")
    case kGotAll
    then show ?thesis by (simp add: gotAll_diverges)
  next
    case kExpectBody
    then show ?thesis by (auto split: option.splits)
  next
    case kExpectHeaders
    then show ?thesis using headers_open_diverges [OF assms kExpectHeaders]
        headers_closed_returns [OF assms kExpectHeaders, of "Suc n"] by simp
  next
    case kExpectRequestLine
    show ?thesis
    proof (cases "findCRLF b")
      case None
      with kExpectRequestLine show ?thesis by simp
    next
      case (Some crlf)
      from retrieve_line [OF assms(1) Some] obtain b' where
        b': "retrieveUntil (crlf + 2) b = Some b'" "buf_inv b'" by blast
      from assms(2) kExpectRequestLine obtain ok r where
        r: "processRequestLine (take crlf (peek b)) (hc_request c) = Some (ok, r)"
        using processRequestLine_Some by (fastforce simp: ctx_inv_def)
      let ?c = "c\<lparr>hc_request := r\<lparr>rq_receiveTime := now\<rparr>, hc_state := kExpectHeaders\<rparr>"
      have c: "ctx_inv ?c" "hc_state ?c = kExpectHeaders"
        using assms(2) kExpectRequestLine by (simp_all add: ctx_inv_def)
      have step: "parse_loop (Suc m) now res c b =
          (if ok then parse_loop m now res ?c b' else Done (kError, c\<lparr>hc_request := r\<rparr>, b))" for m
        using kExpectRequestLine Some r b' by simp
      have stuck: "parse_stuck now c b \<longleftrightarrow> ok \<and> \<not> headers_end ?c b'"
        using kExpectRequestLine Some r b' by (cases ok) simp_all
      show ?thesis using headers_open_diverges [OF b'(2) c] headers_closed_returns [OF b'(2) c, of n]
        by (cases n) (auto simp del: parse_loop.simps(2) parse_stuck.simps simp: step stuck)
    qed
  qed
  show "parse_stuck now c b \<Longrightarrow> parse_loop n now res c b = Out_of_fuel" using main by blast
  show "\<not> parse_stuck now c b \<Longrightarrow> parse_loop (n + 3) now res c b \<noteq> Out_of_fuel"
    using main by (simp add: numeral_3_eq_3)
qed

end
