(* ===== verification/HttpParse.thy ===== *)
theory HttpParse
  imports HttpContext
begin

text \<open>
  The parser against the message grammar: a printer for well-formed requests, the steps of
  \<open>processHeaders\<close> on printed lines, and the resulting round trip. The printer is the reference
  definition; it models no code.
\<close>

section \<open>The reference printer\<close>

definition header_text :: "string \<times> string \<Rightarrow> bytes" where
  "header_text kv = fst kv @ '': '' @ snd kv @ CRLF"

definition request_line :: "http_method \<Rightarrow> string \<Rightarrow> string \<Rightarrow> bytes" where
  "request_line m path query = methodString m @ '' '' @ path @ query @ '' HTTP/1.1''"

definition length_header :: "string \<Rightarrow> (string \<times> string) list" where
  "length_header body = (if body = [] then [] else [(''Content-Length'', show_nat (length body))])"

definition print_request ::
  "http_method \<Rightarrow> string \<Rightarrow> string \<Rightarrow> (string \<times> string) list \<Rightarrow> string \<Rightarrow> bytes" where
  "print_request m path query hdrs body =
     request_line m path query @ CRLF
       @ concat (map header_text (hdrs @ length_header body)) @ CRLF @ body"

definition no_crlf :: "string \<Rightarrow> bool" where
  "no_crlf s \<longleftrightarrow> cr \<notin> set s"

definition trimmed :: "string \<Rightarrow> bool" where
  "trimmed s \<longleftrightarrow> s = [] \<or> \<not> is_space (hd s) \<and> \<not> is_space (last s)"

definition good_header :: "string \<times> string \<Rightarrow> bool" where
  "good_header kv \<longleftrightarrow> CHR '':'' \<notin> set (fst kv) \<and> no_crlf (fst kv) \<and> no_crlf (snd kv) \<and> trimmed (snd kv)"

definition plain_header :: "string \<times> string \<Rightarrow> bool" where
  "plain_header kv \<longleftrightarrow> good_header kv \<and> \<not> strcaseeq (fst kv) ''Content-Length''
     \<and> \<not> strcaseeq (fst kv) ''Transfer-Encoding''"

definition good_target :: "string \<Rightarrow> string \<Rightarrow> bool" where
  "good_target path query \<longleftrightarrow> CHR '' '' \<notin> set path \<and> CHR ''?'' \<notin> set path \<and> no_crlf path
     \<and> CHR '' '' \<notin> set query \<and> no_crlf query \<and> (query = [] \<or> hd query = CHR ''?'')"

definition store_headers :: "(string \<times> string) list \<Rightarrow> (string \<rightharpoonup> string) \<Rightarrow> (string \<rightharpoonup> string)" where
  "store_headers hdrs m = fold (\<lambda>kv m. m(fst kv \<mapsto> snd kv)) hdrs m"

section \<open>Lines\<close>

lemma find_CRLF_line:
  assumes "no_crlf x"
  shows "find_sub CRLF (x @ CRLF @ y) = Some (length x)"
proof (rule find_sub_eqI)
  show "starts_with CRLF (drop (length x) (x @ CRLF @ y))" by simp
  show "\<forall>j<length x. \<not> starts_with CRLF (drop j (x @ CRLF @ y))"
  proof (intro allI impI)
    fix j assume j: "j < length x"
    then have "drop j (x @ CRLF @ y) = x ! j # drop (Suc j) x @ CRLF @ y"
      by (simp add: Cons_nth_drop_Suc)
    moreover have "x ! j \<noteq> cr" using assms nth_mem [OF j] by (auto simp: no_crlf_def)
    ultimately show "\<not> starts_with CRLF (drop j (x @ CRLF @ y))" by (simp add: CRLF_def cr_def)
  qed
qed

lemma findCRLF_line: "peek b = x @ CRLF @ y \<Longrightarrow> no_crlf x \<Longrightarrow> findCRLF b = Some (length x)"
  by (simp add: findCRLF_def find_CRLF_line)

lemma retrieve_printed_line:
  assumes "buf_inv b" and "peek b = x @ CRLF @ y" and "no_crlf x"
  shows "\<exists>b'. retrieveUntil (length x + 2) b = Some b' \<and> buf_inv b' \<and> peek b' = y"
  using retrieve_line [OF assms(1) findCRLF_line [OF assms(2,3)]] assms(2) by (simp add: CRLF_def)

text \<open>The bytes of the vector from a position of the readable region on start with the readable bytes.\<close>

lemma memory_from:
  assumes "peek b = x @ y"
  shows "\<exists>z. drop (readerIndex b + length x) (buffer_bytes b) = y @ z"
proof -
  obtain z where "drop (readerIndex b) (buffer_bytes b) = peek b @ z"
    unfolding peek_def by (metis append_take_drop_id)
  then have "drop (length x) (drop (readerIndex b) (buffer_bytes b)) = y @ z"
    using assms by simp
  then show ?thesis by (auto simp: add.commute)
qed

lemma CRLF_cons: "CRLF = [cr, lf]"
  by (simp add: CRLF_def cr_def lf_def)

lemma is_space_space [simp]: "is_space CHR '' ''" and is_space_cr [simp]: "is_space cr"
  by (simp_all add: is_space_def cr_def)

lemma rtrim_trimmed: "trimmed v \<Longrightarrow> rtrim v = v"
  by (cases v rule: rev_cases) (auto simp: rtrim_def trimmed_def)

lemma ltrim_trimmed: "trimmed v \<Longrightarrow> dropWhile is_space v = v"
  by (cases v) (auto simp: trimmed_def)

section \<open>Header lines\<close>

lemma find_colon:
  "CHR '':'' \<notin> set k \<Longrightarrow> find_char CHR '':'' (k @ '': '' @ v) = Some (length k)"
  using find_char_append [of "CHR '':''" k "CHR '' '' # v"] by simp

lemma addHeader_printed:
  assumes "good_header (k, v)"
  shows "addHeader (k @ '': '' @ v) (length k) r = r\<lparr>rq_headers := (rq_headers r)(k \<mapsto> v)\<rparr>"
  using assms by (simp add: addHeader_def good_header_def rtrim_trimmed ltrim_trimmed)

lemma header_line_step:
  assumes "buf_inv b" and "peek b = header_text (k, v) @ rest" and "good_header (k, v)"
  shows "\<exists>b'. (\<forall>c. processHeaders c b = processHeaders (header_effect b (length k) (length (k @ '': '' @ v)) c) b')
    \<and> buf_inv b' \<and> peek b' = rest"
proof -
  let ?line = "k @ '': '' @ v"
  have p: "peek b = ?line @ CRLF @ rest" using assms(2) by (simp add: header_text_def)
  have n: "no_crlf ?line" using assms(3) by (auto simp: good_header_def no_crlf_def cr_def)
  from retrieve_printed_line [OF assms(1) p n] obtain b' where
    b': "retrieveUntil (length ?line + 2) b = Some b'" "buf_inv b'" "peek b' = rest" by blast
  have "take (length ?line) (peek b) = ?line" using p by simp
  moreover have "find_char CHR '':'' ?line = Some (length k)"
    using assms(3) by (intro find_colon) (simp add: good_header_def)
  ultimately have "processHeaders c b = processHeaders (header_effect b (length k) (length ?line) c) b'" for c
    using findCRLF_line [OF p n] b'(1) by (subst processHeaders.simps) simp
  with b' show ?thesis by blast
qed

lemma header_effect_plain:
  assumes "peek b = header_text (k, v) @ rest" and "plain_header (k, v)"
  shows "header_effect b (length k) (length (k @ '': '' @ v)) c
    = c\<lparr>hc_request := (hc_request c)\<lparr>rq_headers := (rq_headers (hc_request c))(k \<mapsto> v)\<rparr>\<rparr>"
proof -
  have "take (length (k @ '': '' @ v)) (peek b) = k @ '': '' @ v"
    using assms(1) by (simp add: header_text_def)
  with assms(2) addHeader_printed [of k v] show ?thesis
    by (simp add: header_effect_def plain_header_def Let_def)
qed

text \<open>\<open>strtol\<close> stops at the largest \<open>long\<close>; \<open>atoi\<close> then keeps the low 32 bits.\<close>

lemma atoi_digits_cast:
  assumes "\<not> is_digit c"
  shows "atoi (show_nat n @ c # s) = int32_cast (min (2 ^ 63 - 1) (int n))"
proof -
  have d: "list_all is_digit (show_nat n)" by (rule show_nat_digits)
  obtain a as where s: "show_nat n = a # as" by (cases "show_nat n") auto
  have a: "is_digit a" using d s by simp
  then have na: "\<not> is_space a" "a \<noteq> CHR ''-''" "a \<noteq> CHR ''+''"
    by (auto simp: is_digit_def is_space_def)
  have tw: "takeWhile is_digit (show_nat n @ c # s) = show_nat n"
    using d assms by (simp add: takeWhile_append2 list_all_iff)
  then show ?thesis
    using na tw s by (simp add: atoi_def Let_def del: nat_of_digits_show_nat)
      (metis nat_of_digits_show_nat)
qed

lemma int32_cast_small: "n < 2 ^ 31 \<Longrightarrow> int32_cast (int n) = int n"
  by (simp add: int32_cast_def)

lemma length_good_header: "good_header (''Content-Length'', show_nat n)"
proof -
  have sp: "\<forall>x \<in> set (show_nat n). is_digit x" using show_nat_digits [of n] by (simp add: list_all_iff)
  have "cr \<notin> set (show_nat n)" using sp by (auto simp: is_digit_def cr_def)
  moreover have "is_digit (hd (show_nat n))" "is_digit (last (show_nat n))" using sp by auto
  then have "trimmed (show_nat n)" by (auto simp: trimmed_def is_digit_def is_space_def)
  ultimately show ?thesis by (simp add: good_header_def no_crlf_def cr_def)
qed

lemma header_effect_length_printed:
  assumes "peek b = header_text (''Content-Length'', show_nat n) @ rest"
  shows "header_effect b 14 (length (''Content-Length'' @ '': '' @ show_nat n)) c
    = c\<lparr>hc_request := (hc_request c)\<lparr>rq_headers := (rq_headers (hc_request c))(''Content-Length'' \<mapsto> show_nat n)\<rparr>,
        hc_contentLength := size_t (int32_cast (min (2 ^ 63 - 1) (int n)))\<rparr>"
proof -
  let ?line = "''Content-Length'' @ '': '' @ show_nat n"
  have d: "list_all is_digit (show_nat n)" by (rule show_nat_digits)
  obtain a as where s: "show_nat n = a # as" by (cases "show_nat n") auto
  have na: "\<not> is_space a" using d s by (auto simp: is_digit_def is_space_def)
  have line: "take (length ?line) (peek b) = ?line" using assms(1) by (simp add: header_text_def)
  note g = length_good_header [of n]
  have "peek b = (''Content-Length'' @ '': '') @ show_nat n @ CRLF @ rest"
    using assms(1) by (simp add: header_text_def)
  moreover have "length (''Content-Length'' @ '': '') = 16" by simp
  ultimately obtain z where
    z: "drop (readerIndex b + 16) (buffer_bytes b) = show_nat n @ cr # lf # rest @ z"
    using memory_from by (metis CRLF_cons append.assoc append_Cons append_Nil)
  have "\<not> is_digit cr" by (simp add: is_digit_def cr_def)
  from atoi_digits_cast [OF this] z
  have "atoi (drop (readerIndex b + 16) (buffer_bytes b)) = int32_cast (min (2 ^ 63 - 1) (int n))" by simp
  moreover have "strcaseeq ''Content-Length'' ''Content-Length''" by (simp add: strcaseeq_def)
  moreover have "length ''Content-Length'' = 14" by simp
  note ah = addHeader_printed [OF g, unfolded this]
  ultimately show ?thesis
    using line ah na s by (simp add: header_effect_def Let_def)
qed

lemma store_headers_simps [simp]:
  "store_headers [] m = m"
  "store_headers (kv # hdrs) m = store_headers hdrs (m(fst kv \<mapsto> snd kv))"
  "store_headers (hdrs @ hdrs') m = store_headers hdrs' (store_headers hdrs m)"
  by (simp_all add: store_headers_def)

lemma processHeaders_plain:
  assumes "buf_inv b" and "peek b = concat (map header_text hdrs) @ rest"
    and "list_all plain_header hdrs"
  shows "\<exists>b'. processHeaders c b = processHeaders
      (c\<lparr>hc_request := (hc_request c)\<lparr>rq_headers := store_headers hdrs (rq_headers (hc_request c))\<rparr>\<rparr>) b'
      \<and> buf_inv b' \<and> peek b' = rest"
  using assms
proof (induction hdrs arbitrary: b c)
  case Nil
  then show ?case by auto
next
  case (Cons kv hdrs)
  obtain k v where kv: "kv = (k, v)" by force
  have p: "peek b = header_text (k, v) @ concat (map header_text hdrs) @ rest"
    using Cons.prems(2) kv by simp
  have g: "good_header (k, v)" and pl: "plain_header (k, v)"
    using Cons.prems(3) kv by (auto simp: plain_header_def)
  let ?c = "c\<lparr>hc_request := (hc_request c)\<lparr>rq_headers := (rq_headers (hc_request c))(k \<mapsto> v)\<rparr>\<rparr>"
  from header_line_step [OF Cons.prems(1) p g] header_effect_plain [OF p pl] obtain b1 where
    b1: "processHeaders c b = processHeaders ?c b1" "buf_inv b1"
      "peek b1 = concat (map header_text hdrs) @ rest" by metis
  from Cons.IH [OF b1(2,3), of ?c] Cons.prems(3) b1(1) kv show ?case
    by (simp del: fun_upd_apply)
qed

lemma processHeaders_blank:
  assumes "buf_inv b" and "peek b = CRLF @ rest"
  shows "\<exists>b'. processHeaders c b = Some (c\<lparr>hc_state := kExpectBody\<rparr>, b') \<and> buf_inv b' \<and> peek b' = rest"
proof -
  have p: "peek b = [] @ CRLF @ rest" and n: "no_crlf []" using assms(2) by (simp_all add: no_crlf_def)
  from retrieve_printed_line [OF assms(1) p n] findCRLF_line [OF p n] show ?thesis
    by (subst processHeaders.simps) auto
qed

lemma processHeaders_printed:
  fixes c :: "'c http_context"
  assumes "buf_inv b" and "peek b = concat (map header_text (hdrs @ length_header body)) @ CRLF @ rest"
    and "list_all plain_header hdrs" and "length body < 2 ^ 31"
  shows "\<exists>b' n. processHeaders c b = Some (c\<lparr>hc_request := (hc_request c)\<lparr>rq_headers :=
        store_headers (hdrs @ length_header body) (rq_headers (hc_request c))\<rparr>,
        hc_contentLength := n, hc_state := kExpectBody\<rparr>, b')
      \<and> n = (if body = [] then hc_contentLength c else length body) \<and> buf_inv b' \<and> peek b' = rest"
proof -
  have "peek b = concat (map header_text hdrs) @ concat (map header_text (length_header body)) @ CRLF @ rest"
    using assms(2) by simp
  from processHeaders_plain [OF assms(1) this assms(3), of c] obtain b1 where
    b1: "processHeaders c b = processHeaders
        (c\<lparr>hc_request := (hc_request c)\<lparr>rq_headers := store_headers hdrs (rq_headers (hc_request c))\<rparr>\<rparr>) b1"
      "buf_inv b1" "peek b1 = concat (map header_text (length_header body)) @ CRLF @ rest" by blast
  show ?thesis
  proof (cases "body = []")
    case True
    with b1 processHeaders_blank [OF b1(2), of rest] show ?thesis
      by (fastforce simp: length_header_def)
  next
    case False
    with b1(3) have p: "peek b1 = header_text (''Content-Length'', show_nat (length body)) @ CRLF @ rest"
      by (simp add: length_header_def)
    have l14: "length ''Content-Length'' = 14" by simp
    have "min (2 ^ 63 - 1) (int (length body)) = int (length body)" "length body < size_bound"
      using assms(4) by (simp_all add: size_bound_def)
    then have sz: "size_t (int32_cast (min (2 ^ 63 - 1) (int (length body)))) = length body"
      using int32_cast_small [OF assms(4)] by simp
    from header_line_step [OF b1(2) p length_good_header, unfolded l14] obtain b2 where
      b2: "\<And>c :: 'c http_context. processHeaders c b1 = processHeaders
        (c\<lparr>hc_request := (hc_request c)\<lparr>rq_headers :=
             (rq_headers (hc_request c))(''Content-Length'' \<mapsto> show_nat (length body))\<rparr>,
           hc_contentLength := length body\<rparr>) b2" "buf_inv b2" "peek b2 = CRLF @ rest"
      unfolding header_effect_length_printed [OF p] sz by blast
    let ?c = "c\<lparr>hc_request := (hc_request c)\<lparr>rq_headers := store_headers hdrs (rq_headers (hc_request c))\<rparr>\<rparr>"
    let ?d = "?c\<lparr>hc_request := (hc_request ?c)\<lparr>rq_headers :=
             (rq_headers (hc_request ?c))(''Content-Length'' \<mapsto> show_nat (length body))\<rparr>,
           hc_contentLength := length body\<rparr>"
    from processHeaders_blank [OF b2(2,3), of ?d] obtain b3 where
      "processHeaders ?d b2 = Some (?d\<lparr>hc_state := kExpectBody\<rparr>, b3)" "buf_inv b3" "peek b3 = rest" by blast
    with b1(1) b2(1) [of ?c] False show ?thesis
      by (simp add: length_header_def del: fun_upd_apply)
  qed
qed

lemma methodString_inject:
  assumes "m \<noteq> kInvalid" and "rq_method r = kInvalid"
  shows "setMethod (methodString m) r = Some (True, r\<lparr>rq_method := m\<rparr>)"
  using assms by (cases m) (simp_all add: setMethod_def)

lemma methodString_no_space: "CHR '' '' \<notin> set (methodString m)"
  by (cases m) simp_all

lemma processRequestLine_printed:
  assumes "m \<noteq> kInvalid" and "good_target path query" and "rq_method r = kInvalid" and "rq_query r = []"
  shows "processRequestLine (request_line m path query) r
    = Some (True, r\<lparr>rq_method := m, rq_path := path, rq_query := query, rq_version := kHttp11\<rparr>)"
proof -
  let ?rest = "path @ query @ '' HTTP/1.1''"
  have f1: "find_char CHR '' '' (request_line m path query) = Some (length (methodString m))"
    using find_char_append [OF methodString_no_space, of m ?rest] by (simp add: request_line_def)
  have sp: "CHR '' '' \<notin> set (path @ query)" using assms(2) by (simp add: good_target_def)
  have f2: "find_char CHR '' '' ?rest = Some (length (path @ query))"
    using find_char_append [OF sp, of "''HTTP/1.1''"] by simp
  have f3: "find_char CHR ''?'' (path @ query) = (if query = [] then None else Some (length path))"
  proof (cases query)
    case Nil
    with assms(2) show ?thesis by (simp add: good_target_def find_char_None)
  next
    case (Cons a as)
    with assms(2) have "a = CHR ''?''" "CHR ''?'' \<notin> set path" by (auto simp: good_target_def)
    with Cons find_char_append show ?thesis by simp
  qed
  show ?thesis
    using methodString_inject [OF assms(1,3)] f1 f2 f3 assms(4)
    by (simp add: processRequestLine_def request_line_def Let_def)
qed

section \<open>Properties of the parser\<close>

lemma no_crlf_request_line:
  assumes "good_target path query"
  shows "no_crlf (request_line m path query)"
  using assms by (cases m) (auto simp: no_crlf_def request_line_def good_target_def cr_def)

lemma parse_printed:
  assumes "buf_inv b" and "peek b = print_request m path query hdrs body @ rest"
    and "m \<noteq> kInvalid" and "good_target path query" and "list_all plain_header hdrs"
    and "length body < 2 ^ 31"
  shows "\<exists>c b'. parseRequest 3 (new_context :: 'c http_context) b now = Done (kGotRequest, c, b')
    \<and> hc_state c = kGotAll \<and> buf_inv b' \<and> peek b' = rest
    \<and> hc_request c = \<lparr>rq_method = m, rq_version = kHttp11, rq_path = path, rq_query = query,
        rq_body = body, rq_receiveTime = now,
        rq_headers = store_headers (hdrs @ length_header body) Map.empty, rq_pathParams = Map.empty\<rparr>"
proof -
  let ?line = "request_line m path query"
  let ?hs = "concat (map header_text (hdrs @ length_header body))"
  let ?H = "store_headers (hdrs @ length_header body) Map.empty"
  have p: "peek b = ?line @ CRLF @ ?hs @ CRLF @ body @ rest"
    using assms(2) by (simp add: print_request_def)
  note n = no_crlf_request_line [OF assms(4), of m]
  from retrieve_printed_line [OF assms(1) p n] obtain b1 where
    b1: "retrieveUntil (length ?line + 2) b = Some b1" "buf_inv b1" "peek b1 = ?hs @ CRLF @ body @ rest" by blast
  let ?r = "new_request\<lparr>rq_method := m, rq_path := path, rq_query := query, rq_version := kHttp11\<rparr>"
  let ?c1 = "(new_context :: 'c http_context)\<lparr>hc_request := ?r\<lparr>rq_receiveTime := now\<rparr>, hc_state := kExpectHeaders\<rparr>"
  have "processRequestLine ?line new_request = Some (True, ?r)"
    by (rule processRequestLine_printed [OF assms(3,4)]) (simp_all add: new_request_def)
  then have step1: "parseRequest 3 (new_context :: 'c http_context) b now = parse_loop 2 now kNeedMore ?c1 b1"
    using findCRLF_line [OF p n] b1(1) p
    by (simp add: parseRequest_def numeral_3_eq_3 numeral_2_eq_2 new_context_def)
  from processHeaders_printed [OF b1(2,3) assms(5,6), of ?c1] obtain b2 where
    b2: "processHeaders ?c1 b1 = Some (?c1\<lparr>hc_request := ?r\<lparr>rq_receiveTime := now, rq_headers := ?H\<rparr>,
        hc_contentLength := length body, hc_state := kExpectBody\<rparr>, b2)" "buf_inv b2" "peek b2 = body @ rest"
    by (auto simp: new_context_def new_request_def split: if_splits)
  let ?c2 = "?c1\<lparr>hc_request := ?r\<lparr>rq_receiveTime := now, rq_headers := ?H\<rparr>,
        hc_contentLength := length body, hc_state := kExpectBody\<rparr>"
  show ?thesis
  proof (cases "body = []")
    case True
    with b2 step1 show ?thesis
      by (simp add: numeral_2_eq_2 new_context_def new_request_def)
  next
    case False
    have inv2: "ctx_inv ?c2" and nch: "\<not> hc_isChunked ?c2"
      using assms(6) by (simp_all add: ctx_inv_def new_context_def new_request_def size_bound_def)
    have "0 < readableBytes b2" using b2(2,3) False by (metis length_greater_0_conv length_peek Nil_is_append_conv)
    moreover from processBody_spec [OF b2(2) inv2 nch] b2(3) obtain b3 where
      "processBody ?c2 b2 = Some (True, ?c2\<lparr>hc_request := appendToBody body (hc_request ?c2),
          hc_bodyReceived := length body\<rparr>, b3)" "buf_inv b3" "peek b3 = rest"
      by (auto simp: new_context_def)
    ultimately show ?thesis using b2(1) step1 False
      by (simp add: numeral_2_eq_2 new_context_def new_request_def appendToBody_def)
  qed
qed

text \<open>
  C1: Round trip. A well-formed request with its body, at the front of the input buffer, is parsed in
  one call (three iterations of the loop) into exactly its method, target, headers and body, and the
  bytes after it stay in the buffer.
\<close>

theorem parse_print_roundtrip:
  assumes "buf_inv b" and "peek b = print_request m path query hdrs body @ rest"
    and "m \<noteq> kInvalid" and "good_target path query" and "list_all plain_header hdrs"
    and "length body < 2 ^ 31"
  shows "\<exists>c b'. parseRequest 3 (new_context :: 'c http_context) b now = Done (kGotRequest, c, b')
    \<and> hc_state c = kGotAll \<and> buf_inv b' \<and> peek b' = rest
    \<and> hc_request c = \<lparr>rq_method = m, rq_version = kHttp11, rq_path = path, rq_query = query,
        rq_body = body, rq_receiveTime = now,
        rq_headers = store_headers (hdrs @ length_header body) Map.empty, rq_pathParams = Map.empty\<rparr>"
  using assms by (rule parse_printed)

theorem parse_print_roundtrip_witness:
  "\<exists>c b'. parseRequest 3 (new_context :: unit http_context)
      (buffer_of (print_request kPost ''/login'' ''?a=1'' [(''Host'', ''h'')] ''body'' @ ''next'')) 7
      = Done (kGotRequest, c, b')
    \<and> hc_state c = kGotAll \<and> buf_inv b' \<and> peek b' = ''next''
    \<and> hc_request c = \<lparr>rq_method = kPost, rq_version = kHttp11, rq_path = ''/login'', rq_query = ''?a=1'',
        rq_body = ''body'', rq_receiveTime = 7,
        rq_headers = store_headers ([(''Host'', ''h'')] @ length_header ''body'') Map.empty,
        rq_pathParams = Map.empty\<rparr>"
  by (rule parse_print_roundtrip [OF buf_inv_buffer_of peek_buffer_of])
     (simp_all add: good_target_def no_crlf_def cr_def plain_header_def good_header_def trimmed_def
       is_space_def strcaseeq_def c_str_def to_lower_def)



text \<open>
  A request whose header lines have not all arrived when the request line is read makes the server
  spin: if the bytes after the request line hold no complete line, no number of iterations ends
  \<open>parseRequest\<close>, although nothing is wrong with the request.
\<close>

lemma split_request_diverges:
  assumes "buf_inv b" and "peek b = request_line m path query @ CRLF @ rest"
    and "m \<noteq> kInvalid" and "good_target path query" and "find_sub CRLF rest = None"
  shows "parseRequest fuel (new_context :: 'c http_context) b now = Out_of_fuel"
proof (cases fuel)
  case (Suc n)
  note nc = no_crlf_request_line [OF assms(4), of m]
  from retrieve_printed_line [OF assms(1,2) nc] obtain b1 where
    b1: "retrieveUntil (length (request_line m path query) + 2) b = Some b1" "peek b1 = rest" by blast
  have "findCRLF b1 = None" using b1(2) assms(5) by (simp add: findCRLF_def)
  then have d: "hc_state c = kExpectHeaders \<Longrightarrow> parse_loop n now kNeedMore c b1 = Out_of_fuel"
    for c :: "'c http_context" by (rule no_line_diverges [rotated])
  have "processRequestLine (request_line m path query) new_request = Some (True,
      new_request\<lparr>rq_method := m, rq_path := path, rq_query := query, rq_version := kHttp11\<rparr>)"
    by (rule processRequestLine_printed [OF assms(3,4)]) (simp_all add: new_request_def)
  then show ?thesis
    using Suc findCRLF_line [OF assms(2) nc] b1(1) assms(2) d
    by (simp add: parseRequest_def new_context_def)
qed (simp add: parseRequest_def)

lemma split_request_diverges_witness:
  "parseRequest 1000 (new_context :: unit http_context)
     (buffer_of (request_line kGet ''/'' [] @ CRLF @ ''Host: exam'')) 0 = Out_of_fuel"
  by (rule split_request_diverges [OF buf_inv_buffer_of peek_buffer_of])
     (simp_all add: good_target_def no_crlf_def cr_def CRLF_def)

text \<open>The body arriving in segments: each is appended to the input buffer and the parser is called.\<close>

fun feed :: "int \<Rightarrow> bytes list \<Rightarrow> 'c http_context \<Rightarrow> buffer \<Rightarrow> (parse_result list \<times> 'c http_context \<times> buffer) run" where
  "feed now [] c b = Done ([], c, b)"
| "feed now (d # ds) c b =
     run_bind (of_checked (buf_append d b)) (\<lambda>b1.
       run_bind (parseRequest 3 c b1 now) (\<lambda>(res, c2, b2).
         run_bind (feed now ds c2 b2) (\<lambda>(ress, c3, b3). Done (res # ress, c3, b3))))"

lemma parse_body_step:
  assumes "buf_inv b" and "ctx_inv c" and "hc_state c = kExpectBody" and "\<not> hc_isChunked c"
    and "length (peek b) \<le> hc_contentLength c - hc_bodyReceived c"
  defines "c1 \<equiv> c\<lparr>hc_request := appendToBody (peek b) (hc_request c),
      hc_bodyReceived := hc_bodyReceived c + length (peek b)\<rparr>"
  defines "full \<equiv> hc_contentLength c \<le> hc_bodyReceived c + length (peek b)"
  shows "\<exists>b'. parse_loop (Suc n) now res c b
      = Done (if full then kGotRequest else kHeadersComplete, if full then c1\<lparr>hc_state := kGotAll\<rparr> else c1, b')
      \<and> buf_inv b' \<and> peek b' = []"
proof -
  have "min (length (peek b)) (hc_contentLength c - hc_bodyReceived c) = length (peek b)"
    using assms(5) by simp
  with processBody_spec [OF assms(1,2,4)] obtain b' where
    "processBody c b = Some (full, c1, b')" "buf_inv b'" "peek b' = []"
    by (auto simp: c1_def full_def)
  with assms(3) show ?thesis by (auto simp: full_def c1_def)
qed

text \<open>
  C26: The body may arrive in any number of segments: every segment but the last leaves the parser
  waiting with \<open>kHeadersComplete\<close>, the last one completes the request, the stored body is the
  concatenation of the segments and the buffer is drained.
\<close>

theorem body_segments:
  assumes "buf_inv b" and "peek b = []" and "ctx_inv c" and "hc_state c = kExpectBody"
    and "\<not> hc_isChunked c" and "d \<noteq> []"
    and "length (concat ds @ d) = hc_contentLength c - hc_bodyReceived c"
  shows "\<exists>c' b'. feed now (ds @ [d]) c b = Done (replicate (length ds) kHeadersComplete @ [kGotRequest], c', b')
    \<and> hc_state c' = kGotAll \<and> rq_body (hc_request c') = rq_body (hc_request c) @ concat ds @ d
    \<and> hc_bodyReceived c' = hc_contentLength c \<and> buf_inv b' \<and> peek b' = []"
  using assms
proof (induction ds arbitrary: b c)
  case Nil
  from append_spec [OF Nil.prems(1), of d] Nil.prems(2) obtain b1 where
    b1: "buf_append d b = Some b1" "buf_inv b1" "peek b1 = d" by auto
  have le: "length (peek b1) \<le> hc_contentLength c - hc_bodyReceived c" using Nil.prems(7) b1(3) by simp
  from parse_body_step [OF b1(2) Nil.prems(3-5) le, of 2 now kNeedMore] Nil.prems(3,7) b1 show ?case
    by (auto simp: parseRequest_def numeral_3_eq_3 numeral_2_eq_2 appendToBody_def ctx_inv_def
        simp del: parse_loop.simps)
next
  case (Cons e ds)
  from append_spec [OF Cons.prems(1), of e] Cons.prems(2) obtain b1 where
    b1: "buf_append e b = Some b1" "buf_inv b1" "peek b1 = e" by auto
  have le: "length (peek b1) \<le> hc_contentLength c - hc_bodyReceived c" using Cons.prems(7) b1(3) by simp
  have notfull: "\<not> hc_contentLength c \<le> hc_bodyReceived c + length (peek b1)"
    using Cons.prems(6,7) b1(3) by (cases d) auto
  let ?c = "c\<lparr>hc_request := appendToBody e (hc_request c), hc_bodyReceived := hc_bodyReceived c + length e\<rparr>"
  from parse_body_step [OF b1(2) Cons.prems(3-5) le, of 2 now kNeedMore] notfull b1(3) obtain b2 where
    b2: "parse_loop 3 now kNeedMore c b1 = Done (kHeadersComplete, ?c, b2)" "buf_inv b2" "peek b2 = []"
    by (auto simp: numeral_3_eq_3 numeral_2_eq_2 simp del: parse_loop.simps)
  have "ctx_inv ?c" using Cons.prems(3,4,7) by (auto simp: ctx_inv_def)
  moreover have "length (concat ds @ d) = hc_contentLength ?c - hc_bodyReceived ?c"
    using Cons.prems(7) by auto
  ultimately show ?case using Cons.IH [OF b2(2,3), of ?c] Cons.prems b1(1) b2(1)
    by (auto simp: parseRequest_def appendToBody_def)
qed

definition body_ctx :: "unit http_context" where
  "body_ctx = new_context\<lparr>hc_state := kExpectBody, hc_contentLength := 5\<rparr>"

theorem body_segments_witness:
  "\<exists>c' b'. feed 0 ([''he'', ''l''] @ [''lo'']) body_ctx (new_buffer 0)
     = Done (replicate (length [''he'', ''l'']) kHeadersComplete @ [kGotRequest], c', b')
    \<and> hc_state c' = kGotAll \<and> rq_body (hc_request c') = rq_body (hc_request body_ctx) @ concat [''he'', ''l''] @ ''lo''
    \<and> hc_bodyReceived c' = hc_contentLength body_ctx \<and> buf_inv b' \<and> peek b' = []"
  by (rule body_segments [OF buf_inv_new peek_new])
     (simp_all add: body_ctx_def ctx_inv_def new_context_def size_bound_def)

lemma processHeaders_state:
  "processHeaders c b = Some (c1, b1) \<Longrightarrow> hc_state c1 = kExpectBody \<or> hc_state c1 = hc_state c"
proof (induction c b rule: processHeaders.induct)
  case (1 c b)
  from "1.prems" show ?case
    by (subst (asm) processHeaders.simps) (auto split: option.splits dest: "1.IH")
qed

lemma parse_loop_no_late_error:
  "hc_state c \<noteq> kExpectRequestLine \<Longrightarrow> res \<noteq> kError \<Longrightarrow> parse_loop n now res c b \<noteq> Done (kError, c1, b1)"
proof (induction n arbitrary: res c b)
  case (Suc n)
  show ?case
  proof (cases "hc_state c")
    case kExpectHeaders
    then show ?thesis
      using Suc processHeaders_state [of c b] by (auto split: option.splits)
  qed (use Suc in \<open>auto split: option.splits\<close>)
qed simp

lemma parse_error_cause:
  assumes "parseRequest fuel c b now = Done (kError, c1, b1)"
  shows "\<exists>crlf r. hc_state c = kExpectRequestLine \<and> findCRLF b = Some crlf \<and> b1 = b \<and> c1 = c\<lparr>hc_request := r\<rparr>
    \<and> processRequestLine (take crlf (peek b)) (hc_request c) = Some (False, r)"
proof (cases fuel)
  case (Suc n)
  have "hc_state c = kExpectRequestLine"
    using parse_loop_no_late_error [of c kNeedMore fuel now b c1 b1] assms by (auto simp: parseRequest_def)
  with assms Suc show ?thesis
    by (auto simp: parseRequest_def parse_loop_no_late_error split: option.splits if_splits)
qed (use assms in \<open>simp add: parseRequest_def\<close>)

text \<open>The request lines that the parser means to accept, as a grammar.\<close>

definition request_line_ok :: "string \<Rightarrow> bool" where
  "request_line_ok line \<longleftrightarrow> (\<exists>m target v. m \<noteq> kInvalid \<and> CHR '' '' \<notin> set target \<and> v \<in> {CHR ''0'', CHR ''1''}
     \<and> line = methodString m @ '' '' @ target @ '' HTTP/1.'' @ [v])"

lemma setMethod_accepts:
  assumes "setMethod s r = Some (True, r1)"
  shows "\<exists>m. m \<noteq> kInvalid \<and> s = methodString m"
  using assms methodString.simps by (auto simp: setMethod_def Let_def split: if_splits)

lemma processRequestLine_accepts:
  assumes "processRequestLine line r = Some (True, r')"
  shows "request_line_ok line"
proof -
  obtain sp where sp: "find_char CHR '' '' line = Some sp"
    using assms by (cases "find_char CHR '' '' line") (auto simp: processRequestLine_def)
  then obtain r1 where r1: "setMethod (take sp line) r = Some (True, r1)"
    using assms by (auto simp: processRequestLine_def split: if_splits Option.bind_splits)
  let ?rest = "drop (Suc sp) line"
  obtain sp2 where sp2: "find_char CHR '' '' ?rest = Some sp2"
    using assms sp r1 by (cases "find_char CHR '' '' ?rest") (auto simp: processRequestLine_def)
  let ?v = "drop (Suc sp2) ?rest"
  have v: "length ?v = 8" "take 7 ?v = ''HTTP/1.''" "?v ! 7 \<in> {CHR ''0'', CHR ''1''}"
    using assms sp r1 sp2 by (auto simp: processRequestLine_def Let_def split: if_splits)
  from v(1) have "?v = take 7 ?v @ [?v ! 7]" using take_Suc_conv_app_nth [of 7 ?v] by simp
  with v(2) have "?v = ''HTTP/1.'' @ [?v ! 7]" by simp
  with find_char_split [OF sp] find_char_split [OF sp2]
  have "line = take sp line @ '' '' @ take sp2 ?rest @ '' HTTP/1.'' @ [?v ! 7]" by simp
  moreover from setMethod_accepts [OF r1] obtain m where "m \<noteq> kInvalid" "take sp line = methodString m" by blast
  moreover have "CHR '' '' \<notin> set (take sp2 ?rest)" using find_char_Some [OF sp2] by simp
  ultimately show ?thesis unfolding request_line_ok_def using v(3) by metis
qed

lemma processRequestLine_exact:
  assumes "rq_method r = kInvalid"
  shows "(\<exists>r'. processRequestLine line r = Some (True, r')) \<longleftrightarrow> request_line_ok line"
proof
  assume "request_line_ok line"
  then obtain m target v where l: "m \<noteq> kInvalid" "CHR '' '' \<notin> set target" "v = CHR ''0'' \<or> v = CHR ''1''"
    "line = methodString m @ CHR '' '' # target @ CHR '' '' # ''HTTP/1.'' @ [v]" by (auto simp: request_line_ok_def)
  with find_char_append [OF methodString_no_space] find_char_append [OF l(2)] methodString_inject [OF l(1) assms]
  show "\<exists>r'. processRequestLine line r = Some (True, r')" by (auto simp: processRequestLine_def Let_def)
qed (use processRequestLine_accepts in blast)

lemma findCRLF_append:
  assumes "findCRLF b = Some i" and "peek b' = peek b @ d"
  shows "findCRLF b' = Some i" and "take i (peek b') = take i (peek b)"
proof -
  have l: "i + 2 \<le> length (peek b)"
    using find_sub_Some(1) assms(1) by (fastforce simp: findCRLF_def CRLF_def)
  then show "take i (peek b') = take i (peek b)" using assms(2) by simp
  have eq: "starts_with CRLF (drop j (peek b')) = starts_with CRLF (drop j (peek b))" if "j \<le> i" for j
    using that l assms(2) by (auto simp: starts_with_def CRLF_def)
  show "findCRLF b' = Some i"
    using find_sub_Some [of CRLF "peek b" i] assms(1) eq
    by (auto simp: findCRLF_def intro!: find_sub_eqI)
qed

text \<open>
  After a request line with a known method is rejected, the parser has stored the method and left
  the line in the buffer; the next segment on the connection, whatever it is, fails the assertion of
  \<open>setMethod\<close> and aborts the process (the connection's read side stays open after the 400 reply).
\<close>

lemma rejected_line_then_abort:
  assumes "buf_inv b" and "parseRequest fuel c b now = Done (kError, c1, b1)"
    and "rq_method (hc_request c1) \<noteq> kInvalid" and "ctx_inv c"
  shows "\<exists>b2. buf_append d b1 = Some b2 \<and> parseRequest (Suc n) c1 b2 later = Assert_failed"
proof -
  from parse_error_cause [OF assms(2)] obtain crlf r where
    e: "hc_state c = kExpectRequestLine" "findCRLF b = Some crlf" "b1 = b" "c1 = c\<lparr>hc_request := r\<rparr>"
      "processRequestLine (take crlf (peek b)) (hc_request c) = Some (False, r)" by blast
  from append_spec [OF assms(1), of d] obtain b2 where
    b2: "buf_append d b = Some b2" "peek b2 = peek b @ d" by blast
  have "processRequestLine (take crlf (peek b)) r = None"
    using e(1,4,5) assms(3,4)
    by (auto simp: processRequestLine_def ctx_inv_def setMethod_def Let_def split: option.splits if_splits)
  with e findCRLF_append [OF e(2) b2(2)] b2(1) show ?thesis
    by (simp add: parseRequest_def)
qed

lemma rejected_line_then_abort_witness:
  "\<exists>c1 b1 b2. parseRequest 3 (new_context :: unit http_context) (buffer_of (''GET /'' @ CRLF)) 0 = Done (kError, c1, b1)
     \<and> buf_append ''x'' b1 = Some b2 \<and> parseRequest (Suc 0) c1 b2 1 = Assert_failed"
proof -
  let ?b = "buffer_of (''GET /'' @ CRLF)"
  let ?c = "(new_context :: unit http_context)\<lparr>hc_request := new_request\<lparr>rq_method := kGet\<rparr>\<rparr>"
  have "parseRequest 3 (new_context :: unit http_context) ?b 0 = Done (kError, ?c, ?b)"
    by (simp add: parseRequest_def numeral_3_eq_3 new_context_def new_request_def findCRLF_def peek_buffer_of
        CRLF_def processRequestLine_def setMethod_def)
  moreover from rejected_line_then_abort [OF buf_inv_buffer_of this _ ctx_inv_new, of "''x''" 0 1]
  obtain b2 where "buf_append ''x'' ?b = Some b2" "parseRequest (Suc 0) ?c b2 1 = Assert_failed" by auto
  ultimately show ?thesis by blast
qed

lemma size_t_int32_range: "size_t (int32_cast x) < 2 ^ 31 \<or> 2 ^ 63 \<le> size_t (int32_cast x)"
proof -
  have r: "- (2 ^ 31) \<le> int32_cast x" "int32_cast x < 2 ^ 31"
    by (auto simp: int32_cast_def)
  show ?thesis
  proof (cases "0 \<le> int32_cast x")
    case True
    with r(2) show ?thesis by (simp add: size_t_def size_bound_def nat_less_iff)
  next
    case False
    with r(1) have "int32_cast x mod 2 ^ 64 = int32_cast x + 2 ^ 64"
      by (intro int_mod_pos_eq [where q = "- 1"]) auto
    with r(1) show ?thesis by (simp add: size_t_def size_bound_def le_nat_iff)
  qed
qed

lemma size_t_minus_one: "size_t (- 1) = 2 ^ 64 - 1"
  by (simp add: size_t_def size_bound_def)

lemma int32_cast_long_max: "int32_cast (2 ^ 63 - 1) = - 1"
  by (simp add: int32_cast_def)

lemma stored_length_exact_iff:
  "size_t (int32_cast (min (2 ^ 63 - 1) (int n))) = n \<longleftrightarrow> n < 2 ^ 31 \<or> n = 2 ^ 64 - 1"
proof (cases "n < 2 ^ 63")
  case True
  then have "min (2 ^ 63 - 1) (int n) = int n" by simp
  moreover have "size_t (int32_cast (int n)) = n" if "n < 2 ^ 31"
    using that by (simp add: int32_cast_small size_bound_def)
  ultimately show ?thesis using size_t_int32_range [of "int n"] True by auto
next
  case False
  then have "min (2 ^ 63 - 1) (int n) = 2 ^ 63 - 1" by simp
  then have "size_t (int32_cast (min (2 ^ 63 - 1) (int n))) = 2 ^ 64 - 1"
    by (simp only: int32_cast_long_max size_t_minus_one)
  with False show ?thesis by auto
qed

text \<open>
  C40: A declared body length, of whatever size, is stored exactly when it is below \<open>2^31\<close>, or is \<open>2^64 - 1\<close>: \<open>atoi\<close>
  (\<open>strtol\<close>, which stops at the largest \<open>long\<close>, cut to a signed 32-bit number, as the C library of the platform
  does it) stands between the header and the \<open>size_t\<close>. Every other length from \<open>2^31\<close> on is stored as a different number,
  below \<open>2^31\<close> or at least \<open>2^63\<close>; those from \<open>2^63\<close> on all as \<open>2^64 - 1\<close>.
\<close>

theorem content_length_exact_iff_small:
  assumes "buf_inv b" and "peek b = header_text (''Content-Length'', show_nat n) @ CRLF @ rest"
  shows "\<exists>c1 b1. processHeaders c b = Some (c1, b1)
    \<and> (hc_contentLength c1 = n \<longleftrightarrow> n < 2 ^ 31 \<or> n = 2 ^ 64 - 1)
    \<and> (hc_contentLength c1 < 2 ^ 31 \<or> 2 ^ 63 \<le> hc_contentLength c1)
    \<and> (2 ^ 63 \<le> n \<longrightarrow> hc_contentLength c1 = 2 ^ 64 - 1)"
proof -
  let ?m = "size_t (int32_cast (min (2 ^ 63 - 1) (int n)))"
  have l14: "length ''Content-Length'' = 14" by simp
  from header_line_step [OF assms(1,2) length_good_header, unfolded l14] obtain b1 where
    b1: "processHeaders c b = processHeaders (header_effect b 14
        (length (''Content-Length'' @ '': '' @ show_nat n)) c) b1" "buf_inv b1" "peek b1 = CRLF @ rest" by blast
  from processHeaders_blank [OF b1(2,3)] b1(1) header_effect_length_printed [OF assms(2), of c]
  obtain c1 b2 where c1: "processHeaders c b = Some (c1, b2)" "hc_contentLength c1 = ?m"
    by fastforce
  have "?m = 2 ^ 64 - 1" if "2 ^ 63 \<le> n"
  proof -
    from that have "min (2 ^ 63 - 1) (int n) = 2 ^ 63 - 1" by simp
    then show ?thesis by (simp only: int32_cast_long_max size_t_minus_one)
  qed
  with c1 stored_length_exact_iff [of n] size_t_int32_range [of "min (2 ^ 63 - 1) (int n)"] show ?thesis by auto
qed

theorem content_length_exact_iff_small_witness:
  "\<exists>c1 b1. processHeaders (new_context :: unit http_context)
      (buffer_of (header_text (''Content-Length'', show_nat 4294967296) @ CRLF @ [])) = Some (c1, b1)
    \<and> hc_contentLength c1 \<noteq> 4294967296"
  using content_length_exact_iff_small [OF buf_inv_buffer_of peek_buffer_of,
    where n = 4294967296 and rest = "[]" and c = "new_context :: unit http_context"]
  by auto

end
