(* ===== verification/OrderedMap.thy ===== *)
theory OrderedMap
  imports Prelude "HOL-Library.Char_ord" "HOL-Library.List_Lexorder"
begin

text \<open>
  \<open>std::map\<close> as the sources use it: a list of entries with strictly increasing keys, which is the
  order its iterators visit. \<open>std::string\<close> keys compare as unsigned bytes, lexicographically, which
  is the order of the imported theories on \<^typ>\<open>string\<close>. The contract clients rely on is the locale
  \<open>dictionary\<close>; the sorted entry list is interpreted as one.
\<close>

type_synonym ('k, 'v) omap = "('k \<times> 'v) list"

definition om_inv :: "('k :: linorder, 'v) omap \<Rightarrow> bool" where
  "om_inv m \<longleftrightarrow> sorted_wrt (<) (map fst m)"

fun om_put :: "'k :: linorder \<Rightarrow> 'v \<Rightarrow> ('k, 'v) omap \<Rightarrow> ('k, 'v) omap" where
  "om_put k v [] = [(k, v)]"
| "om_put k v ((k', v') # m) =
     (if k < k' then (k, v) # (k', v') # m
      else if k = k' then (k, v) # m
      else (k', v') # om_put k v m)"

definition om_get :: "('k, 'v) omap \<Rightarrow> 'k \<Rightarrow> 'v option" where
  "om_get m k = map_of m k"

definition om_erase :: "'k \<Rightarrow> ('k, 'v) omap \<Rightarrow> ('k, 'v) omap" where
  "om_erase k m = filter (\<lambda>e. fst e \<noteq> k) m"

lemma om_put_keys [simp]: "fst ` set (om_put k v m) = insert k (fst ` set m)"
  by (induction k v m rule: om_put.induct) auto

lemma om_inv_Nil [simp]: "om_inv []"
  by (simp add: om_inv_def)

lemma om_inv_Cons: "om_inv (e # m) \<longleftrightarrow> (\<forall>x\<in>set m. fst e < fst x) \<and> om_inv m"
  by (auto simp: om_inv_def)

lemma om_inv_put [inv_intros]: "om_inv m \<Longrightarrow> om_inv (om_put k v m)"
proof (induction k v m rule: om_put.induct)
  case (2 k v k' v' m)
  have "\<forall>x\<in>set (om_put k v m). k' < fst x" if "\<not> k < k'" "k \<noteq> k'" "\<forall>x\<in>set m. k' < fst x"
  proof -
    have "\<forall>y\<in>fst ` set (om_put k v m). k' < y" using that by auto
    then show ?thesis by blast
  qed
  with 2 show ?case by (force simp: om_inv_Cons)
qed (simp add: om_inv_Cons)

lemma om_get_put: "om_inv m \<Longrightarrow> om_get (om_put k v m) k' = (if k' = k then Some v else om_get m k')"
  unfolding om_get_def
proof (induction k v m rule: om_put.induct)
  case (2 k v k1 v1 m)
  then have "\<forall>x\<in>set m. k1 < fst x" by (simp add: om_inv_Cons)
  with 2 show ?case by (auto simp: om_inv_Cons)
qed simp

lemma om_get_erase: "om_get (om_erase k m) k' = (if k' = k then None else om_get m k')"
  unfolding om_get_def om_erase_def by (induction m) auto

lemma om_inv_erase [inv_intros]: "om_inv m \<Longrightarrow> om_inv (om_erase k m)"
  by (induction m) (auto simp: om_inv_Cons om_erase_def)

text \<open>What a client relies on; keys written later win, other keys are untouched.\<close>

locale dictionary =
  fixes inv :: "'m \<Rightarrow> bool"
    and empty :: 'm
    and put :: "'k \<Rightarrow> 'v \<Rightarrow> 'm \<Rightarrow> 'm"
    and get :: "'m \<Rightarrow> 'k \<Rightarrow> 'v option"
    and erase :: "'k \<Rightarrow> 'm \<Rightarrow> 'm"
  assumes inv_empty: "inv empty"
    and inv_put: "inv m \<Longrightarrow> inv (put k v m)"
    and inv_erase: "inv m \<Longrightarrow> inv (erase k m)"
    and get_empty: "get empty k = None"
    and get_put: "inv m \<Longrightarrow> get (put k v m) k' = (if k' = k then Some v else get m k')"
    and get_erase: "inv m \<Longrightarrow> get (erase k m) k' = (if k' = k then None else get m k')"
begin

lemma put_all_inv: "inv m \<Longrightarrow> inv (fold (\<lambda>(k, v). put k v) kvs m)"
  by (induction kvs arbitrary: m) (auto simp: inv_put)

lemma put_all_get: "inv m \<Longrightarrow> get (fold (\<lambda>(k, v). put k v) kvs m) k' =
    (case map_of (rev kvs) k' of Some v \<Rightarrow> Some v | None \<Rightarrow> get m k')"
proof (induction kvs arbitrary: m)
  case (Cons e kvs)
  then show ?case
    by (cases e) (auto simp: get_put inv_put map_add_def split: option.splits)
qed simp

lemma erase_put_get: "inv m \<Longrightarrow> get (erase k (put k v m)) k' = get (erase k m) k'"
  by (simp add: get_erase get_put inv_put)

end

interpretation om: dictionary om_inv "[]" om_put om_get om_erase
  by unfold_locales (simp_all add: om_inv_put om_inv_erase om_get_put om_get_erase, simp add: om_get_def)

end
