(* ===== verification/HttpResponse.thy ===== *)
theory HttpResponse
  imports Buffer OrderedMap
begin

text \<open>
  The response object of \<open>net/HttpResponse.h\<close>: its fields, its setters and \<open>appendToBuffer\<close>, which
  prints it into a network buffer. A reference reader of responses gives the round trip.
\<close>

section \<open>The response\<close>

datatype status_code = kUnknown_status | k200Ok | k206PartialContent | k301MovedPermanently
  | k400BadRequest | k401Unauthorized | k403Forbidden | k404NotFound | k416RangeNotSatisfiable
  | k500InternalServerError

fun status_number :: "status_code \<Rightarrow> nat" where
  "status_number kUnknown_status = 0"
| "status_number k200Ok = 200"
| "status_number k206PartialContent = 206"
| "status_number k301MovedPermanently = 301"
| "status_number k400BadRequest = 400"
| "status_number k401Unauthorized = 401"
| "status_number k403Forbidden = 403"
| "status_number k404NotFound = 404"
| "status_number k416RangeNotSatisfiable = 416"
| "status_number k500InternalServerError = 500"

record http_response =
  rs_headers :: "(string, string) omap"
  rs_statusCode :: status_code
  rs_statusMessage :: string
  rs_closeConnection :: bool
  rs_body :: string
  rs_async :: bool

definition new_response :: "bool \<Rightarrow> http_response" where
  "new_response close = \<lparr>rs_headers = [], rs_statusCode = kUnknown_status, rs_statusMessage = [],
     rs_closeConnection = close, rs_body = [], rs_async = False\<rparr>"

definition setStatusCode :: "status_code \<Rightarrow> http_response \<Rightarrow> http_response" where
  "setStatusCode code r = r\<lparr>rs_statusCode := code\<rparr>"

definition setStatusMessage :: "string \<Rightarrow> http_response \<Rightarrow> http_response" where
  "setStatusMessage m r = r\<lparr>rs_statusMessage := m\<rparr>"

definition setCloseConnection :: "bool \<Rightarrow> http_response \<Rightarrow> http_response" where
  "setCloseConnection on r = r\<lparr>rs_closeConnection := on\<rparr>"

definition addResponseHeader :: "string \<Rightarrow> string \<Rightarrow> http_response \<Rightarrow> http_response" where
  "addResponseHeader k v r = r\<lparr>rs_headers := om_put k v (rs_headers r)\<rparr>"

definition setContentType :: "string \<Rightarrow> http_response \<Rightarrow> http_response" where
  "setContentType t = addResponseHeader ''Content-Type'' t"

definition setBody :: "string \<Rightarrow> http_response \<Rightarrow> http_response" where
  "setBody s r = r\<lparr>rs_body := s\<rparr>"

definition setAsync :: "bool \<Rightarrow> http_response \<Rightarrow> http_response" where
  "setAsync a r = r\<lparr>rs_async := a\<rparr>"

section \<open>Printing\<close>

fun append_all :: "bytes list \<Rightarrow> buffer \<Rightarrow> buffer checked" where
  "append_all [] b = Some b"
| "append_all (d # ds) b = do { b' \<leftarrow> buf_append d b; append_all ds b' }"

definition appendToBuffer :: "http_response \<Rightarrow> buffer \<Rightarrow> buffer checked" where
  "appendToBuffer r out =
     do { o1 \<leftarrow> append_all [''HTTP/1.1 '' @ show_nat (status_number (rs_statusCode r)) @ '' '',
                        rs_statusMessage r, CRLF] out;
          o2 \<leftarrow> buf_append (if rs_closeConnection r then ''Connection: close'' @ CRLF
                          else ''Connection: Keep-Alive'' @ CRLF) o1;
          o3 \<leftarrow> append_all (concat (map (\<lambda>(k, v). [k, '': '', v, CRLF]) (rs_headers r))) o2;
          append_all [CRLF, rs_body r] o3 }"

text \<open>The text a response is printed as.\<close>

definition field_line :: "string \<times> string \<Rightarrow> string" where
  "field_line e = fst e @ '': '' @ snd e @ CRLF"

definition connection_field :: "http_response \<Rightarrow> string \<times> string" where
  "connection_field r = (''Connection'', if rs_closeConnection r then ''close'' else ''Keep-Alive'')"

definition response_text :: "http_response \<Rightarrow> string" where
  "response_text r =
     ''HTTP/1.1 '' @ show_nat (status_number (rs_statusCode r)) @ '' '' @ rs_statusMessage r @ CRLF
     @ concat (map field_line (connection_field r # rs_headers r)) @ CRLF @ rs_body r"

lemma append_all_spec:
  "buf_inv b \<Longrightarrow> \<exists>b'. append_all ds b = Some b' \<and> buf_inv b' \<and> peek b' = peek b @ concat ds"
proof (induction ds arbitrary: b)
  case (Cons d ds)
  from append_spec [OF Cons.prems, of d] obtain b1 where
    "buf_append d b = Some b1" "buf_inv b1" "peek b1 = peek b @ d" by blast
  with Cons.IH [of b1] show ?case by auto
qed simp

lemma appendToBuffer_spec:
  assumes "buf_inv b"
  shows "\<exists>b'. appendToBuffer r b = Some b' \<and> buf_inv b' \<and> peek b' = peek b @ response_text r"
proof -
  have c: "concat (concat (map (\<lambda>(k, v). [k, '': '', v, CRLF]) hs)) = concat (map field_line hs)" for hs
    by (induction hs) (auto simp: field_line_def)
  have f: "field_line (connection_field r) =
      (if rs_closeConnection r then ''Connection: close'' @ CRLF else ''Connection: Keep-Alive'' @ CRLF)"
    by (simp add: field_line_def connection_field_def)
  from append_all_spec [OF assms] obtain o1 where
    o1: "append_all [''HTTP/1.1 '' @ show_nat (status_number (rs_statusCode r)) @ '' '',
         rs_statusMessage r, CRLF] b = Some o1" "buf_inv o1"
      "peek o1 = peek b @ ''HTTP/1.1 '' @ show_nat (status_number (rs_statusCode r)) @ '' '' @ rs_statusMessage r @ CRLF"
    by fastforce
  from append_spec [OF o1(2)] obtain o2 where
    o2: "buf_append (field_line (connection_field r)) o1 = Some o2" "buf_inv o2"
      "peek o2 = peek o1 @ field_line (connection_field r)" by blast
  from append_all_spec [OF o2(2)] obtain o3 where
    o3: "append_all (concat (map (\<lambda>(k, v). [k, '': '', v, CRLF]) (rs_headers r))) o2 = Some o3" "buf_inv o3"
      "peek o3 = peek o2 @ concat (map field_line (rs_headers r))" by (metis c)
  from append_all_spec [OF o3(2)] obtain o4 where
    o4: "append_all [CRLF, rs_body r] o3 = Some o4" "buf_inv o4" "peek o4 = peek o3 @ CRLF @ rs_body r"
    by fastforce
  from o1 o2 o3 o4 f have "appendToBuffer r b = Some o4"
    unfolding appendToBuffer_def by simp
  with o1(3) o2(3) o3(3) o4(2,3) show ?thesis by (simp add: response_text_def)
qed

section \<open>Reading a response back\<close>

function read_fields :: "string \<Rightarrow> ((string \<times> string) list \<times> string) option" where
  "read_fields s =
     (case find_sub CRLF s of
        None \<Rightarrow> None
      | Some i \<Rightarrow>
          if i = 0 then Some ([], drop 2 s)
          else case find_sub '': '' (take i s) of
                 None \<Rightarrow> None
               | Some j \<Rightarrow>
                   map_option (\<lambda>(fs, rest). ((take j s, drop (j + 2) (take i s)) # fs, rest))
                     (read_fields (drop (i + 2) s)))"
  by pat_completeness auto
termination
proof (relation "measure length")
  fix s :: string and i j
  assume "find_sub CRLF s = Some i"
  from find_sub_Some(1) [OF this] show "(drop (i + 2) s, s) \<in> measure length"
    by (simp add: CRLF_def)
qed simp

declare read_fields.simps [simp del]

definition read_response :: "string \<Rightarrow> (nat \<times> string \<times> (string \<times> string) list \<times> string) option" where
  "read_response s =
     (case find_sub CRLF s of
        None \<Rightarrow> None
      | Some i \<Rightarrow>
          if starts_with ''HTTP/1.1 '' s then
            (case find_char (CHR '' '') (drop 9 (take i s)) of
               None \<Rightarrow> None
             | Some k \<Rightarrow> map_option
                 (\<lambda>(fs, body). (nat_of_digits (take k (drop 9 s)), drop (10 + k) (take i s), fs, body))
                 (read_fields (drop (i + 2) s)))
          else None)"

text \<open>Names and values that may be printed: no line break in them, no colon in a name.\<close>

definition no_break :: "string \<Rightarrow> bool" where
  "no_break s \<longleftrightarrow> CHR 0x0D \<notin> set s \<and> CHR 0x0A \<notin> set s"

definition good_field :: "string \<times> string \<Rightarrow> bool" where
  "good_field e \<longleftrightarrow> fst e \<noteq> [] \<and> CHR '':'' \<notin> set (fst e) \<and> no_break (fst e) \<and> no_break (snd e)"

lemma find_CRLF_no_break:
  assumes "no_break s"
  shows "find_sub CRLF (s @ CRLF @ t) = Some (length s)"
proof (rule find_sub_eqI)
  show "\<forall>j<length s. \<not> starts_with CRLF (drop j (s @ CRLF @ t))"
  proof (intro allI impI)
    fix j assume j: "j < length s"
    then have "drop j (s @ CRLF @ t) = s ! j # drop (Suc j) s @ CRLF @ t"
      by (simp add: Cons_nth_drop_Suc)
    moreover have "s ! j \<noteq> CHR 0x0D" using assms nth_mem [OF j] by (auto simp: no_break_def)
    ultimately show "\<not> starts_with CRLF (drop j (s @ CRLF @ t))"
      by (simp add: CRLF_def)
  qed
qed simp

lemma find_colon_sep:
  assumes "CHR '':'' \<notin> set k"
  shows "find_sub '': '' (k @ '': '' @ v) = Some (length k)"
proof (rule find_sub_eqI)
  show "\<forall>j<length k. \<not> starts_with '': '' (drop j (k @ '': '' @ v))"
  proof (intro allI impI)
    fix j assume j: "j < length k"
    then have "drop j (k @ '': '' @ v) = k ! j # drop (Suc j) k @ '': '' @ v"
      by (simp add: Cons_nth_drop_Suc)
    moreover have "k ! j \<noteq> CHR '':''" using assms nth_mem [OF j] by auto
    ultimately show "\<not> starts_with '': '' (drop j (k @ '': '' @ v))" by auto
  qed
qed simp

lemma read_fields_print:
  "list_all good_field fs \<Longrightarrow> read_fields (concat (map field_line fs) @ CRLF @ body) = Some (fs, body)"
proof (induction fs)
  case Nil
  have "find_sub CRLF (CRLF @ body) = Some 0"
    using find_CRLF_no_break [of "[]" body] by (simp add: no_break_def)
  then show ?case by (subst read_fields.simps) (simp add: CRLF_def)
next
  case (Cons e fs)
  obtain k v where e: "e = (k, v)" by (cases e)
  with Cons.prems have g: "k \<noteq> []" "CHR '':'' \<notin> set k" "no_break (k @ '': '' @ v)"
    by (auto simp: good_field_def no_break_def)
  let ?rest = "concat (map field_line fs) @ CRLF @ body"
  let ?s = "(k @ '': '' @ v) @ CRLF @ ?rest"
  have s: "concat (map field_line (e # fs)) @ CRLF @ body = ?s" by (simp add: e field_line_def)
  have f: "find_sub CRLF ?s = Some (length (k @ '': '' @ v))" using find_CRLF_no_break [OF g(3)] .
  have t: "take (length (k @ '': '' @ v)) ?s = k @ '': '' @ v" by simp
  have d: "drop (length (k @ '': '' @ v) + 2) ?s = ?rest" by (simp only: drop_length_add) (simp add: CRLF_def)
  have IH: "read_fields ?rest = Some (fs, body)" using Cons by simp
  show ?case unfolding s
    using g(1) find_colon_sep [OF g(2), of v] IH
    by (subst read_fields.simps) (simp only: f t d option.case, simp add: e)
qed

lemma show_nat_no_space: "CHR '' '' \<notin> set (show_nat n)"
  using show_nat_digits [of n] by (auto simp: list_all_iff is_digit_def)

lemma show_nat_no_break: "no_break (show_nat n)"
  using show_nat_digits [of n] by (auto simp: list_all_iff is_digit_def no_break_def)

text \<open>
  The header table keeps one entry per name in key order, and the last value set for a name is the
  one that is printed; other names are untouched.
\<close>

lemma response_header_last_wins:
  assumes "om_inv (rs_headers r)"
  shows "om_inv (rs_headers (fold (\<lambda>(k, v). addResponseHeader k v) kvs r))
    \<and> om_get (rs_headers (fold (\<lambda>(k, v). addResponseHeader k v) kvs r)) k' =
        (case map_of (rev kvs) k' of Some v \<Rightarrow> Some v | None \<Rightarrow> om_get (rs_headers r) k')"
proof -
  have "rs_headers (fold (\<lambda>(k, v). addResponseHeader k v) kvs r) = fold (\<lambda>(k, v). om_put k v) kvs (rs_headers r)"
    by (induction kvs arbitrary: r) (auto simp: addResponseHeader_def)
  then show ?thesis using om.put_all_inv [OF assms] om.put_all_get [OF assms] by simp
qed

lemma added_fields:
  assumes "rs_headers r = rs_headers (fold (\<lambda>(k, v). addResponseHeader k v) kvs (new_response close))"
  shows "sorted_wrt (<) (map fst (rs_headers r)) \<and> map_of (rs_headers r) = map_of (rev kvs)"
proof -
  have "om_inv (rs_headers (new_response close))" "om_get (rs_headers (new_response close)) k = None" for k
    by (simp_all add: new_response_def om_get_def)
  from response_header_last_wins [OF this(1), of kvs] this(2) show ?thesis
    by (auto simp: assms om_inv_def om_get_def fun_eq_iff split: option.splits)
qed

text \<open>
  C25: A response whose status message has no line break and whose header fields have non-empty names without colon and neither
  a carriage return nor a line feed in name or value, printed into an empty buffer, reads back as the status number, the
  message, the \<open>Connection\<close> field followed by the response's own fields, and the body, whatever bytes the body holds. The fields
  that were added one after the other are printed in the order of their names, one for each name, with the value added last.
  (Without the conditions this fails: a file name with a line break in \<open>Content-Disposition\<close> is printed as it is.)
\<close>

theorem response_print_read:
  assumes "buf_inv b" and "peek b = []" and "no_break (rs_statusMessage r)" and "list_all good_field (rs_headers r)"
  shows "\<exists>b'. appendToBuffer r b = Some b' \<and> read_response (peek b') =
    Some (status_number (rs_statusCode r), rs_statusMessage r, connection_field r # rs_headers r, rs_body r)
    \<and> (\<forall>kvs. rs_headers r = rs_headers (fold (\<lambda>(k, v). addResponseHeader k v) kvs (new_response close)) \<longrightarrow>
        sorted_wrt (<) (map fst (rs_headers r)) \<and> map_of (rs_headers r) = map_of (rev kvs))"
proof -
  let ?n = "show_nat (status_number (rs_statusCode r))"
  let ?l = "''HTTP/1.1 '' @ ?n @ '' '' @ rs_statusMessage r"
  let ?fs = "connection_field r # rs_headers r"
  from appendToBuffer_spec [OF assms(1)] assms(2) obtain b' where
    b': "appendToBuffer r b = Some b'" "peek b' = response_text r" by fastforce
  have text_eq: "response_text r = ?l @ CRLF @ concat (map field_line ?fs) @ CRLF @ rs_body r"
    by (simp add: response_text_def)
  have nb: "no_break ?l" using assms(3) show_nat_no_break by (simp add: no_break_def)
  have g: "list_all good_field ?fs"
    using assms(4) by (auto simp: connection_field_def good_field_def no_break_def)
  have d: "drop (length ?l + 2) (?l @ CRLF @ t) = t" for t by (simp only: drop_length_add) (simp add: CRLF_def)
  have sp: "find_char (CHR '' '') (drop 9 ?l) = Some (length ?n)"
    using find_char_append [OF show_nat_no_space] by simp
  have m: "drop (10 + length ?n) ?l = rs_statusMessage r"
  proof -
    let ?a = "''HTTP/1.1 '' @ ?n @ '' ''"
    have "10 + length ?n = length ?a + 0" and "?l = ?a @ rs_statusMessage r" by simp_all
    then show ?thesis by (simp only: drop_length_add drop_0)
  qed
  have "read_response (response_text r) = Some (status_number (rs_statusCode r), rs_statusMessage r, ?fs, rs_body r)"
    unfolding text_eq read_response_def find_CRLF_no_break [OF nb] option.case d read_fields_print [OF g]
    using sp m by (simp add: CRLF_def)
  with b' added_fields show ?thesis by auto
qed

theorem response_print_read_witness:
  "\<exists>b'. appendToBuffer (setBody ''{}'' (setContentType ''application/json''
            (setStatusMessage ''OK'' (setStatusCode k200Ok (new_response False))))) (new_buffer kInitialSize) = Some b'
     \<and> read_response (peek b') = Some (200, ''OK'',
         [(''Connection'', ''Keep-Alive''), (''Content-Type'', ''application/json'')], ''{}'')"
  using response_print_read [OF buf_inv_new peek_new, of "setBody ''{}'' (setContentType ''application/json''
            (setStatusMessage ''OK'' (setStatusCode k200Ok (new_response False))))" kInitialSize False]
  by (auto simp: setBody_def setContentType_def addResponseHeader_def setStatusMessage_def setStatusCode_def
      new_response_def no_break_def good_field_def connection_field_def)

lemma response_header_last_wins_witness:
  "om_get (rs_headers (fold (\<lambda>(k, v). addResponseHeader k v)
      [(''B'', ''1''), (''A'', ''2''), (''B'', ''3'')] (new_response True))) ''B'' = Some ''3''"
  using response_header_last_wins [of "new_response True" "[(''B'', ''1''), (''A'', ''2''), (''B'', ''3'')]" "''B''"]
  by (simp add: new_response_def)

end
