(* ===== verification/TcpConnection.thy ===== *)
theory TcpConnection
  imports Buffer Channel
begin

text \<open>
  The connection of \<open>net/TcpConnection.h\<close> and \<open>net/TcpConnection.cc\<close>: its state machine, its two
  buffers and its channel. The socket is explicit: \<open>tc_wire\<close> is every byte the kernel has accepted for
  sending, \<open>tc_fin\<close> whether the write side was shut down, \<open>tc_writes\<close> the outcomes of the coming
  \<open>write(2)\<close> calls (when it is used up the socket would block; after the shutdown of the write side a
  write fails with \<open>EPIPE\<close>). \<open>tc_taken\<close> is ghost state: the bytes of every message \<open>sendInLoop\<close> did not
  give up on. Functors queued to the loop are data in \<open>tc_queue\<close>. The operations run on
  the loop's thread. The user callbacks are the parameter \<open>callbacks\<close>: what they do to the
  connection is a list of actions; a message callback that aborts or never returns is \<^term>\<open>None\<close>.
\<close>

section \<open>State\<close>

datatype conn_state = kDisconnected | kConnecting | kConnected | kDisconnecting

datatype errno = EAGAIN | EPIPE | ECONNRESET | EOTHER

datatype write_outcome = Wrote nat | Write_error errno

datatype 'w conn_functor = WriteComplete 'w | HighWaterMark nat | SendInLoop bytes | ShutdownInLoop | ForceCloseInLoop
  | HandleWrite

datatype conn_event = ConnectionCalled bool | CloseCalled

record ('c, 'w) tcp_conn =
  tc_state :: conn_state
  tc_channel :: channel
  tc_inputBuffer :: buffer
  tc_outputBuffer :: buffer
  tc_highWaterMark :: nat
  tc_writeComplete :: "'w option"
  tc_hasHighWaterMark :: bool
  tc_context :: "'c option"
  tc_queue :: "'w conn_functor list"
  tc_log :: "conn_event list"
  tc_writes :: "write_outcome list"
  tc_errno :: errno
  tc_wire :: bytes
  tc_fin :: bool
  tc_taken :: bytes

datatype 'w action = Send bytes | Shutdown | ForceClose | SetWriteComplete 'w

record ('c, 'w) callbacks =
  cb_message :: "'c option \<Rightarrow> buffer \<Rightarrow> ('c option \<times> buffer \<times> 'w action list) option"
  cb_connection :: "bool \<Rightarrow> 'c option \<Rightarrow> 'c option"
  cb_writeComplete :: "'w \<Rightarrow> 'c option \<Rightarrow> 'c option \<times> 'w action list"

definition new_conn :: "int \<Rightarrow> write_outcome list \<Rightarrow> ('c, 'w) tcp_conn" where
  "new_conn fd ws = \<lparr>tc_state = kConnecting, tc_channel = new_channel fd,
     tc_inputBuffer = new_buffer kInitialSize, tc_outputBuffer = new_buffer kInitialSize,
     tc_highWaterMark = 64 * 1024 * 1024, tc_writeComplete = None, tc_hasHighWaterMark = False, tc_context = None,
     tc_queue = [], tc_log = [], tc_writes = ws, tc_errno = EAGAIN, tc_wire = [], tc_fin = False, tc_taken = []\<rparr>"

section \<open>Operations\<close>

text \<open>\<open>write(2)\<close> of \<open>d\<close>: the number of bytes taken, or -1 with \<open>errno\<close> set.\<close>

definition sock_write :: "bytes \<Rightarrow> ('c, 'w) tcp_conn \<Rightarrow> int \<times> ('c, 'w) tcp_conn" where
  "sock_write d s =
     (if tc_fin s then (-1, s\<lparr>tc_errno := EPIPE\<rparr>)
      else case tc_writes s of
             [] \<Rightarrow> (-1, s\<lparr>tc_errno := EAGAIN\<rparr>)
           | Wrote n # ws \<Rightarrow> (int (min n (length d)), s\<lparr>tc_writes := ws, tc_wire := tc_wire s @ take n d\<rparr>)
           | Write_error e # ws \<Rightarrow> (-1, s\<lparr>tc_writes := ws, tc_errno := e\<rparr>))"

definition conn_queue :: "'w conn_functor \<Rightarrow> ('c, 'w) tcp_conn \<Rightarrow> ('c, 'w) tcp_conn" where
  "conn_queue f s = s\<lparr>tc_queue := tc_queue s @ [f]\<rparr>"

definition queue_writeComplete :: "('c, 'w) tcp_conn \<Rightarrow> ('c, 'w) tcp_conn" where
  "queue_writeComplete s =
     (case tc_writeComplete s of Some w \<Rightarrow> conn_queue (WriteComplete w) s | None \<Rightarrow> s)"

definition shutdownInLoop :: "('c, 'w) tcp_conn \<Rightarrow> ('c, 'w) tcp_conn" where
  "shutdownInLoop s = (if isWriting (tc_channel s) then s else s\<lparr>tc_fin := True\<rparr>)"

definition handleClose :: "('c, 'w) callbacks \<Rightarrow> ('c, 'w) tcp_conn \<Rightarrow> ('c, 'w) tcp_conn checked" where
  "handleClose cb s =
     (if tc_state s = kConnected \<or> tc_state s = kDisconnecting
      then Some (s\<lparr>tc_state := kDisconnected, tc_channel := disableAll (tc_channel s),
                  tc_context := cb_connection cb False (tc_context s),
                  tc_log := tc_log s @ [ConnectionCalled False, CloseCalled]\<rparr>)
      else None)"

text \<open>\<open>handleError\<close> reads the socket's error and logs it.\<close>

definition handleError :: "('c, 'w) tcp_conn \<Rightarrow> ('c, 'w) tcp_conn" where
  "handleError s = s"

definition handleWrite :: "('c, 'w) callbacks \<Rightarrow> ('c, 'w) tcp_conn \<Rightarrow> ('c, 'w) tcp_conn checked" where
  "handleWrite cb s =
     (if isWriting (tc_channel s) then
        let (n, s1) = sock_write (peek (tc_outputBuffer s)) s in
        if 0 < n then
          do { out \<leftarrow> retrieve (nat n) (tc_outputBuffer s1);
               let s2 = s1\<lparr>tc_outputBuffer := out\<rparr> in
               if readableBytes out = 0 then
                 (let s3 = s2\<lparr>tc_channel := disableWriting (tc_channel s2)\<rparr>;
                      s4 = queue_writeComplete s3
                  in Some (if tc_state s4 = kDisconnecting then shutdownInLoop s4 else s4))
               else Some (conn_queue HandleWrite s2) }
        else if tc_errno s1 \<noteq> EAGAIN \<and> (tc_errno s1 = EPIPE \<or> tc_errno s1 = ECONNRESET)
        then handleClose cb s1 else Some s1
      else Some s)"

text \<open>The direct write of \<open>sendInLoop\<close>: how much was taken, and whether the peer is gone.\<close>

definition send_direct :: "bytes \<Rightarrow> ('c, 'w) tcp_conn \<Rightarrow> nat \<times> bool \<times> ('c, 'w) tcp_conn" where
  "send_direct d s =
     (if \<not> isWriting (tc_channel s) \<and> readableBytes (tc_outputBuffer s) = 0 then
        let (n, s1) = sock_write d s in
        if 0 \<le> n then
          (nat n, False, if nat n = length d then queue_writeComplete s1 else s1)
        else (0, tc_errno s1 = EPIPE \<or> tc_errno s1 = ECONNRESET, s1)
      else (0, False, s))"

definition sendInLoop :: "('c, 'w) callbacks \<Rightarrow> bytes \<Rightarrow> ('c, 'w) tcp_conn \<Rightarrow> ('c, 'w) tcp_conn checked" where
  "sendInLoop cb d s =
     (if tc_state s = kDisconnected then Some s
      else
        let (nwrote, faultError, s1) = send_direct d s;
            remaining = length d - nwrote;
            oldLen = readableBytes (tc_outputBuffer s1)
        in if \<not> faultError \<and> 0 < remaining then
             do { let s2 = (if tc_highWaterMark s1 \<le> oldLen + remaining \<and> oldLen < tc_highWaterMark s1
                              \<and> tc_hasHighWaterMark s1
                            then conn_queue (HighWaterMark (oldLen + remaining)) s1 else s1);
                  out \<leftarrow> buf_append (drop nwrote d) (tc_outputBuffer s2);
                  let s3 = s2\<lparr>tc_outputBuffer := out, tc_taken := tc_taken s2 @ d\<rparr>;
                  let s4 = (if isWriting (tc_channel s3) then s3
                            else s3\<lparr>tc_channel := enableWriting (tc_channel s3)\<rparr>);
                  handleWrite cb s4 }
           else Some (if faultError then s1 else s1\<lparr>tc_taken := tc_taken s1 @ d\<rparr>))"

text \<open>The three overloads of \<open>send\<close>: on the loop's thread at once, from another thread as a functor.\<close>

definition conn_send :: "('c, 'w) callbacks \<Rightarrow> bool \<Rightarrow> bytes \<Rightarrow> ('c, 'w) tcp_conn \<Rightarrow> ('c, 'w) tcp_conn checked" where
  "conn_send cb inLoopThread d s =
     (if tc_state s = kConnected
      then (if inLoopThread then sendInLoop cb d s else Some (conn_queue (SendInLoop d) s))
      else Some s)"

definition send_buffer ::
  "('c, 'w) callbacks \<Rightarrow> bool \<Rightarrow> buffer \<Rightarrow> ('c, 'w) tcp_conn \<Rightarrow> (buffer \<times> ('c, 'w) tcp_conn) checked" where
  "send_buffer cb inLoopThread b s =
     (if tc_state s = kConnected
      then (if inLoopThread then do { s' \<leftarrow> sendInLoop cb (peek b) s; Some (retrieveAll b, s') }
            else do { (d, b') \<leftarrow> retrieveAllAsString b; Some (b', conn_queue (SendInLoop d) s) })
      else Some (b, s))"

definition shutdown :: "bool \<Rightarrow> ('c, 'w) tcp_conn \<Rightarrow> ('c, 'w) tcp_conn" where
  "shutdown inLoopThread s =
     (if tc_state s = kConnected
      then let s1 = s\<lparr>tc_state := kDisconnecting\<rparr>
           in if inLoopThread then shutdownInLoop s1 else conn_queue ShutdownInLoop s1
      else s)"

definition forceClose :: "('c, 'w) tcp_conn \<Rightarrow> ('c, 'w) tcp_conn" where
  "forceClose s =
     (if tc_state s = kConnected \<or> tc_state s = kDisconnecting
      then conn_queue ForceCloseInLoop (s\<lparr>tc_state := kDisconnecting\<rparr>) else s)"

definition forceCloseInLoop :: "('c, 'w) callbacks \<Rightarrow> ('c, 'w) tcp_conn \<Rightarrow> ('c, 'w) tcp_conn checked" where
  "forceCloseInLoop cb s =
     (if tc_state s = kConnected \<or> tc_state s = kDisconnecting then handleClose cb s else Some s)"

definition connectEstablished :: "('c, 'w) callbacks \<Rightarrow> ('c, 'w) tcp_conn \<Rightarrow> ('c, 'w) tcp_conn checked" where
  "connectEstablished cb s =
     (if tc_state s = kConnecting
      then Some (s\<lparr>tc_state := kConnected, tc_channel := enableReading (tie (tc_channel s)),
                  tc_context := cb_connection cb True (tc_context s),
                  tc_log := tc_log s @ [ConnectionCalled True]\<rparr>)
      else None)"

definition connectDestroyed :: "('c, 'w) callbacks \<Rightarrow> ('c, 'w) tcp_conn \<Rightarrow> ('c, 'w) tcp_conn checked" where
  "connectDestroyed cb s =
     (let s1 = (if tc_state s = kConnected
                then s\<lparr>tc_state := kDisconnected, tc_channel := disableAll (tc_channel s),
                       tc_context := cb_connection cb False (tc_context s),
                       tc_log := tc_log s @ [ConnectionCalled False]\<rparr>
                else s)
      in do { c \<leftarrow> chan_remove (tc_channel s1); Some (s1\<lparr>tc_channel := c\<rparr>) })"

text \<open>What a callback does to its connection, in order, on the loop's thread.\<close>

fun do_action :: "('c, 'w) callbacks \<Rightarrow> 'w action \<Rightarrow> ('c, 'w) tcp_conn \<Rightarrow> ('c, 'w) tcp_conn checked" where
  "do_action cb (Send d) s = conn_send cb True d s"
| "do_action cb Shutdown s = Some (shutdown True s)"
| "do_action cb ForceClose s = Some (forceClose s)"
| "do_action cb (SetWriteComplete w) s = Some (s\<lparr>tc_writeComplete := Some w\<rparr>)"

fun do_actions :: "('c, 'w) callbacks \<Rightarrow> 'w action list \<Rightarrow> ('c, 'w) tcp_conn \<Rightarrow> ('c, 'w) tcp_conn checked" where
  "do_actions cb [] s = Some s"
| "do_actions cb (a # as) s = do { s' \<leftarrow> do_action cb a s; do_actions cb as s' }"

definition handleRead :: "('c, 'w) callbacks \<Rightarrow> readv_result \<Rightarrow> ('c, 'w) tcp_conn \<Rightarrow> ('c, 'w) tcp_conn checked" where
  "handleRead cb r s =
     do { (n, err, b) \<leftarrow> readFd r (tc_inputBuffer s);
          let s1 = s\<lparr>tc_inputBuffer := b\<rparr>;
          if 0 < n then
            do { (ctx, b', as) \<leftarrow> cb_message cb (tc_context s1) b;
                 do_actions cb as (s1\<lparr>tc_context := ctx, tc_inputBuffer := b'\<rparr>) }
          else if n = 0 then handleClose cb s1
          else Some (handleError s1) }"

fun run_functor :: "('c, 'w) callbacks \<Rightarrow> 'w conn_functor \<Rightarrow> ('c, 'w) tcp_conn \<Rightarrow> ('c, 'w) tcp_conn checked" where
  "run_functor cb (SendInLoop d) s = sendInLoop cb d s"
| "run_functor cb ShutdownInLoop s = Some (shutdownInLoop s)"
| "run_functor cb ForceCloseInLoop s = forceCloseInLoop cb s"
| "run_functor cb HandleWrite s = handleWrite cb s"
| "run_functor cb (WriteComplete w) s =
     (let (ctx, as) = cb_writeComplete cb w (tc_context s) in do_actions cb as (s\<lparr>tc_context := ctx\<rparr>))"
| "run_functor cb (HighWaterMark n) s = Some s"

text \<open>An event on the connection's channel; \<open>r\<close> is what a read would deliver.\<close>

definition conn_callback ::
  "('c, 'w) callbacks \<Rightarrow> readv_result \<Rightarrow> event_callback \<Rightarrow> ('c, 'w) tcp_conn \<Rightarrow> ('c, 'w) tcp_conn checked" where
  "conn_callback cb r k s =
     (case k of
        CloseCallback \<Rightarrow> handleClose cb s
      | ErrorCallback \<Rightarrow> Some (handleError s)
      | ReadCallback \<Rightarrow> handleRead cb r s
      | WriteCallback \<Rightarrow> handleWrite cb s)"

definition conn_handleEvent ::
  "('c, 'w) callbacks \<Rightarrow> events \<Rightarrow> readv_result \<Rightarrow> ('c, 'w) tcp_conn \<Rightarrow> ('c, 'w) tcp_conn checked" where
  "conn_handleEvent cb revents r s =
     handleEvent True tc_channel (\<lambda>c s. s\<lparr>tc_channel := c\<rparr>) (conn_callback cb r)
       (s\<lparr>tc_channel := (tc_channel s)\<lparr>ch_revents := revents\<rparr>\<rparr>)"

section \<open>Invariant\<close>

definition stream :: "('c, 'w) tcp_conn \<Rightarrow> bytes" where
  "stream s = tc_wire s @ peek (tc_outputBuffer s)"

definition open_state :: "conn_state \<Rightarrow> bool" where
  "open_state st \<longleftrightarrow> st = kConnected \<or> st = kDisconnecting"

text \<open>
  Output waits exactly when the channel is interested in writing; the write side is shut down only with
  an empty output buffer, and a queued shutdown only exists after the state has left \<open>kConnected\<close>; nothing is watched before the connection is established and after its close;
  and what was taken for sending is on the wire or in the output buffer, in order.
\<close>

definition conn_inv :: "('c, 'w) tcp_conn \<Rightarrow> bool" where
  "conn_inv s \<longleftrightarrow> buf_inv (tc_inputBuffer s) \<and> buf_inv (tc_outputBuffer s) \<and> chan_inv (tc_channel s)
     \<and> (open_state (tc_state s) \<longrightarrow> (isWriting (tc_channel s) \<longleftrightarrow> peek (tc_outputBuffer s) \<noteq> []))
     \<and> (\<not> open_state (tc_state s) \<longrightarrow> isNoneEvent (tc_channel s))
     \<and> (tc_state s = kConnecting \<longrightarrow> peek (tc_outputBuffer s) = [] \<and> \<not> tc_fin s)
     \<and> (tc_fin s \<longrightarrow> tc_state s \<noteq> kConnected \<and> (tc_state s = kDisconnecting \<longrightarrow> peek (tc_outputBuffer s) = []))
     \<and> (ShutdownInLoop \<in> set (tc_queue s) \<longrightarrow> tc_state s \<noteq> kConnected \<and> tc_state s \<noteq> kConnecting)
     \<and> stream s = tc_taken s"

definition good_callbacks :: "('c, 'w) callbacks \<Rightarrow> bool" where
  "good_callbacks cb \<longleftrightarrow>
     (\<forall>ctx b ctx' b' as. buf_inv b \<longrightarrow> cb_message cb ctx b = Some (ctx', b', as) \<longrightarrow> buf_inv b')"

lemma isNoneEvent_not_writing: "isNoneEvent c \<Longrightarrow> \<not> isWriting c"
  by (simp add: isNoneEvent_def isWriting_def kNoneEvent_def)

lemma conn_inv_writing_open: "conn_inv s \<Longrightarrow> isWriting (tc_channel s) \<Longrightarrow> open_state (tc_state s)"
  using isNoneEvent_not_writing by (auto simp: conn_inv_def)

lemma readable_zero: "buf_inv b \<Longrightarrow> readableBytes b = 0 \<longleftrightarrow> peek b = []"
  by (metis length_peek length_0_conv)

lemma conn_inv_queue [simp]:
  "f \<noteq> ShutdownInLoop \<Longrightarrow> conn_inv (conn_queue f s) = conn_inv s" "conn_inv (queue_writeComplete s) = conn_inv s"
  by (simp_all add: conn_inv_def stream_def conn_queue_def queue_writeComplete_def split: option.split)

lemma queue_fields [simp]:
  "tc_state (conn_queue f s) = tc_state s" "tc_channel (conn_queue f s) = tc_channel s"
  "tc_outputBuffer (conn_queue f s) = tc_outputBuffer s" "tc_wire (conn_queue f s) = tc_wire s"
  "tc_fin (conn_queue f s) = tc_fin s" "tc_taken (conn_queue f s) = tc_taken s"
  "tc_state (queue_writeComplete s) = tc_state s" "tc_channel (queue_writeComplete s) = tc_channel s"
  "tc_outputBuffer (queue_writeComplete s) = tc_outputBuffer s" "tc_wire (queue_writeComplete s) = tc_wire s"
  "tc_fin (queue_writeComplete s) = tc_fin s" "tc_taken (queue_writeComplete s) = tc_taken s"
  "tc_inputBuffer (conn_queue f s) = tc_inputBuffer s" "tc_inputBuffer (queue_writeComplete s) = tc_inputBuffer s"
  "ShutdownInLoop \<in> set (tc_queue (conn_queue f s)) \<longleftrightarrow> f = ShutdownInLoop \<or> ShutdownInLoop \<in> set (tc_queue s)"
  "ShutdownInLoop \<in> set (tc_queue (queue_writeComplete s)) \<longleftrightarrow> ShutdownInLoop \<in> set (tc_queue s)"
  by (auto simp: conn_queue_def queue_writeComplete_def split: option.split)

lemma conn_inv_shutdownInLoop:
  "conn_inv s \<Longrightarrow> tc_state s \<noteq> kConnected \<Longrightarrow> tc_state s \<noteq> kConnecting \<Longrightarrow> conn_inv (shutdownInLoop s)"
  by (auto simp: conn_inv_def shutdownInLoop_def stream_def open_state_def)

lemma handleClose_spec:
  assumes "conn_inv s" and "open_state (tc_state s)"
  shows "\<exists>s'. handleClose cb s = Some s' \<and> conn_inv s' \<and> tc_state s' = kDisconnected \<and> tc_taken s' = tc_taken s"
proof -
  have c: "chan_inv (tc_channel s)" using assms(1) by (simp add: conn_inv_def)
  show ?thesis using assms chan_inv_ops(5) [OF c] interest_switches(9) [OF c]
    by (auto simp: handleClose_def open_state_def conn_inv_def stream_def)
qed

text \<open>A write attempt moves bytes from the front of what is offered to the wire.\<close>

lemma sock_write_cases:
  assumes "sock_write d s = (n, s1)"
  obtains (taken) k ws where "n = int k" "k \<le> length d" "\<not> tc_fin s" "s1 = s\<lparr>tc_writes := ws, tc_wire := tc_wire s @ take k d\<rparr>"
  | (failed) ws e where "n = -1" "s1 = s\<lparr>tc_writes := ws, tc_errno := e\<rparr>" "tc_fin s \<longrightarrow> e = EPIPE"
proof -
  have "(\<exists>k ws. n = int k \<and> k \<le> length d \<and> \<not> tc_fin s \<and> s1 = s\<lparr>tc_writes := ws, tc_wire := tc_wire s @ take k d\<rparr>)
      \<or> (\<exists>ws e. n = -1 \<and> s1 = s\<lparr>tc_writes := ws, tc_errno := e\<rparr> \<and> (tc_fin s \<longrightarrow> e = EPIPE))"
  proof (cases "tc_fin s")
    case True
    then show ?thesis using assms
      by (intro disjI2 exI [of _ "tc_writes s"] exI [of _ EPIPE]) (auto simp: sock_write_def)
  next
    case fin: False
    show ?thesis
    proof (cases "tc_writes s")
      case Nil
      then show ?thesis using assms fin
        by (intro disjI2 exI [of _ "tc_writes s"] exI [of _ EAGAIN]) (auto simp: sock_write_def)
    next
      case (Cons o1 ws)
      show ?thesis
      proof (cases o1)
        case (Wrote k)
        then show ?thesis using assms fin Cons
          by (intro disjI1 exI [of _ "min k (length d)"]) (auto simp: sock_write_def min_def)
      qed (use assms fin Cons in \<open>auto simp: sock_write_def\<close>)
    qed
  qed
  with that show ?thesis by blast
qed

lemma conn_inv_env [simp]:
  "conn_inv (s\<lparr>tc_writes := ws\<rparr>) = conn_inv s" "conn_inv (s\<lparr>tc_writes := ws, tc_errno := e\<rparr>) = conn_inv s"
  "conn_inv (s\<lparr>tc_context := c\<rparr>) = conn_inv s"
  "conn_inv (s\<lparr>tc_writeComplete := w\<rparr>) = conn_inv s"
  by (simp_all add: conn_inv_def stream_def)

lemma conn_inv_event_flags [simp]:
  "conn_inv (s\<lparr>tc_channel := (tc_channel s)\<lparr>ch_revents := r\<rparr>\<rparr>) = conn_inv s"
  "conn_inv (s\<lparr>tc_channel := (tc_channel s)\<lparr>ch_eventHandling := h\<rparr>\<rparr>) = conn_inv s"
  by (simp_all add: conn_inv_def stream_def chan_inv_iff isWriting_def isNoneEvent_def)

lemma handleWrite_spec:
  assumes "conn_inv s"
  shows "\<exists>s'. handleWrite cb s = Some s' \<and> conn_inv s' \<and> tc_taken s' = tc_taken s
    \<and> (tc_state s' = tc_state s \<or> open_state (tc_state s) \<and> tc_state s' = kDisconnected)"
proof (cases "isWriting (tc_channel s)")
  case False
  with assms show ?thesis by (simp add: handleWrite_def)
next
  case True
  let ?out = "tc_outputBuffer s"
  have op: "open_state (tc_state s)" using conn_inv_writing_open [OF assms True] .
  have b: "buf_inv ?out" and c: "chan_inv (tc_channel s)" using assms by (auto simp: conn_inv_def)
  obtain n s1 where w: "sock_write (peek ?out) s = (n, s1)" by fastforce
  then show ?thesis
  proof (cases rule: sock_write_cases)
    case (taken k ws)
    note tk = taken(4)
    show ?thesis
    proof (cases "k = 0")
      case True
      then have i1: "conn_inv s1" using assms by (simp add: tk conn_inv_def stream_def)
      with w taken(1) True op tk handleClose_spec [OF i1, of cb] \<open>isWriting (tc_channel s)\<close> show ?thesis
        by (auto simp: handleWrite_def)
    next
      case False
      from retrieve_spec [OF b, of k] taken(2) b obtain out where
        out: "retrieve k ?out = Some out" "buf_inv out" "peek out = drop k (peek ?out)" by auto
      have nf: "\<not> tc_fin s1" using taken(3) by (simp add: tk)
      show ?thesis
      proof (cases "peek out = []")
        case True
        let ?s = "queue_writeComplete (s1\<lparr>tc_outputBuffer := out, tc_channel := disableWriting (tc_channel s1)\<rparr>)"
        have "conn_inv ?s" using assms out True nf op interest_switches(7) [OF c] chan_inv_ops(4) [OF c]
          by (auto simp: conn_inv_def stream_def tk)
        moreover have "handleWrite cb s = Some (if tc_state ?s = kDisconnecting then shutdownInLoop ?s else ?s)"
          using w taken(1) False out True tk \<open>isWriting (tc_channel s)\<close>
          by (simp add: handleWrite_def readable_zero Let_def)
        moreover have "tc_taken ?s = tc_taken s" "tc_state ?s = tc_state s" by (simp_all add: tk)
        moreover have "tc_taken (shutdownInLoop ?s) = tc_taken ?s" "tc_state (shutdownInLoop ?s) = tc_state ?s"
          by (simp_all add: shutdownInLoop_def)
        ultimately show ?thesis using conn_inv_shutdownInLoop [of ?s] by auto
      next
        case ne: False
        let ?s = "s1\<lparr>tc_outputBuffer := out\<rparr>"
        have "conn_inv ?s" using assms out ne nf op True taken(3)
          by (auto simp: conn_inv_def stream_def tk)
        with w taken(1) False out ne tk \<open>isWriting (tc_channel s)\<close> show ?thesis
          by (auto simp: handleWrite_def readable_zero)
      qed
    qed
  next
    case (failed ws e)
    note tk = failed(2)
    have i1: "conn_inv s1" using assms by (simp add: tk)
    show ?thesis
    proof (cases "tc_errno s1 = EPIPE \<or> tc_errno s1 = ECONNRESET")
      case True
      then have "tc_errno s1 \<noteq> EAGAIN" by auto
      with True w failed(1) op tk handleClose_spec [OF i1, of cb] \<open>isWriting (tc_channel s)\<close> show ?thesis
        by (auto simp: handleWrite_def)
    next
      case False
      with w failed(1) i1 tk \<open>isWriting (tc_channel s)\<close> show ?thesis by (auto simp: handleWrite_def)
    qed
  qed
qed

section \<open>Sending\<close>

fun state_rank :: "conn_state \<Rightarrow> nat" where
  "state_rank kConnecting = 0"
| "state_rank kConnected = 1"
| "state_rank kDisconnecting = 2"
| "state_rank kDisconnected = 3"

lemma open_rank: "open_state st \<longleftrightarrow> state_rank st = 1 \<or> state_rank st = 2"
  by (cases st) (simp_all add: open_state_def)

lemma rank_eq [simp]:
  "state_rank st = 0 \<longleftrightarrow> st = kConnecting" "state_rank st = Suc 0 \<longleftrightarrow> st = kConnected"
  "state_rank st = 2 \<longleftrightarrow> st = kDisconnecting" "state_rank st = 3 \<longleftrightarrow> st = kDisconnected" "state_rank st \<le> 3"
  by (cases st; simp)+

text \<open>What every operation on an established connection keeps.\<close>

definition conn_ok :: "('c, 'w) tcp_conn \<Rightarrow> ('c, 'w) tcp_conn \<Rightarrow> bool" where
  "conn_ok s s' \<longleftrightarrow> conn_inv s' \<and> state_rank (tc_state s) \<le> state_rank (tc_state s')
     \<and> (\<exists>d. tc_taken s' = tc_taken s @ d)"

lemma conn_ok_refl: "conn_inv s \<Longrightarrow> conn_ok s s"
  by (simp add: conn_ok_def)

lemma conn_ok_trans: "conn_ok s1 s2 \<Longrightarrow> conn_ok s2 s3 \<Longrightarrow> conn_ok s1 s3"
  by (auto simp: conn_ok_def)

lemma handleWrite_ok:
  assumes "conn_inv s"
  shows "\<exists>s'. handleWrite cb s = Some s' \<and> conn_ok s s' \<and> tc_taken s' = tc_taken s"
  using handleWrite_spec [OF assms, of cb] by (auto simp: conn_ok_def)

text \<open>The tail of \<open>sendInLoop\<close>: the unsent rest joins the output buffer and is tried again.\<close>

lemma send_rest:
  assumes "buf_inv (tc_inputBuffer s)" "buf_inv (tc_outputBuffer s)" "chan_inv (tc_channel s)"
    and op: "open_state (tc_state s)" and "\<not> tc_fin s" and "r \<noteq> []"
    and "ShutdownInLoop \<in> set (tc_queue s) \<longrightarrow> tc_state s \<noteq> kConnected"
    and st: "tc_wire s @ peek (tc_outputBuffer s) @ r = tc_taken s @ d"
  shows "\<exists>s'. (do { out \<leftarrow> buf_append r (tc_outputBuffer s);
                  let s3 = s\<lparr>tc_outputBuffer := out, tc_taken := tc_taken s @ d\<rparr>;
                  let s4 = (if isWriting (tc_channel s3) then s3
                            else s3\<lparr>tc_channel := enableWriting (tc_channel s3)\<rparr>);
                  handleWrite cb s4 }) = Some s'
      \<and> conn_inv s' \<and> tc_taken s' = tc_taken s @ d \<and> state_rank (tc_state s) \<le> state_rank (tc_state s')"
proof -
  from append_spec [OF assms(2), of r] obtain out where
    out: "buf_append r (tc_outputBuffer s) = Some out" "buf_inv out" "peek out = peek (tc_outputBuffer s) @ r" by blast
  let ?s3 = "s\<lparr>tc_outputBuffer := out, tc_taken := tc_taken s @ d\<rparr>"
  let ?s4 = "if isWriting (tc_channel ?s3) then ?s3 else ?s3\<lparr>tc_channel := enableWriting (tc_channel ?s3)\<rparr>"
  have "conn_inv ?s4"
    using assms out interest_switches(5) [OF assms(3)] chan_inv_ops(3) [OF assms(3)]
    by (auto simp: conn_inv_def stream_def open_state_def)
  from handleWrite_ok [OF this, of cb] obtain s' where
    "handleWrite cb ?s4 = Some s'" "conn_ok ?s4 s'" "tc_taken s' = tc_taken ?s4" by blast
  with out(1) show ?thesis by (auto simp: conn_ok_def Let_def split: if_splits)
qed

lemma send_high_water:
  "tc_taken (if c then conn_queue f s else s) = tc_taken s" "tc_state (if c then conn_queue f s else s) = tc_state s"
  "tc_outputBuffer (if c then conn_queue f s else s) = tc_outputBuffer s" "tc_fin (if c then conn_queue f s else s) = tc_fin s"
  "tc_inputBuffer (if c then conn_queue f s else s) = tc_inputBuffer s" "tc_wire (if c then conn_queue f s else s) = tc_wire s"
  "tc_channel (if c then conn_queue f s else s) = tc_channel s"
  "f \<noteq> ShutdownInLoop \<Longrightarrow>
    ShutdownInLoop \<in> set (tc_queue (if c then conn_queue f s else s)) \<longleftrightarrow> ShutdownInLoop \<in> set (tc_queue s)"
  by simp_all

text \<open>
  The state a direct write leaves: either everything up to \<open>n\<close> bytes of the message is on the wire
  and the output buffer is as before, or the peer is gone and nothing was written.
\<close>

lemma send_direct_spec:
  assumes "conn_inv s" and "open_state (tc_state s)" and "send_direct d s = (n, fault, s1)"
  shows "n \<le> length d \<and> tc_state s1 = tc_state s \<and> tc_channel s1 = tc_channel s \<and> tc_taken s1 = tc_taken s
    \<and> tc_outputBuffer s1 = tc_outputBuffer s \<and> tc_inputBuffer s1 = tc_inputBuffer s \<and> tc_fin s1 = tc_fin s
    \<and> (ShutdownInLoop \<in> set (tc_queue s1) \<longleftrightarrow> ShutdownInLoop \<in> set (tc_queue s))
    \<and> (if fault then conn_inv s1 \<and> (tc_errno s1 = EPIPE \<or> tc_errno s1 = ECONNRESET)
       else \<not> tc_fin s1 \<and> tc_wire s1 @ peek (tc_outputBuffer s) = tc_taken s @ take n d)"
proof (cases "\<not> isWriting (tc_channel s) \<and> readableBytes (tc_outputBuffer s) = 0")
  case True
  then have e: "peek (tc_outputBuffer s) = []" using assms(1) by (simp add: conn_inv_def readable_zero)
  obtain m s2 where w: "sock_write d s = (m, s2)" by fastforce
  then show ?thesis
  proof (cases rule: sock_write_cases)
    case (taken k ws)
    have st: "tc_wire s = tc_taken s" using assms(1) e by (simp add: conn_inv_def stream_def)
    from taken w assms(3) True e st show ?thesis by (auto simp: send_direct_def Let_def split: if_splits)
  next
    case (failed ws er)
    have st: "tc_wire s = tc_taken s" using assms(1) e by (simp add: conn_inv_def stream_def)
    from failed w assms True e st show ?thesis by (auto simp: send_direct_def Let_def split: if_splits)
  qed
next
  case False
  have "readableBytes (tc_outputBuffer s) = 0 \<longleftrightarrow> peek (tc_outputBuffer s) = []"
    using assms(1) by (simp add: conn_inv_def readable_zero)
  with False assms(1,2) have "peek (tc_outputBuffer s) \<noteq> []" by (auto simp: conn_inv_def)
  then have "\<not> tc_fin s" "tc_wire s @ peek (tc_outputBuffer s) = tc_taken s"
    using assms(1,2) by (auto simp: conn_inv_def stream_def open_state_def)
  with False assms(3) show ?thesis by (auto simp: send_direct_def)
qed

lemma sendInLoop_spec:
  assumes "conn_inv s" and "tc_state s \<noteq> kConnecting"
  shows "\<exists>s'. sendInLoop cb d s = Some s' \<and> conn_inv s' \<and> state_rank (tc_state s) \<le> state_rank (tc_state s')
    \<and> (tc_taken s' = tc_taken s @ d \<or> tc_taken s' = tc_taken s \<and>
        (tc_state s = kDisconnected \<or> tc_errno s' = EPIPE \<or> tc_errno s' = ECONNRESET))"
proof (cases "tc_state s = kDisconnected")
  case True
  with assms show ?thesis by (simp add: sendInLoop_def)
next
  case False
  then have op: "open_state (tc_state s)" using assms(2) by (cases "tc_state s") (auto simp: open_state_def)
  obtain n fault s1 where sd: "send_direct d s = (n, fault, s1)" by (cases "send_direct d s")
  note spec = send_direct_spec [OF assms(1) op sd]
  show ?thesis
  proof (cases "\<not> fault \<and> 0 < length d - n")
    case rest: True
    let ?hw = "tc_highWaterMark s1 \<le> readableBytes (tc_outputBuffer s1) + (length d - n)
        \<and> readableBytes (tc_outputBuffer s1) < tc_highWaterMark s1 \<and> tc_hasHighWaterMark s1"
    let ?s2 = "if ?hw then conn_queue (HighWaterMark (readableBytes (tc_outputBuffer s1) + (length d - n))) s1 else s1"
    have "tc_wire ?s2 @ peek (tc_outputBuffer ?s2) @ drop n d = tc_taken ?s2 @ d"
      using spec rest by (simp add: send_high_water) (metis append.assoc append_take_drop_id)
    moreover have "buf_inv (tc_inputBuffer ?s2)" "buf_inv (tc_outputBuffer ?s2)" "chan_inv (tc_channel ?s2)"
      "open_state (tc_state ?s2)" "\<not> tc_fin ?s2" "drop n d \<noteq> []"
      "ShutdownInLoop \<in> set (tc_queue ?s2) \<longrightarrow> tc_state ?s2 \<noteq> kConnected"
      using spec rest assms(1) op unfolding send_high_water by (auto simp: conn_inv_def)
    ultimately obtain s' where
      s': "(do { out \<leftarrow> buf_append (drop n d) (tc_outputBuffer ?s2);
              let s3 = ?s2\<lparr>tc_outputBuffer := out, tc_taken := tc_taken ?s2 @ d\<rparr>;
              let s4 = (if isWriting (tc_channel s3) then s3
                        else s3\<lparr>tc_channel := enableWriting (tc_channel s3)\<rparr>);
              handleWrite cb s4 }) = Some s'"
        "conn_inv s'" "tc_taken s' = tc_taken ?s2 @ d" "state_rank (tc_state ?s2) \<le> state_rank (tc_state s')"
      using send_rest [of ?s2 "drop n d" d cb] by blast
    have "sendInLoop cb d s = Some s'"
      using False sd rest s'(1) unfolding sendInLoop_def Let_def by simp
    with s' spec show ?thesis by (simp add: send_high_water)
  next
    case False
    then have r: "sendInLoop cb d s = Some (if fault then s1 else s1\<lparr>tc_taken := tc_taken s1 @ d\<rparr>)"
      using \<open>tc_state s \<noteq> kDisconnected\<close> sd by (auto simp: sendInLoop_def Let_def)
    have "conn_inv (s1\<lparr>tc_taken := tc_taken s1 @ d\<rparr>)" if "\<not> fault"
    proof -
      have "n = length d" using that False spec by auto
      with that spec assms(1) op show ?thesis by (auto simp: conn_inv_def stream_def)
    qed
    with r spec show ?thesis by auto
  qed
qed

section \<open>Callbacks, functors and events\<close>

lemma sendInLoop_ok:
  assumes "conn_inv s" and "tc_state s \<noteq> kConnecting"
  shows "\<exists>s'. sendInLoop cb d s = Some s' \<and> conn_ok s s'"
  using sendInLoop_spec [OF assms, of cb d] by (auto simp: conn_ok_def)

lemma shutdown_ok: "conn_inv s \<Longrightarrow> conn_ok s (shutdown l s)"
  by (auto simp: conn_ok_def shutdown_def shutdownInLoop_def conn_inv_def stream_def open_state_def Let_def conn_queue_def)

lemma forceClose_ok: "conn_inv s \<Longrightarrow> conn_ok s (forceClose s)"
  by (auto simp: conn_ok_def forceClose_def conn_queue_def conn_inv_def stream_def open_state_def)

lemma do_action_ok:
  assumes "conn_inv s"
  shows "\<exists>s'. do_action cb a s = Some s' \<and> conn_ok s s'"
proof (cases a)
  case (Send d)
  show ?thesis
  proof (cases "tc_state s = kConnected")
    case True
    with sendInLoop_ok [OF assms, of cb d] Send show ?thesis by (simp add: conn_send_def)
  qed (use assms Send in \<open>simp add: conn_send_def conn_ok_refl\<close>)
next
  case (SetWriteComplete w)
  with assms show ?thesis by (simp add: conn_ok_def)
qed (use assms shutdown_ok forceClose_ok in auto)

lemma do_actions_ok: "conn_inv s \<Longrightarrow> \<exists>s'. do_actions cb as s = Some s' \<and> conn_ok s s'"
proof (induction "as" arbitrary: s)
  case (Cons a as)
  from do_action_ok [OF Cons.prems, of cb a] obtain s1 where s1: "do_action cb a s = Some s1" "conn_ok s s1" by blast
  with Cons.IH [of s1] obtain s2 where "do_actions cb as s1 = Some s2" "conn_ok s1 s2" by (auto simp: conn_ok_def)
  with s1 conn_ok_trans show ?case by auto
qed (simp add: conn_ok_refl)

lemma handleClose_ok:
  assumes "conn_inv s" and "open_state (tc_state s)"
  shows "\<exists>s'. handleClose cb s = Some s' \<and> conn_ok s s' \<and> tc_state s' = kDisconnected"
  using handleClose_spec [OF assms, of cb] by (auto simp: conn_ok_def)

text \<open>A read that the kernel can deliver: it fits the space offered.\<close>

definition read_fits :: "readv_result \<Rightarrow> ('c, 'w) tcp_conn \<Rightarrow> bool" where
  "read_fits r s \<longleftrightarrow> (case r of Readv_data d \<Rightarrow> length d \<le> readv_capacity (tc_inputBuffer s) | Readv_error e \<Rightarrow> True)"

definition message_fails :: "('c, 'w) callbacks \<Rightarrow> readv_result \<Rightarrow> ('c, 'w) tcp_conn \<Rightarrow> bool" where
  "message_fails cb r s \<longleftrightarrow>
     (case readFd r (tc_inputBuffer s) of
        Some (n, err, b) \<Rightarrow> 0 < n \<and> cb_message cb (tc_context s) b = None
      | None \<Rightarrow> False)"

lemma handleRead_ok:
  assumes inv: "conn_inv s" and cb: "good_callbacks cb" and "open_state (tc_state s)" and "read_fits r s"
  shows "(\<exists>s'. handleRead cb r s = Some s' \<and> conn_ok s s') \<or> handleRead cb r s = None \<and> message_fails cb r s"
proof (cases r)
  case (Readv_error e)
  then show ?thesis using inv by (simp add: handleRead_def readFd_def handleError_def conn_ok_refl)
next
  case (Readv_data d)
  have "buf_inv (tc_inputBuffer s)" using inv by (simp add: conn_inv_def)
  from readFd_spec [OF this, of d] assms(4) Readv_data obtain b where
    b: "readFd r (tc_inputBuffer s) = Some (int (length d), None, b)" "buf_inv b" by (auto simp: read_fits_def)
  let ?s = "s\<lparr>tc_inputBuffer := b\<rparr>"
  have i1: "conn_inv ?s" using inv b(2) by (simp add: conn_inv_def stream_def)
  have ok1: "conn_ok s ?s" using i1 by (simp add: conn_ok_def)
  show ?thesis
  proof (cases "d = []")
    case True
    with b(1) handleClose_ok [OF i1, of cb] assms(3) conn_ok_trans [OF ok1] show ?thesis
      by (auto simp: handleRead_def)
  next
    case False
    show ?thesis
    proof (cases "cb_message cb (tc_context s) b")
      case None
      with b(1) False show ?thesis by (simp add: handleRead_def message_fails_def)
    next
      case (Some res)
      obtain ctx b' as where res: "res = (ctx, b', as)" by (cases res)
      with Some cb b(2) have b': "buf_inv b'" unfolding good_callbacks_def by blast
      let ?s2 = "s\<lparr>tc_context := ctx, tc_inputBuffer := b'\<rparr>"
      have i2: "conn_inv ?s2" using inv b' by (simp add: conn_inv_def stream_def)
      moreover have "conn_ok s ?s2" using i2 by (simp add: conn_ok_def)
      moreover have "handleRead cb r s = do_actions cb as ?s2"
        using b(1) Some res False by (simp add: handleRead_def)
      ultimately show ?thesis using do_actions_ok [OF i2, of cb as] conn_ok_trans by metis
    qed
  qed
qed

lemma run_functor_ok:
  assumes "conn_inv s" and "tc_state s = kDisconnected \<or> tc_state s = kConnected \<or> tc_state s = kDisconnecting"
    and "f = ShutdownInLoop \<longrightarrow> tc_state s \<noteq> kConnected"
  shows "\<exists>s'. run_functor cb f s = Some s' \<and> conn_ok s s'"
proof (cases f)
  case (WriteComplete w)
  obtain ctx as where "cb_writeComplete cb w (tc_context s) = (ctx, as)" by fastforce
  with WriteComplete do_actions_ok [of "s\<lparr>tc_context := ctx\<rparr>" cb "as"] assms(1) show ?thesis
    by (auto simp: conn_ok_def)
next
  case ShutdownInLoop
  have "state_rank (tc_state (shutdownInLoop s)) = state_rank (tc_state s)" "tc_taken (shutdownInLoop s) = tc_taken s"
    by (simp_all add: shutdownInLoop_def)
  with conn_inv_shutdownInLoop [OF assms(1)] assms(2,3) ShutdownInLoop show ?thesis
    by (auto simp: conn_ok_def)
next
  case ForceCloseInLoop
  with handleClose_ok [OF assms(1), of cb] assms(1) show ?thesis
    by (auto simp: forceCloseInLoop_def open_state_def conn_ok_refl)
next
  case HandleWrite
  with handleWrite_ok [OF assms(1), of cb] show ?thesis by auto
next
  case (SendInLoop d)
  with sendInLoop_ok [OF assms(1), of cb d] assms(2) show ?thesis by auto
qed (use assms(1) in \<open>simp add: conn_ok_refl\<close>)

lemma handleWrite_any_ok: "conn_inv s \<Longrightarrow> \<exists>s'. conn_callback cb r WriteCallback s = Some s' \<and> conn_ok s s'"
  using handleWrite_ok [of s cb] by (auto simp: conn_callback_def)

text \<open>
  The event sets that do not lead to a close followed by a read in one dispatch.
\<close>

definition safe_events :: "events \<Rightarrow> bool" where
  "safe_events r \<longleftrightarrow> \<not> {CloseCallback, ReadCallback} \<subseteq> set (dispatch r)"

lemma dispatch_forms:
  assumes "safe_events r"
  obtains c e rd w where "dispatch r = (if c then [CloseCallback] else []) @ (if e then [ErrorCallback] else [])
      @ (if rd then [ReadCallback] else []) @ (if w then [WriteCallback] else [])" "\<not> (c \<and> rd)"
proof -
  have "\<not> (r AND POLLHUP \<noteq> 0 \<and> r AND POLLIN = 0 \<and> r AND (POLLIN OR POLLPRI OR POLLRDHUP) \<noteq> 0)"
    using assms by (auto simp: safe_events_def dispatch_def)
  then show ?thesis using that [OF dispatch_def [of r]] by blast
qed

lemma run_callbacks_append:
  "run_callbacks f (xs @ ys) s = do { s' \<leftarrow> run_callbacks f xs s; run_callbacks f ys s' }"
  by (induction xs arbitrary: s) (auto split: bind_splits)

lemma error_callback [simp]: "conn_callback cb r ErrorCallback s = Some s"
  by (simp add: conn_callback_def handleError_def)

lemma run_write_ok:
  assumes "conn_inv s"
  shows "\<exists>s'. run_callbacks (conn_callback cb r) (if w then [WriteCallback] else []) s = Some s' \<and> conn_ok s s'"
  using handleWrite_any_ok [OF assms, of cb r] conn_ok_refl [OF assms] by auto

lemma run_dispatch_ok:
  assumes inv: "conn_inv s" and cb: "good_callbacks cb" and op: "open_state (tc_state s)" and "read_fits r s"
    and "safe_events ev"
  shows "(\<exists>s'. run_callbacks (conn_callback cb r) (dispatch ev) s = Some s' \<and> conn_ok s s')
    \<or> run_callbacks (conn_callback cb r) (dispatch ev) s = None \<and> message_fails cb r s"
proof -
  from dispatch_forms [OF assms(5)] obtain c e rd w where
    d: "dispatch ev = (if c then [CloseCallback] else []) @ (if e then [ErrorCallback] else [])
      @ (if rd then [ReadCallback] else []) @ (if w then [WriteCallback] else [])" "\<not> (c \<and> rd)" by blast
  let ?f = "run_callbacks (conn_callback cb r)"
  let ?pre = "(if c then [CloseCallback] else []) @ (if e then [ErrorCallback] else []) @ (if rd then [ReadCallback] else [])"
  have "(\<exists>s1. ?f ?pre s = Some s1 \<and> conn_ok s s1) \<or> ?f ?pre s = None \<and> message_fails cb r s"
  proof (cases c)
    case True
    with d(2) handleClose_ok [OF inv op, of cb] show ?thesis by (auto simp: conn_callback_def handleError_def)
  next
    case False
    with handleRead_ok [OF inv cb op assms(4)] conn_ok_refl [OF inv] show ?thesis
      by (cases rd) (auto simp: conn_callback_def handleError_def)
  qed
  moreover have split: "?f (dispatch ev) s = do { s1 \<leftarrow> ?f ?pre s; ?f (if w then [WriteCallback] else []) s1 }"
    unfolding d(1) by (subst run_callbacks_append [symmetric]) simp
  moreover have "\<exists>s2. ?f (if w then [WriteCallback] else []) s1 = Some s2 \<and> conn_ok s s2" if "conn_ok s s1" for s1
  proof -
    from that have "conn_inv s1" by (simp add: conn_ok_def)
    from run_write_ok [OF this, of cb r w] conn_ok_trans [OF that] show ?thesis by blast
  qed
  ultimately show ?thesis by fastforce
qed

lemma conn_handleEvent_ok:
  assumes inv: "conn_inv s" and cb: "good_callbacks cb" and op: "open_state (tc_state s)" and "read_fits r s"
    and "safe_events ev"
  shows "(\<exists>s'. conn_handleEvent cb ev r s = Some s' \<and> conn_ok s s')
    \<or> conn_handleEvent cb ev r s = None \<and> message_fails cb r s"
proof -
  let ?s = "s\<lparr>tc_channel := (tc_channel s)\<lparr>ch_revents := ev, ch_eventHandling := True\<rparr>\<rparr>"
  have i: "conn_inv ?s"
    using inv by (simp add: conn_inv_def stream_def chan_inv_iff isWriting_def isNoneEvent_def)
  have f: "read_fits r ?s = read_fits r s" "message_fails cb r ?s = message_fails cb r s"
    by (auto simp: read_fits_def message_fails_def split: readv_result.splits option.splits)
  have ok: "conn_ok s (s1\<lparr>tc_channel := (tc_channel s1)\<lparr>ch_eventHandling := False\<rparr>\<rparr>)" if "conn_ok ?s s1" for s1
    using that by (auto simp: conn_ok_def)
  have "(\<exists>s1. run_callbacks (conn_callback cb r) (dispatch ev) ?s = Some s1 \<and> conn_ok ?s s1)
      \<or> run_callbacks (conn_callback cb r) (dispatch ev) ?s = None \<and> message_fails cb r s"
    using run_dispatch_ok [OF i cb _ _ assms(5), of r] op assms(4) by (simp add: f)
  with ok show ?thesis
    by (auto simp: conn_handleEvent_def handleEvent_def handleEventWithGuard_def)
qed

section \<open>Reachable connections\<close>

text \<open>
  The life of a connection as steps: events on its channel while it is open, queued functors, calls by
  code on the loop's thread and by other threads, the kernel deciding what the coming writes do; and the
  final destruction.
\<close>

inductive conn_active :: "('c, 'w) callbacks \<Rightarrow> ('c, 'w) tcp_conn \<Rightarrow> ('c, 'w) tcp_conn \<Rightarrow> bool"
  for cb where
  event: "open_state (tc_state s) \<Longrightarrow> read_fits r s \<Longrightarrow> safe_events ev \<Longrightarrow> conn_handleEvent cb ev r s = Some s'
    \<Longrightarrow> conn_active cb s s'"
| functor_run: "tc_queue s = f # fs \<Longrightarrow> run_functor cb f (s\<lparr>tc_queue := fs\<rparr>) = Some s' \<Longrightarrow> conn_active cb s s'"
| local_call: "tc_state s \<noteq> kConnecting \<Longrightarrow> do_action cb a s = Some s' \<Longrightarrow> conn_active cb s s'"
| remote_send: "conn_send cb False d s = Some s' \<Longrightarrow> conn_active cb s s'"
| remote_shutdown: "conn_active cb s (shutdown False s)"
| kernel: "conn_active cb s (s\<lparr>tc_writes := ws\<rparr>)"

inductive conn_step :: "('c, 'w) callbacks \<Rightarrow> ('c, 'w) tcp_conn \<Rightarrow> ('c, 'w) tcp_conn \<Rightarrow> bool"
  for cb where
  active: "conn_active cb s s' \<Longrightarrow> conn_step cb s s'"
| destroyed: "connectDestroyed cb s = Some s' \<Longrightarrow> tc_state s \<noteq> kConnecting \<Longrightarrow> conn_step cb s s'"

inductive conn_reachable :: "('c, 'w) callbacks \<Rightarrow> ('c, 'w) tcp_conn \<Rightarrow> bool" for cb where
  established: "connectEstablished cb (new_conn fd ws) = Some s \<Longrightarrow> conn_reachable cb s"
| step: "conn_reachable cb s \<Longrightarrow> conn_step cb s s' \<Longrightarrow> conn_reachable cb s'"

lemma established_inv:
  assumes "connectEstablished cb (new_conn fd ws) = Some s"
  shows "conn_inv s \<and> tc_state s = kConnected"
proof -
  have c: "chan_inv (tie (new_channel fd))" by (simp add: chan_inv_iff tie_def new_channel_def)
  have "\<not> isWriting (tie (new_channel fd))" by (simp add: isWriting_def tie_def new_channel_def)
  with assms chan_inv_ops(1) [OF c] interest_switches(2) [OF c] show ?thesis
    by (auto simp: connectEstablished_def new_conn_def conn_inv_def stream_def open_state_def inv_intros buf_simps)
qed

lemma connectDestroyed_ok:
  assumes "conn_inv s" and "tc_state s \<noteq> kConnecting" and "connectDestroyed cb s = Some s'"
  shows "conn_ok s s'"
proof -
  have c: "chan_inv (tc_channel s)" using assms(1) by (simp add: conn_inv_def)
  let ?s1 = "if tc_state s = kConnected
                then s\<lparr>tc_state := kDisconnected, tc_channel := disableAll (tc_channel s),
                       tc_context := cb_connection cb False (tc_context s),
                       tc_log := tc_log s @ [ConnectionCalled False]\<rparr> else s"
  have "conn_inv ?s1"
    using assms(1) chan_inv_ops(5) [OF c] interest_switches(9) [OF c]
    by (auto simp: conn_inv_def stream_def open_state_def)
  then have i: "conn_inv (?s1\<lparr>tc_channel := (tc_channel ?s1)\<lparr>ch_addedToLoop := False\<rparr>\<rparr>)"
    by (simp add: conn_inv_def stream_def chan_inv_iff isWriting_def isNoneEvent_def)
  have "s' = ?s1\<lparr>tc_channel := (tc_channel ?s1)\<lparr>ch_addedToLoop := False\<rparr>\<rparr>"
    using assms(3) by (auto simp: connectDestroyed_def chan_remove_def Let_def split: if_splits)
  with i show ?thesis by (simp add: conn_ok_def)
qed

lemma conn_active_ok:
  assumes "conn_active cb s s'" and "conn_inv s" and "good_callbacks cb" and "tc_state s \<noteq> kConnecting"
  shows "conn_ok s s'"
  using assms(1)
proof cases
  case (event r ev)
  with conn_handleEvent_ok [OF assms(2,3)] show ?thesis by fastforce
next
  case (functor_run f fs)
  have i: "conn_inv (s\<lparr>tc_queue := fs\<rparr>)" and "f = ShutdownInLoop \<longrightarrow> tc_state s \<noteq> kConnected"
    using assms(2) functor_run(1) by (auto simp: conn_inv_def stream_def)
  with run_functor_ok [OF i, of f cb] assms(4) functor_run(2) show ?thesis
    by (cases "tc_state s") (auto simp: conn_ok_def)
next
  case (local_call a)
  with do_action_ok [OF assms(2), of cb a] show ?thesis by auto
next
  case (remote_send d)
  with assms(2) show ?thesis by (auto simp: conn_send_def conn_ok_def split: if_splits)
next
  case remote_shutdown
  with shutdown_ok [OF assms(2)] show ?thesis by simp
next
  case (kernel ws)
  with assms(2) show ?thesis by (simp add: conn_ok_def)
qed

lemma conn_step_ok:
  assumes "conn_step cb s s'" and "conn_inv s" and "good_callbacks cb" and "tc_state s \<noteq> kConnecting"
  shows "conn_ok s s'"
  using assms(1)
proof cases
  case active
  with conn_active_ok assms(2-4) show ?thesis by blast
next
  case destroyed
  with connectDestroyed_ok [OF assms(2)] show ?thesis by blast
qed

lemma reachable_inv:
  assumes "conn_reachable cb s" and "good_callbacks cb"
  shows "conn_inv s \<and> tc_state s \<noteq> kConnecting"
  using assms(1)
proof induction
  case (established fd ws s)
  with established_inv show ?case by force
next
  case (step s s')
  with conn_step_ok [OF step(2) _ assms(2)] have "conn_ok s s'" by blast
  with step(3) show ?case by (cases "tc_state s"; cases "tc_state s'") (auto simp: conn_ok_def)
qed

section \<open>Properties\<close>

text \<open>
  C3: Stream integrity. In every reachable state of a connection the bytes the kernel has accepted,
  followed by those in the output buffer, are exactly the messages taken for sending, in order: nothing
  is lost, repeated or reordered by partial writes, buffering and retries. While the connection is
  open it watches for writability exactly when output is waiting, and once its write side is shut down
  everything taken is on the wire.
\<close>

theorem connection_stream:
  assumes "conn_reachable cb s" and "good_callbacks cb"
  shows "tc_taken s = tc_wire s @ peek (tc_outputBuffer s)
    \<and> (open_state (tc_state s) \<longrightarrow> (isWriting (tc_channel s) \<longleftrightarrow> peek (tc_outputBuffer s) \<noteq> []))
    \<and> (tc_fin s \<and> tc_state s \<noteq> kDisconnected \<longrightarrow> tc_wire s = tc_taken s)"
proof -
  have "conn_inv s" using reachable_inv [OF assms] by blast
  moreover have "tc_state s \<noteq> kConnecting" using reachable_inv [OF assms] by blast
  ultimately show ?thesis by (cases "tc_state s") (auto simp: conn_inv_def stream_def)
qed

definition idle_callbacks :: "(unit, unit) callbacks" where
  "idle_callbacks = \<lparr>cb_message = (\<lambda>ctx b. Some (ctx, b, [])), cb_connection = (\<lambda>_ ctx. ctx),
     cb_writeComplete = (\<lambda>_ ctx. (ctx, []))\<rparr>"

lemma good_idle: "good_callbacks idle_callbacks"
  by (simp add: good_callbacks_def idle_callbacks_def)

theorem connection_stream_witness:
  "\<exists>s. conn_reachable idle_callbacks s \<and> tc_taken s = ''hello'' \<and> tc_taken s = tc_wire s @ peek (tc_outputBuffer s)"
proof -
  obtain s where s: "connectEstablished idle_callbacks (new_conn 5 [Wrote 2]) = Some s"
    by (simp add: connectEstablished_def new_conn_def)
  note i = established_inv [OF s]
  have t: "tc_taken s = []" "tc_writes s = [Wrote 2]" "\<not> tc_fin s" "peek (tc_outputBuffer s) = []"
    using s by (auto simp: connectEstablished_def new_conn_def buf_simps)
  from i t have sd: "send_direct ''hello'' s = (2, False, s\<lparr>tc_writes := [], tc_wire := tc_wire s @ ''he''\<rparr>)"
    by (simp add: send_direct_def sock_write_def conn_inv_def open_state_def readable_zero)
  from sendInLoop_spec [of s idle_callbacks "''hello''"] i obtain s' where
    s': "sendInLoop idle_callbacks ''hello'' s = Some s'" by auto
  have r: "conn_reachable idle_callbacks s'"
    using conn_reachable.step [OF conn_reachable.established [OF s] conn_step.active [OF conn_active.local_call [of s idle_callbacks "Send ''hello''" s']]]
      i s' by (simp add: conn_send_def)
  have "tc_taken s' = ''hello''"
  proof -
    obtain out where out: "buf_append ''llo'' (tc_outputBuffer s) = Some out"
      using append_spec [of "tc_outputBuffer s" "''llo''"] i by (auto simp: conn_inv_def)
    let ?s4 = "s\<lparr>tc_writes := [], tc_wire := tc_wire s @ ''he'', tc_outputBuffer := out, tc_taken := tc_taken s @ ''hello'',
      tc_channel := enableWriting (tc_channel s)\<rparr>"
    have "\<not> isWriting (tc_channel s)" using i t(4) by (simp add: conn_inv_def open_state_def)
    moreover have "\<not> tc_hasHighWaterMark s" using s by (auto simp: connectEstablished_def new_conn_def)
    ultimately have "handleWrite idle_callbacks ?s4 = Some s'"
      using s' sd out i unfolding sendInLoop_def Let_def by simp
    then show ?thesis using t(1,3)
      by (auto simp: handleWrite_def sock_write_def Let_def split: if_splits)
  qed
  with r connection_stream [OF r good_idle] show ?thesis by blast
qed

text \<open>
  C16: No abort. From a reachable open connection, any event set that does not combine a close with a
  read, whatever the socket then delivers or refuses, is handled without a failed assertion as long as
  the message callback returns; so is every functor the connection has queued, also after its close.
\<close>

theorem connection_never_aborts:
  assumes "conn_reachable cb s" and "good_callbacks cb"
  shows "(open_state (tc_state s) \<and> read_fits r s \<and> safe_events ev \<and> \<not> message_fails cb r s
      \<longrightarrow> conn_handleEvent cb ev r s \<noteq> None)
    \<and> (tc_queue s = f # fs \<longrightarrow> run_functor cb f (s\<lparr>tc_queue := fs\<rparr>) \<noteq> None)"
proof (intro conjI)
  have inv: "conn_inv s" and nc: "tc_state s \<noteq> kConnecting" using reachable_inv [OF assms] by auto
  show "open_state (tc_state s) \<and> read_fits r s \<and> safe_events ev \<and> \<not> message_fails cb r s
      \<longrightarrow> conn_handleEvent cb ev r s \<noteq> None"
    using conn_handleEvent_ok [OF inv assms(2), of r ev] by auto
  show "tc_queue s = f # fs \<longrightarrow> run_functor cb f (s\<lparr>tc_queue := fs\<rparr>) \<noteq> None"
  proof
    assume q: "tc_queue s = f # fs"
    have i: "conn_inv (s\<lparr>tc_queue := fs\<rparr>)" and "f = ShutdownInLoop \<longrightarrow> tc_state s \<noteq> kConnected"
      using inv q by (auto simp: conn_inv_def stream_def)
    with run_functor_ok [OF i, of f cb] nc show "run_functor cb f (s\<lparr>tc_queue := fs\<rparr>) \<noteq> None"
      by (cases "tc_state s") auto
  qed
qed

theorem connection_never_aborts_witness:
  "\<exists>s. conn_reachable idle_callbacks s \<and> conn_handleEvent idle_callbacks POLLIN (Readv_data ''hi'') s \<noteq> None"
proof -
  obtain s where s: "connectEstablished idle_callbacks (new_conn 5 []) = Some s"
    by (simp add: connectEstablished_def new_conn_def)
  have r: "conn_reachable idle_callbacks s" by (rule conn_reachable.established [OF s])
  have "open_state (tc_state s)" using established_inv [OF s] by (simp add: open_state_def)
  moreover have "read_fits (Readv_data ''hi'') s" by (simp add: read_fits_def readv_capacity_def extrabuf_size_def)
  moreover have "safe_events POLLIN" by (simp add: safe_events_def dispatch_def event_defs)
  moreover have "\<not> message_fails idle_callbacks (Readv_data ''hi'') s"
    by (simp add: message_fails_def idle_callbacks_def split: option.splits)
  ultimately show ?thesis using connection_never_aborts [OF r good_idle] r by blast
qed

text \<open>
  A hang-up reported together with urgent data (or a peer half-close) but without readable data
  closes the connection and then reads: at the end of the stream the second close fails its assertion.
\<close>

lemma hangup_with_urgent_aborts:
  assumes "conn_reachable cb s" and "good_callbacks cb" and "open_state (tc_state s)"
    and "ev AND POLLHUP \<noteq> 0" and "ev AND POLLIN = 0" and "ev AND (POLLPRI OR POLLRDHUP) \<noteq> 0"
  shows "conn_handleEvent cb ev (Readv_data []) s = None"
proof -
  have d: "\<exists>ks. dispatch ev = CloseCallback # ks \<and> ReadCallback \<in> set ks \<and> (\<exists>ks'. ks = ReadCallback # ks' \<or> ks = ErrorCallback # ReadCallback # ks')"
    using assms(4-6) by (auto simp: dispatch_def bit.conj_disj_distrib)
  let ?s = "s\<lparr>tc_channel := (tc_channel s)\<lparr>ch_revents := ev, ch_eventHandling := True\<rparr>\<rparr>"
  have i: "conn_inv ?s" using reachable_inv [OF assms(1,2)]
    by (simp add: conn_inv_def stream_def chan_inv_iff isWriting_def isNoneEvent_def)
  from handleClose_ok [OF i, of cb] assms(3) obtain s1 where
    s1: "handleClose cb ?s = Some s1" "tc_state s1 = kDisconnected" by auto
  have "handleRead cb (Readv_data []) s1 = None"
    using s1(2) by (simp add: handleRead_def readFd_def handleClose_def)
  with s1 d show ?thesis
    by (auto simp: conn_handleEvent_def handleEvent_def handleEventWithGuard_def conn_callback_def handleError_def)
qed

lemma hangup_with_urgent_aborts_witness:
  "\<exists>s. conn_reachable idle_callbacks s
     \<and> conn_handleEvent idle_callbacks (POLLHUP OR POLLPRI) (Readv_data []) s = None"
proof -
  obtain s where s: "connectEstablished idle_callbacks (new_conn 5 []) = Some s"
    by (simp add: connectEstablished_def new_conn_def)
  have r: "conn_reachable idle_callbacks s" by (rule conn_reachable.established [OF s])
  have "open_state (tc_state s)" using established_inv [OF s] by (simp add: open_state_def)
  then have "conn_handleEvent idle_callbacks (POLLHUP OR POLLPRI) (Readv_data []) s = None"
    by (rule hangup_with_urgent_aborts [OF r good_idle]) (simp_all add: event_defs)
  with r show ?thesis by blast
qed

text \<open>Draining: repeated writable events with a socket that takes at least one byte each time.\<close>

fun handle_writes :: "('c, 'w) callbacks \<Rightarrow> nat \<Rightarrow> ('c, 'w) tcp_conn \<Rightarrow> ('c, 'w) tcp_conn checked" where
  "handle_writes cb 0 s = Some s"
| "handle_writes cb (Suc n) s = do { s' \<leftarrow> handleWrite cb s; handle_writes cb n s' }"

lemma handleWrite_progress:
  assumes "conn_inv s" and "isWriting (tc_channel s)" and "tc_writes s = Wrote k # ws" and "0 < k"
  shows "\<exists>s'. handleWrite cb s = Some s' \<and> tc_state s' = tc_state s \<and> tc_writes s' = ws
    \<and> peek (tc_outputBuffer s') = drop k (peek (tc_outputBuffer s))
    \<and> (drop k (peek (tc_outputBuffer s)) = [] \<and> tc_state s = kDisconnecting \<longrightarrow> tc_fin s')"
proof -
  let ?p = "peek (tc_outputBuffer s)" and ?k = "min k (length (peek (tc_outputBuffer s)))"
  have op: "open_state (tc_state s)" using conn_inv_writing_open [OF assms(1,2)] .
  then have ne: "?p \<noteq> []" and nf: "\<not> tc_fin s" and b: "buf_inv (tc_outputBuffer s)" and c: "chan_inv (tc_channel s)"
    using assms(1,2) by (auto simp: conn_inv_def open_state_def)
  have kk: "0 < ?k" "drop ?k ?p = drop k ?p" using ne assms(4) by (auto simp: min_def)
  have w: "sock_write ?p s = (int ?k, s\<lparr>tc_writes := ws, tc_wire := tc_wire s @ take k ?p\<rparr>)"
    using nf assms(3) by (simp add: sock_write_def)
  from retrieve_spec [OF b, of ?k] b kk(2) obtain out where
    out: "retrieve ?k (tc_outputBuffer s) = Some out" "buf_inv out" "peek out = drop k ?p" by auto
  have nw: "\<not> isWriting (disableWriting (tc_channel s))" using interest_switches(7) [OF c] .
  show ?thesis
  proof (cases "drop k ?p = []")
    case True
    with w out kk assms(2) nw show ?thesis
      by (auto simp: handleWrite_def readable_zero Let_def shutdownInLoop_def queue_writeComplete_def conn_queue_def
          simp del: min_def split: option.split)
  next
    case False
    with w out kk assms(2) show ?thesis
      by (auto simp: handleWrite_def readable_zero Let_def conn_queue_def simp del: min_def)
  qed
qed

lemma handle_writes_idle:
  assumes "conn_inv s" and "open_state (tc_state s)" and "peek (tc_outputBuffer s) = []"
  shows "handle_writes cb n s = Some s"
  using assms by (induction n) (auto simp: handleWrite_def conn_inv_def)

text \<open>
  C17: Waiting output drains. On a reachable open connection, as many writable events as there are waiting
  bytes put all of them on the wire if the socket takes at least one byte each time; the channel then
  stops watching for writability, and if the connection was being shut down its write side is closed.
\<close>

theorem connection_drains:
  assumes "conn_reachable cb s" and "good_callbacks cb" and "open_state (tc_state s)"
    and "tc_writes s = map Wrote ns" and "list_all (\<lambda>n. 0 < n) ns" and "length (peek (tc_outputBuffer s)) \<le> length ns"
  shows "\<exists>s'. handle_writes cb (length ns) s = Some s' \<and> tc_wire s' = tc_taken s \<and> peek (tc_outputBuffer s') = []
    \<and> \<not> isWriting (tc_channel s') \<and> tc_state s' = tc_state s
    \<and> (tc_state s = kDisconnecting \<and> peek (tc_outputBuffer s) \<noteq> [] \<longrightarrow> tc_fin s')"
proof -
  have "conn_inv s" using reachable_inv [OF assms(1,2)] by blast
  then show ?thesis using assms(3-)
  proof (induction ns arbitrary: s)
    case Nil
    then have "peek (tc_outputBuffer s) = []" by (simp del: length_peek)
    with Nil show ?case by (auto simp: conn_inv_def stream_def)
  next
    case (Cons n ns)
    show ?case
    proof (cases "peek (tc_outputBuffer s) = []")
      case True
      with handle_writes_idle [OF Cons.prems(1,2) True, of cb "length (n # ns)"] Cons.prems show ?thesis
        by (auto simp: conn_inv_def stream_def)
    next
      case False
      with Cons.prems(1,2) have w: "isWriting (tc_channel s)" by (simp add: conn_inv_def)
      from handleWrite_progress [OF Cons.prems(1) w, of n "map Wrote ns" cb] Cons.prems obtain s1 where
        s1: "handleWrite cb s = Some s1" "tc_state s1 = tc_state s" "tc_writes s1 = map Wrote ns"
          "peek (tc_outputBuffer s1) = drop n (peek (tc_outputBuffer s))"
          "drop n (peek (tc_outputBuffer s)) = [] \<and> tc_state s = kDisconnecting \<longrightarrow> tc_fin s1" by auto
      from handleWrite_spec [OF Cons.prems(1), of cb] s1(1) have i1: "conn_inv s1" "tc_taken s1 = tc_taken s" by auto
      have "length (peek (tc_outputBuffer s1)) \<le> length ns" using s1(4) Cons.prems(4,5) by auto
      from Cons.IH [OF i1(1) _ s1(3) _ this] Cons.prems(2,4) s1(2) obtain s2 where
        s2: "handle_writes cb (length ns) s1 = Some s2" "tc_wire s2 = tc_taken s1" "peek (tc_outputBuffer s2) = []"
          "\<not> isWriting (tc_channel s2)" "tc_state s2 = tc_state s1"
          "tc_state s1 = kDisconnecting \<and> peek (tc_outputBuffer s1) \<noteq> [] \<longrightarrow> tc_fin s2" by auto
      have "tc_fin s2" if "tc_state s = kDisconnecting"
      proof (cases "peek (tc_outputBuffer s1) = []")
        case True
        with handle_writes_idle [OF i1(1) _ True, of cb "length ns"] s2(1) s1(2) Cons.prems(2) have "s2 = s1" by simp
        with s1(4,5) True that show ?thesis by simp
      qed (use s2(6) s1(2) that in simp)
      with s1 s2 i1(2) show ?thesis by auto
    qed
  qed
qed

lemma example_waiting:
  "\<exists>s :: (unit, unit) tcp_conn. conn_reachable idle_callbacks s \<and> tc_state s = kDisconnecting \<and> peek (tc_outputBuffer s) = ''ab''
     \<and> tc_taken s = ''ab'' \<and> tc_writes s = map Wrote [1, 5]"
proof -
  obtain s0 where s0: "connectEstablished idle_callbacks (new_conn 5 []) = Some (s0 :: (unit, unit) tcp_conn)"
    by (simp add: connectEstablished_def new_conn_def)
  note i = established_inv [OF s0]
  have t: "tc_taken s0 = []" "tc_writes s0 = []" "\<not> tc_fin s0" "peek (tc_outputBuffer s0) = []" "\<not> tc_hasHighWaterMark s0"
    using s0 by (auto simp: connectEstablished_def new_conn_def buf_simps)
  have sd: "send_direct ''ab'' s0 = (0, False, s0\<lparr>tc_errno := EAGAIN\<rparr>)"
    using i t by (simp add: send_direct_def sock_write_def conn_inv_def open_state_def readable_zero)
  from append_spec [of "tc_outputBuffer s0" "''ab''"] i t(4) obtain out where
    out: "buf_append ''ab'' (tc_outputBuffer s0) = Some out" "buf_inv out" "peek out = ''ab''"
    by (auto simp: conn_inv_def)
  have nw: "\<not> isWriting (tc_channel s0)" and c: "chan_inv (tc_channel s0)"
    using i t(4) by (auto simp: conn_inv_def open_state_def)
  let ?s1 = "s0\<lparr>tc_errno := EAGAIN, tc_outputBuffer := out, tc_taken := ''ab'', tc_channel := enableWriting (tc_channel s0)\<rparr>"
  note wr = interest_switches(5) [OF c]
  have send: "conn_send idle_callbacks True ''ab'' s0 = Some ?s1"
    using sd out i t nw wr by (simp add: conn_send_def sendInLoop_def handleWrite_def sock_write_def Let_def)
  let ?s2 = "?s1\<lparr>tc_state := kDisconnecting\<rparr>"
  have sh: "shutdown True ?s1 = ?s2" using i wr by (simp add: shutdown_def shutdownInLoop_def)
  have "conn_reachable idle_callbacks s0" by (rule conn_reachable.established [OF s0])
  then have "conn_reachable idle_callbacks ?s1"
    by (rule conn_reachable.step) (rule conn_step.active, rule conn_active.local_call [of _ _ "Send ''ab''"], use send i in simp_all)
  then have "conn_reachable idle_callbacks ?s2"
    by (rule conn_reachable.step) (rule conn_step.active, rule conn_active.local_call [of _ _ Shutdown], use sh i in simp_all)
  then have "conn_reachable idle_callbacks (?s2\<lparr>tc_writes := map Wrote [1, 5]\<rparr>)"
    by (rule conn_reachable.step) (intro conn_step.active conn_active.kernel)
  with out(3) show ?thesis by (intro exI [of _ "?s2\<lparr>tc_writes := map Wrote [1, 5]\<rparr>"]) simp
qed

theorem connection_drains_witness:
  "\<exists>s s'. conn_reachable idle_callbacks s \<and> peek (tc_outputBuffer s) = ''ab''
     \<and> handle_writes idle_callbacks 2 s = Some s' \<and> tc_wire s' = ''ab'' \<and> tc_fin s'"
proof -
  from example_waiting obtain s :: "(unit, unit) tcp_conn" where
    s: "conn_reachable idle_callbacks s" "tc_state s = kDisconnecting" "peek (tc_outputBuffer s) = ''ab''"
      "tc_taken s = ''ab''" "tc_writes s = map Wrote [1, 5]" by blast
  with connection_drains [OF s(1) good_idle _ s(5)] show ?thesis
    by (auto simp: open_state_def numeral_2_eq_2)
qed

end
