(* ===== verification/HttpServer.thy ===== *)
theory HttpServer
  imports HttpParse HttpResponse TcpConnection
begin

text \<open>
  The HTTP server of \<open>net/HttpServer.h\<close> and \<open>net/HttpServer.cc\<close>: the message callback it installs
  on every connection. The user's HTTP callback is a parameter: it works on the application's state,
  on the connection's HTTP context (which holds the request) and on the response, does things to the
  connection (a list of actions), and returns whether it has answered synchronously; an exception that
  escapes it ends the process and is \<^term>\<open>None\<close>. \<open>onMessage\<close>
  returns what it leaves behind and the actions on the connection, in order; it does not return when
  the parser does not, and aborts when the parser does.
\<close>

section \<open>Callbacks\<close>

type_synonym ('g, 'u, 'w) http_callback =
  "'g \<Rightarrow> 'u http_context \<Rightarrow> http_response
     \<Rightarrow> (bool \<times> 'g \<times> 'u http_context \<times> http_response \<times> 'w action list) checked"

definition defaultHttpCallback :: "('g, 'u, 'w) http_callback" where
  "defaultHttpCallback g c resp =
     Some (True, g, c, setCloseConnection True (setStatusMessage ''Not Found'' (setStatusCode k404NotFound resp)), [])"

definition onConnection :: "bool \<Rightarrow> 'u http_context option \<Rightarrow> 'u http_context option" where
  "onConnection connected ctx = (if connected then Some new_context else ctx)"

definition keep_alive_close :: "http_request \<Rightarrow> bool" where
  "keep_alive_close req =
     (let connection = getHeader req ''Connection''
      in connection = ''close'' \<or> rq_version req = kHttp10 \<and> connection \<noteq> ''Keep-Alive'')"

definition onRequest ::
  "('g, 'u, 'w) http_callback \<Rightarrow> 'g \<Rightarrow> 'u http_context \<Rightarrow> (bool \<times> 'g \<times> 'u http_context \<times> 'w action list) checked" where
  "onRequest cb g c =
     do { (syncProcessed, g1, c1, response, as) \<leftarrow> cb g c (new_response (keep_alive_close (hc_request c)));
          if syncProcessed then
            do { buf \<leftarrow> appendToBuffer response (new_buffer kInitialSize);
                 Some (True, g1, c1, as @ [Send (peek buf)] @ (if rs_closeConnection response then [Shutdown] else [])) }
          else Some (False, g1, c1, as) }"

definition bad_request_reply :: bytes where
  "bad_request_reply = ''HTTP/1.1 400 Bad Request'' @ CRLF @ CRLF"

definition upload_chunk_size :: nat where "upload_chunk_size = 1024 * 1024"

definition onMessage ::
  "nat \<Rightarrow> ('g, 'u, 'w) http_callback \<Rightarrow> int \<Rightarrow> 'g \<Rightarrow> 'u http_context option \<Rightarrow> buffer
     \<Rightarrow> ('g \<times> 'u http_context option \<times> buffer \<times> 'w action list) run" where
  "onMessage fuel cb now g ctx buf =
     (case ctx of
        None \<Rightarrow> Done (g, None, buf, [])
      | Some c \<Rightarrow>
          run_bind (parseRequest fuel c buf now) (\<lambda>(result, c1, b1).
            case result of
              kError \<Rightarrow> Done (g, Some c1, b1, [Send bad_request_reply, Shutdown])
            | kHeadersComplete \<Rightarrow>
                if expectBody c1 \<and> rq_path (hc_request c1) = ''/upload'' \<and> rq_method (hc_request c1) = kPost
                   \<and> upload_chunk_size \<le> length (rq_body (hc_request c1))
                then run_bind (of_checked (cb g c1 (new_response False)))
                       (\<lambda>(syncProcessed, g2, c2, response, as). Done (g2, Some c2, b1, as))
                else Done (g, Some c1, b1, [])
            | kGotRequest \<Rightarrow>
                run_bind (of_checked (onRequest cb g c1)) (\<lambda>(syncProcessed, g2, c2, as).
                  Done (g2, Some (if syncProcessed then reset_context c2 else c2), b1, as))
            | kNeedMore \<Rightarrow> Done (g, Some c1, b1, [])))"

text \<open>
  The callbacks the server installs on a connection, with the application's state beside the context.
\<close>

definition server_callbacks :: "nat \<Rightarrow> ('g, 'u, 'w) http_callback \<Rightarrow> int \<Rightarrow> 'g \<Rightarrow>
    ('w \<Rightarrow> ('g \<times> 'u http_context option) option \<Rightarrow> ('g \<times> 'u http_context option) option \<times> 'w action list)
    \<Rightarrow> ('g \<times> 'u http_context option, 'w) callbacks" where
  "server_callbacks fuel cb now g0 wc =
     \<lparr>cb_message = (\<lambda>ctx b.
        let (g, c) = (case ctx of Some gc \<Rightarrow> gc | None \<Rightarrow> (g0, None))
        in case onMessage fuel cb now g c b of
             Done (g', c', b', as) \<Rightarrow> Some (Some (g', c'), b', as)
           | Assert_failed \<Rightarrow> None
           | Out_of_fuel \<Rightarrow> None),
      cb_connection = (\<lambda>connected ctx.
        let (g, c) = (case ctx of Some gc \<Rightarrow> gc | None \<Rightarrow> (g0, None)) in Some (g, onConnection connected c)),
      cb_writeComplete = wc\<rparr>"

section \<open>Lemmas\<close>

lemma onRequest_sync:
  assumes "cb g c (new_response (keep_alive_close (hc_request c))) = Some (True, g1, c1, response, as)"
  shows "onRequest cb g c = Some (True, g1, c1,
    as @ [Send (response_text response)] @ (if rs_closeConnection response then [Shutdown] else []))"
proof -
  from appendToBuffer_spec [OF buf_inv_new, of response kInitialSize] obtain b' where
    "appendToBuffer response (new_buffer kInitialSize) = Some b'" "peek b' = response_text response"
    by (auto simp: buf_simps)
  with assms show ?thesis by (simp add: onRequest_def)
qed

lemma processHeaders_buf: "processHeaders c b = Some (c1, b1) \<Longrightarrow> buf_inv b \<Longrightarrow> buf_inv b1"
proof (induction c b rule: processHeaders.induct)
  case (1 c b)
  show ?case
  proof (cases "findCRLF b")
    case None
    with 1 show ?thesis by (simp add: processHeaders.simps [of c b])
  next
    case (Some crlf)
    from retrieve_line [OF "1.prems"(2) Some] obtain b' where
      b': "retrieveUntil (crlf + 2) b = Some b'" "buf_inv b'" by blast
    show ?thesis using "1.prems"(1) Some b' "1.IH" [OF Some _ b'(1) _ b'(2)]
      unfolding processHeaders.simps [of c b] by (auto split: option.splits)
  qed
qed

lemma processBody_buf:
  assumes "processBody c b = Some (f, c1, b1)" and "buf_inv b"
  shows "buf_inv b1"
proof -
  from retrieve_spec [OF assms(2), of "min (readableBytes b) (remainingLength c)"] obtain b' where
    "retrieve (min (readableBytes b) (remainingLength c)) b = Some b'" "buf_inv b'" by auto
  with assms show ?thesis by (auto simp: processBody_def Let_def split: if_splits)
qed

lemma parse_loop_buf: "parse_loop n now res c b = Done (r, c1, b1) \<Longrightarrow> buf_inv b \<Longrightarrow> buf_inv b1"
proof (induction n arbitrary: res c b)
  case (Suc n)
  show ?case
  proof (cases "hc_state c")
    case kExpectRequestLine
    show ?thesis
    proof (cases "findCRLF b")
      case None
      with Suc.prems kExpectRequestLine show ?thesis by simp
    next
      case (Some crlf)
      from retrieve_line [OF Suc.prems(2) Some] obtain b' where
        "retrieveUntil (crlf + 2) b = Some b'" "buf_inv b'" by blast
      with Suc Some kExpectRequestLine show ?thesis by (auto split: option.splits if_splits)
    qed
  next
    case kExpectHeaders
    with Suc processHeaders_buf [of c b] show ?thesis by (fastforce split: option.splits if_splits)
  next
    case kExpectBody
    with Suc.prems processBody_buf [of c b] show ?thesis by (auto split: option.splits if_splits)
  next
    case kGotAll
    with Suc show ?thesis by simp
  qed
qed simp

lemma server_good_callbacks: "good_callbacks (server_callbacks fuel cb now g0 wc)"
proof -
  have "buf_inv b'" if "onMessage fuel cb now g c b = Done (g', c', b', as)" "buf_inv b" for g c b g' c' b' as
  proof (cases c)
    case (Some hc)
    with that obtain res hc1 b1 where "parseRequest fuel hc b now = Done (res, hc1, b1)" "b' = b1"
      by (cases "parseRequest fuel hc b now")
         (auto simp: onMessage_def split: parse_result.splits if_splits prod.splits option.splits
            elim!: run_bind.elims of_checked.elims)
    with parse_loop_buf that(2) show ?thesis by (auto simp: parseRequest_def)
  qed (use that in \<open>simp add: onMessage_def\<close>)
  then show ?thesis
    by (auto simp: good_callbacks_def server_callbacks_def split: run.splits option.splits prod.splits)
qed

section \<open>Properties\<close>

text \<open>
  C2: A well-formed request that arrives in one segment is served. The handler sees exactly the printed
  request and a response whose connection mode follows the request's \<open>Connection\<close> header. A
  synchronous answer sends the printed response after whatever the handler did to the connection,
  shuts the connection down exactly when the response says so, and resets the context for the next
  request; the bytes of a following request stay in the buffer.
\<close>

theorem server_serves_request:
  fixes cb :: "('g, 'u, 'w) http_callback"
  assumes "buf_inv b" and "peek b = print_request m path query hdrs body @ rest"
    and "m \<noteq> kInvalid" and "good_target path query" and "list_all plain_header hdrs"
    and "length body < 2 ^ 31"
  shows "\<exists>c b'. peek b' = rest \<and> buf_inv b'
    \<and> hc_request c = \<lparr>rq_method = m, rq_version = kHttp11, rq_path = path, rq_query = query, rq_body = body,
        rq_receiveTime = now, rq_headers = store_headers (hdrs @ length_header body) Map.empty, rq_pathParams = Map.empty\<rparr>
    \<and> onMessage 3 cb now g (Some new_context) b =
        (case cb g c (new_response (store_headers (hdrs @ length_header body) Map.empty ''Connection'' = Some ''close'')) of
           None \<Rightarrow> Assert_failed
         | Some (syncProcessed, g1, c1, response, as) \<Rightarrow>
             if syncProcessed
             then Done (g1, Some (reset_context c1), b',
               as @ [Send (response_text response)] @ (if rs_closeConnection response then [Shutdown] else []))
             else Done (g1, Some c1, b', as))"
proof -
  from parse_printed [OF assms] obtain c :: "'u http_context" and b' where
    c: "parseRequest 3 new_context b now = Done (kGotRequest, c, b')" "buf_inv b'" "peek b' = rest"
      "hc_request c = \<lparr>rq_method = m, rq_version = kHttp11, rq_path = path, rq_query = query,
        rq_body = body, rq_receiveTime = now,
        rq_headers = store_headers (hdrs @ length_header body) Map.empty, rq_pathParams = Map.empty\<rparr>" by blast
  have k: "keep_alive_close (hc_request c) = (store_headers (hdrs @ length_header body) Map.empty ''Connection'' = Some ''close'')"
    by (simp add: keep_alive_close_def getHeader_def c(4) split: option.split)
  let ?r = "cb g c (new_response (keep_alive_close (hc_request c)))"
  have "onMessage 3 cb now g (Some new_context) b =
     (case ?r of
        None \<Rightarrow> Assert_failed
      | Some (sy, g1, c1, response, as) \<Rightarrow>
          if sy then Done (g1, Some (reset_context c1), b',
               as @ [Send (response_text response)] @ (if rs_closeConnection response then [Shutdown] else []))
          else Done (g1, Some c1, b', as))"
  proof (cases ?r)
    case None
    with c(1) show ?thesis by (simp add: onMessage_def onRequest_def)
  next
    case (Some res)
    obtain sy g1 c1 response as where r: "res = (sy, g1, c1, response, as)" by (metis prod_cases5)
    show ?thesis
    proof (cases sy)
      case True
      with Some r have "?r = Some (True, g1, c1, response, as)" by simp
      from onRequest_sync [of cb, OF this] True Some r c(1) show ?thesis by (simp add: onMessage_def)
    next
      case False
      with Some r c(1) show ?thesis by (simp add: onMessage_def onRequest_def)
    qed
  qed
  with c(2-4) k show ?thesis by (intro exI [of _ c] exI [of _ b']) simp
qed

theorem server_serves_request_witness:
  "\<exists>c b'. peek b' = ''GET'' \<and> onMessage 3 (defaultHttpCallback :: (unit, unit, unit) http_callback) 0 () (Some new_context)
      (buffer_of (print_request kGet ''/x'' [] [(''Host'', ''h'')] [] @ ''GET''))
    = Done ((), Some (reset_context c), b',
        [Send (response_text (setCloseConnection True (setStatusMessage ''Not Found''
           (setStatusCode k404NotFound (new_response False))))), Shutdown])"
proof -
  have p: "list_all plain_header [(''Host'', ''h'')]" "good_target ''/x'' []"
    by (simp_all add: good_target_def no_crlf_def cr_def plain_header_def good_header_def trimmed_def
       is_space_def strcaseeq_def c_str_def to_lower_def)
  from server_serves_request [OF buf_inv_buffer_of peek_buffer_of, of kGet "''/x''" "[]" "[(''Host'', ''h'')]" "[]" "''GET''" 0
      "defaultHttpCallback :: (unit, unit, unit) http_callback" "()"] p
  show ?thesis
    by (auto simp: defaultHttpCallback_def store_headers_def length_header_def setCloseConnection_def setStatusMessage_def
        setStatusCode_def new_response_def)
qed



text \<open>
  An asynchronous answer leaves the context in state \<open>kGotAll\<close>, and from that state the next
  segment on the connection is never processed: the parser's loop does not terminate. So once a handler
  returns false for a complete request, the loop thread hangs on the connection's next bytes.
\<close>

lemma async_reply_then_hang:
  assumes "hc_state c = kGotAll"
  shows "onMessage fuel cb now g (Some c) b = Out_of_fuel"
  using gotAll_diverges [OF assms, of fuel now kNeedMore b] by (simp add: onMessage_def parseRequest_def)

lemma async_reply_then_hang_witness:
  "\<exists>c b'. onMessage 3 (\<lambda>g c r. Some (False, g, c, r, [])) 0 () (Some (new_context :: unit http_context))
      (buffer_of (print_request kGet ''/'' [] [] [])) = Done ((), Some c, b', [] :: unit action list)
    \<and> onMessage 1000 (\<lambda>g c r. Some (False, g, c, r, [] :: unit action list)) 1 () (Some c) (buffer_of ''G'') = Out_of_fuel"
proof -
  have p: "good_target ''/'' []" by (simp add: good_target_def no_crlf_def cr_def)
  from parse_printed [OF buf_inv_buffer_of, of "print_request kGet ''/'' [] [] []" kGet "''/''" "[]" "[]" "[]" "[]" 0] p
  obtain c :: "unit http_context" and b' where
    c: "parseRequest 3 (new_context :: unit http_context) (buffer_of (print_request kGet ''/'' [] [] [])) 0
        = Done (kGotRequest, c, b')" "hc_state c = kGotAll"
    by (auto simp: peek_buffer_of)
  have "onMessage 3 (\<lambda>g c r. Some (False, g, c, r, [] :: unit action list)) 0 () (Some (new_context :: unit http_context))
      (buffer_of (print_request kGet ''/'' [] [] [])) = Done ((), Some c, b', [])"
    using c(1) by (simp add: onMessage_def onRequest_def)
  with async_reply_then_hang [OF c(2), of 1000 "\<lambda>g c r. Some (False, g, c, r, [] :: unit action list)" 1 "()" "buffer_of ''G''"]
  show ?thesis by (intro exI [of _ c] exI [of _ b']) simp
qed

text \<open>
  A handler that answers an upload chunk of at least 1 MiB synchronously is not heard: its response is
  dropped, nothing is sent, and the context is not reset.
\<close>

lemma chunk_response_dropped:
  assumes "parseRequest fuel c b now = Done (kHeadersComplete, c1, b1)" and "expectBody c1"
    and "rq_path (hc_request c1) = ''/upload''" and "rq_method (hc_request c1) = kPost"
    and "upload_chunk_size \<le> length (rq_body (hc_request c1))"
    and "cb g c1 (new_response False) = Some (True, g2, c2, response, as)"
  shows "onMessage fuel cb now g (Some c) b = Done (g2, Some c2, b1, as)"
  using assms by (simp add: onMessage_def)

definition big_upload :: "unit http_context" where
  "big_upload = new_context\<lparr>hc_state := kExpectBody, hc_contentLength := 3000000, hc_bodyReceived := 1048576,
     hc_request := new_request\<lparr>rq_method := kPost, rq_path := ''/upload'', rq_body := replicate 1048576 (CHR ''x'')\<rparr>\<rparr>"

lemma chunk_response_dropped_witness:
  "onMessage 3 (\<lambda>g c r. Some (True, g, c, setStatusCode k400BadRequest r, [] :: unit action list)) 0 () (Some big_upload) (new_buffer 0)
    = Done ((), Some big_upload, new_buffer 0, [])"
proof (rule chunk_response_dropped)
  have p: "peek (new_buffer 0) = []" "readableBytes (new_buffer 0) = 0"
    by (simp_all add: new_buffer_def buf_defs)
  have "processBody big_upload (new_buffer 0) = Some (False, big_upload, new_buffer 0)"
    by (simp add: processBody_def big_upload_def new_context_def p)
  then show "parseRequest 3 big_upload (new_buffer 0) 0 = Done (kHeadersComplete, big_upload, new_buffer 0)"
    by (simp add: parseRequest_def numeral_3_eq_3 big_upload_def)
qed (simp_all add: expectBody_def big_upload_def upload_chunk_size_def)

text \<open>
  The server's callbacks keep the connection's contract: on every reachable connection that runs them
  the output stream is intact, whatever the application does in its handler.
\<close>

lemma server_connection_stream:
  assumes "conn_reachable (server_callbacks fuel cb now g0 wc) s"
  shows "tc_taken s = tc_wire s @ peek (tc_outputBuffer s)
    \<and> (tc_fin s \<and> tc_state s \<noteq> kDisconnected \<longrightarrow> tc_wire s = tc_taken s)"
proof -
  have "conn_inv s" "tc_state s \<noteq> kConnecting"
    using reachable_inv [OF assms server_good_callbacks] by auto
  then show ?thesis by (cases "tc_state s") (auto simp: conn_inv_def stream_def)
qed

lemma server_connection_stream_witness:
  "\<exists>s. conn_reachable (server_callbacks 3 (defaultHttpCallback :: (unit, unit, unit) http_callback) 0 () (\<lambda>_ x. (x, []))) s
     \<and> tc_taken s = tc_wire s @ peek (tc_outputBuffer s)"
proof -
  let ?cb = "server_callbacks 3 (defaultHttpCallback :: (unit, unit, unit) http_callback) 0 () (\<lambda>_ x. (x, []))"
  obtain s where "connectEstablished ?cb (new_conn 5 []) = Some s"
    by (simp add: connectEstablished_def new_conn_def)
  then have r: "conn_reachable ?cb s" by (rule conn_reachable.established)
  from server_connection_stream [OF r] r show ?thesis by blast
qed

end
