(* ===== verification/Messages.thy ===== *)
theory Messages
  imports Prelude
begin

text \<open>
  The user-visible messages of \<open>application/http_upload.cc\<close> that are not ASCII, as the UTF-8 bytes
  of its string literals.
\<close>

definition utf8 :: "nat list \<Rightarrow> string" where
  "utf8 bs = map char_of bs"

definition msg_session :: string where
  "msg_session = utf8 [0xE6, 0x9C, 0xAA, 0xE7, 0x99, 0xBB, 0xE5, 0xBD, 0x95, 0xE6, 0x88, 0x96, 0xE4,
     0xBC, 0x9A, 0xE8, 0xAF, 0x9D, 0xE5, 0xB7, 0xB2, 0xE8, 0xBF, 0x87, 0xE6, 0x9C, 0x9F]"

definition msg_uploaded :: string where
  "msg_uploaded = utf8 [0xE4, 0xB8, 0x8A, 0xE4, 0xBC, 0xA0, 0xE6, 0x88, 0x90, 0xE5, 0x8A, 0x9F]"

definition msg_login_first :: string where
  "msg_login_first = utf8 [0xE8, 0xAF, 0xB7, 0xE5, 0x85, 0x88, 0xE7, 0x99, 0xBB, 0xE5, 0xBD, 0x95]"

definition msg_extract :: string where
  "msg_extract = utf8 [0xE9, 0x9C, 0x80, 0xE8, 0xA6, 0x81, 0xE6, 0xAD, 0xA3, 0xE7, 0xA1, 0xAE, 0xE7,
     0x9A, 0x84, 0xE6, 0x8F, 0x90, 0xE5, 0x8F, 0x96, 0xE7, 0xA0, 0x81]"

definition msg_no_permission :: string where
  "msg_no_permission = utf8 [0xE6, 0x82, 0xA8, 0xE6, 0xB2, 0xA1, 0xE6, 0x9C, 0x89, 0xE6, 0x9D, 0x83,
     0xE9, 0x99, 0x90, 0xE8, 0xAE, 0xBF, 0xE9, 0x97, 0xAE, 0xE6, 0xAD, 0xA4, 0xE6, 0x96, 0x87, 0xE4,
     0xBB, 0xB6]"

definition msg_delete_denied :: string where
  "msg_delete_denied = utf8 [0xE6, 0x96, 0x87, 0xE4, 0xBB, 0xB6, 0xE4, 0xB8, 0x8D, 0xE5, 0xAD, 0x98,
     0xE5, 0x9C, 0xA8, 0xE6, 0x88, 0x96, 0xE6, 0x82, 0xA8, 0xE6, 0xB2, 0xA1, 0xE6, 0x9C, 0x89, 0xE6,
     0x9D, 0x83, 0xE9, 0x99, 0x90, 0xE5, 0x88, 0xA0, 0xE9, 0x99, 0xA4, 0xE6, 0xAD, 0xA4, 0xE6, 0x96,
     0x87, 0xE4, 0xBB, 0xB6]"

definition msg_delete_failed :: string where
  "msg_delete_failed = utf8 [0xE5, 0x88, 0xA0, 0xE9, 0x99, 0xA4, 0xE6, 0x96, 0x87, 0xE4, 0xBB, 0xB6,
     0xE8, 0xAE, 0xB0, 0xE5, 0xBD, 0x95, 0xE5, 0xA4, 0xB1, 0xE8, 0xB4, 0xA5]"

definition msg_empty_credentials :: string where
  "msg_empty_credentials = utf8 [0xE7, 0x94, 0xA8, 0xE6, 0x88, 0xB7, 0xE5, 0x90, 0x8D, 0xE5, 0x92, 0x8C,
     0xE5, 0xAF, 0x86, 0xE7, 0xA0, 0x81, 0xE4, 0xB8, 0x8D, 0xE8, 0x83, 0xBD, 0xE4, 0xB8, 0xBA, 0xE7,
     0xA9, 0xBA]"

definition msg_user_exists :: string where
  "msg_user_exists = utf8 [0xE7, 0x94, 0xA8, 0xE6, 0x88, 0xB7, 0xE5, 0x90, 0x8D, 0xE5, 0xB7, 0xB2, 0xE5,
     0xAD, 0x98, 0xE5, 0x9C, 0xA8]"

definition msg_register_retry :: string where
  "msg_register_retry = utf8 [0xE6, 0xB3, 0xA8, 0xE5, 0x86, 0x8C, 0xE5, 0xA4, 0xB1, 0xE8, 0xB4, 0xA5,
     0xEF, 0xBC, 0x8C, 0xE8, 0xAF, 0xB7, 0xE7, 0xA8, 0x8D, 0xE5, 0x90, 0x8E, 0xE9, 0x87, 0x8D, 0xE8,
     0xAF, 0x95]"

definition msg_registered :: string where
  "msg_registered = utf8 [0xE6, 0xB3, 0xA8, 0xE5, 0x86, 0x8C, 0xE6, 0x88, 0x90, 0xE5, 0x8A, 0x9F]"

definition msg_register_failed :: string where
  "msg_register_failed = utf8 [0xE6, 0xB3, 0xA8, 0xE5, 0x86, 0x8C, 0xE5, 0xA4, 0xB1, 0xE8, 0xB4, 0xA5,
     0x3A, 0x20]"

definition msg_bad_credentials :: string where
  "msg_bad_credentials = utf8 [0xE7, 0x94, 0xA8, 0xE6, 0x88, 0xB7, 0xE5, 0x90, 0x8D, 0xE6, 0x88, 0x96,
     0xE5, 0xAF, 0x86, 0xE7, 0xA0, 0x81, 0xE9, 0x94, 0x99, 0xE8, 0xAF, 0xAF]"

definition msg_logged_in :: string where
  "msg_logged_in = utf8 [0xE7, 0x99, 0xBB, 0xE5, 0xBD, 0x95, 0xE6, 0x88, 0x90, 0xE5, 0x8A, 0x9F]"

definition msg_login_failed :: string where
  "msg_login_failed = utf8 [0xE7, 0x99, 0xBB, 0xE5, 0xBD, 0x95, 0xE5, 0xA4, 0xB1, 0xE8, 0xB4, 0xA5,
     0x3A, 0x20]"

definition msg_keyword :: string where
  "msg_keyword = utf8 [0xE6, 0x90, 0x9C, 0xE7, 0xB4, 0xA2, 0xE5, 0x85, 0xB3, 0xE9, 0x94, 0xAE, 0xE8,
     0xAF, 0x8D, 0xE4, 0xB8, 0x8D, 0xE8, 0x83, 0xBD, 0xE4, 0xB8, 0xBA, 0xE7, 0xA9, 0xBA]"

definition msg_share_denied :: string where
  "msg_share_denied = utf8 [0xE6, 0x82, 0xA8, 0xE6, 0xB2, 0xA1, 0xE6, 0x9C, 0x89, 0xE6, 0x9D, 0x83,
     0xE9, 0x99, 0x90, 0xE5, 0x88, 0x86, 0xE4, 0xBA, 0xAB, 0xE6, 0xAD, 0xA4, 0xE6, 0x96, 0x87, 0xE4,
     0xBB, 0xB6]"

definition msg_private :: string where
  "msg_private = utf8 [0xE6, 0x96, 0x87, 0xE4, 0xBB, 0xB6, 0xE8, 0xAE, 0xBE, 0xE7, 0xBD, 0xAE, 0xE4,
     0xB8, 0xBA, 0xE7, 0xA7, 0x81, 0xE6, 0x9C, 0x89, 0xE6, 0x88, 0x90, 0xE5, 0x8A, 0x9F]"

definition msg_already_shared :: string where
  "msg_already_shared = utf8 [0xE5, 0xB7, 0xB2, 0xE7, 0xBB, 0x8F, 0xE5, 0x88, 0x86, 0xE4, 0xBA, 0xAB,
     0xE7, 0xBB, 0x99, 0xE8, 0xAF, 0xA5, 0xE7, 0x94, 0xA8, 0xE6, 0x88, 0xB7]"

definition msg_share_failed :: string where
  "msg_share_failed = utf8 [0xE5, 0x88, 0x9B, 0xE5, 0xBB, 0xBA, 0xE5, 0x88, 0x86, 0xE4, 0xBA, 0xAB,
     0xE5, 0xA4, 0xB1, 0xE8, 0xB4, 0xA5]"

definition msg_shared :: string where
  "msg_shared = utf8 [0xE5, 0x88, 0x86, 0xE4, 0xBA, 0xAB, 0xE6, 0x88, 0x90, 0xE5, 0x8A, 0x9F]"

definition msg_share_error :: string where
  "msg_share_error = utf8 [0xE5, 0x88, 0x86, 0xE4, 0xBA, 0xAB, 0xE5, 0xA4, 0xB1, 0xE8, 0xB4, 0xA5, 0x3A,
     0x20]"

definition msg_bad_link :: string where
  "msg_bad_link = utf8 [0xE6, 0x97, 0xA0, 0xE6, 0x95, 0x88, 0xE7, 0x9A, 0x84, 0xE5, 0x88, 0x86, 0xE4,
     0xBA, 0xAB, 0xE9, 0x93, 0xBE, 0xE6, 0x8E, 0xA5]"

definition msg_bad_code :: string where
  "msg_bad_code = utf8 [0xE6, 0x97, 0xA0, 0xE6, 0x95, 0x88, 0xE7, 0x9A, 0x84, 0xE5, 0x88, 0x86, 0xE4,
     0xBA, 0xAB, 0xE7, 0xA0, 0x81, 0xE6, 0xA0, 0xBC, 0xE5, 0xBC, 0x8F]"

definition msg_code_chars :: string where
  "msg_code_chars = utf8 [0xE5, 0x88, 0x86, 0xE4, 0xBA, 0xAB, 0xE7, 0xA0, 0x81, 0xE5, 0x8C, 0x85, 0xE5,
     0x90, 0xAB, 0xE9, 0x9D, 0x9E, 0xE6, 0xB3, 0x95, 0xE5, 0xAD, 0x97, 0xE7, 0xAC, 0xA6]"

definition msg_link_expired :: string where
  "msg_link_expired = utf8 [0xE5, 0x88, 0x86, 0xE4, 0xBA, 0xAB, 0xE9, 0x93, 0xBE, 0xE6, 0x8E, 0xA5,
     0xE5, 0xB7, 0xB2, 0xE5, 0xA4, 0xB1, 0xE6, 0x95, 0x88, 0xE6, 0x88, 0x96, 0xE4, 0xB8, 0x8D, 0xE5,
     0xAD, 0x98, 0xE5, 0x9C, 0xA8]"

lemmas message_defs = utf8_def msg_session_def
  msg_uploaded_def
  msg_login_first_def
  msg_extract_def
  msg_no_permission_def
  msg_delete_denied_def
  msg_delete_failed_def
  msg_empty_credentials_def
  msg_user_exists_def
  msg_register_retry_def
  msg_registered_def
  msg_register_failed_def
  msg_bad_credentials_def
  msg_logged_in_def
  msg_login_failed_def
  msg_keyword_def
  msg_share_denied_def
  msg_private_def
  msg_already_shared_def
  msg_share_failed_def
  msg_shared_def
  msg_share_error_def
  msg_bad_link_def
  msg_bad_code_def
  msg_code_chars_def
  msg_link_expired_def

end
