(* ===== verification/Regex.thy ===== *)
theory Regex
  imports Prelude
begin

text \<open>
  The part of \<open>std::regex\<close> (ECMAScript grammar) that \<open>application/http_upload.cc\<close> uses: literals,
  \<open>.\<close>, \<open>\d\<close>, negated one-character classes, greedy \<open>*\<close> and \<open>+\<close> on a single-character
  expression, capture groups and the two anchors. A pattern string compiles to a list of items;
  matching explores the choices in the order a backtracking matcher does and lists every way to
  match, most preferred first. \<open>escapeRegex\<close> and the route patterns are built on it.
\<close>

section \<open>Patterns\<close>

datatype rx_atom = AChar char | AAny | ANot char | ADigit

datatype rx_item = One rx_atom | Many rx_atom | Many1 rx_atom | Open nat | Close nat | Bol | Eol

type_synonym captures = "nat \<rightharpoonup> nat \<times> nat"

fun atom_ok :: "rx_atom \<Rightarrow> char \<Rightarrow> bool" where
  "atom_ok (AChar c) x = (x = c)"
| "atom_ok AAny x = (x \<noteq> CHR 0x0A \<and> x \<noteq> CHR 0x0D)"
| "atom_ok (ANot c) x = (x \<noteq> c)"
| "atom_ok ADigit x = is_digit x"

definition backslash :: char where "backslash = CHR 0x5C"

text \<open>One single-character expression at the front of a pattern.\<close>

fun rx_atom_at :: "string \<Rightarrow> (rx_atom \<times> string) option" where
  "rx_atom_at [] = None"
| "rx_atom_at (c # cs) =
     (if c = backslash then
        (case cs of
           [] \<Rightarrow> None
         | d # ds \<Rightarrow> Some (if d = CHR ''d'' then ADigit else AChar d, ds))
      else if c = CHR ''['' then
        (case cs of
           h # d # e # ds \<Rightarrow> if h = CHR ''^'' \<and> e = CHR '']'' then Some (ANot d, ds) else None
         | _ \<Rightarrow> None)
      else if c = CHR ''.'' then Some (AAny, cs)
      else if c \<in> set ''+*?^$()[]{}|'' then None
      else Some (AChar c, cs))"

lemma rx_atom_at_shorter: "rx_atom_at s = Some (a, s') \<Longrightarrow> length s' < length s"
  by (cases s) (auto split: if_splits list.splits)

text \<open>\<open>n\<close> is the number of the next group, \<open>opens\<close> the groups that are still open.\<close>

function rx_compile :: "nat \<Rightarrow> nat list \<Rightarrow> string \<Rightarrow> rx_item list option" where
  "rx_compile n opens [] = (if opens = [] then Some [] else None)"
| "rx_compile n opens (c # cs) =
     (if c = CHR ''^'' then map_option ((#) Bol) (rx_compile n opens cs)
      else if c = CHR ''$'' then map_option ((#) Eol) (rx_compile n opens cs)
      else if c = CHR ''('' then map_option ((#) (Open n)) (rx_compile (Suc n) (n # opens) cs)
      else if c = CHR '')'' then
        (case opens of
           [] \<Rightarrow> None
         | g # gs \<Rightarrow> map_option ((#) (Close g)) (rx_compile n gs cs))
      else case rx_atom_at (c # cs) of
             None \<Rightarrow> None
           | Some (a, ds) \<Rightarrow>
               (case ds of
                  [] \<Rightarrow> map_option ((#) (One a)) (rx_compile n opens ds)
                | q # qs \<Rightarrow>
                    if q = CHR ''*'' then map_option ((#) (Many a)) (rx_compile n opens qs)
                    else if q = CHR ''+'' then map_option ((#) (Many1 a)) (rx_compile n opens qs)
                    else map_option ((#) (One a)) (rx_compile n opens ds)))"
  by pat_completeness auto
termination
  by (relation "measure (\<lambda>(n, opens, s). length s)") (auto dest!: rx_atom_at_shorter simp del: rx_atom_at.simps)

declare rx_compile.simps [simp del]

section \<open>Matching\<close>

text \<open>Every way to match the items from position \<open>i\<close> of \<open>s\<close>, greedy choices first.\<close>

fun rx_run :: "string \<Rightarrow> rx_item list \<Rightarrow> nat \<Rightarrow> captures \<Rightarrow> (nat \<times> captures) list" where
  "rx_run s [] i caps = [(i, caps)]"
| "rx_run s (One a # is) i caps =
     (if i < length s \<and> atom_ok a (s ! i) then rx_run s is (Suc i) caps else [])"
| "rx_run s (Many a # is) i caps =
     concat (map (\<lambda>k. rx_run s is (i + k) caps) (rev [0..<Suc (length (takeWhile (atom_ok a) (drop i s)))]))"
| "rx_run s (Many1 a # is) i caps =
     concat (map (\<lambda>k. rx_run s is (i + k) caps) (rev [1..<Suc (length (takeWhile (atom_ok a) (drop i s)))]))"
| "rx_run s (Open g # is) i caps = rx_run s is i (caps(g \<mapsto> (i, i)))"
| "rx_run s (Close g # is) i caps =
     rx_run s is i (case caps g of Some (b, _) \<Rightarrow> caps(g \<mapsto> (b, i)) | None \<Rightarrow> caps)"
| "rx_run s (Bol # is) i caps = (if i = 0 then rx_run s is i caps else [])"
| "rx_run s (Eol # is) i caps = (if i = length s then rx_run s is i caps else [])"

text \<open>A capture as text; a group that did not take part is empty.\<close>

definition capture :: "string \<Rightarrow> captures \<Rightarrow> nat \<Rightarrow> string" where
  "capture s caps g = (case caps g of Some (b, e) \<Rightarrow> take (e - b) (drop b s) | None \<Rightarrow> [])"

definition first_of :: "'a list \<Rightarrow> 'a option" where
  "first_of xs = (case xs of [] \<Rightarrow> None | x # _ \<Rightarrow> Some x)"

definition regex_match :: "rx_item list \<Rightarrow> string \<Rightarrow> captures option" where
  "regex_match is s =
     map_option snd (first_of (filter (\<lambda>(j, caps). j = length s) (rx_run s is 0 Map.empty)))"

definition regex_search :: "rx_item list \<Rightarrow> string \<Rightarrow> captures option" where
  "regex_search is s =
     map_option snd (first_of (concat (map (\<lambda>i. rx_run s is i Map.empty) [0..<Suc (length s)])))"

section \<open>Escaping\<close>

definition regex_special :: "char \<Rightarrow> bool" where
  "regex_special c \<longleftrightarrow> c \<in> set ''.+*?^$()[]{}|'' \<or> c = backslash"

fun escapeRegex :: "string \<Rightarrow> string" where
  "escapeRegex [] = []"
| "escapeRegex (c # cs) = (if regex_special c then backslash # c # escapeRegex cs else c # escapeRegex cs)"

lemma rx_compile_escaped:
  "rx_compile n [] (escapeRegex p @ ''$'') = Some (map (One \<circ> AChar) p @ [Eol])"
proof (induction p)
  case Nil
  show ?case by (simp add: rx_compile.simps)
next
  case (Cons c p)
  have hd: "\<exists>x xs. escapeRegex p @ ''$'' = x # xs \<and> x \<noteq> CHR ''*'' \<and> x \<noteq> CHR ''+''"
    by (cases p) (auto simp: regex_special_def backslash_def)
  then obtain x xs where x: "escapeRegex p @ ''$'' = x # xs" "x \<noteq> CHR ''*''" "x \<noteq> CHR ''+''" by blast
  show ?case
  proof (cases "regex_special c")
    case True
    then have "c \<noteq> CHR ''d''" by (auto simp: regex_special_def backslash_def)
    with True Cons x show ?thesis
      by (simp add: rx_compile.simps(2) [of n "[]" "CHR 0x5C"] backslash_def)
  next
    case False
    then have "rx_atom_at (c # escapeRegex p @ ''$'') = Some (AChar c, escapeRegex p @ ''$'')"
      "c \<noteq> CHR ''^''" "c \<noteq> CHR ''$''" "c \<noteq> CHR ''(''" "c \<noteq> CHR '')''"
      by (auto simp: regex_special_def backslash_def)
    with False Cons x show ?thesis
      by (simp add: rx_compile.simps(2) [of n "[]" c] del: rx_atom_at.simps)
  qed
qed


lemma rx_run_literal:
  "rx_run s (map (One \<circ> AChar) p @ is) i caps =
     (if take (length p) (drop i s) = p then rx_run s is (i + length p) caps else [])"
proof (induction p arbitrary: i)
  case (Cons c p)
  show ?case
  proof (cases "i < length s")
    case True
    then have "drop i s = s ! i # drop (Suc i) s" by (simp add: Cons_nth_drop_Suc)
    with True Cons.IH [of "Suc i"] show ?thesis by auto
  next
    case False
    then show ?thesis by simp
  qed
qed simp

text \<open>An exact route pattern, as \<open>addRoute\<close> builds it, matches its own path and nothing else.\<close>

definition exact_pattern :: "string \<Rightarrow> string" where
  "exact_pattern path = ''^'' @ escapeRegex path @ ''$''"

lemma exact_pattern_match:
  "rx_compile 1 [] (exact_pattern p) = Some (Bol # map (One \<circ> AChar) p @ [Eol])
   \<and> regex_match (Bol # map (One \<circ> AChar) p @ [Eol]) s = (if s = p then Some Map.empty else None)"
proof
  show "rx_compile 1 [] (exact_pattern p) = Some (Bol # map (One \<circ> AChar) p @ [Eol])"
    by (simp add: exact_pattern_def rx_compile.simps(2) [of _ _ "CHR ''^''"] rx_compile_escaped)
  have "rx_run s (Bol # map (One \<circ> AChar) p @ [Eol]) 0 Map.empty =
      (if take (length p) s = p \<and> length p = length s then [(length s, Map.empty)] else [])"
    using rx_run_literal [of s p "[Eol]" 0 Map.empty] by auto
  moreover have "take (length p) s = p \<and> length p = length s \<longleftrightarrow> s = p" by auto
  ultimately show "regex_match (Bol # map (One \<circ> AChar) p @ [Eol]) s = (if s = p then Some Map.empty else None)"
    by (simp add: regex_match_def first_of_def)
qed

text \<open>A literal prefix followed by one captured path segment.\<close>

definition segment_items :: "string \<Rightarrow> rx_item list" where
  "segment_items p = map (One \<circ> AChar) p @ [Open 1, Many1 (ANot CHR ''/''), Close 1]"

lemma filter_concat_singletons:
  assumes "\<And>k. k \<in> set ks \<Longrightarrow> P (f k) \<longleftrightarrow> k = m" and "m \<in> set ks" and "distinct ks"
  shows "filter P (concat (map (\<lambda>k. [f k]) ks)) = [f m]"
  using assms
proof (induction ks)
  case (Cons k ks)
  show ?case
  proof (cases "k = m")
    case True
    with Cons.prems have "\<forall>j\<in>set ks. \<not> P (f j)" by auto
    then have "filter P (concat (map (\<lambda>k. [f k]) ks)) = []" by (auto simp: filter_empty_conv)
    with True Cons.prems show ?thesis by simp
  qed (use Cons in auto)
qed simp

lemma segment_match:
  "regex_match (segment_items p) s =
     (if take (length p) s = p \<and> length p < length s \<and> CHR ''/'' \<notin> set (drop (length p) s)
      then Some (Map.empty(1 \<mapsto> (length p, length s))) else None)"
proof -
  let ?rest = "drop (length p) s"
  let ?run = "takeWhile (\<lambda>x. x \<noteq> CHR ''/'') ?rest"
  let ?f = "\<lambda>k. (length p + k, Map.empty(1 \<mapsto> (length p, length p + k)) :: captures)"
  have ok: "atom_ok (ANot CHR ''/'') = (\<lambda>x. x \<noteq> CHR ''/'')" by auto
  have run: "rx_run s (segment_items p) 0 Map.empty =
      (if take (length p) s = p then concat (map (\<lambda>k. [?f k]) (rev [1..<Suc (length ?run)])) else [])"
    using rx_run_literal [of s p "[Open 1, Many1 (ANot CHR ''/''), Close 1]" 0 Map.empty]
    by (simp add: segment_items_def ok)
  show ?thesis
  proof (cases "take (length p) s = p \<and> length p < length s \<and> CHR ''/'' \<notin> set ?rest")
    case True
    then have r: "length ?run = length s - length p" by (subst takeWhile_eq_all_conv [THEN iffD2]) auto
    have "filter (\<lambda>(j, caps). j = length s) (concat (map (\<lambda>k. [?f k]) (rev [1..<Suc (length ?run)])))
        = [?f (length s - length p)]"
      by (rule filter_concat_singletons) (use True r in auto)
    with True run show ?thesis by (simp add: regex_match_def first_of_def)
  next
    case False
    have "length p + k \<noteq> length s" if "take (length p) s = p" "k \<in> set (rev [1..<Suc (length ?run)])" for k
    proof
      assume e: "length p + k = length s"
      from that(2) have k: "1 \<le> k" "k \<le> length ?run" by auto
      have "length ?run = length ?rest" using k e length_takeWhile_le [of "\<lambda>x. x \<noteq> CHR ''/''" ?rest] by simp
      then have "?run = ?rest" using takeWhile_eq_take [of "\<lambda>x. x \<noteq> CHR ''/''" ?rest] by simp
      then have "CHR ''/'' \<notin> set ?rest" by (simp add: takeWhile_eq_all_conv) blast
      with False that(1) e k show False by simp
    qed
    then have "filter (\<lambda>(j, caps). j = length s) (rx_run s (segment_items p) 0 Map.empty) = []"
      unfolding run by (auto simp: filter_empty_conv)
    with False show ?thesis by (auto simp: regex_match_def first_of_def)
  qed
qed

end
