(* ===== verification/AppBase.thy ===== *)
theory AppBase
  imports HttpServer Messages Regex
begin

text \<open>
  The ground of \<open>application/http_upload.cc\<close>: the state of \<open>HttpUploadHandler\<close>, what its handlers may
  do, and its small helpers (queries, sessions, codes, file types, the filename mapping).

  A handler is a procedure on \<open>hstate\<close>: it returns, throws a \<open>std::exception\<close> with its text, or runs
  into undefined behaviour; what it has done to the state before a throw stays. MySQL, nlohmann::json,
  \<open>std::hash\<close>, the clock, the random device, uninitialised memory and the operating system's answers
  are the fields of the record \<open>env\<close>, which every definition that needs them takes as an argument.
  \<open>ap_sql\<close> is ghost state: the statements sent to the database server so far.
\<close>

section \<open>Procedures\<close>

datatype 'a outcome = Ret 'a | Throw string | Undef

type_synonym ('s, 'a) proc = "'s \<Rightarrow> 'a outcome \<times> 's"

definition ret :: "'a \<Rightarrow> ('s, 'a) proc" where "ret x s = (Ret x, s)"
definition throw :: "string \<Rightarrow> ('s, 'a) proc" where "throw e s = (Throw e, s)"
definition undef :: "('s, 'a) proc" where "undef s = (Undef, s)"
definition gets :: "('s \<Rightarrow> 'a) \<Rightarrow> ('s, 'a) proc" where "gets f s = (Ret (f s), s)"
definition modify :: "('s \<Rightarrow> 's) \<Rightarrow> ('s, unit) proc" where "modify f s = (Ret (), f s)"

definition bindE :: "('s, 'a) proc \<Rightarrow> ('a \<Rightarrow> ('s, 'b) proc) \<Rightarrow> ('s, 'b) proc" where
  "bindE m f s =
     (case m s of
        (Ret x, s') \<Rightarrow> f x s'
      | (Throw e, s') \<Rightarrow> (Throw e, s')
      | (Undef, s') \<Rightarrow> (Undef, s'))"

definition thenE :: "('s, 'a) proc \<Rightarrow> ('s, 'b) proc \<Rightarrow> ('s, 'b) proc" where
  "thenE m n = bindE m (\<lambda>_. n)"

text \<open>\<open>try { m } catch (const std::exception& e) { h }\<close>\<close>

definition tryE :: "('s, 'a) proc \<Rightarrow> (string \<Rightarrow> ('s, 'a) proc) \<Rightarrow> ('s, 'a) proc" where
  "tryE m h s = (case m s of (Throw e, s') \<Rightarrow> h e s' | r \<Rightarrow> r)"

lemmas proc_defs = ret_def throw_def undef_def gets_def modify_def bindE_def thenE_def tryE_def

section \<open>Data\<close>

datatype json = JNull | JBool bool | JInt int | JStr string | JArr "json list" | JObj "(string, json) omap"

definition jobj :: "(string \<times> json) list \<Rightarrow> json" where
  "jobj kvs = JObj (fold (\<lambda>(k, v). om_put k v) kvs [])"

fun jset :: "string \<Rightarrow> json \<Rightarrow> json \<Rightarrow> json" where
  "jset k v (JObj m) = JObj (om_put k v m)"
| "jset k v j = jobj [(k, v)]"

type_synonym row = "string option list"

datatype upload_state = UExpectHeaders | UExpectContent | UExpectBoundary | UComplete

record upload_ctx =
  uc_filename :: string
  uc_originalFilename :: string
  uc_totalBytes :: nat
  uc_state :: upload_state
  uc_boundary :: string

record down_ctx =
  dc_filepath :: string
  dc_originalFilename :: string
  dc_data :: bytes
  dc_fileSize :: nat
  dc_currentPosition :: nat
  dc_isComplete :: bool

text \<open>
  \<open>dc_data\<close> is the content of the open file, which survives an \<open>unlink\<close> of its name. The connection's user context: an upload context, or a pointer to a download context, which the
  write-complete callback shares; download contexts live in a heap of the application.
\<close>

datatype user_ctx = Upload upload_ctx | Down nat

datatype write_complete = ShutdownWhenSent | StreamFile nat

record 'db app_state =
  ap_mysql :: "'db option"
  ap_files :: "string \<rightharpoonup> bytes"
  ap_mapping :: "(string, string) omap"
  ap_draws :: nat
  ap_downs :: "down_ctx list"
  ap_sql :: "string list"

record 'db hstate =
  hs_app :: "'db app_state"
  hs_ctx :: "user_ctx http_context"
  hs_resp :: http_response
  hs_actions :: "write_complete action list"

type_synonym ('db, 'a) handler = "('db hstate, 'a) proc"

record ('db, 'j) env =
  en_query :: "'db \<Rightarrow> string \<Rightarrow> row list option \<times> 'db"
  en_escape :: "'db \<Rightarrow> string \<Rightarrow> string"
  en_insert_id :: "'db \<Rightarrow> int"
  en_dump :: "json \<Rightarrow> string + string"
  en_parse :: "string \<Rightarrow> string + 'j"
  en_get_string :: "'j \<Rightarrow> string \<Rightarrow> string + string"
  en_value_string :: "'j \<Rightarrow> string \<Rightarrow> string \<Rightarrow> string + string"
  en_get_int :: "'j \<Rightarrow> string \<Rightarrow> string + int"
  en_contains :: "'j \<Rightarrow> string \<Rightarrow> bool"
  en_is_null :: "'j \<Rightarrow> string \<Rightarrow> bool"
  en_mapping_parse :: "string \<Rightarrow> (string \<times> string) list option"
  en_mapping_dump :: "(string \<times> string) list \<Rightarrow> string option"
  en_hash :: "string \<Rightarrow> nat"
  en_random :: "nat \<Rightarrow> nat"
  en_millis :: int
  en_junk :: int
  en_open_ok :: "string \<Rightarrow> bool"
  en_write_ok :: "string \<Rightarrow> nat \<Rightarrow> bool"
  en_unlink_ok :: "string \<Rightarrow> bool"
  en_freed :: "row \<Rightarrow> row"
  en_root :: string

definition uploadDir :: string where "uploadDir = ''uploads''"
definition mappingFile :: string where "mappingFile = ''uploads/filename_mapping.json''"

abbreviation req :: "'db hstate \<Rightarrow> http_request" where "req s \<equiv> hc_request (hs_ctx s)"

definition upd_app :: "('db app_state \<Rightarrow> 'db app_state) \<Rightarrow> 'db hstate \<Rightarrow> 'db hstate" where
  "upd_app f s = s\<lparr>hs_app := f (hs_app s)\<rparr>"

definition upd_resp :: "(http_response \<Rightarrow> http_response) \<Rightarrow> 'db hstate \<Rightarrow> 'db hstate" where
  "upd_resp f s = s\<lparr>hs_resp := f (hs_resp s)\<rparr>"

definition setWriteCompleteCallback :: "write_complete \<Rightarrow> ('db, unit) handler" where
  "setWriteCompleteCallback w = modify (\<lambda>s. s\<lparr>hs_actions := hs_actions s @ [SetWriteComplete w]\<rparr>)"

section \<open>Library conversions\<close>

text \<open>\<open>std::stoi\<close> and \<open>std::stoull\<close>: white space, a sign, then digits.\<close>

definition signed_digits :: "string \<Rightarrow> bool \<times> string" where
  "signed_digits s =
     (let s1 = dropWhile is_space s
      in case s1 of
           c # cs \<Rightarrow> if c = CHR ''-'' then (True, takeWhile is_digit cs)
                     else if c = CHR ''+'' then (False, takeWhile is_digit cs)
                     else (False, takeWhile is_digit s1)
         | [] \<Rightarrow> (False, []))"

definition stoi :: "string \<Rightarrow> ('s, int) proc" where
  "stoi s =
     (case signed_digits s of
        (neg, ds) \<Rightarrow>
          let v = (if neg then - int (nat_of_digits ds) else int (nat_of_digits ds))
          in if ds = [] then throw ''stoi''
             else if - (2 ^ 31) \<le> v \<and> v < 2 ^ 31 then ret v else throw ''stoi'')"

definition stoull :: "string \<Rightarrow> ('s, nat) proc" where
  "stoull s =
     (case signed_digits s of
        (neg, ds) \<Rightarrow>
          let n = nat_of_digits ds
          in if ds = [] then throw ''stoull''
             else if n < size_bound then ret (if neg then (size_bound - n) mod size_bound else n)
             else throw ''stoull'')"

text \<open>A \<open>char*\<close> column as \<open>std::string\<close>: a null pointer throws \<open>std::logic_error\<close>.\<close>

definition null_string_what :: string where
  "null_string_what = ''basic_string: construction from null is not valid''"

definition from_cstr :: "string option \<Rightarrow> ('s, string) proc" where
  "from_cstr v = (case v of Some t \<Rightarrow> ret (c_str t) | None \<Rightarrow> throw null_string_what)"

definition col :: "row \<Rightarrow> nat \<Rightarrow> ('s, string option) proc" where
  "col r k = (if k < length r then ret (r ! k) else undef)"

definition col_string :: "row \<Rightarrow> nat \<Rightarrow> ('s, string) proc" where
  "col_string r k = bindE (col r k) from_cstr"

text \<open>\<open>row[k] ? row[k] : d\<close>\<close>

definition col_or :: "row \<Rightarrow> nat \<Rightarrow> string \<Rightarrow> ('s, string) proc" where
  "col_or r k d = bindE (col r k) (\<lambda>v. case v of Some t \<Rightarrow> ret (c_str t) | None \<Rightarrow> ret d)"

definition col_int :: "row \<Rightarrow> nat \<Rightarrow> ('s, int) proc" where
  "col_int r k = bindE (col_string r k) stoi"

text \<open>\<open>row[k] ? std::stoi(row[k]) : 0\<close>\<close>

definition col_int_or_zero :: "row \<Rightarrow> nat \<Rightarrow> ('s, int) proc" where
  "col_int_or_zero r k = bindE (col r k) (\<lambda>v. case v of Some t \<Rightarrow> stoi (c_str t) | None \<Rightarrow> ret 0)"

definition of_sum :: "string + 'a \<Rightarrow> ('s, 'a) proc" where
  "of_sum x = (case x of Inl e \<Rightarrow> throw e | Inr v \<Rightarrow> ret v)"

definition hex_lower :: "nat \<Rightarrow> char" where
  "hex_lower d = (if d < 10 then char_of (48 + d) else char_of (87 + d))"

fun show_hex :: "nat \<Rightarrow> string" where
  "show_hex n = (if n < 16 then [hex_lower n] else show_hex (n div 16) @ [hex_lower (n mod 16)])"

declare show_hex.simps [simp del]

section \<open>Responses\<close>

definition sendError :: "('db, 'j) env \<Rightarrow> string \<Rightarrow> status_code \<Rightarrow> ('db, unit) handler" where
  "sendError en message code =
     thenE (modify (upd_resp (setStatusCode code)))
    (thenE (modify (upd_resp (setStatusMessage message)))
    (thenE (modify (upd_resp (setContentType ''application/json'')))
    (thenE (modify (upd_resp (addResponseHeader ''Connection'' ''close'')))
    (bindE (of_sum (en_dump en (jobj [(''code'', JInt (int (status_number code))), (''message'', JStr message)])))
      (\<lambda>body. thenE (modify (upd_resp (setBody body)))
        (setWriteCompleteCallback ShutdownWhenSent))))))"

definition fail :: "('db, 'j) env \<Rightarrow> string \<Rightarrow> status_code \<Rightarrow> ('db, bool) handler" where
  "fail en message code = thenE (sendError en message code) (ret True)"

text \<open>The tail of every handler that answers 200 with a JSON document and closes when it is sent.\<close>

definition reply_json :: "('db, 'j) env \<Rightarrow> json \<Rightarrow> ('db, bool) handler" where
  "reply_json en response =
     thenE (modify (upd_resp (setStatusCode k200Ok)))
    (thenE (modify (upd_resp (setStatusMessage ''OK'')))
    (thenE (modify (upd_resp (setContentType ''application/json'')))
    (thenE (modify (upd_resp (addResponseHeader ''Connection'' ''close'')))
    (bindE (of_sum (en_dump en response))
      (\<lambda>body. thenE (modify (upd_resp (setBody body)))
        (thenE (setWriteCompleteCallback ShutdownWhenSent) (ret True)))))))"

definition handleNotFound :: "('db, 'j) env \<Rightarrow> ('db, bool) handler" where
  "handleNotFound en =
     thenE (modify (upd_resp (setStatusCode k404NotFound)))
    (thenE (modify (upd_resp (setStatusMessage ''Not Found'')))
    (thenE (modify (upd_resp (setContentType ''application/json'')))
    (thenE (modify (upd_resp (addResponseHeader ''Connection'' ''close'')))
    (bindE (of_sum (en_dump en (jobj [(''code'', JInt 404), (''message'', JStr ''Not Found'')])))
      (\<lambda>body. thenE (modify (upd_resp (setBody body)))
        (thenE (setWriteCompleteCallback ShutdownWhenSent) (ret True)))))))"

section \<open>The database\<close>

text \<open>\<open>mysql_query\<close> takes a C string: the statement ends at its first NUL byte.\<close>

definition executeQueryWithResult :: "('db, 'j) env \<Rightarrow> string \<Rightarrow> ('db, row list option) handler" where
  "executeQueryWithResult en q s =
     (case ap_mysql (hs_app s) of
        None \<Rightarrow> (Ret None, s)
      | Some db \<Rightarrow>
          let (res, db') = en_query en db (c_str q)
          in (Ret res, upd_app (\<lambda>a. a\<lparr>ap_mysql := Some db', ap_sql := ap_sql a @ [c_str q]\<rparr>) s))"

definition executeQuery :: "('db, 'j) env \<Rightarrow> string \<Rightarrow> ('db, bool) handler" where
  "executeQuery en q = bindE (executeQueryWithResult en q) (\<lambda>res. ret (res \<noteq> None))"

definition escapeString :: "('db, 'j) env \<Rightarrow> string \<Rightarrow> ('db, string) handler" where
  "escapeString en t =
     gets (\<lambda>s. case ap_mysql (hs_app s) of None \<Rightarrow> t | Some db \<Rightarrow> c_str (en_escape en db t))"

text \<open>\<open>mysql_insert_id\<close> on a null connection is undefined.\<close>

definition insertId :: "('db, 'j) env \<Rightarrow> ('db, int) handler" where
  "insertId en s =
     (case ap_mysql (hs_app s) of None \<Rightarrow> (Undef, s) | Some db \<Rightarrow> (Ret (int32_cast (en_insert_id en db)), s))"

section \<open>Random codes and names\<close>

text \<open>\<open>std::uniform_int_distribution<>(lo, hi)\<close> on a freshly seeded generator: some value in range.\<close>

definition draw :: "('db, 'j) env \<Rightarrow> nat \<Rightarrow> nat \<Rightarrow> ('db, nat) handler" where
  "draw en lo hi s =
     (Ret (lo + en_random en (ap_draws (hs_app s)) mod (hi - lo + 1)), upd_app (\<lambda>a. a\<lparr>ap_draws := ap_draws a + 1\<rparr>) s)"

fun random_code :: "('db, 'j) env \<Rightarrow> string \<Rightarrow> nat \<Rightarrow> ('db, string) handler" where
  "random_code en chars 0 = ret []"
| "random_code en chars (Suc n) =
     bindE (draw en 0 35) (\<lambda>k. bindE (random_code en chars n) (\<lambda>rest. ret ((chars ! k) # rest)))"

definition lower_alnum :: string where "lower_alnum = ''abcdefghijklmnopqrstuvwxyz0123456789''"
definition upper_alnum :: string where "upper_alnum = ''0123456789ABCDEFGHIJKLMNOPQRSTUVWXYZ''"

definition generateSessionId :: "('db, 'j) env \<Rightarrow> ('db, string) handler" where
  "generateSessionId en = random_code en lower_alnum 32"

definition generateShareCode :: "('db, 'j) env \<Rightarrow> ('db, string) handler" where
  "generateShareCode en = random_code en lower_alnum 32"

definition generateExtractCode :: "('db, 'j) env \<Rightarrow> ('db, string) handler" where
  "generateExtractCode en = random_code en upper_alnum 6"

definition generateUniqueFilename :: "('db, 'j) env \<Rightarrow> string \<Rightarrow> ('db, string) handler" where
  "generateUniqueFilename en prefix =
     bindE (draw en 1000 9999) (\<lambda>k. ret (prefix @ ''_'' @ show_int (en_millis en) @ ''_'' @ show_nat k))"

definition sha256 :: "('db, 'j) env \<Rightarrow> string \<Rightarrow> string" where
  "sha256 en input = show_hex (en_hash en input)"

section \<open>Sessions\<close>

definition quoted :: "string \<Rightarrow> string" where
  "quoted t = [CHR 0x27] @ t @ [CHR 0x27]"

definition saveSession :: "('db, 'j) env \<Rightarrow> string \<Rightarrow> int \<Rightarrow> string \<Rightarrow> ('db, unit) handler" where
  "saveSession en sessionId userId username =
     bindE (escapeString en sessionId) (\<lambda>sid.
     bindE (escapeString en username) (\<lambda>un.
     thenE (executeQuery en (''INSERT INTO sessions (session_id, user_id, username, expire_time) VALUES (''
        @ quoted sid @ '', '' @ show_int userId @ '', '' @ quoted un @ '', ''
        @ ''DATE_ADD(NOW(), INTERVAL 30 MINUTE))''))
     (ret ())))"

definition session_query :: "string \<Rightarrow> string" where
  "session_query sid = ''SELECT user_id, username FROM sessions WHERE session_id = '' @ quoted sid
     @ '' AND expire_time > NOW()''"

definition session_touch :: "string \<Rightarrow> string" where
  "session_touch sid = ''UPDATE sessions SET expire_time = DATE_ADD(NOW(), INTERVAL 30 MINUTE) WHERE session_id = ''
     @ quoted sid"

text \<open>The session's user and name, or nothing when the session is not valid.\<close>

definition validateSession :: "('db, 'j) env \<Rightarrow> string \<Rightarrow> ('db, (int \<times> string) option) handler" where
  "validateSession en sessionId =
     (if sessionId = [] then ret None
      else
        bindE (escapeString en sessionId) (\<lambda>sid.
        bindE (executeQueryWithResult en (session_query sid)) (\<lambda>result.
          case result of
            None \<Rightarrow> ret None
          | Some [] \<Rightarrow> ret None
          | Some (row # _) \<Rightarrow>
              bindE (col_int row 0) (\<lambda>userId.
              bindE (col_string row 1) (\<lambda>username.
              bindE (escapeString en sessionId) (\<lambda>sid'.
              thenE (executeQuery en (session_touch sid'))
                (ret (Some (userId, username)))))))))"

definition endSession :: "('db, 'j) env \<Rightarrow> string \<Rightarrow> ('db, unit) handler" where
  "endSession en sessionId =
     (if sessionId = [] then ret ()
      else bindE (escapeString en sessionId) (\<lambda>sid.
           thenE (executeQuery en (''DELETE FROM sessions WHERE session_id = '' @ quoted sid)) (ret ())))"

section \<open>File names and types\<close>

text \<open>\<open>HttpUploadHandler::urlDecode\<close>: an escape always takes two characters, short ones included.\<close>

function app_urlDecode :: "int \<Rightarrow> string \<Rightarrow> string" where
  "app_urlDecode ii [] = []"
| "app_urlDecode ii (c # cs) =
     (if c \<noteq> CHR ''%'' then (if c = CHR ''+'' then CHR '' '' else c) # app_urlDecode ii cs
      else let ii' = (case sscanf_hex (take 2 cs) of Some v \<Rightarrow> v | None \<Rightarrow> ii)
           in char_cast ii' # app_urlDecode ii' (drop 2 cs))"
  by pat_completeness auto
termination by (relation "measure (\<lambda>(i, s). length s)") auto

definition getFileType :: "string \<Rightarrow> string" where
  "getFileType filename =
     (case find_last_char CHR ''.'' filename of
        None \<Rightarrow> ''unknown''
      | Some dotPos \<Rightarrow>
          if dotPos < length filename - 1 then
            let extension = map to_lower (drop (dotPos + 1) filename) in
            if extension \<in> {''jpg'', ''jpeg'', ''png'', ''gif''} then ''image''
            else if extension \<in> {''mp4'', ''avi'', ''mov'', ''wmv''} then ''video''
            else if extension = ''pdf'' then ''pdf''
            else if extension \<in> {''doc'', ''docx''} then ''word''
            else if extension \<in> {''xls'', ''xlsx''} then ''excel''
            else if extension \<in> {''ppt'', ''pptx''} then ''powerpoint''
            else if extension \<in> {''txt'', ''csv''} then ''text''
            else ''other''
          else ''unknown'')"

text \<open>The mapping file; a file that does not parse leaves the mapping as it is.\<close>

definition loadFilenameMapping :: "('db, 'j) env \<Rightarrow> 'db app_state \<Rightarrow> 'db app_state" where
  "loadFilenameMapping en a =
     (case ap_files a mappingFile of
        None \<Rightarrow> a
      | Some t \<Rightarrow>
          (case en_mapping_parse en t of
             Some kvs \<Rightarrow> a\<lparr>ap_mapping := fold (\<lambda>(k, v). om_put k v) kvs []\<rparr>
           | None \<Rightarrow> a))"

text \<open>\<open>std::ofstream\<close> truncates the file before the dump can throw.\<close>

definition saveFilenameMapping :: "('db, 'j) env \<Rightarrow> 'db app_state \<Rightarrow> 'db app_state" where
  "saveFilenameMapping en a =
     (if en_open_ok en mappingFile
      then a\<lparr>ap_files := (ap_files a)(mappingFile \<mapsto>
             (case en_mapping_dump en (ap_mapping a) of Some t \<Rightarrow> t | None \<Rightarrow> []))\<rparr>
      else a)"

definition addFilenameMapping :: "('db, 'j) env \<Rightarrow> string \<Rightarrow> string \<Rightarrow> 'db app_state \<Rightarrow> 'db app_state" where
  "addFilenameMapping en serverFilename originalFilename a =
     (let a1 = loadFilenameMapping en a
      in saveFilenameMapping en (a1\<lparr>ap_mapping := om_put serverFilename originalFilename (ap_mapping a1)\<rparr>))"

definition getOriginalFilename :: "('db, 'j) env \<Rightarrow> string \<Rightarrow> 'db app_state \<Rightarrow> string \<times> 'db app_state" where
  "getOriginalFilename en serverFilename a =
     (let a1 = loadFilenameMapping en a
      in (case om_get (ap_mapping a1) serverFilename of Some t \<Rightarrow> t | None \<Rightarrow> serverFilename, a1))"

definition getAllFileMappings :: "('db, 'j) env \<Rightarrow> 'db app_state \<Rightarrow> (string, string) omap \<times> 'db app_state" where
  "getAllFileMappings en a = (let a1 = loadFilenameMapping en a in (ap_mapping a1, a1))"

definition eraseFilenameMapping :: "('db, 'j) env \<Rightarrow> string \<Rightarrow> 'db app_state \<Rightarrow> 'db app_state" where
  "eraseFilenameMapping en serverFilename a =
     (let a1 = loadFilenameMapping en a
      in saveFilenameMapping en (a1\<lparr>ap_mapping := om_erase serverFilename (ap_mapping a1)\<rparr>))"

section \<open>Rules for procedures\<close>

lemma bindE_Ret: "m s = (Ret x, s') \<Longrightarrow> bindE m f s = f x s'"
  by (simp add: bindE_def)

lemma bindE_eq_Ret:
  "bindE m f s = (Ret y, s2) \<longleftrightarrow> (\<exists>x s1. m s = (Ret x, s1) \<and> f x s1 = (Ret y, s2))"
  by (auto simp: bindE_def split: prod.splits outcome.splits)

lemma thenE_eq_Ret: "thenE m n s = (Ret y, s2) \<longleftrightarrow> (\<exists>x s1. m s = (Ret x, s1) \<and> n s1 = (Ret y, s2))"
  by (simp add: thenE_def bindE_eq_Ret)

lemma ret_eq_Ret: "ret x s = (Ret y, s2) \<longleftrightarrow> y = x \<and> s2 = s"
  by (auto simp: ret_def)

lemma gets_eq_Ret: "gets f s = (Ret y, s2) \<longleftrightarrow> y = f s \<and> s2 = s"
  by (auto simp: gets_def)

lemma modify_eq_Ret: "modify f s = (Ret y, s2) \<longleftrightarrow> s2 = f s"
  by (auto simp: modify_def)

lemma throw_eq_Ret: "throw e s \<noteq> (Ret y, s2)"
  by (simp add: throw_def)

lemma undef_eq_Ret: "undef s \<noteq> (Ret y, s2)"
  by (simp add: undef_def)

lemma of_sum_eq_Ret: "of_sum x s = (Ret y, s2) \<longleftrightarrow> x = Inr y \<and> s2 = s"
  by (cases x) (auto simp: of_sum_def ret_def throw_def)

lemmas proc_inv = bindE_eq_Ret thenE_eq_Ret ret_eq_Ret gets_eq_Ret modify_eq_Ret throw_eq_Ret undef_eq_Ret of_sum_eq_Ret

lemma gets_Ret: "gets f s = (Ret (f s), s)"
  by (simp add: gets_def)

lemma ret_Ret: "ret x s = (Ret x, s)"
  by (simp add: ret_def)

lemma modify_Ret: "modify f s = (Ret (), f s)"
  by (simp add: modify_def)

lemma thenE_modify: "thenE (modify f) n s = n (f s)"
  by (simp add: thenE_def bindE_def modify_def)

lemma bindE_gets: "bindE (gets f) k s = k (f s) s"
  by (simp add: bindE_def gets_def)

lemma bindE_ret: "bindE (ret x) k = k x"
  by (rule ext) (simp add: bindE_def ret_def)

lemma bindE_Inr: "bindE (of_sum (Inr x)) k = k x"
  by (simp add: of_sum_def bindE_ret)

lemmas proc_run = gets_Ret ret_Ret modify_Ret thenE_modify bindE_gets bindE_ret bindE_Inr

section \<open>Error answers\<close>

definition error_json :: "string \<Rightarrow> status_code \<Rightarrow> json" where
  "error_json message code = jobj [(''code'', JInt (int (status_number code))), (''message'', JStr message)]"

definition error_resp :: "string \<Rightarrow> status_code \<Rightarrow> bytes \<Rightarrow> http_response \<Rightarrow> http_response" where
  "error_resp message code body r =
     setBody body (addResponseHeader ''Connection'' ''close'' (setContentType ''application/json''
       (setStatusMessage message (setStatusCode code r))))"

definition answered :: "(http_response \<Rightarrow> http_response) \<Rightarrow> 'db hstate \<Rightarrow> 'db hstate" where
  "answered f s = s\<lparr>hs_resp := f (hs_resp s), hs_actions := hs_actions s @ [SetWriteComplete ShutdownWhenSent]\<rparr>"

lemma sendError_run:
  assumes "en_dump en (error_json message code) = Inr body"
  shows "sendError en message code s = (Ret (), answered (error_resp message code body) s)"
  using assms
  by (simp add: sendError_def error_json_def answered_def proc_run upd_resp_def error_resp_def
      setWriteCompleteCallback_def)

lemma fail_run:
  assumes "en_dump en (error_json message code) = Inr body"
  shows "fail en message code s = (Ret True, answered (error_resp message code body) s)"
  using sendError_run [OF assms] by (simp add: fail_def thenE_def bindE_def ret_def)

lemma error_resp_fields [simp]:
  "rs_statusCode (error_resp message code body r) = code"
  "rs_body (error_resp message code body r) = body"
  "rs_statusMessage (error_resp message code body r) = message"
  by (simp_all add: error_resp_def setBody_def addResponseHeader_def setContentType_def setStatusMessage_def setStatusCode_def)

lemma answered_fields [simp]:
  "hs_app (answered f s) = hs_app s" "hs_ctx (answered f s) = hs_ctx s" "hs_resp (answered f s) = f (hs_resp s)"
  "hs_actions (answered f s) = hs_actions s @ [SetWriteComplete ShutdownWhenSent]"
  by (simp_all add: answered_def)

section \<open>A concrete environment\<close>

text \<open>
  An instance of every external part, on which definitions can be evaluated: a database that answers
  a statement from a table (and with no rows otherwise), a parser that takes a document's members from
  a table, a hash, a clock, and system calls that succeed.
\<close>

type_synonym table_db = "(string \<times> row list) list"
type_synonym table_json = "(string \<times> (string + int)) list"

fun mysql_escape :: "string \<Rightarrow> string" where
  "mysql_escape [] = []"
| "mysql_escape (c # cs) = (if c = CHR 0x27 \<or> c = backslash then backslash # c # mysql_escape cs else c # mysql_escape cs)"

definition table_env :: "table_json \<Rightarrow> (table_db, table_json) env" where
  "table_env j = \<lparr>
     en_query = (\<lambda>db q. (Some (case map_of db q of Some rows \<Rightarrow> rows | None \<Rightarrow> []), db)),
     en_escape = (\<lambda>db. mysql_escape),
     en_insert_id = (\<lambda>db. 7),
     en_dump = (\<lambda>j. Inr ''{}''),
     en_parse = (\<lambda>t. Inr j),
     en_get_string = (\<lambda>j k. case map_of j k of Some (Inl t) \<Rightarrow> Inr t | _ \<Rightarrow> Inl ''type_error''),
     en_value_string = (\<lambda>j k d. case map_of j k of Some (Inl t) \<Rightarrow> Inr t | None \<Rightarrow> Inr d | _ \<Rightarrow> Inl ''type_error''),
     en_get_int = (\<lambda>j k. case map_of j k of Some (Inr i) \<Rightarrow> Inr i | _ \<Rightarrow> Inl ''type_error''),
     en_contains = (\<lambda>j k. map_of j k \<noteq> None),
     en_is_null = (\<lambda>j k. map_of j k = None),
     en_mapping_parse = (\<lambda>t. None),
     en_mapping_dump = (\<lambda>m. Some ''{}''),
     en_hash = (\<lambda>t. length t),
     en_random = (\<lambda>n. 7 * n),
     en_millis = 1700000000000,
     en_junk = 0,
     en_open_ok = (\<lambda>f. True),
     en_write_ok = (\<lambda>f n. True),
     en_unlink_ok = (\<lambda>f. True),
     en_freed = (\<lambda>r. r),
     en_root = ''/srv''\<rparr>"

definition start_state :: "table_db \<Rightarrow> (string \<times> bytes) list \<Rightarrow> http_request \<Rightarrow> table_db hstate" where
  "start_state db files r =
     \<lparr>hs_app = \<lparr>ap_mysql = Some db, ap_files = map_of files, ap_mapping = [], ap_draws = 0, ap_downs = [], ap_sql = []\<rparr>,
      hs_ctx = new_context\<lparr>hc_request := r, hc_state := kGotAll\<rparr>,
      hs_resp = new_response False, hs_actions = []\<rparr>"

definition simple_request :: "http_method \<Rightarrow> string \<Rightarrow> (string \<times> string) list \<Rightarrow> http_request" where
  "simple_request m path hdrs =
     \<lparr>rq_method = m, rq_version = kHttp11, rq_path = path, rq_query = [], rq_body = [], rq_receiveTime = 0,
      rq_headers = map_of hdrs, rq_pathParams = Map.empty\<rparr>"

end
