(* ===== verification/FileTransfer.thy ===== *)
theory FileTransfer
  imports AppBase
begin

text \<open>
  File transfer of \<open>application/http_upload.cc\<close>: the upload and download contexts, \<open>handleFileUpload\<close>
  with its multipart state machine, and the serving of a file (with range requests) that
  \<open>handleDownload\<close> and \<open>handleShareDownload\<close> share, down to the write-complete callback that streams it.
  Pointer arithmetic that leaves the body is undefined behaviour.
\<close>

section \<open>Upload context\<close>

definition set_custom :: "user_ctx option \<Rightarrow> ('db, unit) handler" where
  "set_custom u = modify (\<lambda>s. s\<lparr>hs_ctx := (hs_ctx s)\<lparr>hc_custom := u\<rparr>\<rparr>)"

definition open_upload :: "('db, 'j) env \<Rightarrow> string \<Rightarrow> string \<Rightarrow> ('db, upload_ctx) handler" where
  "open_upload en filename originalFilename =
     (if en_open_ok en filename
      then thenE (modify (upd_app (\<lambda>a. a\<lparr>ap_files := (ap_files a)(filename \<mapsto> [])\<rparr>)))
             (ret \<lparr>uc_filename = filename, uc_originalFilename = originalFilename, uc_totalBytes = 0,
                   uc_state = UExpectHeaders, uc_boundary = []\<rparr>)
      else throw (''Failed to open file: '' @ filename))"

definition file_append :: "string \<Rightarrow> bytes \<Rightarrow> (string \<rightharpoonup> bytes) \<Rightarrow> (string \<rightharpoonup> bytes)" where
  "file_append f d m = m(f \<mapsto> (case m f of Some t \<Rightarrow> t | None \<Rightarrow> []) @ d)"

definition writeData :: "('db, 'j) env \<Rightarrow> bytes \<Rightarrow> upload_ctx \<Rightarrow> ('db, upload_ctx) handler" where
  "writeData en d uc =
     (if en_write_ok en (uc_filename uc) (uc_totalBytes uc + length d)
      then thenE (modify (upd_app (\<lambda>a. a\<lparr>ap_files := file_append (uc_filename uc) d (ap_files a)\<rparr>)))
             (let uc' = uc\<lparr>uc_totalBytes := uc_totalBytes uc + length d\<rparr>
              in thenE (set_custom (Some (Upload uc'))) (ret uc'))
      else throw (''Failed to write to file: '' @ uc_filename uc))"

definition set_upload_state :: "upload_state \<Rightarrow> upload_ctx \<Rightarrow> ('db, upload_ctx) handler" where
  "set_upload_state st uc =
     (let uc' = uc\<lparr>uc_state := st\<rparr> in thenE (set_custom (Some (Upload uc'))) (ret uc'))"

section \<open>The multipart state machine\<close>

definition regex_of :: "string \<Rightarrow> rx_item list" where
  "regex_of p = (case rx_compile 1 [] p of Some is \<Rightarrow> is | None \<Rightarrow> [])"

definition boundary_pattern :: string where "boundary_pattern = ''boundary=(.+)$''"

definition filename_pattern :: string where
  "filename_pattern = ''Content-Disposition:.*filename='' @ [quote_char] @ ''([^'' @ [quote_char] @ '']+)'' @ [quote_char]"

text \<open>The first data: skip the part's headers and write what follows, up to the end boundary.\<close>

definition first_content :: "('db, 'j) env \<Rightarrow> bytes \<Rightarrow> upload_ctx \<Rightarrow> ('db, upload_ctx) handler" where
  "first_content en body uc =
     (case find_sub (CRLF @ CRLF) body of
        None \<Rightarrow> ret uc
      | Some p \<Rightarrow>
          let pos = p + 4 in
          case find_sub (uc_boundary uc @ ''--'') body of
            Some endPos \<Rightarrow>
              bindE (if 0 < endPos
                     then (if pos \<le> endPos then writeData en (take (endPos - pos) (drop pos body)) uc else undef)
                     else ret uc)
                (set_upload_state UComplete)
          | None \<Rightarrow>
              bindE (if pos < length body then writeData en (drop pos body) uc else ret uc)
                (set_upload_state UExpectBoundary))"

text \<open>Later data, by the state of the upload.\<close>

definition next_content :: "('db, 'j) env \<Rightarrow> bytes \<Rightarrow> upload_ctx \<Rightarrow> ('db, upload_ctx) handler" where
  "next_content en body uc =
     (case uc_state uc of
        UExpectBoundary \<Rightarrow>
          (case find_sub (uc_boundary uc @ ''--'') body of
             Some endPos \<Rightarrow>
               bindE (if 0 < endPos then writeData en (take endPos body) uc else ret uc) (set_upload_state UComplete)
           | None \<Rightarrow>
               (case find_sub (uc_boundary uc) body of
                  Some boundaryPos \<Rightarrow>
                    (case find_sub_from (CRLF @ CRLF) body boundaryPos of
                       Some contentStart \<Rightarrow>
                         bindE (if 0 < boundaryPos then writeData en (take boundaryPos body) uc else ret uc)
                           (set_upload_state UExpectContent)
                     | None \<Rightarrow> ret uc)
                | None \<Rightarrow> writeData en body uc))
      | UExpectContent \<Rightarrow>
          (case find_sub (uc_boundary uc) body of
             Some boundaryPos \<Rightarrow> bindE (writeData en (take boundaryPos body) uc) (set_upload_state UExpectBoundary)
           | None \<Rightarrow> writeData en body uc)
      | UComplete \<Rightarrow> ret uc
      | UExpectHeaders \<Rightarrow> ret uc)"

definition clear_body :: "('db, unit) handler" where
  "clear_body = modify (\<lambda>s. s\<lparr>hs_ctx := (hs_ctx s)\<lparr>hc_request := (req s)\<lparr>rq_body := []\<rparr>\<rparr>\<rparr>)"

text \<open>
  A new upload. The result is the context, or nothing when an error has been answered. The original
  name comes from the \<open>X-File-Name\<close> header or else from the body.
\<close>

definition upload_name :: "('db, 'j) env \<Rightarrow> ('db, string option) handler" where
  "upload_name en =
     bindE (gets (\<lambda>s. getHeader (req s) ''X-File-Name'')) (\<lambda>headerFilename.
     bindE (gets (\<lambda>s. rq_body (req s))) (\<lambda>body.
       if headerFilename \<noteq> [] then ret (Some (app_urlDecode (en_junk en) headerFilename))
       else if body = []
       then thenE (sendError en ''Request body is empty'' k400BadRequest) (ret None)
       else ret (Some (case regex_search (regex_of filename_pattern) body of
                         Some caps \<Rightarrow> capture body caps 1
                       | None \<Rightarrow> ''unknown_file''))))"

definition start_upload :: "('db, 'j) env \<Rightarrow> ('db, upload_ctx option) handler" where
  "start_upload en =
     bindE (gets (\<lambda>s. getHeader (req s) ''Content-Type'')) (\<lambda>contentType.
       if contentType = []
       then thenE (sendError en ''Content-Type header is missing'' k400BadRequest) (ret None)
       else case regex_search (regex_of boundary_pattern) contentType of
              None \<Rightarrow> thenE (sendError en ''Invalid Content-Type'' k400BadRequest) (ret None)
            | Some caps \<Rightarrow>
                let boundary = ''--'' @ capture contentType caps 1 in
                tryE
                  (bindE (upload_name en) (\<lambda>name.
                     case name of
                       None \<Rightarrow> ret None
                     | Some originalFilename \<Rightarrow>
                         bindE (generateUniqueFilename en ''upload'') (\<lambda>filename.
                         bindE (open_upload en (uploadDir @ ''/'' @ filename) originalFilename) (\<lambda>uc0.
                         let uc1 = uc0\<lparr>uc_boundary := boundary\<rparr> in
                         thenE (set_custom (Some (Upload uc1)))
                        (bindE (gets (\<lambda>s. rq_body (req s))) (\<lambda>body.
                         bindE (first_content en body uc1) (\<lambda>uc2.
                         thenE clear_body (ret (Some uc2)))))))))
                  (\<lambda>e. thenE (sendError en ''Failed to create file'' k500InternalServerError) (ret None)))"

definition continue_upload :: "('db, 'j) env \<Rightarrow> upload_ctx \<Rightarrow> ('db, upload_ctx option) handler" where
  "continue_upload en uc =
     tryE
       (bindE (gets (\<lambda>s. rq_body (req s))) (\<lambda>body.
          if body = [] then ret (Some uc)
          else bindE (next_content en body uc) (\<lambda>uc'. ret (Some uc'))))
       (\<lambda>e. thenE (sendError en ''Failed to process data'' k500InternalServerError) (ret None))"

text \<open>\<open>fs::path::filename\<close>: what follows the last slash.\<close>

definition base_name :: "string \<Rightarrow> string" where
  "base_name p = (case find_last_char CHR ''/'' p of Some i \<Rightarrow> drop (i + 1) p | None \<Rightarrow> p)"

definition upload_insert_sql :: "string \<Rightarrow> string \<Rightarrow> nat \<Rightarrow> string \<Rightarrow> int \<Rightarrow> string" where
  "upload_insert_sql sf orig fileSize ft userId =
     ''INSERT INTO files (filename, original_filename, file_size, file_type, user_id) VALUES (''
     @ quoted sf @ '', '' @ quoted orig @ '', '' @ show_nat fileSize @ '', '' @ quoted ft @ '', ''
     @ show_int userId @ '')''"

definition finish_upload :: "('db, 'j) env \<Rightarrow> int \<Rightarrow> upload_ctx \<Rightarrow> ('db, bool) handler" where
  "finish_upload en userId uc =
     (let serverFilename = base_name (uc_filename uc);
          originalFilename = uc_originalFilename uc;
          fileSize = uc_totalBytes uc;
          fileType = getFileType originalFilename in
      bindE (escapeString en serverFilename) (\<lambda>sf.
      bindE (escapeString en originalFilename) (\<lambda>orig.
      bindE (escapeString en fileType) (\<lambda>ft.
      bindE (executeQuery en (upload_insert_sql sf orig fileSize ft userId)) (\<lambda>_.
      bindE (insertId en) (\<lambda>fileId.
      bindE (reply_json en (jobj [(''code'', JInt 0), (''message'', JStr msg_uploaded), (''fileId'', JInt fileId),
         (''filename'', JStr serverFilename), (''originalFilename'', JStr originalFilename), (''size'', JInt (int fileSize))]))
        (\<lambda>_. thenE (set_custom None) (ret True))))))))"

definition handleFileUpload :: "('db, 'j) env \<Rightarrow> ('db, bool) handler" where
  "handleFileUpload en =
     bindE (gets (\<lambda>s. getHeader (req s) ''X-Session-ID'')) (\<lambda>sessionId.
     bindE (validateSession en sessionId) (\<lambda>session.
       case session of
         None \<Rightarrow> fail en msg_session k401Unauthorized
       | Some (userId, usernameFromSession) \<Rightarrow>
           bindE (gets (\<lambda>s. hc_custom (hs_ctx s))) (\<lambda>custom.
           bindE (case custom of
                    None \<Rightarrow> start_upload en
                  | Some (Upload uc) \<Rightarrow> continue_upload en uc
                  | Some (Down _) \<Rightarrow> undef) (\<lambda>r.
             case r of
               None \<Rightarrow> ret True
             | Some uc \<Rightarrow>
                 thenE clear_body
                (bindE (gets (\<lambda>s. gotAll (hs_ctx s))) (\<lambda>got.
                   if uc_state uc = UComplete \<or> got then finish_upload en userId uc else ret False))))))"

section \<open>Download context and streaming\<close>

definition open_down :: "('db, 'j) env \<Rightarrow> string \<Rightarrow> string \<Rightarrow> ('db, nat) handler" where
  "open_down en filepath originalFilename =
     bindE (gets (\<lambda>s. ap_files (hs_app s) filepath)) (\<lambda>file.
       case file of
         None \<Rightarrow> throw ''filesystem error: cannot get file size''
       | Some data \<Rightarrow>
           if en_open_ok en filepath then
             bindE (gets (\<lambda>s. length (ap_downs (hs_app s)))) (\<lambda>p.
             thenE (modify (upd_app (\<lambda>a. a\<lparr>ap_downs := ap_downs a @
                 [\<lparr>dc_filepath = filepath, dc_originalFilename = originalFilename, dc_data = data,
                   dc_fileSize = length data, dc_currentPosition = 0, dc_isComplete = False\<rparr>]\<rparr>)))
             (ret p))
           else throw (''Failed to open file: '' @ filepath))"

definition seekTo :: "nat \<Rightarrow> down_ctx \<Rightarrow> down_ctx" where
  "seekTo position d = d\<lparr>dc_currentPosition := position, dc_isComplete := False\<rparr>"

definition down_chunk_size :: nat where "down_chunk_size = 1024 * 1024"

text \<open>A short read leaves the rest of the zero-initialised buffer.\<close>

definition readNextChunk :: "down_ctx \<Rightarrow> bytes option \<times> down_ctx" where
  "readNextChunk d =
     (if dc_isComplete d then (None, d)
      else
        let remainingBytes = size_t (int (dc_fileSize d) - int (dc_currentPosition d));
            bytesToRead = min down_chunk_size remainingBytes
        in if bytesToRead = 0 then (None, d\<lparr>dc_isComplete := True\<rparr>)
           else (let data = take bytesToRead (drop (dc_currentPosition d) (dc_data d))
                 in (Some (data @ replicate (bytesToRead - length data) (CHR 0x00)),
                     d\<lparr>dc_currentPosition := dc_currentPosition d + bytesToRead\<rparr>)))"

text \<open>The write-complete callbacks: close, or send the next chunk and close after the last.\<close>

definition run_write_complete ::
  "write_complete \<Rightarrow> 'db app_state \<Rightarrow> 'db app_state \<times> write_complete action list" where
  "run_write_complete w a =
     (case w of
        ShutdownWhenSent \<Rightarrow> (a, [Shutdown])
      | StreamFile p \<Rightarrow>
          (case readNextChunk (ap_downs a ! p) of
             (Some chunk, d) \<Rightarrow> (a\<lparr>ap_downs := (ap_downs a)[p := d]\<rparr>, [Send chunk])
           | (None, d) \<Rightarrow> (a\<lparr>ap_downs := (ap_downs a)[p := d]\<rparr>, [Shutdown])))"

section \<open>Serving a file\<close>

definition range_pattern :: string where "range_pattern = ''bytes=('' @ [backslash] @ ''d+)-('' @ [backslash] @ ''d*)''"

text \<open>Start, end and whether a range was asked for; nothing when the range cannot be satisfied.\<close>

definition parse_range :: "string \<Rightarrow> nat \<Rightarrow> ('s, (nat \<times> nat \<times> bool) option) proc" where
  "parse_range rangeHeader fileSize =
     (let lastPos = size_t (int fileSize - 1) in
      if rangeHeader = [] then ret (Some (0, lastPos, False))
      else case regex_search (regex_of range_pattern) rangeHeader of
             None \<Rightarrow> ret (Some (0, lastPos, False))
           | Some caps \<Rightarrow>
               bindE (stoull (capture rangeHeader caps 1)) (\<lambda>startPos.
               bindE (if capture rangeHeader caps 2 = [] then ret lastPos else stoull (capture rangeHeader caps 2)) (\<lambda>endPos.
                 if fileSize \<le> startPos then ret None
                 else ret (Some (startPos, if fileSize \<le> endPos then lastPos else endPos, True)))))"

definition head_reply :: "nat \<Rightarrow> ('db, bool) handler" where
  "head_reply fileSize =
     thenE (modify (upd_resp (setStatusCode k200Ok)))
    (thenE (modify (upd_resp (setStatusMessage ''OK'')))
    (thenE (modify (upd_resp (setContentType ''application/octet-stream'')))
    (thenE (modify (upd_resp (addResponseHeader ''Content-Length'' (show_nat fileSize))))
    (thenE (modify (upd_resp (addResponseHeader ''Accept-Ranges'' ''bytes'')))
    (thenE (modify (upd_resp (addResponseHeader ''Connection'' ''close'')))
    (thenE (setWriteCompleteCallback ShutdownWhenSent) (ret True)))))))"

definition start_download ::
  "('db, 'j) env \<Rightarrow> string \<Rightarrow> string \<Rightarrow> nat \<Rightarrow> nat \<Rightarrow> nat \<Rightarrow> bool \<Rightarrow> ('db, nat) handler" where
  "start_download en filepath originalFilename fileSize startPos endPos isRangeRequest =
     bindE (open_down en filepath originalFilename) (\<lambda>p.
     thenE (set_custom (Some (Down p)))
    (thenE
      (if isRangeRequest
       then thenE (modify (upd_resp (setStatusCode k206PartialContent)))
           (thenE (modify (upd_resp (setStatusMessage ''Partial Content'')))
              (modify (upd_resp (addResponseHeader ''Content-Range''
                 (''bytes '' @ show_nat startPos @ ''-'' @ show_nat endPos @ ''/'' @ show_nat fileSize)))))
       else thenE (modify (upd_resp (setStatusCode k200Ok)))
              (modify (upd_resp (setStatusMessage ''OK''))))
    (thenE (modify (upd_resp (setContentType ''application/octet-stream'')))
    (thenE (modify (upd_resp (addResponseHeader ''Content-Disposition''
        (''attachment; filename='' @ [quote_char] @ originalFilename @ [quote_char]))))
    (thenE (modify (upd_resp (addResponseHeader ''Accept-Ranges'' ''bytes'')))
    (thenE (modify (upd_resp (addResponseHeader ''Connection'' ''keep-alive'')))
    (thenE (modify (upd_app (\<lambda>a. a\<lparr>ap_downs := (ap_downs a)[p := seekTo startPos (ap_downs a ! p)]\<rparr>)))
      (ret p))))))))"

definition serve_file :: "('db, 'j) env \<Rightarrow> string \<Rightarrow> string \<Rightarrow> ('db, bool) handler" where
  "serve_file en filepath originalFilename =
     tryE
       (bindE (gets (\<lambda>s. ap_files (hs_app s) filepath)) (\<lambda>file.
          case file of
            None \<Rightarrow> fail en ''File not found'' k404NotFound
          | Some data \<Rightarrow>
              let fileSize = length data in
              bindE (gets (\<lambda>s. rq_method (req s))) (\<lambda>method.
              if method = kHead then head_reply fileSize
              else
                bindE (gets (\<lambda>s. getHeader (req s) ''Range'')) (\<lambda>rangeHeader.
                bindE (parse_range rangeHeader fileSize) (\<lambda>range.
                  case range of
                    None \<Rightarrow> fail en ''Range Not Satisfiable'' k416RangeNotSatisfiable
                  | Some (startPos, endPos, isRangeRequest) \<Rightarrow>
                      bindE (gets (\<lambda>s. hc_custom (hs_ctx s))) (\<lambda>custom.
                      bindE (case custom of
                               None \<Rightarrow> start_download en filepath originalFilename fileSize startPos endPos isRangeRequest
                             | Some (Down p) \<Rightarrow> ret p
                             | Some (Upload _) \<Rightarrow> undef) (\<lambda>p.
                      thenE (setWriteCompleteCallback (StreamFile p)) (ret True))))))))
       (\<lambda>e. fail en ''Download failed'' k500InternalServerError)"

end
