(* ===== verification/Handlers.thy ===== *)
theory Handlers
  imports FileTransfer
begin

text \<open>
  The request handlers of \<open>HttpUploadHandler\<close> other than the upload: pages, accounts, listing,
  searching, deleting, downloading and sharing. Each is one definition, its branches and its SQL in
  the order of the code. An exception that a handler does not catch is caught by \<open>onRequest\<close>.
\<close>

section \<open>Pages\<close>

definition index_file :: "('db, 'j) env \<Rightarrow> string \<Rightarrow> string" where
  "index_file en path =
     (if path = ''/register.html'' then en_root en @ ''/register.html''
      else if path = ''/share.html'' \<or> starts_with ''/share/'' path then en_root en @ ''/share.html''
      else en_root en @ ''/index.html'')"

definition handleIndex :: "('db, 'j) env \<Rightarrow> ('db, bool) handler" where
  "handleIndex en =
     thenE (modify (upd_resp (setStatusCode k200Ok)))
    (thenE (modify (upd_resp (setStatusMessage ''OK'')))
    (thenE (modify (upd_resp (setContentType ''text/html; charset=utf-8'')))
    (bindE (gets (\<lambda>s. rq_path (req s))) (\<lambda>path.
     let filePath = index_file en path in
     bindE (gets (\<lambda>s. ap_files (hs_app s) filePath)) (\<lambda>file.
       case file of
         None \<Rightarrow> fail en (''Failed to open '' @ filePath) k500InternalServerError
       | Some html \<Rightarrow>
           thenE (modify (upd_resp (addResponseHeader ''Connection'' ''close'')))
          (thenE (modify (upd_resp (setBody html)))
          (thenE (setWriteCompleteCallback ShutdownWhenSent) (ret True))))))))"

definition favicon_reply :: "status_code \<Rightarrow> string \<Rightarrow> bytes \<Rightarrow> ('db, unit) handler" where
  "favicon_reply code message data =
     thenE (modify (upd_resp (setStatusCode code)))
    (thenE (modify (upd_resp (setStatusMessage message)))
    (thenE (modify (upd_resp (setContentType ''image/x-icon'')))
    (thenE (modify (upd_resp (addResponseHeader ''Connection'' ''close'')))
      (modify (upd_resp (setBody data))))))"

definition handleFavicon :: "('db, 'j) env \<Rightarrow> ('db, bool) handler" where
  "handleFavicon en =
     bindE (gets (\<lambda>s. ap_files (hs_app s) (en_root en @ ''/favicon.ico''))) (\<lambda>file.
     thenE (case file of
              None \<Rightarrow> favicon_reply k404NotFound ''Not Found'' []
            | Some iconData \<Rightarrow> favicon_reply k200Ok ''OK'' iconData)
    (thenE (setWriteCompleteCallback ShutdownWhenSent) (ret True)))"

section \<open>Accounts\<close>

definition query_first :: "('db, 'j) env \<Rightarrow> string \<Rightarrow> ('db, row option) handler" where
  "query_first en q =
     bindE (executeQueryWithResult en q) (\<lambda>result.
       ret (case result of Some (r # _) \<Rightarrow> Some r | _ \<Rightarrow> None))"

definition handleRegister :: "('db, 'j) env \<Rightarrow> ('db, bool) handler" where
  "handleRegister en =
     tryE
       (bindE (gets (\<lambda>s. rq_body (req s))) (\<lambda>body.
        bindE (of_sum (en_parse en body)) (\<lambda>requestData.
        bindE (of_sum (en_get_string en requestData ''username'')) (\<lambda>username.
        bindE (of_sum (en_get_string en requestData ''password'')) (\<lambda>password.
        bindE (of_sum (en_value_string en requestData ''email'' [])) (\<lambda>email.
        if username = [] \<or> password = [] then fail en msg_empty_credentials k400BadRequest
        else
          let hashedPassword = sha256 en password in
          bindE (escapeString en username) (\<lambda>un.
          bindE (query_first en (''SELECT id FROM users WHERE username = '' @ quoted un)) (\<lambda>existing.
          if existing \<noteq> None then fail en msg_user_exists k400BadRequest
          else
            bindE (escapeString en username) (\<lambda>un2.
            bindE (escapeString en hashedPassword) (\<lambda>hp.
            bindE (escapeString en email) (\<lambda>em.
            bindE (executeQuery en (''INSERT INTO users (username, password, email) VALUES (''
               @ quoted un2 @ '', '' @ quoted hp @ '', '' @ (if email = [] then ''NULL'' else quoted em) @ '')'')) (\<lambda>ok.
            if \<not> ok then fail en msg_register_retry k500InternalServerError
            else
              bindE (insertId en) (\<lambda>userId.
              reply_json en (jobj [(''code'', JInt 0), (''message'', JStr msg_registered), (''userId'', JInt userId)]))))))))))))))
       (\<lambda>e. fail en (msg_register_failed @ e) k500InternalServerError)"

definition login_query :: "string \<Rightarrow> string \<Rightarrow> string" where
  "login_query un hp = ''SELECT id, username FROM users WHERE username = '' @ quoted un @ '' AND password = '' @ quoted hp"

definition handleLogin :: "('db, 'j) env \<Rightarrow> ('db, bool) handler" where
  "handleLogin en =
     tryE
       (bindE (gets (\<lambda>s. rq_body (req s))) (\<lambda>body.
        bindE (of_sum (en_parse en body)) (\<lambda>requestData.
        bindE (of_sum (en_get_string en requestData ''username'')) (\<lambda>username.
        bindE (of_sum (en_get_string en requestData ''password'')) (\<lambda>password.
        if username = [] \<or> password = [] then fail en msg_empty_credentials k400BadRequest
        else
          let hashedPassword = sha256 en password in
          bindE (escapeString en username) (\<lambda>un.
          bindE (escapeString en hashedPassword) (\<lambda>hp.
          bindE (query_first en (login_query un hp)) (\<lambda>found.
          case found of
            None \<Rightarrow> fail en msg_bad_credentials k401Unauthorized
          | Some row \<Rightarrow>
              bindE (col_int row 0) (\<lambda>userId.
              bindE (col_string row 1) (\<lambda>usernameFromDb.
              bindE (generateSessionId en) (\<lambda>sessionId.
              thenE (saveSession en sessionId userId usernameFromDb)
                (reply_json en (jobj [(''code'', JInt 0), (''message'', JStr msg_logged_in),
                   (''sessionId'', JStr sessionId), (''userId'', JInt userId), (''username'', JStr usernameFromDb)])))))))))))))
       (\<lambda>e. fail en (msg_login_failed @ e) k500InternalServerError)"

definition handleLogout :: "('db, 'j) env \<Rightarrow> ('db, bool) handler" where
  "handleLogout en =
     bindE (gets (\<lambda>s. getHeader (req s) ''X-Session-ID'')) (\<lambda>sessionId.
     thenE (if sessionId \<noteq> [] then endSession en sessionId else ret ())
       (reply_json en (jobj [(''code'', JInt 0), (''message'', JStr ''Logout successful'')])))"

text \<open>The prologue of the protected handlers.\<close>

definition with_session ::
  "('db, 'j) env \<Rightarrow> (int \<Rightarrow> string \<Rightarrow> ('db, bool) handler) \<Rightarrow> ('db, bool) handler" where
  "with_session en k =
     bindE (gets (\<lambda>s. getHeader (req s) ''X-Session-ID'')) (\<lambda>sessionId.
     bindE (validateSession en sessionId) (\<lambda>session.
       case session of
         None \<Rightarrow> fail en msg_session k401Unauthorized
       | Some (userId, username) \<Rightarrow> k userId username))"

section \<open>Searching users and listing files\<close>

fun user_rows :: "row list \<Rightarrow> ('s, json list) proc" where
  "user_rows [] = ret []"
| "user_rows (r # rs) =
     bindE (col_int r 0) (\<lambda>i.
     bindE (col_or r 1 []) (\<lambda>un.
     bindE (col_or r 2 []) (\<lambda>email.
     bindE (user_rows rs) (\<lambda>rest.
       ret (jobj [(''id'', JInt i), (''username'', JStr un), (''email'', JStr email)] # rest)))))"

definition handleSearchUsers :: "('db, 'j) env \<Rightarrow> ('db, bool) handler" where
  "handleSearchUsers en =
     with_session en (\<lambda>userId username.
       bindE (gets (\<lambda>s. rq_query (req s))) (\<lambda>query0.
       let query = (case query0 of c # cs \<Rightarrow> if c = CHR ''?'' then cs else query0 | [] \<Rightarrow> []) in
       if \<not> starts_with ''keyword='' query then fail en msg_keyword k400BadRequest
       else
         let keyword = app_urlDecode (en_junk en) (drop 8 query) in
         if keyword = [] then fail en msg_keyword k400BadRequest
         else
           bindE (escapeString en keyword) (\<lambda>kw.
           bindE (executeQueryWithResult en (''SELECT id, username, email FROM users WHERE username LIKE '' @ [CHR 0x27]
               @ ''%'' @ kw @ ''%'' @ [CHR 0x27] @ '' AND id != '' @ show_int userId @ '' LIMIT 10'')) (\<lambda>result.
           bindE (case result of Some rows \<Rightarrow> user_rows rows | None \<Rightarrow> ret []) (\<lambda>users.
             reply_json en (jset ''users'' (JArr users)
               (jset ''message'' (JStr ''Success'') (jset ''code'' (JInt 0) JNull))))))))"

definition file_columns :: string where
  "file_columns = ''SELECT f.id, f.filename, f.original_filename, f.file_size, f.file_type, ''"

definition list_query :: "string \<Rightarrow> int \<Rightarrow> string" where
  "list_query listType userId =
     (let uid = show_int userId; public = [CHR 0x27] @ ''public'' @ [CHR 0x27] in
      if listType = ''my'' then
        file_columns @ ''f.created_at, 1 as is_owner FROM files f WHERE f.user_id = '' @ uid
      else if listType = ''shared'' then
        file_columns @ ''f.created_at, 0 as is_owner FROM files f JOIN file_shares fs ON f.id = fs.file_id ''
        @ ''WHERE (fs.shared_with_id = '' @ uid @ '' OR fs.share_type = '' @ public @ '') AND f.user_id != '' @ uid
      else if listType = ''all'' then
        file_columns @ ''f.created_at, CASE WHEN f.user_id = '' @ uid @ '' THEN 1 ELSE 0 END as is_owner ''
        @ ''FROM files f LEFT JOIN file_shares fs ON f.id = fs.file_id WHERE f.user_id = '' @ uid @ '' OR ''
        @ ''fs.shared_with_id = '' @ uid @ '' OR fs.share_type = '' @ public
      else [])"

definition share_details :: "('db, 'j) env \<Rightarrow> row \<Rightarrow> ('db, json) handler" where
  "share_details en shareRow =
     bindE (col_string shareRow 0) (\<lambda>shareType.
     bindE (col_or shareRow 2 []) (\<lambda>shareCode.
     let info0 = jobj [(''type'', JStr shareType), (''shareCode'', JStr shareCode)] in
     bindE (if shareType = ''protected''
            then bindE (col shareRow 4) (\<lambda>v.
                   ret (case v of Some t \<Rightarrow> jset ''extractCode'' (JStr (c_str t)) info0 | None \<Rightarrow> info0))
            else ret info0) (\<lambda>info1.
     bindE (if shareType = ''user''
            then bindE (col shareRow 1) (\<lambda>v.
                   case v of
                     None \<Rightarrow> ret info1
                   | Some t \<Rightarrow>
                       bindE (stoi (c_str t)) (\<lambda>sharedWithId.
                       bindE (query_first en (''SELECT username FROM users WHERE id = '' @ show_int sharedWithId)) (\<lambda>ur.
                         case ur of
                           None \<Rightarrow> ret info1
                         | Some userRow \<Rightarrow>
                             bindE (col_string userRow 0) (\<lambda>un.
                               ret (jset ''sharedWithId'' (JInt sharedWithId)
                                     (jset ''sharedWithUsername'' (JStr un) info1))))))
            else ret info1) (\<lambda>info2.
     bindE (col shareRow 3) (\<lambda>v.
       ret (case v of Some t \<Rightarrow> jset ''expireTime'' (JStr (c_str t)) info2 | None \<Rightarrow> info2))))))"

definition share_info_of :: "('db, 'j) env \<Rightarrow> int \<Rightarrow> ('db, json) handler" where
  "share_info_of en fileId =
     bindE (query_first en (''SELECT share_type, shared_with_id, share_code, expire_time, extract_code FROM file_shares ''
        @ ''WHERE file_id = '' @ show_int fileId)) (\<lambda>r.
       case r of None \<Rightarrow> ret JNull | Some shareRow \<Rightarrow> share_details en shareRow)"

fun file_rows :: "('db, 'j) env \<Rightarrow> row list \<Rightarrow> ('db, json list) handler" where
  "file_rows en [] = ret []"
| "file_rows en (r # rs) =
     bindE (col_int r 0) (\<lambda>fileId.
     bindE (col_string r 1) (\<lambda>filename.
     bindE (col_string r 2) (\<lambda>originalFilename.
     bindE (bindE (col_string r 3) stoull) (\<lambda>fileSize.
     bindE (col_string r 4) (\<lambda>fileType.
     bindE (col_string r 5) (\<lambda>createdAt.
     bindE (col_int r 6) (\<lambda>owner.
     let isOwner = (owner = 1) in
     bindE (if isOwner then share_info_of en fileId else ret JNull) (\<lambda>shareInfo.
     let fileInfo = jobj [(''id'', JInt fileId), (''name'', JStr filename), (''originalName'', JStr originalFilename),
           (''size'', JInt (int fileSize)), (''type'', JStr fileType), (''createdAt'', JStr createdAt),
           (''isOwner'', JBool isOwner)];
         entry = (if shareInfo \<noteq> JNull then jset ''shareInfo'' shareInfo fileInfo else fileInfo) in
     bindE (file_rows en rs) (\<lambda>rest. ret (entry # rest))))))))))"

definition handleListFiles :: "('db, 'j) env \<Rightarrow> ('db, bool) handler" where
  "handleListFiles en =
     with_session en (\<lambda>userId username.
       bindE (gets (\<lambda>s. getQuery (en_junk en) (req s) ''type'' ''my'')) (\<lambda>listType.
       bindE (executeQueryWithResult en (list_query listType userId)) (\<lambda>result.
       let response0 = jset ''message'' (JStr ''Success'') (jset ''code'' (JInt 0) JNull) in
       bindE (case result of
                None \<Rightarrow> ret response0
              | Some rows \<Rightarrow> bindE (file_rows en rows) (\<lambda>files. ret (jset ''files'' (JArr files) response0)))
         (reply_json en))))"

section \<open>Deleting\<close>

definition unlink_file :: "('db, 'j) env \<Rightarrow> string \<Rightarrow> 'db app_state \<Rightarrow> 'db app_state" where
  "unlink_file en f a =
     (if ap_files a f \<noteq> None \<and> en_unlink_ok en f then a\<lparr>ap_files := (ap_files a)(f := None)\<rparr> else a)"

definition delete_query :: "string \<Rightarrow> int \<Rightarrow> string" where
  "delete_query fn userId = ''SELECT id FROM files WHERE filename = '' @ quoted fn @ '' AND user_id = '' @ show_int userId"

definition delete_shares_sql :: "int \<Rightarrow> string" where
  "delete_shares_sql fileId = ''DELETE FROM file_shares WHERE file_id = '' @ show_int fileId"

definition delete_file_sql :: "int \<Rightarrow> string" where
  "delete_file_sql fileId = ''DELETE FROM files WHERE id = '' @ show_int fileId"

definition delete_for :: "('db, 'j) env \<Rightarrow> int \<Rightarrow> ('db, bool) handler" where
  "delete_for en userId =
     bindE (gets (\<lambda>s. getPathParam (req s) ''filename'')) (\<lambda>filename.
     if filename = [] then fail en ''Missing filename'' k400BadRequest
     else
       bindE (escapeString en filename) (\<lambda>fn.
       bindE (query_first en (delete_query fn userId)) (\<lambda>found.
       case found of
         None \<Rightarrow> fail en msg_delete_denied k403Forbidden
       | Some row \<Rightarrow>
           bindE (col_int row 0) (\<lambda>fileId.
           bindE (executeQuery en (delete_shares_sql fileId)) (\<lambda>_.
           bindE (executeQuery en (delete_file_sql fileId)) (\<lambda>ok.
           if \<not> ok then fail en msg_delete_failed k500InternalServerError
           else
             thenE (modify (upd_app (unlink_file en (c_str (uploadDir @ ''/'' @ filename)))))
            (thenE (modify (upd_app (eraseFilenameMapping en filename)))
              (reply_json en (jobj [(''code'', JInt 0), (''message'', JStr ''success'')])))))))))"

definition handleDelete :: "('db, 'j) env \<Rightarrow> ('db, bool) handler" where
  "handleDelete en = with_session en (\<lambda>userId username. delete_for en userId)"

section \<open>Downloading\<close>

text \<open>\<open>hasPermission\<close> of the two download handlers; \<open>viaShare\<close> is whether a share code was given.\<close>

definition has_permission :: "bool \<Rightarrow> int option \<Rightarrow> int \<Rightarrow> string \<Rightarrow> int \<Rightarrow> string \<Rightarrow> string \<Rightarrow> bool" where
  "has_permission viaShare user fileOwnerId shareType sharedWithId extractCode dbExtractCode =
     (if user = Some fileOwnerId then True
      else if viaShare then
        (if shareType = ''public'' then True
         else if shareType = ''protected'' then extractCode \<noteq> [] \<and> extractCode = dbExtractCode
         else if shareType = ''user'' then user = Some sharedWithId
         else False)
      else False)"

definition deny_access :: "('db, 'j) env \<Rightarrow> string \<Rightarrow> string \<Rightarrow> string \<Rightarrow> ('db, bool) handler" where
  "deny_access en shareType extractCode dbExtractCode =
     (if shareType = ''protected'' \<and> (extractCode = [] \<or> extractCode \<noteq> dbExtractCode)
      then fail en msg_extract k403Forbidden
      else fail en msg_no_permission k403Forbidden)"

definition not_expired :: string where
  "not_expired = ''AND (fs.expire_time IS NULL OR fs.expire_time > NOW())''"

definition download_query :: "bool \<Rightarrow> string \<Rightarrow> string \<Rightarrow> string" where
  "download_query viaShare fn sc =
     (if viaShare then
        ''SELECT f.id, f.filename, f.original_filename, f.user_id, fs.share_type, fs.shared_with_id, fs.extract_code ''
        @ ''FROM files f JOIN file_shares fs ON f.id = fs.file_id WHERE f.filename = '' @ quoted fn @ '' ''
        @ ''AND fs.share_code = '' @ quoted sc @ '' '' @ not_expired
      else
        ''SELECT f.id, f.filename, f.original_filename, f.user_id, NULL as share_type, NULL as shared_with_id, ''
        @ ''NULL as extract_code FROM files f WHERE f.filename = '' @ quoted fn)"

definition download_row ::
  "('db, 'j) env \<Rightarrow> string \<Rightarrow> string \<Rightarrow> (int \<times> string) option \<Rightarrow> row \<Rightarrow> ('db, bool) handler" where
  "download_row en shareCode extractCode session row =
     bindE (col_int row 0) (\<lambda>fileId.
     bindE (col_string row 1) (\<lambda>serverFilename.
     bindE (col_string row 2) (\<lambda>originalFilename.
     bindE (col_int row 3) (\<lambda>fileOwnerId.
     bindE (col_or row 4 []) (\<lambda>shareType.
     bindE (col_int_or_zero row 5) (\<lambda>sharedWithId.
     bindE (col_or row 6 []) (\<lambda>dbExtractCode.
     if has_permission (shareCode \<noteq> []) (map_option fst session) fileOwnerId shareType sharedWithId
          extractCode dbExtractCode
     then serve_file en (uploadDir @ ''/'' @ serverFilename) originalFilename
     else deny_access en shareType extractCode dbExtractCode)))))))"

definition handleDownload :: "('db, 'j) env \<Rightarrow> ('db, bool) handler" where
  "handleDownload en =
     bindE (gets (\<lambda>s. getPathParam (req s) ''filename'')) (\<lambda>filename.
     if filename = [] then fail en ''Missing filename'' k400BadRequest
     else
       bindE (gets (\<lambda>s. getHeader (req s) ''X-Session-ID'')) (\<lambda>headerSession.
       bindE (if headerSession = [] then gets (\<lambda>s. getQuery (en_junk en) (req s) ''sessionId'' []) else ret headerSession)
         (\<lambda>sessionId.
       bindE (validateSession en sessionId) (\<lambda>session.
       bindE (gets (\<lambda>s. getQuery (en_junk en) (req s) ''code'' [])) (\<lambda>shareCode.
       bindE (gets (\<lambda>s. getQuery (en_junk en) (req s) ''extract_code'' [])) (\<lambda>extractCode.
       if shareCode = [] \<and> session = None then fail en msg_login_first k401Unauthorized
       else
         bindE (escapeString en filename) (\<lambda>fn.
         bindE (escapeString en shareCode) (\<lambda>sc.
         bindE (query_first en (download_query (shareCode \<noteq> []) fn sc)) (\<lambda>found.
         case found of
           None \<Rightarrow> fail en ''File not found'' k404NotFound
         | Some row \<Rightarrow> download_row en shareCode extractCode session row)))))))))"

definition share_download_query :: "string \<Rightarrow> string \<Rightarrow> string" where
  "share_download_query fn sc =
     ''SELECT f.id, f.filename, f.original_filename, f.user_id, fs.share_type, fs.shared_with_id, fs.extract_code, ''
     @ ''fs.created_at, fs.expire_time FROM files f JOIN file_shares fs ON f.id = fs.file_id WHERE f.filename = ''
     @ quoted fn @ '' AND fs.share_code = '' @ quoted sc @ '' '' @ not_expired"

definition share_download_row ::
  "('db, 'j) env \<Rightarrow> string \<Rightarrow> (int \<times> string) option \<Rightarrow> row \<Rightarrow> ('db, bool) handler" where
  "share_download_row en extractCode session row =
     bindE (col_string row 1) (\<lambda>serverFilename.
     bindE (col_string row 2) (\<lambda>originalFilename.
     bindE (col_int row 3) (\<lambda>fileOwnerId.
     bindE (col_string row 4) (\<lambda>shareType.
     bindE (col_int_or_zero row 5) (\<lambda>sharedWithId.
     bindE (col_or row 6 []) (\<lambda>dbExtractCode.
     bindE (col_or row 7 []) (\<lambda>createdAt.
     bindE (col_or row 8 []) (\<lambda>expireTime.
     if has_permission True (map_option fst session) fileOwnerId shareType sharedWithId extractCode dbExtractCode
     then serve_file en (uploadDir @ ''/'' @ serverFilename) originalFilename
     else deny_access en shareType extractCode dbExtractCode))))))))"

definition handleShareDownload :: "('db, 'j) env \<Rightarrow> ('db, bool) handler" where
  "handleShareDownload en =
     bindE (gets (\<lambda>s. getPathParam (req s) ''filename'')) (\<lambda>filename.
     if filename = [] then fail en ''Missing filename'' k400BadRequest
     else
       bindE (gets (\<lambda>s. getQuery (en_junk en) (req s) ''code'' [])) (\<lambda>shareCode.
       bindE (gets (\<lambda>s. getQuery (en_junk en) (req s) ''extract_code'' [])) (\<lambda>extractCode.
       if shareCode = [] then fail en ''Missing share code'' k400BadRequest
       else
         bindE (gets (\<lambda>s. getHeader (req s) ''X-Session-ID'')) (\<lambda>sessionId.
         bindE (validateSession en sessionId) (\<lambda>session.
         bindE (escapeString en filename) (\<lambda>fn.
         bindE (escapeString en shareCode) (\<lambda>sc.
         bindE (query_first en (share_download_query fn sc)) (\<lambda>found.
         case found of
           None \<Rightarrow> fail en ''Share not found or expired'' k404NotFound
         | Some row \<Rightarrow> share_download_row en extractCode session row))))))))"

section \<open>Sharing\<close>

definition expire_sql :: "('db, 'j) env \<Rightarrow> 'j \<Rightarrow> ('db, string) handler" where
  "expire_sql en requestData =
     (if en_contains en requestData ''expireTime'' \<and> \<not> en_is_null en requestData ''expireTime''
      then bindE (of_sum (en_get_int en requestData ''expireTime'')) (\<lambda>expireHours.
             ret (if 0 < expireHours then ''DATE_ADD(NOW(), INTERVAL '' @ show_int expireHours @ '' HOUR)'' else ''NULL''))
      else ret ''NULL'')"

text \<open>The grantee and the extract code as SQL; nothing when the file is shared with the user already.\<close>

definition share_target :: "('db, 'j) env \<Rightarrow> 'j \<Rightarrow> int \<Rightarrow> string \<Rightarrow> ('db, (string \<times> string) option) handler" where
  "share_target en requestData fileId shareType =
     (if shareType = ''user'' \<and> en_contains en requestData ''sharedWithId'' then
        bindE (of_sum (en_get_int en requestData ''sharedWithId'')) (\<lambda>withId.
        bindE (query_first en (''SELECT 1 FROM file_shares WHERE file_id = '' @ show_int fileId @ '' AND shared_with_id = ''
           @ show_int withId @ '' AND share_type = '' @ quoted ''user'')) (\<lambda>existing.
        if existing \<noteq> None
        then thenE (sendError en msg_already_shared k400BadRequest) (ret None)
        else ret (Some (show_int withId, ''NULL''))))
      else if shareType = ''protected'' then
        bindE (generateExtractCode en) (\<lambda>code. ret (Some (''NULL'', quoted code)))
      else ret (Some (''NULL'', ''NULL'')))"

definition share_reply :: "('db, 'j) env \<Rightarrow> int \<Rightarrow> string \<Rightarrow> string \<Rightarrow> string \<Rightarrow> string \<Rightarrow> ('db, bool) handler" where
  "share_reply en shareId shareType shareCode sharedWithId extractCode =
     (let response = jobj [(''code'', JInt 0), (''message'', JStr msg_shared), (''shareId'', JInt shareId),
            (''shareType'', JStr shareType), (''shareCode'', JStr shareCode), (''shareLink'', JStr (''/share/'' @ shareCode))] in
      bindE (if shareType = ''user''
             then bindE (stoi sharedWithId) (\<lambda>i. ret (jset ''sharedWithId'' (JInt i) response))
             else if shareType = ''protected''
             then ret (jset ''extractCode'' (JStr (take (length extractCode - 2) (drop 1 extractCode))) response)
             else ret response)
        (reply_json en))"

definition share_owned_query :: "int \<Rightarrow> int \<Rightarrow> string" where
  "share_owned_query fileId userId = ''SELECT 1 FROM files WHERE id = '' @ show_int fileId @ '' AND user_id = '' @ show_int userId"

definition share_insert_sql :: "int \<Rightarrow> int \<Rightarrow> string \<Rightarrow> string \<Rightarrow> string \<Rightarrow> string \<Rightarrow> string \<Rightarrow> string" where
  "share_insert_sql fileId userId sharedWithId st sc extractCode expireStr =
     ''INSERT INTO file_shares (file_id, owner_id, shared_with_id, share_type, ''
     @ ''share_code, extract_code, expire_time) VALUES ('' @ show_int fileId @ '', '' @ show_int userId @ '', ''
     @ sharedWithId @ '', '' @ quoted st @ '', '' @ quoted sc @ '', '' @ extractCode @ '', '' @ expireStr @ '')''"

definition handleShareFile :: "('db, 'j) env \<Rightarrow> ('db, bool) handler" where
  "handleShareFile en =
     with_session en (\<lambda>userId username.
       tryE
         (bindE (gets (\<lambda>s. rq_body (req s))) (\<lambda>body.
          bindE (of_sum (en_parse en body)) (\<lambda>requestData.
          bindE (of_sum (en_get_int en requestData ''fileId'')) (\<lambda>fileId.
          bindE (of_sum (en_get_string en requestData ''shareType'')) (\<lambda>shareType.
          bindE (query_first en (share_owned_query fileId userId)) (\<lambda>owned.
          if owned = None then fail en msg_share_denied k403Forbidden
          else if shareType = ''private'' then
            bindE (executeQuery en (delete_shares_sql fileId)) (\<lambda>_.
              reply_json en (jobj [(''code'', JInt 0), (''message'', JStr msg_private)]))
          else
            bindE (expire_sql en requestData) (\<lambda>expireStr.
            bindE (generateShareCode en) (\<lambda>shareCode.
            bindE (share_target en requestData fileId shareType) (\<lambda>target.
            case target of
              None \<Rightarrow> ret True
            | Some (sharedWithId, extractCode) \<Rightarrow>
                bindE (escapeString en shareType) (\<lambda>st.
                bindE (escapeString en shareCode) (\<lambda>sc.
                bindE (executeQuery en (share_insert_sql fileId userId sharedWithId st sc extractCode expireStr))
                  (\<lambda>ok.
                if \<not> ok then fail en msg_share_failed k500InternalServerError
                else bindE (insertId en) (\<lambda>shareId.
                       share_reply en shareId shareType shareCode sharedWithId extractCode)))))))))))))
         (\<lambda>e. fail en (msg_share_error @ e) k500InternalServerError))"

definition share_columns :: string where
  "share_columns = ''SELECT fs.*, f.filename, f.original_filename, f.file_size, f.file_type, u.username as owner_username, ''
     @ ''f.user_id FROM file_shares fs JOIN files f ON fs.file_id = f.id JOIN users u ON f.user_id = u.id ''"

definition share_code_ok :: "string \<Rightarrow> bool" where
  "share_code_ok c \<longleftrightarrow> list_all (\<lambda>x. (97 \<le> (of_char x :: nat) \<and> of_char x \<le> (122 :: nat)) \<or> is_digit x) c"

text \<open>The JSON branch of \<open>handleShareAccess\<close>, on the row that was found.\<close>

definition share_access_row :: "('db, 'j) env \<Rightarrow> string \<Rightarrow> string \<Rightarrow> (int \<times> string) option \<Rightarrow> row \<Rightarrow> ('db, bool) handler" where
  "share_access_row en shareCode extractCode session row =
     (let userId = (case session of Some (u, _) \<Rightarrow> u | None \<Rightarrow> 0) in
      bindE (col_string row 4) (\<lambda>shareType.
      bindE (bindE (col row 13) (\<lambda>v.
               case v of None \<Rightarrow> ret False | Some t \<Rightarrow> bindE (stoi (c_str t)) (\<lambda>i. ret (i = userId)))) (\<lambda>isOwner.
      bindE (col_int_or_zero row 3) (\<lambda>sharedWithId.
      bindE (col_or row 5 []) (\<lambda>dbExtractCode.
      if isOwner \<or> shareType = ''public'' \<or> (shareType = ''protected'' \<and> extractCode \<noteq> [] \<and> extractCode = dbExtractCode)
         \<or> (shareType = ''user'' \<and> session \<noteq> None \<and> userId = sharedWithId)
      then
        bindE (col_int row 0) (\<lambda>i.
        bindE (col_int row 1) (\<lambda>fileId.
        bindE (col_int row 2) (\<lambda>ownerId.
        bindE (col_or row 6 []) (\<lambda>createdAt.
        bindE (col_or row 7 []) (\<lambda>expireTime.
        bindE (col_or row 8 []) (\<lambda>filename.
        bindE (col_or row 9 []) (\<lambda>originalName.
        bindE (bindE (col row 10) (\<lambda>v. case v of None \<Rightarrow> ret 0 | Some t \<Rightarrow> stoull (c_str t))) (\<lambda>fileSize.
        bindE (col_or row 11 ''unknown'') (\<lambda>fileType.
        bindE (col_or row 12 []) (\<lambda>ownerUsername.
        thenE (modify (upd_resp (setStatusCode k200Ok)))
       (thenE (modify (upd_resp (setStatusMessage ''OK'')))
       (thenE (modify (upd_resp (setContentType ''application/json'')))
       (bindE (of_sum (en_dump en (jobj [(''code'', JInt 0), (''message'', JStr ''success''),
          (''file'', jobj [(''id'', JInt i), (''fileId'', JInt fileId), (''ownerId'', JInt ownerId),
             (''sharedWithId'', JInt sharedWithId), (''shareType'', JStr shareType), (''shareCode'', JStr shareCode),
             (''createdAt'', JStr createdAt), (''expireTime'', JStr expireTime), (''filename'', JStr filename),
             (''originalName'', JStr originalName), (''size'', JInt (int fileSize)), (''type'', JStr fileType),
             (''ownerUsername'', JStr ownerUsername), (''isOwner'', JBool isOwner)]),
          (''downloadUrl'', JStr (''/share/download/'' @ filename @ ''?code='' @ shareCode))]))) (\<lambda>body.
        thenE (modify (upd_resp (setBody body)))
       (thenE (modify (upd_resp (addResponseHeader ''Connection'' ''close'')))
       (thenE (setWriteCompleteCallback ShutdownWhenSent) (ret True)))))))))))))))))
      else deny_access en shareType extractCode dbExtractCode)))))"

definition share_access_query :: "string \<Rightarrow> string \<Rightarrow> string" where
  "share_access_query sc ec =
     share_columns @ ''WHERE fs.share_code = '' @ quoted sc @ '' '' @ not_expired
     @ '' AND (fs.share_type != '' @ quoted ''protected'' @ '' OR (fs.share_type = '' @ quoted ''protected''
     @ '' AND fs.extract_code = '' @ quoted ec @ ''))''"

definition handleShareAccess :: "('db, 'j) env \<Rightarrow> ('db, bool) handler" where
  "handleShareAccess en =
     bindE (gets (\<lambda>s. rq_path (req s))) (\<lambda>path.
     case regex_search (regex_of ''/share/([^/]+)'') path of
       None \<Rightarrow> fail en msg_bad_link k400BadRequest
     | Some caps \<Rightarrow>
         let shareCode = capture path caps 1 in
         bindE (gets (\<lambda>s. getHeader (req s) ''Accept'')) (\<lambda>acceptHeader.
         bindE (gets (\<lambda>s. getHeader (req s) ''X-Session-ID'')) (\<lambda>sessionId.
         bindE (validateSession en sessionId) (\<lambda>session.
         bindE (gets (\<lambda>s. getHeader (req s) ''X-Requested-With'')) (\<lambda>requestedWith.
         if requestedWith = ''XMLHttpRequest'' \<or> find_sub ''application/json'' acceptHeader \<noteq> None then
           if length shareCode \<noteq> 32 then fail en msg_bad_code k400BadRequest
           else if \<not> share_code_ok shareCode then fail en msg_code_chars k400BadRequest
           else
             bindE (gets (\<lambda>s. getQuery (en_junk en) (req s) ''code'' [])) (\<lambda>extractCode.
             bindE (escapeString en shareCode) (\<lambda>sc.
             bindE (escapeString en extractCode) (\<lambda>ec.
             bindE (query_first en (share_access_query sc ec)) (\<lambda>found.
             case found of
               None \<Rightarrow> fail en msg_link_expired k404NotFound
             | Some row \<Rightarrow> share_access_row en shareCode extractCode session row))))
         else
           bindE (handleIndex en) (\<lambda>result.
           thenE (modify (upd_resp (addResponseHeader ''X-Share-Code'' shareCode))) (ret result)))))))"

text \<open>
  \<open>handleShareInfo\<close> reads \<open>row[0]\<close> and \<open>row[11]\<close> again after \<open>mysql_free_result\<close>; \<open>en_freed\<close> is what
  the freed row then holds.
\<close>

definition handleShareInfo :: "('db, 'j) env \<Rightarrow> ('db, bool) handler" where
  "handleShareInfo en =
     bindE (gets (\<lambda>s. getPathParam (req s) ''code'')) (\<lambda>shareCode.
     if shareCode = [] then fail en ''Missing share code'' k400BadRequest
     else
       bindE (gets (\<lambda>s. getQuery (en_junk en) (req s) ''extract_code'' [])) (\<lambda>extractCode.
       bindE (escapeString en shareCode) (\<lambda>sc.
       bindE (query_first en (share_columns @ ''WHERE fs.share_code = '' @ quoted sc @ '' '' @ not_expired)) (\<lambda>found.
       case found of
         None \<Rightarrow> fail en msg_link_expired k404NotFound
       | Some row \<Rightarrow>
           bindE (col_string row 4) (\<lambda>shareType.
           bindE (col_or row 8 []) (\<lambda>dbExtractCode.
           bindE (col_or row 9 []) (\<lambda>serverFilename.
           bindE (col_or row 10 []) (\<lambda>originalFilename.
           bindE (bindE (col row 11) (\<lambda>v. case v of None \<Rightarrow> ret 0 | Some t \<Rightarrow> stoull (c_str t))) (\<lambda>fileSize.
           bindE (col_or row 7 []) (\<lambda>createdAt.
           bindE (col_or row 6 []) (\<lambda>expireTime.
           if shareType = ''protected'' \<and> (extractCode = [] \<or> extractCode \<noteq> dbExtractCode)
           then fail en msg_extract k403Forbidden
           else
             bindE (col_int (en_freed en row) 0) (\<lambda>i.
             bindE (col_or (en_freed en row) 11 ''unknown'') (\<lambda>fileType.
             reply_json en (jobj [(''code'', JInt 0), (''message'', JStr ''success''), (''shareType'', JStr shareType),
               (''file'', jobj [(''id'', JInt i), (''name'', JStr serverFilename), (''originalName'', JStr originalFilename),
                  (''size'', JInt (int fileSize)), (''type'', JStr fileType), (''shareTime'', JStr createdAt),
                  (''expireTime'', JStr expireTime)])]))))))))))))))"

end
