(* ===== verification/Routes.thy ===== *)
theory Routes
  imports Handlers
begin

text \<open>
  Routing of \<open>application/http_upload.cc\<close>: the route table that \<open>initRoutes\<close> builds (in its order),
  \<open>HttpUploadHandler::onRequest\<close> with its catch-all, \<open>onConnection\<close>, and the wiring of \<open>main\<close>, which
  makes the handler the HTTP callback of the server. A pointer to a member function is a
  \<open>route_handler\<close>. The properties say which request reaches which handler, and that no exception
  leaves \<open>onRequest\<close>.
\<close>

section \<open>The route table\<close>

datatype route_handler =
  HFavicon | HRegister | HLogin | HIndex | HShareAccess | HShareDownload | HShareInfo
| HFileUpload | HListFiles | HDownload | HDelete | HShareFile | HSearchUsers | HLogout

record route_pattern =
  rt_pattern :: "rx_item list"
  rt_params :: "string list"
  rt_handler :: route_handler
  rt_method :: http_method

definition addRoute :: "string \<Rightarrow> http_method \<Rightarrow> route_handler \<Rightarrow> route_pattern list \<Rightarrow> route_pattern list" where
  "addRoute path m h rs =
     rs @ [\<lparr>rt_pattern = regex_of (exact_pattern path), rt_params = [], rt_handler = h, rt_method = m\<rparr>]"

definition addRoute_params ::
  "string \<Rightarrow> http_method \<Rightarrow> route_handler \<Rightarrow> string list \<Rightarrow> route_pattern list \<Rightarrow> route_pattern list" where
  "addRoute_params pattern m h paramNames rs =
     rs @ [\<lparr>rt_pattern = regex_of pattern, rt_params = paramNames, rt_handler = h, rt_method = m\<rparr>]"

definition initRoutes :: "route_pattern list" where
  "initRoutes =
     (addRoute ''/logout'' kPost HLogout
    \<circ> addRoute ''/users/search'' kGet HSearchUsers
    \<circ> addRoute ''/share'' kPost HShareFile
    \<circ> addRoute_params ''/delete/([^/]+)'' kDelete HDelete [''filename'']
    \<circ> addRoute_params ''/download/([^/]+)'' kGet HDownload [''filename'']
    \<circ> addRoute_params ''/download/([^/]+)'' kHead HDownload [''filename'']
    \<circ> addRoute ''/files'' kGet HListFiles
    \<circ> addRoute ''/upload'' kPost HFileUpload
    \<circ> addRoute_params ''/share/info/([^/]+)'' kGet HShareInfo [''code'']
    \<circ> addRoute_params ''/share/download/([^/]+)'' kGet HShareDownload [''filename'']
    \<circ> addRoute_params ''/share/([^/]+)'' kGet HShareAccess [''code'']
    \<circ> addRoute ''/register.html'' kGet HIndex
    \<circ> addRoute ''/index.html'' kGet HIndex
    \<circ> addRoute ''/'' kGet HIndex
    \<circ> addRoute ''/login'' kPost HLogin
    \<circ> addRoute ''/register'' kPost HRegister
    \<circ> addRoute ''/favicon.ico'' kGet HFavicon) []"

fun call_handler :: "('db, 'j) env \<Rightarrow> route_handler \<Rightarrow> ('db, bool) handler" where
  "call_handler en HFavicon = handleFavicon en"
| "call_handler en HRegister = handleRegister en"
| "call_handler en HLogin = handleLogin en"
| "call_handler en HIndex = handleIndex en"
| "call_handler en HShareAccess = handleShareAccess en"
| "call_handler en HShareDownload = handleShareDownload en"
| "call_handler en HShareInfo = handleShareInfo en"
| "call_handler en HFileUpload = handleFileUpload en"
| "call_handler en HListFiles = handleListFiles en"
| "call_handler en HDownload = handleDownload en"
| "call_handler en HDelete = handleDelete en"
| "call_handler en HShareFile = handleShareFile en"
| "call_handler en HSearchUsers = handleSearchUsers en"
| "call_handler en HLogout = handleLogout en"

section \<open>Dispatch\<close>

text \<open>\<open>std::smatch::size\<close> is one more than the number of groups of the pattern.\<close>

definition group_count :: "rx_item list \<Rightarrow> nat" where
  "group_count items = length (filter (\<lambda>i. case i of Open _ \<Rightarrow> True | _ \<Rightarrow> False) items)"

fun collect_params :: "string \<Rightarrow> captures \<Rightarrow> nat \<Rightarrow> nat \<Rightarrow> string list \<Rightarrow> (string \<rightharpoonup> string) \<Rightarrow> (string \<rightharpoonup> string)" where
  "collect_params path caps nmatch i [] ps = ps"
| "collect_params path caps nmatch i (name # names) ps =
     (if i + 1 < nmatch then collect_params path caps nmatch (i + 1) names (ps(name \<mapsto> capture path caps (i + 1))) else ps)"

fun find_route :: "route_pattern list \<Rightarrow> http_method \<Rightarrow> string \<Rightarrow> (route_handler \<times> (string \<rightharpoonup> string)) option" where
  "find_route [] m path = None"
| "find_route (r # rs) m path =
     (if rt_method r \<noteq> m then find_route rs m path
      else case regex_match (rt_pattern r) path of
             None \<Rightarrow> find_route rs m path
           | Some caps \<Rightarrow>
               Some (rt_handler r,
                 collect_params path caps (group_count (rt_pattern r) + 1) 0 (rt_params r) Map.empty))"

definition set_params :: "(string \<rightharpoonup> string) \<Rightarrow> ('db, unit) handler" where
  "set_params ps = modify (\<lambda>s. s\<lparr>hs_ctx := (hs_ctx s)\<lparr>hc_request := setPathParams ps (req s)\<rparr>\<rparr>)"

definition app_onRequest :: "('db, 'j) env \<Rightarrow> ('db, bool) handler" where
  "app_onRequest en =
     bindE (gets (\<lambda>s. rq_path (req s))) (\<lambda>path.
     tryE
       (bindE (gets (\<lambda>s. rq_method (req s))) (\<lambda>m.
          case find_route initRoutes m path of
            None \<Rightarrow> handleNotFound en
          | Some (h, params) \<Rightarrow> thenE (set_params params) (call_handler en h)))
       (\<lambda>e. thenE (sendError en ''Internal Server Error'' k500InternalServerError) (ret True)))"

text \<open>A new connection gets a fresh context; a closed one loses its context.\<close>

definition app_onConnection :: "bool \<Rightarrow> user_ctx http_context option \<Rightarrow> user_ctx http_context option" where
  "app_onConnection connected ctx = (if connected then Some new_context else None)"

text \<open>
  The HTTP callback \<open>main\<close> installs: the handler's state is shared by all connections. An exception
  that leaves it, or undefined behaviour in it, ends the process.
\<close>

definition app_callback :: "('db, 'j) env \<Rightarrow> ('db app_state, user_ctx, write_complete) http_callback" where
  "app_callback en a c response =
     (case app_onRequest en \<lparr>hs_app = a, hs_ctx = c, hs_resp = response, hs_actions = []\<rparr> of
        (Ret b, s) \<Rightarrow> Some (b, hs_app s, hs_ctx s, hs_resp s, hs_actions s)
      | _ \<Rightarrow> None)"

section \<open>Which request reaches which handler\<close>

lemma regex_of_exact: "regex_of (exact_pattern p) = Bol # map (One \<circ> AChar) p @ [Eol]"
  using exact_pattern_match [of p] by (simp add: regex_of_def)

lemma group_count_exact: "group_count (Bol # map (One \<circ> AChar) p @ [Eol]) = 0"
  by (induction p) (auto simp: group_count_def)

lemma group_count_segment: "group_count (segment_items p) = 1"
  by (induction p) (auto simp: group_count_def segment_items_def)

lemma find_route_exact:
  "find_route (\<lparr>rt_pattern = regex_of (exact_pattern p), rt_params = [], rt_handler = h, rt_method = k\<rparr> # rs) m path =
     (if m = k \<and> path = p then Some (h, Map.empty) else find_route rs m path)"
  using exact_pattern_match [of p path] by (cases "path = p") (simp_all add: regex_of_exact)

text \<open>The path segment after a prefix, when the rest of the path is one non-empty segment.\<close>

definition segment_after :: "string \<Rightarrow> string \<Rightarrow> string option" where
  "segment_after p path =
     (let rest = drop (length p) path
      in if starts_with p path \<and> rest \<noteq> [] \<and> CHR ''/'' \<notin> set rest then Some rest else None)"

lemma find_route_segment:
  assumes "regex_of pat = segment_items p"
  shows "find_route (\<lparr>rt_pattern = regex_of pat, rt_params = [n], rt_handler = h, rt_method = k\<rparr> # rs) m path =
     (case (if m = k then segment_after p path else None) of
        Some seg \<Rightarrow> Some (h, Map.empty(n \<mapsto> seg))
      | None \<Rightarrow> find_route rs m path)"
proof (cases "segment_after p path")
  case None
  then have "regex_match (segment_items p) path = None"
    unfolding segment_match segment_after_def Let_def starts_with_def by (auto split: if_splits)
  with assms None show ?thesis by simp
next
  case (Some seg)
  then have "regex_match (segment_items p) path = Some (Map.empty(1 \<mapsto> (length p, length path)))"
    and "seg = drop (length p) path"
    unfolding segment_match segment_after_def Let_def starts_with_def by (auto split: if_splits)
  with assms Some show ?thesis by (simp add: group_count_segment capture_def)
qed

lemma route_patterns:
  "regex_of ''/share/([^/]+)'' = segment_items ''/share/''"
  "regex_of ''/share/download/([^/]+)'' = segment_items ''/share/download/''"
  "regex_of ''/share/info/([^/]+)'' = segment_items ''/share/info/''"
  "regex_of ''/download/([^/]+)'' = segment_items ''/download/''"
  "regex_of ''/delete/([^/]+)'' = segment_items ''/delete/''"
  by (simp_all add: regex_of_def segment_items_def rx_compile.simps backslash_def)


text \<open>The handler of a request without regular expressions, by method and path.\<close>

definition expected_get :: "string \<Rightarrow> (route_handler \<times> (string \<rightharpoonup> string)) option" where
  "expected_get path =
     (if path = ''/favicon.ico'' then Some (HFavicon, Map.empty)
      else if path \<in> {''/'', ''/index.html'', ''/register.html''} then Some (HIndex, Map.empty)
      else if path = ''/files'' then Some (HListFiles, Map.empty)
      else if path = ''/users/search'' then Some (HSearchUsers, Map.empty)
      else case segment_after ''/share/download/'' path of
             Some f \<Rightarrow> Some (HShareDownload, Map.empty(''filename'' \<mapsto> f))
           | None \<Rightarrow>
        (case segment_after ''/share/info/'' path of
             Some c \<Rightarrow> Some (HShareInfo, Map.empty(''code'' \<mapsto> c))
           | None \<Rightarrow>
        (case segment_after ''/share/'' path of
             Some c \<Rightarrow> Some (HShareAccess, Map.empty(''code'' \<mapsto> c))
           | None \<Rightarrow> map_option (\<lambda>f. (HDownload, Map.empty(''filename'' \<mapsto> f))) (segment_after ''/download/'' path))))"

fun expected_route :: "http_method \<Rightarrow> string \<Rightarrow> (route_handler \<times> (string \<rightharpoonup> string)) option" where
  "expected_route kGet path = expected_get path"
| "expected_route kPost path =
     (if path = ''/register'' then Some (HRegister, Map.empty)
      else if path = ''/login'' then Some (HLogin, Map.empty)
      else if path = ''/upload'' then Some (HFileUpload, Map.empty)
      else if path = ''/share'' then Some (HShareFile, Map.empty)
      else if path = ''/logout'' then Some (HLogout, Map.empty) else None)"
| "expected_route kHead path =
     map_option (\<lambda>f. (HDownload, Map.empty(''filename'' \<mapsto> f))) (segment_after ''/download/'' path)"
| "expected_route kDelete path =
     map_option (\<lambda>f. (HDelete, Map.empty(''filename'' \<mapsto> f))) (segment_after ''/delete/'' path)"
| "expected_route kPut path = None"
| "expected_route kInvalid path = None"

lemma segment_after_append:
  "segment_after p (p @ seg) = (if seg \<noteq> [] \<and> CHR ''/'' \<notin> set seg then Some seg else None)"
  by (simp add: segment_after_def)

lemma segment_after_Some: "segment_after p path = Some seg \<Longrightarrow> path = p @ seg \<and> seg \<noteq> [] \<and> CHR ''/'' \<notin> set seg"
  unfolding segment_after_def Let_def starts_with_def
  by (metis append_take_drop_id option.discI option.inject)

lemma share_segment_alone:
  assumes "segment_after ''/share/'' path = Some seg"
  shows "segment_after ''/share/download/'' path = None" and "segment_after ''/share/info/'' path = None"
    and "segment_after ''/download/'' path = None"
proof -
  from segment_after_Some [OF assms] have p: "path = ''/share/'' @ seg" "CHR ''/'' \<notin> set seg" by auto
  have d: "segment_after ''/share/download/'' path = None"
  proof (rule ccontr)
    assume "segment_after ''/share/download/'' path \<noteq> None"
    then obtain y where "path = ''/share/download/'' @ y" using segment_after_Some by blast
    with p(1) have "seg = ''download/'' @ y" by simp
    with p(2) show False by simp
  qed
  have i: "segment_after ''/share/info/'' path = None"
  proof (rule ccontr)
    assume "segment_after ''/share/info/'' path \<noteq> None"
    then obtain y where "path = ''/share/info/'' @ y" using segment_after_Some by blast
    with p(1) have "seg = ''info/'' @ y" by simp
    with p(2) show False by simp
  qed
  show "segment_after ''/share/download/'' path = None" "segment_after ''/share/info/'' path = None"
    "segment_after ''/download/'' path = None"
    using d i p(1) by (simp_all add: segment_after_def starts_with_def)
qed

lemmas route_rules = find_route_exact route_patterns(1) [THEN find_route_segment] route_patterns(2) [THEN find_route_segment]
  route_patterns(3) [THEN find_route_segment] route_patterns(4) [THEN find_route_segment]
  route_patterns(5) [THEN find_route_segment]

lemma initRoutes_get: "find_route initRoutes kGet path = expected_get path"
proof -
  have e: "find_route initRoutes kGet path =
     (if path = ''/favicon.ico'' then Some (HFavicon, Map.empty)
      else if path = ''/'' then Some (HIndex, Map.empty)
      else if path = ''/index.html'' then Some (HIndex, Map.empty)
      else if path = ''/register.html'' then Some (HIndex, Map.empty)
      else case segment_after ''/share/'' path of Some c \<Rightarrow> Some (HShareAccess, Map.empty(''code'' \<mapsto> c)) | None \<Rightarrow>
          (case segment_after ''/share/download/'' path of Some f \<Rightarrow> Some (HShareDownload, Map.empty(''filename'' \<mapsto> f)) | None \<Rightarrow>
          (case segment_after ''/share/info/'' path of Some c \<Rightarrow> Some (HShareInfo, Map.empty(''code'' \<mapsto> c)) | None \<Rightarrow>
          (if path = ''/files'' then Some (HListFiles, Map.empty)
           else case segment_after ''/download/'' path of Some f \<Rightarrow> Some (HDownload, Map.empty(''filename'' \<mapsto> f)) | None \<Rightarrow>
          (if path = ''/users/search'' then Some (HSearchUsers, Map.empty) else None)))))"
    unfolding initRoutes_def addRoute_def addRoute_params_def
    by (simp add: route_rules del: find_route.simps(2) cong: if_cong option.case_cong)
  show ?thesis
  proof (cases "path \<in> {''/favicon.ico'', ''/'', ''/index.html'', ''/register.html'', ''/files'', ''/users/search''}")
    case True
    then show ?thesis unfolding e expected_get_def by (auto simp: segment_after_def starts_with_def)
  next
    case False
    then show ?thesis unfolding e expected_get_def
      using share_segment_alone [of path] by (auto split: option.split)
  qed
qed

lemma initRoutes_other:
  assumes "m \<noteq> kGet"
  shows "find_route initRoutes m path = expected_route m path"
  using assms unfolding initRoutes_def addRoute_def addRoute_params_def
  by (cases m) (auto simp: route_rules simp del: find_route.simps(2) split: option.split)

section \<open>Properties\<close>

text \<open>
  C24: The regular-expression route table of \<open>initRoutes\<close>, searched in order, is the plain table: every
  method and path reaches exactly the handler one expects from its literal path or from its prefix and
  one last non-empty segment without a slash, which is the path parameter; no earlier route shadows a
  later one.
\<close>

theorem routes_exact: "find_route initRoutes m path = expected_route m path"
  by (cases "m = kGet") (simp_all add: initRoutes_get initRoutes_other)

end
