(* ===== verification/Download.thy ===== *)
theory Download
  imports FileTransfer
begin

text \<open>
  What a served file puts on the wire: the parsing of \<open>Range\<close> headers, the response \<open>serve_file\<close>
  builds, and the stream that the write-complete callback sends chunk by chunk until the file ends.
\<close>

section \<open>The stream\<close>

text \<open>
  The write-complete callback, run each time the previous chunk has left, until it shuts the connection
  down: the chunks it sends, what the last call does in place of sending a chunk, and the final state;
  nothing when the fuel is too small.
\<close>

fun drain_stream :: "nat \<Rightarrow> nat \<Rightarrow> 'db app_state \<Rightarrow> (bytes list \<times> write_complete action list \<times> 'db app_state) option" where
  "drain_stream 0 p a = None"
| "drain_stream (Suc n) p a =
     (case run_write_complete (StreamFile p) a of
        (a', [Send chunk]) \<Rightarrow> map_option (\<lambda>(cs, as, a''). (chunk # cs, as, a'')) (drain_stream n p a')
      | (a', as) \<Rightarrow> Some ([], as, a'))"

text \<open>An open download: within its file, whose size fits a \<open>size_t\<close>.\<close>

definition down_inv :: "down_ctx \<Rightarrow> bool" where
  "down_inv d \<longleftrightarrow> dc_fileSize d = length (dc_data d) \<and> dc_currentPosition d \<le> length (dc_data d)
     \<and> length (dc_data d) < size_bound"

lemma size_t_diff: "b \<le> a \<Longrightarrow> a < size_bound \<Longrightarrow> size_t (int a - int b) = a - b"
  unfolding size_t_def by (simp add: mod_pos_pos_trivial flip: of_nat_diff)

lemma down_remaining:
  "down_inv d \<Longrightarrow> size_t (int (dc_fileSize d) - int (dc_currentPosition d)) = length (dc_data d) - dc_currentPosition d"
  by (simp add: down_inv_def size_t_diff)

lemma readNextChunk_step:
  assumes "down_inv d" and "\<not> dc_isComplete d" and "dc_currentPosition d < length (dc_data d)"
  shows "readNextChunk d = (Some (take down_chunk_size (drop (dc_currentPosition d) (dc_data d))),
      d\<lparr>dc_currentPosition := min (dc_currentPosition d + down_chunk_size) (length (dc_data d))\<rparr>)"
  using assms down_remaining [OF assms(1)]
  by (simp add: readNextChunk_def Let_def down_chunk_size_def min_def take_all)

lemma readNextChunk_end:
  assumes "down_inv d" and "dc_isComplete d \<or> dc_currentPosition d = length (dc_data d)"
  shows "fst (readNextChunk d) = None"
  using assms down_remaining [OF assms(1)] by (auto simp: readNextChunk_def Let_def down_chunk_size_def)

lemma drain_stream_run:
  assumes "p < length (ap_downs a)" and "down_inv (ap_downs a ! p)" and "\<not> dc_isComplete (ap_downs a ! p)"
    and "length (dc_data (ap_downs a ! p)) - dc_currentPosition (ap_downs a ! p) \<le> n * down_chunk_size"
  shows "\<exists>chunks a'. drain_stream (Suc n) p a = Some (chunks, [Shutdown], a')
    \<and> concat chunks = drop (dc_currentPosition (ap_downs a ! p)) (dc_data (ap_downs a ! p))
    \<and> (\<forall>c \<in> set chunks. c \<noteq> [] \<and> length c \<le> down_chunk_size)"
  using assms
proof (induction n arbitrary: a)
  case 0
  then have "dc_currentPosition (ap_downs a ! p) = length (dc_data (ap_downs a ! p))"
    by (simp add: down_inv_def)
  with readNextChunk_end [OF 0(2)] show ?case
    by (auto simp: run_write_complete_def split: prod.split option.split)
next
  case (Suc n)
  let ?d = "ap_downs a ! p"
  show ?case
  proof (cases "dc_currentPosition ?d < length (dc_data ?d)")
    case False
    with Suc.prems(2) have "dc_currentPosition ?d = length (dc_data ?d)" by (simp add: down_inv_def)
    with readNextChunk_end [OF Suc.prems(2)] show ?thesis
      by (auto simp: run_write_complete_def split: prod.split option.split)
  next
    case True
    let ?pos = "dc_currentPosition ?d" and ?c = "take down_chunk_size (drop (dc_currentPosition ?d) (dc_data ?d))"
    let ?d' = "?d\<lparr>dc_currentPosition := min (?pos + down_chunk_size) (length (dc_data ?d))\<rparr>"
    let ?a' = "a\<lparr>ap_downs := (ap_downs a)[p := ?d']\<rparr>"
    have step: "run_write_complete (StreamFile p) a = (?a', [Send ?c])"
      using readNextChunk_step [OF Suc.prems(2,3) True] by (simp add: run_write_complete_def)
    have "down_inv ?d'" using Suc.prems(2) by (simp add: down_inv_def)
    moreover have "length (dc_data ?d) - min (?pos + down_chunk_size) (length (dc_data ?d)) \<le> n * down_chunk_size"
      using Suc.prems(4) by (simp add: min_def) arith
    ultimately obtain chunks a'' where IH: "drain_stream (Suc n) p ?a' = Some (chunks, [Shutdown], a'')"
      "concat chunks = drop (dc_currentPosition ?d') (dc_data ?d)"
      "\<forall>c \<in> set chunks. c \<noteq> [] \<and> length c \<le> down_chunk_size"
      using Suc.IH [of ?a'] Suc.prems by auto
    have "?c @ drop (dc_currentPosition ?d') (dc_data ?d) = drop ?pos (dc_data ?d)"
      by (simp add: min_def add.commute flip: drop_drop)
    moreover have "?c \<noteq> [] \<and> length ?c \<le> down_chunk_size" using True by (simp add: down_chunk_size_def)
    ultimately show ?thesis using step IH
      by (intro exI [of _ "?c # chunks"] exI [of _ a'']) (simp del: drain_stream.simps(2) add: drain_stream.simps(2) [of "Suc n"])
  qed
qed

section \<open>Range headers\<close>

definition range_items :: "rx_item list" where
  "range_items = map (One \<circ> AChar) ''bytes='' @
     [Open 1, Many1 ADigit, Close 1, One (AChar CHR ''-''), Open 2, Many ADigit, Close 2]"

lemma range_pattern_items: "regex_of range_pattern = range_items"
  by (simp add: regex_of_def range_pattern_def range_items_def rx_compile.simps backslash_def)

lemma rx_first_greedy:
  assumes "\<And>k. k \<in> set (rev [m..<n]) \<Longrightarrow> f k = []" and "m \<le> n"
  shows "concat (map f (rev [m..<Suc n])) = f n"
  using assms by (simp add: concat_eq_Nil_conv [THEN iffD2])

lemma two_numbers_run:
  assumes "list_all is_digit as" and "as \<noteq> []" and "list_all is_digit bs"
  shows "\<exists>rest. rx_run (p @ as @ CHR ''-'' # bs)
       (map (One \<circ> AChar) p @ [Open 1, Many1 ADigit, Close 1, One (AChar CHR ''-''), Open 2, Many ADigit, Close 2]) 0 Map.empty =
     (length p + length as + 1 + length bs,
      Map.empty(1 \<mapsto> (length p, length p + length as),
        2 \<mapsto> (length p + length as + 1, length p + length as + 1 + length bs))) # rest"
proof -
  let ?s = "p @ as @ CHR ''-'' # bs"
  have ok: "atom_ok ADigit = is_digit" by auto
  have nd: "\<not> is_digit (CHR ''-'')" by (simp add: is_digit_def)
  have ta: "takeWhile is_digit (as @ CHR ''-'' # bs) = as" using assms(1) nd by (simp add: takeWhile_append2 list_all_iff)
  have tb: "takeWhile is_digit bs = bs" using assms(3) by (simp add: takeWhile_eq_all_conv list_all_iff)
  let ?tail = "[Close 1, One (AChar CHR ''-''), Open 2, Many ADigit, Close 2]"
  let ?f = "\<lambda>k. rx_run ?s ?tail (length p + k) (Map.empty(1 \<mapsto> (length p, length p)))"
  have run: "rx_run ?s (map (One \<circ> AChar) p @ Open 1 # Many1 ADigit # ?tail) 0 Map.empty
      = concat (map ?f (rev [1..<Suc (length as)]))"
    using rx_run_literal [of ?s p "Open 1 # Many1 ADigit # ?tail" 0 Map.empty] ta
    by (simp add: ok del: rx_run.simps(2,3,6) upt_Suc)
  have none: "?f k = []" if "k \<in> set (rev [1..<length as])" for k
  proof -
    have "?s ! (length p + k) = as ! k" "is_digit (as ! k)"
      using that assms(1) by (simp_all add: nth_append list_all_length)
    with nd have "?s ! (length p + k) \<noteq> CHR ''-''" by metis
    then show ?thesis by simp
  qed
  have "concat (map ?f (rev [1..<Suc (length as)])) = ?f (length as)"
    using assms(2) by (intro rx_first_greedy none) (auto simp: Suc_leI)
  moreover have "drop (Suc (length p + length as)) ?s = bs" by simp
  ultimately show ?thesis using run tb by (simp add: ok nth_append)
qed

text \<open>A search that succeeds at the first position is the run there.\<close>

lemma regex_search_at_start:
  assumes "rx_run s items 0 Map.empty = (j, caps) # rest"
  shows "regex_search items s = Some caps"
  unfolding regex_search_def by (subst upt_conv_Cons) (simp_all add: assms first_of_def)

lemma two_numbers_search:
  assumes "list_all is_digit as" and "as \<noteq> []" and "list_all is_digit bs"
  shows "\<exists>caps. regex_search
       (map (One \<circ> AChar) p @ [Open 1, Many1 ADigit, Close 1, One (AChar CHR ''-''), Open 2, Many ADigit, Close 2])
       (p @ as @ CHR ''-'' # bs) = Some caps
     \<and> capture (p @ as @ CHR ''-'' # bs) caps 1 = as \<and> capture (p @ as @ CHR ''-'' # bs) caps 2 = bs"
proof -
  from two_numbers_run [OF assms, of p] obtain rest where r: "rx_run (p @ as @ CHR ''-'' # bs)
       (map (One \<circ> AChar) p @ [Open 1, Many1 ADigit, Close 1, One (AChar CHR ''-''), Open 2, Many ADigit, Close 2]) 0 Map.empty =
     (length p + length as + 1 + length bs,
      Map.empty(1 \<mapsto> (length p, length p + length as),
        2 \<mapsto> (length p + length as + 1, length p + length as + 1 + length bs))) # rest" ..
  show ?thesis unfolding regex_search_at_start [OF r] by (simp add: capture_def)
qed

definition range_header :: "nat \<Rightarrow> nat option \<Rightarrow> string" where
  "range_header a e = ''bytes='' @ show_nat a @ CHR ''-'' # (case e of Some b \<Rightarrow> show_nat b | None \<Rightarrow> [])"

lemma range_search:
  "\<exists>caps. regex_search (regex_of range_pattern) (range_header a e) = Some caps
     \<and> capture (range_header a e) caps 1 = show_nat a
     \<and> capture (range_header a e) caps 2 = (case e of Some b \<Rightarrow> show_nat b | None \<Rightarrow> [])"
  unfolding range_header_def range_pattern_items range_items_def
  by (rule two_numbers_search) (simp_all add: show_nat_digits split: option.split)

lemma signed_digits_show: "signed_digits (show_nat n) = (False, show_nat n)"
proof -
  obtain c cs where c: "show_nat n = c # cs" by (cases "show_nat n") auto
  with show_nat_digits [of n] have d: "is_digit c" "list_all is_digit cs" by simp_all
  then have "\<not> is_space c" "c \<noteq> CHR ''-''" "c \<noteq> CHR ''+''" by (auto simp: is_digit_def is_space_def)
  moreover have "takeWhile is_digit cs = cs" using d(2) by (simp add: takeWhile_eq_all_conv list_all_iff)
  ultimately show ?thesis using d c by (simp add: signed_digits_def)
qed

lemma stoull_show: "n < size_bound \<Longrightarrow> stoull (show_nat n) = ret n"
  by (simp add: stoull_def signed_digits_show Let_def)

section \<open>The response\<close>

definition down_resp :: "string \<Rightarrow> nat \<Rightarrow> nat \<Rightarrow> nat \<Rightarrow> bool \<Rightarrow> http_response \<Rightarrow> http_response" where
  "down_resp orig fileSize startPos endPos isRange r =
     addResponseHeader ''Connection'' ''keep-alive'' (addResponseHeader ''Accept-Ranges'' ''bytes''
       (addResponseHeader ''Content-Disposition'' (''attachment; filename='' @ [quote_char] @ orig @ [quote_char])
         (setContentType ''application/octet-stream''
           (if isRange
            then addResponseHeader ''Content-Range'' (''bytes '' @ show_nat startPos @ ''-'' @ show_nat endPos @ ''/'' @ show_nat fileSize)
                   (setStatusMessage ''Partial Content'' (setStatusCode k206PartialContent r))
            else setStatusMessage ''OK'' (setStatusCode k200Ok r)))))"

lemma down_resp_fields:
  "rs_statusCode (down_resp orig n a e isRange r) = (if isRange then k206PartialContent else k200Ok)"
  "om_inv (rs_headers r) \<Longrightarrow> isRange \<Longrightarrow> om_get (rs_headers (down_resp orig n a e isRange r)) ''Content-Range'' =
     Some (''bytes '' @ show_nat a @ ''-'' @ show_nat e @ ''/'' @ show_nat n)"
  by (simp_all add: down_resp_def setStatusCode_def setStatusMessage_def setContentType_def addResponseHeader_def
      om.get_put om.inv_put)

definition opened :: "string \<Rightarrow> string \<Rightarrow> bytes \<Rightarrow> nat \<Rightarrow> down_ctx" where
  "opened filepath orig data pos = \<lparr>dc_filepath = filepath, dc_originalFilename = orig, dc_data = data,
     dc_fileSize = length data, dc_currentPosition = pos, dc_isComplete = False\<rparr>"

lemma start_download_run:
  assumes "ap_files (hs_app s) filepath = Some data" and "en_open_ok en filepath"
  shows "start_download en filepath orig (length data) startPos endPos isRange s =
    (Ret (length (ap_downs (hs_app s))),
     s\<lparr>hs_app := (hs_app s)\<lparr>ap_downs := ap_downs (hs_app s) @ [opened filepath orig data startPos]\<rparr>,
       hs_ctx := (hs_ctx s)\<lparr>hc_custom := Some (Down (length (ap_downs (hs_app s))))\<rparr>,
       hs_resp := down_resp orig (length data) startPos endPos isRange (hs_resp s)\<rparr>)"
  using assms
  by (simp add: start_download_def open_down_def bindE_gets bindE_Ret bindE_def thenE_def modify_def gets_def ret_def
      set_custom_def upd_app_def upd_resp_def seekTo_def opened_def down_resp_def)

text \<open>A \<open>GET\<close> of an existing file whose range can be satisfied.\<close>

lemma serve_file_run:
  assumes "ap_files (hs_app s) filepath = Some data" and "en_open_ok en filepath"
    and "rq_method (req s) \<noteq> kHead" and "hc_custom (hs_ctx s) = None"
    and "parse_range (getHeader (req s) ''Range'') (length data) s = (Ret (Some (startPos, endPos, isRange)), s)"
  shows "serve_file en filepath orig s =
    (Ret True,
     s\<lparr>hs_app := (hs_app s)\<lparr>ap_downs := ap_downs (hs_app s) @ [opened filepath orig data startPos]\<rparr>,
       hs_ctx := (hs_ctx s)\<lparr>hc_custom := Some (Down (length (ap_downs (hs_app s))))\<rparr>,
       hs_resp := down_resp orig (length data) startPos endPos isRange (hs_resp s),
       hs_actions := hs_actions s @ [SetWriteComplete (StreamFile (length (ap_downs (hs_app s))))]\<rparr>)"
  using assms(3,4) start_download_run [OF assms(1,2)]
  by (simp add: serve_file_def tryE_def Let_def bindE_gets assms(1,5) bindE_Ret setWriteCompleteCallback_def proc_run)

lemma parse_range_header:
  assumes "a < size_bound" and "fileSize < size_bound" and "\<forall>b \<in> set_option e. b < size_bound"
  shows "parse_range (range_header a e) fileSize =
     ret (if fileSize \<le> a then None
          else Some (a, min (case e of Some b \<Rightarrow> b | None \<Rightarrow> fileSize - 1) (fileSize - 1), True))"
proof -
  from range_search [of a e] obtain caps where
    c: "regex_search (regex_of range_pattern) (range_header a e) = Some caps"
      "capture (range_header a e) caps 1 = show_nat a"
      "capture (range_header a e) caps 2 = (case e of Some b \<Rightarrow> show_nat b | None \<Rightarrow> [])" by blast
  have n: "range_header a e \<noteq> []" by (simp add: range_header_def)
  have l: "fileSize > 0 \<Longrightarrow> size_t (int fileSize - 1) = fileSize - 1"
    using size_t_diff [of 1 fileSize] assms(2) by simp
  show ?thesis
    using assms(1,3) n l c
    by (cases e) (auto simp: parse_range_def Let_def stoull_show bindE_ret)
qed

section \<open>Properties\<close>

text \<open>
  Range requests are understood as RFC 7233 writes them. A header \<open>bytes=a-\<close> or \<open>bytes=a-b\<close> is
  refused exactly when the start lies at or past the end of the file, and otherwise asks for \<open>a\<close> up to
  \<open>b\<close>, cut at the last byte.
\<close>

lemma range_parsed:
  assumes "a < size_bound" and "fileSize < size_bound" and "\<forall>b \<in> set_option e. b < size_bound"
  shows "parse_range (range_header a e) fileSize =
     ret (if fileSize \<le> a then None
          else Some (a, min (case e of Some b \<Rightarrow> b | None \<Rightarrow> fileSize - 1) (fileSize - 1), True))"
  using assms by (rule parse_range_header)

lemma range_parsed_witness:
  "parse_range (range_header 2 (Some 90)) 10 = (ret (Some (2, 9, True)) :: (unit, _) proc)
   \<and> parse_range (range_header 10 None) 10 = (ret None :: (unit, _) proc)"
  using range_parsed [of 2 10 "Some 90", where ?'a = unit] range_parsed [of 10 10 None, where ?'a = unit]
  by (simp add: size_bound_def)

text \<open>
  C8: A file that is served arrives. When the file exists, is smaller than \<open>2^64\<close> bytes and can be opened, its range can
  be satisfied, the request is not a \<open>HEAD\<close>, the response's header table is ordered and the connection has no upload or download in progress, \<open>serve_file\<close> answers 200 (206 for a range request, with the \<open>Content-Range\<close> of the request) and
  installs a write-complete callback whose chunks, each of 1 to 1048576 bytes, are together exactly the
  file from the start position on to its end, and whose next call shuts the connection down and sends nothing more; one call per
  started mebibyte and one more are enough. The end of the range in \<open>Content-Range\<close> does not limit
  what is sent.
\<close>

theorem served_file_arrives:
  assumes "ap_files (hs_app s) filepath = Some data" and "length data < size_bound" and "en_open_ok en filepath"
    and "rq_method (req s) \<noteq> kHead" and "hc_custom (hs_ctx s) = None"
    and "parse_range (getHeader (req s) ''Range'') (length data) s = (Ret (Some (startPos, endPos, isRange)), s)"
    and "startPos \<le> length data" and "om_inv (rs_headers (hs_resp s))"
  shows "\<exists>s' p chunks a'. serve_file en filepath orig s = (Ret True, s')
    \<and> hs_actions s' = hs_actions s @ [SetWriteComplete (StreamFile p)]
    \<and> rs_statusCode (hs_resp s') = (if isRange then k206PartialContent else k200Ok)
    \<and> (isRange \<longrightarrow> om_get (rs_headers (hs_resp s')) ''Content-Range'' =
        Some (''bytes '' @ show_nat startPos @ ''-'' @ show_nat endPos @ ''/'' @ show_nat (length data)))
    \<and> drain_stream ((length data - startPos) div down_chunk_size + 2) p (hs_app s') = Some (chunks, [Shutdown], a')
    \<and> concat chunks = drop startPos data
    \<and> (\<forall>c \<in> set chunks. c \<noteq> [] \<and> length c \<le> down_chunk_size)"
proof -
  let ?p = "length (ap_downs (hs_app s))" and ?n = "(length data - startPos) div down_chunk_size"
  let ?a = "(hs_app s)\<lparr>ap_downs := ap_downs (hs_app s) @ [opened filepath orig data startPos]\<rparr>"
  have "length data - startPos \<le> Suc ?n * down_chunk_size"
    using dividend_less_div_times [of down_chunk_size "length data - startPos"] by (simp add: down_chunk_size_def)
  then obtain chunks a' where c: "drain_stream (Suc (Suc ?n)) ?p ?a = Some (chunks, [Shutdown], a')"
    "concat chunks = drop startPos data" "\<forall>c \<in> set chunks. c \<noteq> [] \<and> length c \<le> down_chunk_size"
    using drain_stream_run [of ?p ?a "Suc ?n"] assms(2,7) by (auto simp: nth_append down_inv_def opened_def)
  have two: "?n + 2 = Suc (Suc ?n)" by simp
  obtain s' where "serve_file en filepath orig s = (Ret True, s')" "hs_app s' = ?a"
    "hs_resp s' = down_resp orig (length data) startPos endPos isRange (hs_resp s)"
    "hs_actions s' = hs_actions s @ [SetWriteComplete (StreamFile ?p)]"
    using serve_file_run [OF assms(1,3-6)] by simp
  with c assms(8) show ?thesis unfolding two
    by (intro exI [of _ s'] exI [of _ ?p] exI [of _ chunks] exI [of _ a'])
       (simp add: down_resp_fields del: drain_stream.simps)
qed

text \<open>A range request for the first two bytes of a file of four: all four bytes are sent.\<close>

theorem served_file_arrives_witness:
  "\<exists>s' p chunks a'. serve_file (table_env []) ''uploads/f'' ''x''
      (start_state [] [(''uploads/f'', ''data'')] (simple_request kGet ''/download/f'' [(''Range'', ''bytes=0-1'')])) = (Ret True, s')
    \<and> rs_statusCode (hs_resp s') = k206PartialContent
    \<and> om_get (rs_headers (hs_resp s')) ''Content-Range'' = Some (''bytes 0-1/4'')
    \<and> drain_stream 2 p (hs_app s') = Some (chunks, [Shutdown], a') \<and> concat chunks = ''data''"
proof -
  let ?s = "start_state [] [(''uploads/f'', ''data'')] (simple_request kGet ''/download/f'' [(''Range'', ''bytes=0-1'')])"
  have one: "show_nat 0 = ''0''" "show_nat 1 = ''1''" "show_nat 4 = ''4''" by code_simp+
  have "getHeader (req ?s) ''Range'' = range_header 0 (Some 1)"
    by (simp add: start_state_def simple_request_def getHeader_def range_header_def one del: One_nat_def)
  then have "parse_range (getHeader (req ?s) ''Range'') (length ''data'') ?s = (Ret (Some (0, 1, True)), ?s)"
    using parse_range_header [of 0 "length ''data''" "Some 1", where ?'a = "table_db hstate"]
    by (simp add: size_bound_def ret_def)
  note r = this
  have h: "ap_files (hs_app ?s) ''uploads/f'' = Some ''data''" "rq_method (req ?s) \<noteq> kHead" "hc_custom (hs_ctx ?s) = None"
    "om_inv (rs_headers (hs_resp ?s))" "length ''data'' < size_bound" "en_open_ok (table_env []) ''uploads/f''"
    by (simp_all add: start_state_def simple_request_def new_context_def new_response_def size_bound_def table_env_def)
  have t: "(length ''data'' - 0) div down_chunk_size + 2 = 2" by (simp add: down_chunk_size_def)
  have cr: "''bytes '' @ show_nat 0 @ ''-'' @ show_nat 1 @ ''/'' @ show_nat (length ''data'') = ''bytes 0-1/4''" by code_simp
  from served_file_arrives [OF h(1,5,6,2,3) r _ h(4), of "''x''", unfolded t cr] show ?thesis
    by (auto simp del: drain_stream.simps numeral_2_eq_2)
qed

end
