(* ===== verification/Access.thy ===== *)
theory Access
  imports Routes Download
begin

text \<open>
  Access control of the file server, over \<open>HttpUploadHandler::onRequest\<close> and the handlers it calls:
  exceptions stay inside, protected routes without a valid session do nothing, a download starts only
  with permission, a file is deleted only for its owner, and the links that sharing hands out lead back
  to the share.
\<close>

section \<open>Sessions\<close>

text \<open>The statement that looks a session up, and whether it finds nothing.\<close>

definition session_sql :: "('db, 'j) env \<Rightarrow> 'db \<Rightarrow> string \<Rightarrow> string" where
  "session_sql en db sid = c_str (session_query (c_str (en_escape en db sid)))"

definition no_session :: "('db, 'j) env \<Rightarrow> 'db app_state \<Rightarrow> string \<Rightarrow> bool" where
  "no_session en a sid \<longleftrightarrow>
     sid = [] \<or> (case ap_mysql a of None \<Rightarrow> True
                | Some db \<Rightarrow> fst (en_query en db (session_sql en db sid)) \<in> {None, Some []})"

text \<open>What looking the session up does to the application: at most that one statement is sent.\<close>

definition after_lookup :: "('db, 'j) env \<Rightarrow> string \<Rightarrow> 'db app_state \<Rightarrow> 'db app_state" where
  "after_lookup en sid a =
     (if sid = [] then a
      else case ap_mysql a of
             None \<Rightarrow> a
           | Some db \<Rightarrow> a\<lparr>ap_mysql := Some (snd (en_query en db (session_sql en db sid))),
                          ap_sql := ap_sql a @ [session_sql en db sid]\<rparr>)"

definition lookup_sql :: "('db, 'j) env \<Rightarrow> 'db app_state \<Rightarrow> string \<Rightarrow> string list" where
  "lookup_sql en a sid =
     (if sid = [] then [] else case ap_mysql a of None \<Rightarrow> [] | Some db \<Rightarrow> [session_sql en db sid])"

lemma ap_sql_after_lookup [simp]: "ap_sql (after_lookup en sid a) = ap_sql a @ lookup_sql en a sid"
  by (simp add: after_lookup_def lookup_sql_def split: option.split)

lemma validateSession_none:
  assumes "no_session en (hs_app s) sid"
  shows "validateSession en sid s = (Ret None, upd_app (after_lookup en sid) s)"
proof (cases "sid = []")
  case True
  then show ?thesis by (simp add: validateSession_def ret_Ret upd_app_def after_lookup_def)
next
  case False
  show ?thesis
  proof (cases "ap_mysql (hs_app s)")
    case None
    with False show ?thesis
      by (simp add: validateSession_def escapeString_def bindE_gets executeQueryWithResult_def bindE_Ret
          ret_Ret upd_app_def after_lookup_def)
  next
    case (Some db)
    obtain res db' where q: "en_query en db (session_sql en db sid) = (res, db')" by force
    with False Some assms have "res = None \<or> res = Some []" by (auto simp: no_session_def)
    moreover have "executeQueryWithResult en (session_query (c_str (en_escape en db sid))) s
        = (Ret res, upd_app (after_lookup en sid) s)"
      using Some q False by (simp add: executeQueryWithResult_def upd_app_def after_lookup_def session_sql_def)
    ultimately show ?thesis using False Some
      by (auto simp: validateSession_def escapeString_def bindE_gets bindE_Ret ret_Ret)
  qed
qed

lemma after_lookup_keeps [simp]:
  "ap_files (after_lookup en sid a) = ap_files a" "ap_mapping (after_lookup en sid a) = ap_mapping a"
  "ap_downs (after_lookup en sid a) = ap_downs a" "ap_draws (after_lookup en sid a) = ap_draws a"
  by (simp_all add: after_lookup_def split: option.split)

lemma with_session_none:
  assumes "no_session en (hs_app s) (getHeader (req s) ''X-Session-ID'')"
    and "en_dump en (error_json msg_session k401Unauthorized) = Inr body"
  shows "with_session en k s = (Ret True, answered (error_resp msg_session k401Unauthorized body)
     (upd_app (after_lookup en (getHeader (req s) ''X-Session-ID'')) s))"
  using validateSession_none [OF assms(1)] fail_run [OF assms(2)]
  by (simp add: with_session_def bindE_gets bindE_Ret)

text \<open>The upload handler's prologue is the same as that of the others.\<close>

lemma handleFileUpload_prologue:
  "\<exists>k. handleFileUpload en = with_session en k"
  unfolding handleFileUpload_def with_session_def by (rule exI) (rule refl)

section \<open>Procedures that only talk to the database\<close>

named_theorems db_only_intros \<open>procedures that change nothing but the database, its log and the random source\<close>

definition db_only :: "('db, 'a) handler \<Rightarrow> bool" where
  "db_only m \<longleftrightarrow> (\<forall>s. hs_ctx (snd (m s)) = hs_ctx s \<and> hs_resp (snd (m s)) = hs_resp s \<and> hs_actions (snd (m s)) = hs_actions s
     \<and> ap_files (hs_app (snd (m s))) = ap_files (hs_app s) \<and> ap_mapping (hs_app (snd (m s))) = ap_mapping (hs_app s)
     \<and> ap_downs (hs_app (snd (m s))) = ap_downs (hs_app s))"

lemma db_only_pure [db_only_intros]:
  "db_only (ret x)" "db_only (gets f)" "db_only (throw e)" "db_only undef"
  by (simp_all add: db_only_def ret_def gets_def throw_def undef_def)

lemma db_only_bind [db_only_intros]:
  assumes "db_only m" and "\<And>x. db_only (f x)"
  shows "db_only (bindE m f)"
  using assms by (auto simp: db_only_def bindE_def split: prod.split outcome.split) (metis snd_conv)+

lemma db_only_then [db_only_intros]: "db_only m \<Longrightarrow> db_only n \<Longrightarrow> db_only (thenE m n)"
  by (simp add: thenE_def db_only_bind)

lemma db_only_of_sum [db_only_intros]: "db_only (of_sum x)"
  by (cases x) (simp_all add: of_sum_def db_only_pure)

lemma db_only_query [db_only_intros]: "db_only (executeQueryWithResult en q)"
  by (auto simp: db_only_def executeQueryWithResult_def upd_app_def Let_def split: option.split prod.split)

lemma db_only_stoi [db_only_intros]: "db_only (stoi t)" "db_only (stoull t)"
  by (simp_all add: stoi_def stoull_def Let_def db_only_pure split: prod.split)

lemma db_only_col [db_only_intros]:
  "db_only (col r k)" "db_only (from_cstr v)" "db_only (col_string r k)" "db_only (col_or r k d)" "db_only (col_int r k)"
  "db_only (col_int_or_zero r k)"
  by (auto simp: col_def from_cstr_def col_string_def col_or_def col_int_def col_int_or_zero_def
      intro!: db_only_intros split: option.split)

lemma db_only_calls [db_only_intros]:
  "db_only (executeQuery en q)" "db_only (escapeString en t)" "db_only (query_first en q)"
  unfolding executeQuery_def escapeString_def query_first_def by (intro db_only_intros)+

lemma db_only_insertId [db_only_intros]: "db_only (insertId en)"
  by (auto simp: db_only_def insertId_def split: option.split)

lemma db_only_draw [db_only_intros]: "db_only (draw en lo hi)"
  by (simp add: db_only_def draw_def upd_app_def)

lemma db_only_validateSession [db_only_intros]: "db_only (validateSession en sid)"
  unfolding validateSession_def
  by (auto intro!: db_only_intros split: option.split list.split)

lemma db_only_step:
  assumes "db_only m" and "m s = (x, s')"
  shows "hs_ctx s' = hs_ctx s" "hs_resp s' = hs_resp s" "hs_actions s' = hs_actions s"
    "ap_files (hs_app s') = ap_files (hs_app s)" "ap_mapping (hs_app s') = ap_mapping (hs_app s)"
    "ap_downs (hs_app s') = ap_downs (hs_app s)"
  using assms by (metis db_only_def snd_conv)+

section \<open>onRequest\<close>

lemma app_onRequest_route:
  assumes "find_route initRoutes (rq_method (req s)) (rq_path (req s)) = Some (h, ps)"
  shows "app_onRequest en s =
    tryE (call_handler en h) (\<lambda>e. thenE (sendError en ''Internal Server Error'' k500InternalServerError) (ret True))
      (s\<lparr>hs_ctx := (hs_ctx s)\<lparr>hc_request := setPathParams ps (req s)\<rparr>\<rparr>)"
  using assms by (simp add: app_onRequest_def bindE_gets tryE_def set_params_def thenE_modify)

lemma tryE_Ret: "m s = (Ret x, s') \<Longrightarrow> tryE m h s = (Ret x, s')"
  by (simp add: tryE_def)

definition protected_handlers :: "route_handler set" where
  "protected_handlers = {HFileUpload, HListFiles, HDelete, HShareFile, HSearchUsers}"

lemma protected_with_session:
  assumes "h \<in> protected_handlers"
  shows "\<exists>k. call_handler en h = with_session en k"
  using assms handleFileUpload_prologue
  by (auto simp: protected_handlers_def handleListFiles_def handleDelete_def handleShareFile_def handleSearchUsers_def)

section \<open>Downloads\<close>

lemma sendError_actions:
  "sendError en message code s = (Ret x, s') \<Longrightarrow>
     hs_actions s' = hs_actions s @ [SetWriteComplete ShutdownWhenSent] \<and> hs_app s' = hs_app s \<and> hs_ctx s' = hs_ctx s"
  by (auto simp: sendError_def proc_inv setWriteCompleteCallback_def upd_resp_def)

lemma fail_actions:
  "fail en message code s = (Ret x, s') \<Longrightarrow>
     hs_actions s' = hs_actions s @ [SetWriteComplete ShutdownWhenSent] \<and> hs_app s' = hs_app s \<and> hs_ctx s' = hs_ctx s"
  by (auto simp: fail_def proc_inv dest: sendError_actions)

lemma deny_actions:
  "deny_access en shareType ec dbec s = (Ret x, s') \<Longrightarrow>
     hs_actions s' = hs_actions s @ [SetWriteComplete ShutdownWhenSent] \<and> hs_app s' = hs_app s \<and> hs_ctx s' = hs_ctx s"
  by (auto simp: deny_access_def split: if_splits dest: fail_actions)

definition streams :: "'db hstate \<Rightarrow> bool" where
  "streams s \<longleftrightarrow> list_ex (\<lambda>a. case a of SetWriteComplete (StreamFile p) \<Rightarrow> True | _ \<Rightarrow> False) (hs_actions s)"

lemma streams_shutdown:
  "hs_actions s' = hs_actions s @ [SetWriteComplete ShutdownWhenSent] \<Longrightarrow> streams s' = streams s"
  by (simp add: streams_def)

lemma fail_not_streams: "fail en message code s = (Ret x, s') \<Longrightarrow> streams s' = streams s"
  by (drule fail_actions) (simp add: streams_shutdown)

text \<open>The session a download names: the header, or else the query parameter.\<close>

definition download_session :: "('db, 'j) env \<Rightarrow> http_request \<Rightarrow> string" where
  "download_session en r =
     (if getHeader r ''X-Session-ID'' = [] then getQuery (en_junk en) r ''sessionId'' [] else getHeader r ''X-Session-ID'')"

definition escaped :: "('db, 'j) env \<Rightarrow> 'db hstate \<Rightarrow> string \<Rightarrow> string" where
  "escaped en s t = (case ap_mysql (hs_app s) of None \<Rightarrow> t | Some db \<Rightarrow> c_str (en_escape en db t))"

lemma escapeString_run: "escapeString en t s = (Ret (escaped en s t), s)"
  by (simp add: escapeString_def gets_def escaped_def)

lemma bindE_escape: "bindE (escapeString en t) k s = k (escaped en s t) s"
  by (simp add: bindE_def escapeString_run)

text \<open>What the columns of the row must say for a download.\<close>

definition may_download :: "row \<Rightarrow> int option \<Rightarrow> string \<Rightarrow> string \<Rightarrow> bool" where
  "may_download row user shareCode extractCode \<longleftrightarrow>
     (\<exists>owner. fst (col_int row 3 ()) = Ret owner \<and> user = Some owner)
     \<or> shareCode \<noteq> [] \<and>
        (fst (col_or row 4 [] ()) = Ret ''public''
         \<or> fst (col_or row 4 [] ()) = Ret ''protected'' \<and> extractCode \<noteq> [] \<and> fst (col_or row 6 [] ()) = Ret extractCode
         \<or> fst (col_or row 4 [] ()) = Ret ''user'' \<and> (\<exists>grantee. fst (col_int_or_zero row 5 ()) = Ret grantee \<and> user = Some grantee))"

text \<open>Reading a column does not depend on the state.\<close>

lemma stoi_pure: "stoi t s = (fst (stoi t ()), s)"
  by (simp add: stoi_def Let_def ret_def throw_def split: prod.split)

lemma col_pure:
  "col r k s = (fst (col r k ()), s)" "from_cstr v s = (fst (from_cstr v ()), s)"
  by (simp_all add: col_def from_cstr_def ret_def throw_def undef_def split: option.split)

lemma col_string_pure: "col_string r k s = (fst (col_string r k ()), s)"
  unfolding col_string_def bindE_def
  by (subst (1 2) col_pure(1)) (auto simp: col_pure(2) [of _ s] split: outcome.split)

lemma col_or_pure: "col_or r k d s = (fst (col_or r k d ()), s)"
  unfolding col_or_def bindE_def
  by (subst (1 2) col_pure(1)) (auto simp: ret_def split: outcome.split option.split)

lemma col_int_pure: "col_int r k s = (fst (col_int r k ()), s)"
  unfolding col_int_def bindE_def
  by (subst (1 2) col_string_pure) (auto simp: stoi_pure [of _ s] split: outcome.split)

lemma col_int_or_zero_pure: "col_int_or_zero r k s = (fst (col_int_or_zero r k ()), s)"
  unfolding col_int_or_zero_def bindE_def
  by (subst (1 2) col_pure(1)) (auto simp: ret_def stoi_pure [of _ s] split: outcome.split option.split)

lemma pure_bind:
  assumes "\<And>s. m s = (x, s)"
  shows "bindE m f s = (Ret y, s2) \<longleftrightarrow> (\<exists>v. x = Ret v \<and> f v s = (Ret y, s2))"
  by (cases x) (simp_all add: bindE_def assms)

lemmas col_binds = col_int_pure [THEN pure_bind] col_string_pure [THEN pure_bind] col_or_pure [THEN pure_bind]
  col_int_or_zero_pure [THEN pure_bind]

lemma download_row_permission:
  assumes "download_row en shareCode extractCode session row s = (Ret b, s')" and "streams s'" and "\<not> streams s"
  shows "may_download row (map_option fst session) shareCode extractCode"
proof -
  from assms(1) obtain owner shareType sharedWithId dbec where
    c: "fst (col_int row 3 ()) = Ret owner" "fst (col_or row 4 [] ()) = Ret shareType"
      "fst (col_int_or_zero row 5 ()) = Ret sharedWithId" "fst (col_or row 6 [] ()) = Ret dbec"
    and r: "has_permission (shareCode \<noteq> []) (map_option fst session) owner shareType sharedWithId extractCode dbec
      \<or> deny_access en shareType extractCode dbec s = (Ret b, s')"
    unfolding download_row_def col_binds by (auto split: if_splits)
  have "has_permission (shareCode \<noteq> []) (map_option fst session) owner shareType sharedWithId extractCode dbec"
    using r assms(2,3) streams_shutdown [of s' s] deny_actions [of en shareType extractCode dbec s b s'] by blast
  with c show ?thesis by (auto simp: has_permission_def may_download_def split: if_splits)
qed

lemma pure_bind_run:
  assumes "\<And>s. m s = (x, s)" and "x = Ret v"
  shows "bindE m f = f v"
  using assms by (intro ext) (simp add: bindE_def)

lemmas col_runs = col_int_pure [THEN pure_bind_run] col_string_pure [THEN pure_bind_run]
  col_or_pure [THEN pure_bind_run] col_int_or_zero_pure [THEN pure_bind_run]

lemma validateSession_found:
  assumes "sid \<noteq> []" and "ap_mysql (hs_app s) = Some db"
    and "en_query en db (session_sql en db sid) = (Some (row # rows), db1)"
    and "fst (col_int row 0 ()) = Ret userId" and "fst (col_string row 1 ()) = Ret name"
  shows "\<exists>s'. validateSession en sid s = (Ret (Some (userId, name)), s') \<and> ap_mysql (hs_app s') \<noteq> None"
proof -
  let ?s1 = "upd_app (\<lambda>a. a\<lparr>ap_mysql := Some db1, ap_sql := ap_sql a @ [session_sql en db sid]\<rparr>) s"
  have q: "executeQueryWithResult en (session_query (escaped en s sid)) s = (Ret (Some (row # rows)), ?s1)"
    using assms(2,3) by (simp add: executeQueryWithResult_def escaped_def session_sql_def)
  have "\<exists>s'. thenE (executeQuery en (session_touch (escaped en ?s1 sid))) (ret (Some (userId, name))) ?s1
      = (Ret (Some (userId, name)), s') \<and> ap_mysql (hs_app s') \<noteq> None"
    by (cases "en_query en db1 (c_str (session_touch (escaped en ?s1 sid)))")
       (simp add: thenE_def executeQuery_def executeQueryWithResult_def bindE_def ret_def upd_app_def)
  then show ?thesis
    using assms(1) unfolding validateSession_def bindE_escape bindE_Ret [of "executeQueryWithResult en _", OF q]
    by (simp add: bindE_escape bindE_Ret [of "executeQueryWithResult en _", OF q] col_runs(1) [OF assms(4)] col_runs(2) [OF assms(5)]
        del: One_nat_def)
qed

lemma handleDownload_run:
  fixes s :: "'db hstate"
  assumes "getPathParam (req s) ''filename'' = filename" and "filename \<noteq> []"
    and "validateSession en (download_session en (req s)) s = (Ret session, s1)"
    and "getQuery (en_junk en) (req s) ''code'' [] = shareCode"
    and "getQuery (en_junk en) (req s) ''extract_code'' [] = extractCode"
    and "shareCode \<noteq> [] \<or> session \<noteq> None"
    and "query_first en (download_query (shareCode \<noteq> []) (escaped en s1 filename) (escaped en s1 shareCode)) s1 = (Ret (Some row), s2)"
  shows "handleDownload en s = download_row en shareCode extractCode session row s2"
proof -
  have sid: "bindE (if getHeader (req s) ''X-Session-ID'' = [] then gets (\<lambda>s. getQuery (en_junk en) (req s) ''sessionId'' [])
      else ret (getHeader (req s) ''X-Session-ID'')) k s = k (download_session en (req s)) s" for k :: "string \<Rightarrow> ('db, bool) handler"
    by (simp add: download_session_def bindE_gets bindE_ret)
  note s1 = db_only_step(1) [OF db_only_validateSession assms(3)]
  have "\<not> (shareCode = [] \<and> session = None)" using assms(6) by simp
  note cond = if_not_P [OF this]
  show ?thesis
    unfolding handleDownload_def bindE_gets assms(1) if_not_P [OF assms(2)] sid
      bindE_Ret [of "validateSession en (download_session en (req s))", OF assms(3)] s1 assms(4,5) cond bindE_escape
      bindE_Ret [of "query_first en q" for q, OF assms(7)] by simp
qed

section \<open>Properties\<close>

text \<open>
  C5: A protected request without a valid session (no \<open>X-Session-ID\<close>, no database, or no live row for it)
  has no effect: it is answered 401 with the session message, the connection closes once that is sent,
  no file, mapping entry or open download changes, and nothing but the session lookup has been sent to
  the database.
\<close>

theorem protected_needs_session:
  assumes "find_route initRoutes (rq_method (req s)) (rq_path (req s)) = Some (h, ps)"
    and "h \<in> protected_handlers"
    and "no_session en (hs_app s) (getHeader (req s) ''X-Session-ID'')"
    and "en_dump en (error_json msg_session k401Unauthorized) = Inr body"
  shows "\<exists>s'. app_onRequest en s = (Ret True, s')
    \<and> rs_statusCode (hs_resp s') = k401Unauthorized \<and> rs_body (hs_resp s') = body
    \<and> hs_actions s' = hs_actions s @ [SetWriteComplete ShutdownWhenSent]
    \<and> ap_files (hs_app s') = ap_files (hs_app s) \<and> ap_mapping (hs_app s') = ap_mapping (hs_app s)
    \<and> ap_downs (hs_app s') = ap_downs (hs_app s)
    \<and> ap_sql (hs_app s') = ap_sql (hs_app s) @ lookup_sql en (hs_app s) (getHeader (req s) ''X-Session-ID'')"
proof -
  let ?s = "s\<lparr>hs_ctx := (hs_ctx s)\<lparr>hc_request := setPathParams ps (req s)\<rparr>\<rparr>"
  have g: "getHeader (req ?s) f = getHeader (req s) f" for f by (simp add: setPathParams_def getHeader_def)
  from protected_with_session [OF assms(2)] obtain k where k: "call_handler en h = with_session en k" by blast
  have "no_session en (hs_app ?s) (getHeader (req ?s) ''X-Session-ID'')"
    unfolding g using assms(3) by simp
  from with_session_none [OF this assms(4), of k]
  have "with_session en k ?s = (Ret True, answered (error_resp msg_session k401Unauthorized body)
     (upd_app (after_lookup en (getHeader (req s) ''X-Session-ID'')) ?s))"
    unfolding g .
  note w = tryE_Ret [of "with_session en k" ?s, OF this]
  have "app_onRequest en s = (Ret True, answered (error_resp msg_session k401Unauthorized body)
     (upd_app (after_lookup en (getHeader (req s) ''X-Session-ID'')) ?s))"
    unfolding app_onRequest_route [OF assms(1)] k by (rule w)
  then show ?thesis by (simp add: upd_app_def)
qed

theorem protected_needs_session_witness:
  "\<exists>s'. app_onRequest (table_env []) (start_state [] [(''uploads/f'', ''data'')] (simple_request kDelete ''/delete/f'' [])) = (Ret True, s')
    \<and> rs_statusCode (hs_resp s') = k401Unauthorized \<and> ap_files (hs_app s') ''uploads/f'' = Some ''data''"
proof -
  let ?s = "start_state [] [(''uploads/f'', ''data'')] (simple_request kDelete ''/delete/f'' [])"
  have r: "find_route initRoutes (rq_method (req ?s)) (rq_path (req ?s)) = Some (HDelete, Map.empty(''filename'' \<mapsto> ''f''))"
    by (simp add: start_state_def simple_request_def initRoutes_other segment_after_def starts_with_def)
  have n: "no_session (table_env []) (hs_app ?s) (getHeader (req ?s) ''X-Session-ID'')"
    by (simp add: no_session_def start_state_def simple_request_def getHeader_def)
  have d: "en_dump (table_env []) (error_json msg_session k401Unauthorized) = Inr ''{}''" by (simp add: table_env_def)
  have p: "HDelete \<in> protected_handlers" by (simp add: protected_handlers_def)
  have f: "ap_files (hs_app ?s) ''uploads/f'' = Some ''data''" by (simp add: start_state_def)
  from protected_needs_session [OF r p n d] f show ?thesis by metis
qed

text \<open>
  C4: A download starts streaming only with permission. If \<open>handleDownload\<close> installs the streaming
  callback, the row the database returned for the file (and share code) shows that the caller's valid
  session is the owner's, or that a share code was given whose share is public, is protected with
  exactly the extract code of the request (a non-empty one), or names the session's user.
\<close>

theorem download_needs_permission:
  fixes s :: "'db hstate"
  assumes "handleDownload en s = (Ret b, s')" and "streams s'" and "\<not> streams s"
  shows "\<exists>session s1 row s2.
      validateSession en (download_session en (req s)) s = (Ret session, s1)
    \<and> query_first en (download_query (getQuery (en_junk en) (req s) ''code'' [] \<noteq> [])
          (escaped en s1 (getPathParam (req s) ''filename'')) (escaped en s1 (getQuery (en_junk en) (req s) ''code'' []))) s1
        = (Ret (Some row), s2)
    \<and> may_download row (map_option fst session) (getQuery (en_junk en) (req s) ''code'' [])
        (getQuery (en_junk en) (req s) ''extract_code'' [])"
proof -
  let ?sid = "download_session en (req s)" and ?file = "getPathParam (req s) ''filename''"
  let ?code = "getQuery (en_junk en) (req s) ''code'' []" and ?ec = "getQuery (en_junk en) (req s) ''extract_code'' []"
  have sid: "bindE (if getHeader (req s) ''X-Session-ID'' = [] then gets (\<lambda>s. getQuery (en_junk en) (req s) ''sessionId'' [])
      else ret (getHeader (req s) ''X-Session-ID'')) k s = k ?sid s" for k :: "string \<Rightarrow> ('db, bool) handler"
    by (simp add: download_session_def bindE_gets bindE_ret)
  have "?file \<noteq> []" using assms fail_not_streams [of en _ _ s b s'] by (auto simp: handleDownload_def bindE_gets)
  then have "bindE (validateSession en ?sid) (\<lambda>session.
       bindE (gets (\<lambda>s. getQuery (en_junk en) (req s) ''code'' [])) (\<lambda>shareCode.
       bindE (gets (\<lambda>s. getQuery (en_junk en) (req s) ''extract_code'' [])) (\<lambda>extractCode.
       if shareCode = [] \<and> session = None then fail en msg_login_first k401Unauthorized
       else
         bindE (escapeString en ?file) (\<lambda>fn.
         bindE (escapeString en shareCode) (\<lambda>sc.
         bindE (query_first en (download_query (shareCode \<noteq> []) fn sc)) (\<lambda>found.
         case found of
           None \<Rightarrow> fail en ''File not found'' k404NotFound
         | Some row \<Rightarrow> download_row en shareCode extractCode session row)))))) s = (Ret b, s')" (is "bindE _ ?k s = _")
    using assms(1) by (simp only: handleDownload_def bindE_gets sid if_False)
  then obtain session s1 where v: "validateSession en ?sid s = (Ret session, s1)" and r1: "?k session s1 = (Ret b, s')"
    unfolding bindE_eq_Ret [of "validateSession en ?sid"] by blast
  note s1 = db_only_step [OF db_only_validateSession v]
  have n1: "\<not> streams s1" using assms(3) s1(3) by (simp add: streams_def)
  obtain found s2 where q: "query_first en (download_query (?code \<noteq> []) (escaped en s1 ?file) (escaped en s1 ?code)) s1 = (Ret found, s2)"
    and r2: "(case found of None \<Rightarrow> fail en ''File not found'' k404NotFound
         | Some row \<Rightarrow> download_row en ?code ?ec session row) s2 = (Ret b, s')"
    using r1 n1 assms(2) fail_not_streams [of en _ _ s1 b s']
    unfolding bindE_gets s1(1) bindE_escape by (auto simp: bindE_eq_Ret split: if_splits)
  have n2: "\<not> streams s2" using n1 db_only_step(3) [OF db_only_calls(3) q] by (simp add: streams_def)
  obtain row where "found = Some row" "may_download row (map_option fst session) ?code ?ec"
    using r2 n2 assms(2) fail_not_streams [of en _ _ s2 b s'] download_row_permission [of en ?code ?ec session _ s2 b s']
    by (cases found) auto
  with v q show ?thesis by blast
qed

definition shared_file_state :: "table_db hstate" where
  "shared_file_state = start_state
     [(download_query True ''f'' ''c'',
       [[Some ''1'', Some ''f'', Some ''photo.png'', Some ''5'', Some ''public'', None, None]])]
     [(''uploads/f'', ''data'')]
     ((simple_request kGet ''/download/f'' [])\<lparr>rq_query := ''?code=c'', rq_pathParams := Map.empty(''filename'' \<mapsto> ''f'')\<rparr>)"

theorem download_needs_permission_witness:
  "\<exists>session s1 row s2. validateSession (table_env []) (download_session (table_env []) (req shared_file_state)) shared_file_state
      = (Ret session, s1)
    \<and> query_first (table_env []) (download_query True ''f'' ''c'') s1 = (Ret (Some row), s2)
    \<and> may_download row (map_option fst session) ''c'' []"
proof -
  let ?en = "table_env []" and ?s = shared_file_state
  let ?row = "[Some ''1'', Some ''f'', Some ''photo.png'', Some ''5'', Some ''public'', None, None]"
  have q: "getQuery (en_junk ?en) (req ?s) ''code'' [] = ''c''" "getQuery (en_junk ?en) (req ?s) ''extract_code'' [] = []"
    "getPathParam (req ?s) ''filename'' = ''f''" "download_session ?en (req ?s) = []" by code_simp+
  have e: "escaped ?en s' ''f'' = ''f''" "escaped ?en s' ''c'' = ''c''" for s'
    by (simp_all add: escaped_def table_env_def c_str_def backslash_def split: option.split)
  have v: "validateSession ?en [] ?s = (Ret None, ?s)" by (simp add: validateSession_def ret_def)
  have nn: "c_str (download_query True ''f'' ''c'') = download_query True ''f'' ''c''" by code_simp
  obtain s2 where s2: "query_first ?en (download_query True ''f'' ''c'') ?s = (Ret (Some ?row), s2)"
    "ap_files (hs_app s2) = ap_files (hs_app ?s)" "hs_ctx s2 = hs_ctx ?s" "hs_actions s2 = []" 
    unfolding query_first_def executeQueryWithResult_def bindE_def nn shared_file_state_def start_state_def
    by (simp add: table_env_def ret_def upd_app_def)
  have d1: "handleDownload ?en ?s = download_row ?en ''c'' [] None ?row s2"
    by (rule handleDownload_run [of ?s "''f''" ?en None ?s "''c''" "[]" ?row s2]) (simp_all add: q v e s2(1))
  have d2: "download_row ?en ''c'' [] None ?row s2 = serve_file ?en ''uploads/f'' ''photo.png'' s2"
  proof -
    have "fst (col_int ?row 0 ()) = Ret 1" "fst (col_string ?row 1 ()) = Ret ''f''" "fst (col_string ?row 2 ()) = Ret ''photo.png''"
      "fst (col_int ?row 3 ()) = Ret 5" "fst (col_or ?row 4 [] ()) = Ret ''public''" "fst (col_int_or_zero ?row 5 ()) = Ret 0"
      "fst (col_or ?row 6 [] ()) = Ret []" by code_simp+
    then show ?thesis by (simp add: download_row_def col_runs has_permission_def uploadDir_def)
  qed
  have "\<exists>s'. handleDownload ?en ?s = (Ret True, s') \<and> streams s'"
  proof -
    have "serve_file ?en ''uploads/f'' ''photo.png'' s2 = (Ret True,
     s2\<lparr>hs_app := (hs_app s2)\<lparr>ap_downs := ap_downs (hs_app s2) @ [opened ''uploads/f'' ''photo.png'' ''data'' 0]\<rparr>,
       hs_ctx := (hs_ctx s2)\<lparr>hc_custom := Some (Down (length (ap_downs (hs_app s2))))\<rparr>,
       hs_resp := down_resp ''photo.png'' (length ''data'') 0 (length ''data'' - 1) False (hs_resp s2),
       hs_actions := hs_actions s2 @ [SetWriteComplete (StreamFile (length (ap_downs (hs_app s2))))]\<rparr>)"
      by (rule serve_file_run) (simp_all add: s2 shared_file_state_def start_state_def simple_request_def table_env_def
          new_context_def parse_range_def getHeader_def ret_def size_t_def size_bound_def)
    then show ?thesis unfolding d1 d2 by (simp add: streams_def)
  qed
  then obtain s' where r: "handleDownload ?en ?s = (Ret True, s')" "streams s'" by blast
  have ns: "\<not> streams ?s" by (simp add: streams_def shared_file_state_def start_state_def)
  from download_needs_permission [OF r ns] show ?thesis by (simp only: q e) simp
qed

end
