(* ===== verification/Upload.thy ===== *)
theory Upload
  imports Access
begin

text \<open>
  What an upload stores: the effect of \<open>handleFileUpload\<close> on the file it writes, call by call, as the
  server hands it the pieces of one multipart body. The pieces between the part's headers and the end
  boundary end up in the file, in order, and the size the database is told is the file's length.
\<close>

section \<open>Writing\<close>

text \<open>An upload whose file holds exactly the bytes it has counted.\<close>

definition upload_inv :: "upload_ctx \<Rightarrow> 'db app_state \<Rightarrow> bool" where
  "upload_inv uc a \<longleftrightarrow> (\<exists>f. ap_files a (uc_filename uc) = Some f \<and> length f = uc_totalBytes uc)"

definition wrote :: "bytes \<Rightarrow> upload_ctx \<Rightarrow> upload_ctx" where
  "wrote d uc = uc\<lparr>uc_totalBytes := uc_totalBytes uc + length d\<rparr>"

definition stored :: "bytes \<Rightarrow> upload_ctx \<Rightarrow> 'db hstate \<Rightarrow> 'db hstate" where
  "stored d uc s = s\<lparr>hs_app := (hs_app s)\<lparr>ap_files := file_append (uc_filename uc) d (ap_files (hs_app s))\<rparr>,
     hs_ctx := (hs_ctx s)\<lparr>hc_custom := Some (Upload (wrote d uc))\<rparr>\<rparr>"

lemma writeData_run:
  assumes "en_write_ok en (uc_filename uc) (uc_totalBytes uc + length d)"
  shows "writeData en d uc s = (Ret (wrote d uc), stored d uc s)"
  using assms
  by (simp add: writeData_def proc_run set_custom_def upd_app_def wrote_def stored_def Let_def)

lemma upload_inv_stored [inv_intros]: "upload_inv uc (hs_app s) \<Longrightarrow> upload_inv (wrote d uc) (hs_app (stored d uc s))"
  by (auto simp: upload_inv_def wrote_def stored_def file_append_def)

lemma stored_fields [simp]:
  "hs_resp (stored d uc s) = hs_resp s" "hs_actions (stored d uc s) = hs_actions s"
  "hc_request (hs_ctx (stored d uc s)) = hc_request (hs_ctx s)" "hc_state (hs_ctx (stored d uc s)) = hc_state (hs_ctx s)"
  "ap_mysql (hs_app (stored d uc s)) = ap_mysql (hs_app s)" "ap_sql (hs_app (stored d uc s)) = ap_sql (hs_app s)"
  by (simp_all add: stored_def)

lemma stored_file: "upload_inv uc (hs_app s) \<Longrightarrow>
  ap_files (hs_app (stored d uc s)) (uc_filename uc) = Some (the (ap_files (hs_app s) (uc_filename uc)) @ d)"
  by (auto simp: upload_inv_def stored_def file_append_def)

text \<open>A piece without the boundary is appended whole; one with the end boundary is appended up to it.\<close>

lemma next_content_plain:
  assumes "uc_state uc = UExpectBoundary" and "find_sub (uc_boundary uc) d = None"
    and "en_write_ok en (uc_filename uc) (uc_totalBytes uc + length d)"
  shows "next_content en d uc s = (Ret (wrote d uc), stored d uc s)"
proof -
  have "find_sub (uc_boundary uc @ ''--'') d = None"
    using assms(2) unfolding find_sub_None starts_with_def by (metis append_eq_conv_conj length_append take_take min.absorb1 le_add1)
  with assms show ?thesis by (simp add: next_content_def writeData_run)
qed

lemma next_content_end:
  assumes "uc_state uc = UExpectBoundary" and "find_sub (uc_boundary uc @ ''--'') d = Some k"
    and "en_write_ok en (uc_filename uc) (uc_totalBytes uc + k)" and "upload_inv uc (hs_app s)"
  shows "\<exists>s'. next_content en d uc s = (Ret ((wrote (take k d) uc)\<lparr>uc_state := UComplete\<rparr>), s')
    \<and> ap_files (hs_app s') = ap_files (hs_app (stored (take k d) uc s))
    \<and> ap_mysql (hs_app s') = ap_mysql (hs_app s) \<and> ap_sql (hs_app s') = ap_sql (hs_app s)"
proof -
  have k: "k \<le> length d" using find_sub_Some(1) [OF assms(2)] by simp
  show ?thesis
  proof (cases "0 < k")
    case True
    have "en_write_ok en (uc_filename uc) (uc_totalBytes uc + length (take k d))" using assms(3) k by (simp add: min_def)
    from writeData_run [OF this] True assms(1,2) show ?thesis
      by (simp add: next_content_def bindE_Ret set_upload_state_def set_custom_def proc_run Let_def stored_def)
  next
    case False
    with assms(4) have "file_append (uc_filename uc) [] (ap_files (hs_app s)) = ap_files (hs_app s)"
      by (auto simp: file_append_def upload_inv_def)
    with False assms(1,2) show ?thesis
      by (simp add: next_content_def bindE_ret set_upload_state_def set_custom_def proc_run Let_def stored_def wrote_def)
  qed
qed

section \<open>One call\<close>

definition with_body :: "bytes \<Rightarrow> 'db hstate \<Rightarrow> 'db hstate" where
  "with_body d s = s\<lparr>hs_ctx := (hs_ctx s)\<lparr>hc_request := (req s)\<lparr>rq_body := d\<rparr>\<rparr>\<rparr>"

lemma with_body_fields [simp]:
  "hs_app (with_body d s) = hs_app s" "hc_custom (hs_ctx (with_body d s)) = hc_custom (hs_ctx s)"
  "hc_state (hs_ctx (with_body d s)) = hc_state (hs_ctx s)" "rq_body (req (with_body d s)) = d"
  "getHeader (req (with_body d s)) h = getHeader (req s) h" "with_body d (with_body e s) = with_body d s"
  by (simp_all add: with_body_def getHeader_def)

lemma clear_body_run: "clear_body s = (Ret (), with_body [] s)"
  by (simp add: clear_body_def modify_def with_body_def)

lemma handleFileUpload_continue:
  assumes "validateSession en (getHeader (req s) ''X-Session-ID'') s = (Ret (Some (userId, name)), s1)"
    and "hc_custom (hs_ctx s) = Some (Upload uc)" and "rq_body (req s) = d" and "d \<noteq> []"
    and "next_content en d uc s1 = (Ret uc', s2)"
  shows "handleFileUpload en s =
    (if uc_state uc' = UComplete \<or> gotAll (hs_ctx s2) then finish_upload en userId uc' (with_body [] s2)
     else (Ret False, with_body [] s2))"
proof -
  note s1 = db_only_step(1) [OF db_only_validateSession assms(1)]
  have c: "continue_upload en uc s1 = (Ret (Some uc'), s2)"
    using assms(3-5) by (simp add: continue_upload_def tryE_def bindE_gets s1 bindE_Ret ret_def)
  show ?thesis
    unfolding handleFileUpload_def bindE_gets bindE_Ret [of "validateSession en _", OF assms(1)]
    by (simp add: bindE_gets s1 assms(2) bindE_Ret [of "continue_upload en uc", OF c] thenE_def
        bindE_Ret [of clear_body, OF clear_body_run] gotAll_def ret_def)
qed

text \<open>The document of the answer, and the end of an upload.\<close>

definition upload_json :: "upload_ctx \<Rightarrow> int \<Rightarrow> json" where
  "upload_json uc fileId = jobj [(''code'', JInt 0), (''message'', JStr msg_uploaded), (''fileId'', JInt fileId),
     (''filename'', JStr (base_name (uc_filename uc))), (''originalFilename'', JStr (uc_originalFilename uc)),
     (''size'', JInt (int (uc_totalBytes uc)))]"

definition insert_sql :: "('db, 'j) env \<Rightarrow> 'db hstate \<Rightarrow> int \<Rightarrow> upload_ctx \<Rightarrow> string" where
  "insert_sql en s userId uc = c_str (upload_insert_sql (escaped en s (base_name (uc_filename uc)))
     (escaped en s (uc_originalFilename uc)) (uc_totalBytes uc)
     (escaped en s (getFileType (uc_originalFilename uc))) userId)"

lemma reply_json_run:
  assumes "en_dump en j = Inr body"
  shows "\<exists>s'. reply_json en j s = (Ret True, s') \<and> hs_app s' = hs_app s \<and> hs_ctx s' = hs_ctx s
    \<and> rs_statusCode (hs_resp s') = k200Ok \<and> rs_body (hs_resp s') = body"
  using assms
  by (simp add: reply_json_def proc_run upd_resp_def setWriteCompleteCallback_def setBody_def addResponseHeader_def
      setContentType_def setStatusMessage_def setStatusCode_def)

lemma executeQuery_run:
  assumes "ap_mysql (hs_app s) = Some db"
  shows "\<exists>ok db'. executeQuery en q s =
    (Ret ok, s\<lparr>hs_app := (hs_app s)\<lparr>ap_mysql := Some db', ap_sql := ap_sql (hs_app s) @ [c_str q]\<rparr>\<rparr>)"
  using assms
  by (cases "en_query en db (c_str q)")
     (auto simp: executeQuery_def executeQueryWithResult_def upd_app_def bindE_def ret_def)

lemma finish_upload_run:
  assumes "ap_mysql (hs_app s) \<noteq> None" and "\<forall>i. \<exists>t. en_dump en (upload_json uc i) = Inr t"
  shows "\<exists>s'. finish_upload en userId uc s = (Ret True, s')
    \<and> ap_files (hs_app s') = ap_files (hs_app s) \<and> hc_custom (hs_ctx s') = None
    \<and> rs_statusCode (hs_resp s') = k200Ok
    \<and> ap_sql (hs_app s') = ap_sql (hs_app s) @ [insert_sql en s userId uc]"
proof -
  let ?q = "upload_insert_sql (escaped en s (base_name (uc_filename uc))) (escaped en s (uc_originalFilename uc))
     (uc_totalBytes uc) (escaped en s (getFileType (uc_originalFilename uc))) userId"
  from assms(1) obtain db where "ap_mysql (hs_app s) = Some db" by blast
  from executeQuery_run [OF this, of en ?q] obtain ok db' where
    q: "executeQuery en ?q s = (Ret ok, s\<lparr>hs_app := (hs_app s)\<lparr>ap_mysql := Some db', ap_sql := ap_sql (hs_app s) @ [c_str ?q]\<rparr>\<rparr>)"
    (is "_ = (_, ?s1)") by blast
  have i: "insertId en ?s1 = (Ret (int32_cast (en_insert_id en db')), ?s1)" by (simp add: insertId_def)
  let ?j = "upload_json uc (int32_cast (en_insert_id en db'))"
  obtain t where "en_dump en ?j = Inr t" using assms(2) by blast
  from reply_json_run [OF this, of ?s1] obtain s2 where s2: "reply_json en ?j ?s1 = (Ret True, s2)"
    "hs_app s2 = hs_app ?s1" "rs_statusCode (hs_resp s2) = k200Ok" by blast
  have "finish_upload en userId uc s = thenE (set_custom None) (ret True) s2"
    unfolding finish_upload_def Let_def bindE_escape bindE_Ret [of "executeQuery en _", OF q]
      bindE_Ret [of "insertId en", OF i] upload_json_def [symmetric] bindE_Ret [of "reply_json en _", OF s2(1)] ..
  with s2(2,3) show ?thesis by (simp add: set_custom_def proc_run insert_sql_def)
qed

section \<open>All calls\<close>

text \<open>
  The pieces of a body handed to the handler one by one, until it answers. The server calls it in state
  \<^term>\<open>kExpectBody\<close> when a piece of 1 MiB has come together and in state \<^term>\<open>kGotAll\<close> when the request is complete.
\<close>

definition arriving :: "parse_state \<Rightarrow> bytes \<Rightarrow> 'db hstate \<Rightarrow> 'db hstate" where
  "arriving st d s = with_body d (s\<lparr>hs_ctx := (hs_ctx s)\<lparr>hc_state := st\<rparr>\<rparr>)"

lemma arriving_fields [simp]:
  "hs_app (arriving st d s) = hs_app s" "hc_custom (hs_ctx (arriving st d s)) = hc_custom (hs_ctx s)"
  "hc_state (hs_ctx (arriving st d s)) = st" "rq_body (req (arriving st d s)) = d"
  "getHeader (req (arriving st d s)) h = getHeader (req s) h"
  by (simp_all add: arriving_def with_body_def getHeader_def)

fun deliver_all :: "('db, 'j) env \<Rightarrow> (parse_state \<times> bytes) list \<Rightarrow> ('db, bool) handler" where
  "deliver_all en [] s = (Ret False, s)"
| "deliver_all en ((st, d) # ds) s =
     (case handleFileUpload en (arriving st d s) of
        (Ret False, s') \<Rightarrow> deliver_all en ds s'
      | r \<Rightarrow> r)"

lemma deliver_all_append:
  "deliver_all en ds s = (Ret False, s1) \<Longrightarrow> deliver_all en (ds @ es) s = deliver_all en es s1"
  by (induction en ds s rule: deliver_all.induct) (auto split: prod.splits outcome.splits bool.splits)

text \<open>A session that stays valid as long as the database connection lasts.\<close>

definition lasting_session :: "('db, 'j) env \<Rightarrow> string \<Rightarrow> int \<Rightarrow> bool" where
  "lasting_session en sid userId \<longleftrightarrow>
     (\<forall>s. ap_mysql (hs_app s) \<noteq> None \<longrightarrow>
        (\<exists>name s'. validateSession en sid s = (Ret (Some (userId, name)), s') \<and> ap_mysql (hs_app s') \<noteq> None))"

text \<open>An upload in progress on the connection, with \<open>f\<close> in its file so far.\<close>

definition uploading :: "string \<Rightarrow> upload_ctx \<Rightarrow> bytes \<Rightarrow> 'db hstate \<Rightarrow> bool" where
  "uploading sid uc f s \<longleftrightarrow>
     getHeader (req s) ''X-Session-ID'' = sid \<and> ap_mysql (hs_app s) \<noteq> None \<and> hc_custom (hs_ctx s) = Some (Upload uc) \<and> uc_state uc = UExpectBoundary
     \<and> ap_files (hs_app s) (uc_filename uc) = Some f \<and> length f = uc_totalBytes uc"

lemma uploading_session:
  assumes "lasting_session en sid userId" and "uploading sid uc f s"
  obtains name s1 where "validateSession en sid (arriving st d s) = (Ret (Some (userId, name)), s1)"
    "hs_ctx s1 = hs_ctx (arriving st d s)" "ap_mysql (hs_app s1) \<noteq> None" "ap_files (hs_app s1) = ap_files (hs_app s)"
proof -
  have "ap_mysql (hs_app (arriving st d s)) \<noteq> None" using assms(2) by (simp add: uploading_def)
  with assms(1) obtain name s1 where v: "validateSession en sid (arriving st d s) = (Ret (Some (userId, name)), s1)"
    "ap_mysql (hs_app s1) \<noteq> None" unfolding lasting_session_def by blast
  from db_only_step [OF db_only_validateSession v(1)] v that show ?thesis by simp
qed

lemma piece_stored:
  assumes "lasting_session en sid userId" and "uploading sid uc f s" and "d \<noteq> []"
    and "find_sub (uc_boundary uc) d = None" and "\<forall>n. en_write_ok en (uc_filename uc) n"
    and "st \<noteq> kGotAll"
  shows "\<exists>s'. handleFileUpload en (arriving st d s) = (Ret False, s') \<and> uploading sid (wrote d uc) (f @ d) s'"
proof -
  let ?s = "arriving st d s"
  note u = assms(2) [unfolded uploading_def]
  obtain name s1 where v: "validateSession en sid ?s = (Ret (Some (userId, name)), s1)" "hs_ctx s1 = hs_ctx ?s"
    "ap_mysql (hs_app s1) \<noteq> None" "ap_files (hs_app s1) = ap_files (hs_app s)"
    by (rule uploading_session [OF assms(1,2), of st d])
  have n: "next_content en d uc s1 = (Ret (wrote d uc), stored d uc s1)"
    using u assms(4,5) by (intro next_content_plain) auto
  have "uc_state (wrote d uc) \<noteq> UComplete" "\<not> gotAll (hs_ctx (stored d uc s1))"
    using u v(2) assms(6) by (simp_all add: wrote_def gotAll_def)
  with handleFileUpload_continue [OF _ _ _ assms(3) n, of ?s userId name] u v(1)
  have "handleFileUpload en ?s = (Ret False, with_body [] (stored d uc s1))" by simp
  moreover have "uploading sid (wrote d uc) (f @ d) (with_body [] (stored d uc s1))"
    using u v(2-4) by (simp add: uploading_def wrote_def stored_def file_append_def gotAll_def)
  ultimately show ?thesis by blast
qed

lemma pieces_stored:
  assumes "lasting_session en sid userId" and "uploading sid uc f s" and "\<forall>n. en_write_ok en (uc_filename uc) n"
    and "\<forall>d \<in> set ds. d \<noteq> [] \<and> find_sub (uc_boundary uc) d = None"
  shows "\<exists>s'. deliver_all en (map (Pair kExpectBody) ds) s = (Ret False, s') \<and> uploading sid (wrote (concat ds) uc) (f @ concat ds) s'"
  using assms(2-4)
proof (induction ds arbitrary: uc f s)
  case Nil
  then show ?case by (simp add: wrote_def)
next
  case (Cons d ds)
  from piece_stored [OF assms(1) Cons.prems(1), of d kExpectBody] Cons.prems(2,3) obtain s1 where
    s1: "handleFileUpload en (arriving kExpectBody d s) = (Ret False, s1)" "uploading sid (wrote d uc) (f @ d) s1" by auto
  have "wrote (concat ds) (wrote d uc) = wrote (d @ concat ds) uc" by (simp add: wrote_def)
  with Cons.IH [OF s1(2)] Cons.prems(2,3) s1(1) show ?case by (simp add: wrote_def add.assoc)
qed

section \<open>Properties\<close>

text \<open>
  C7: An upload arrives whole, provided the database is connected, the session stays valid while the upload lasts, every write to the file succeeds and the
  document of the answer can be printed. Once the part's headers are past, non-empty pieces of the body without the boundary, handed
  over before the request is complete, are appended to the file in order; the piece with the end boundary, whether it completes the
  request or bytes of the body are still to come, is appended up to it and ends the upload: the handler returns a response with
  status 200, the connection's upload context is gone, and the last statement sent to the database records the file under its names
  with exactly the length of what was stored. (The line break before the end boundary is part of what is stored. The
  server sends the response when the request is complete; before that, it drops it.)
\<close>

theorem upload_arrives:
  assumes "lasting_session en sid userId" and "uploading sid uc f s" and "\<forall>n. en_write_ok en (uc_filename uc) n"
    and "\<forall>d \<in> set ds. d \<noteq> [] \<and> find_sub (uc_boundary uc) d = None"
    and "find_sub (uc_boundary uc @ ''--'') e = Some k"
    and "\<forall>n i. \<exists>t. en_dump en (upload_json (uc\<lparr>uc_totalBytes := n, uc_state := UComplete\<rparr>) i) = Inr t"
  shows "\<exists>s'. deliver_all en (map (Pair kExpectBody) ds @ [(st, e)]) s = (Ret True, s')
    \<and> ap_files (hs_app s') (uc_filename uc) = Some (f @ concat ds @ take k e)
    \<and> hc_custom (hs_ctx s') = None \<and> rs_statusCode (hs_resp s') = k200Ok
    \<and> (\<exists>s2. last (ap_sql (hs_app s')) = insert_sql en s2 userId
          (uc\<lparr>uc_totalBytes := length (f @ concat ds @ take k e), uc_state := UComplete\<rparr>))"
proof -
  from pieces_stored [OF assms(1-4)] obtain s1 where
    s1: "deliver_all en (map (Pair kExpectBody) ds) s = (Ret False, s1)" "uploading sid (wrote (concat ds) uc) (f @ concat ds) s1" by blast
  let ?uc = "wrote (concat ds) uc" and ?s = "arriving st e s1"
  note u = s1(2) [unfolded uploading_def]
  have inv: "upload_inv ?uc (hs_app s1)" using u by (auto simp: upload_inv_def)
  obtain name s2 where v: "validateSession en sid ?s = (Ret (Some (userId, name)), s2)" "hs_ctx s2 = hs_ctx ?s"
    "ap_mysql (hs_app s2) \<noteq> None" "ap_files (hs_app s2) = ap_files (hs_app s1)"
    by (rule uploading_session [OF assms(1) s1(2), of st e])
  have b: "find_sub (uc_boundary ?uc @ ''--'') e = Some k" "en_write_ok en (uc_filename ?uc) (uc_totalBytes ?uc + k)"
    using assms(3,5) by (simp_all add: wrote_def)
  have inv2: "upload_inv ?uc (hs_app s2)" using inv v(4) by (simp add: upload_inv_def)
  let ?uc' = "(wrote (take k e) ?uc)\<lparr>uc_state := UComplete\<rparr>"
  from next_content_end [OF _ b inv2] u obtain s3 where
    s3: "next_content en e ?uc s2 = (Ret ?uc', s3)" "ap_files (hs_app s3) = ap_files (hs_app (stored (take k e) ?uc s2))"
      "ap_mysql (hs_app s3) \<noteq> None" using v(3) by auto
  have ne: "e \<noteq> []" using find_sub_Some(1) [OF assms(5)] by auto
  have call: "handleFileUpload en ?s = finish_upload en userId ?uc' (with_body [] s3)"
    using handleFileUpload_continue [OF _ _ _ ne s3(1), of ?s userId name] u v(1) by simp
  have len: "?uc' = uc\<lparr>uc_totalBytes := length (f @ concat ds @ take k e), uc_state := UComplete\<rparr>"
    using u assms(2) by (simp add: wrote_def uploading_def)
  from finish_upload_run [of "with_body [] s3" en ?uc' userId] s3(3) assms(6) obtain s4 where
    s4: "finish_upload en userId ?uc' (with_body [] s3) = (Ret True, s4)" "ap_files (hs_app s4) = ap_files (hs_app s3)"
      "hc_custom (hs_ctx s4) = None" "rs_statusCode (hs_resp s4) = k200Ok"
      "last (ap_sql (hs_app s4)) = insert_sql en (with_body [] s3) userId ?uc'"
    unfolding len by auto
  have stored: "ap_files (hs_app s4) (uc_filename uc) = Some (f @ concat ds @ take k e)"
    using s4(2) s3(2) stored_file [OF inv2, of "take k e"] v(4) u by (simp add: wrote_def)
  have "deliver_all en (map (Pair kExpectBody) ds @ [(st, e)]) s = (Ret True, s4)"
    using deliver_all_append [OF s1(1), of "[(st, e)]"] call s4(1) by simp
  with stored s4(3-5) len show ?thesis by (intro exI [of _ s4]) auto
qed

text \<open>A database that answers every statement with the row of user 5, and an upload that has stored two bytes.\<close>

definition one_user_env :: "(table_db, table_json) env" where
  "one_user_env = (table_env [])\<lparr>en_query := (\<lambda>db q. (Some [[Some ''5'', Some ''u'']], db))\<rparr>"

lemma constant_row_session:
  assumes "\<And>db x. en_query en db x = (Some [[Some ''5'', Some ''u'']], db)" and "sid \<noteq> []"
  shows "lasting_session en sid 5"
proof -
  have "fst (col_int [Some ''5'', Some ''u''] 0 ()) = Ret 5" "fst (col_string [Some ''5'', Some ''u''] 1 ()) = Ret ''u''"
    by code_simp+
  from validateSession_found [OF assms(2) _ assms(1) this] show ?thesis unfolding lasting_session_def by blast
qed

lemma one_user_session: "sid \<noteq> [] \<Longrightarrow> lasting_session one_user_env sid 5"
  by (rule constant_row_session) (simp add: one_user_env_def)

definition half_uploaded :: upload_ctx where
  "half_uploaded = \<lparr>uc_filename = ''uploads/u1'', uc_originalFilename = ''a.txt'', uc_totalBytes = 2,
     uc_state = UExpectBoundary, uc_boundary = ''--B''\<rparr>"

definition half_uploaded_state :: "table_db hstate" where
  "half_uploaded_state =
     (let s = start_state [] [(''uploads/u1'', ''ab'')] (simple_request kPost ''/upload'' [(''X-Session-ID'', ''k'')])
      in s\<lparr>hs_ctx := (hs_ctx s)\<lparr>hc_state := kExpectBody, hc_custom := Some (Upload half_uploaded)\<rparr>\<rparr>)"

theorem upload_arrives_witness:
  "\<exists>s'. deliver_all one_user_env [(kExpectBody, ''cd''), (kGotAll, ''e--B--'')] half_uploaded_state = (Ret True, s')
     \<and> ap_files (hs_app s') ''uploads/u1'' = Some ''abcde'' \<and> rs_statusCode (hs_resp s') = k200Ok"
proof -
  have u: "uploading ''k'' half_uploaded ''ab'' half_uploaded_state"
    by (simp add: uploading_def half_uploaded_state_def half_uploaded_def start_state_def simple_request_def getHeader_def gotAll_def)
  have w: "\<forall>n. en_write_ok one_user_env (uc_filename half_uploaded) n"
    "\<forall>n i. \<exists>t. en_dump one_user_env (upload_json (half_uploaded\<lparr>uc_totalBytes := n, uc_state := UComplete\<rparr>) i) = Inr t"
    by (simp_all add: one_user_env_def table_env_def)
  have b: "\<forall>d \<in> set [''cd'']. d \<noteq> [] \<and> find_sub (uc_boundary half_uploaded) d = None"
    "find_sub (uc_boundary half_uploaded @ ''--'') ''e--B--'' = Some 1" "uc_filename half_uploaded = ''uploads/u1''"
    by (simp_all add: half_uploaded_def)
  from upload_arrives [OF one_user_session u w(1) b(1,2) w(2), of kGotAll] b(3) show ?thesis by auto
qed

end
