(* ===== verification/Sharing.thy ===== *)
theory Sharing
  imports Upload
begin

text \<open>
  Share codes and links, deletion by the owner, and the filename mapping: the random codes have the form
  that \<open>handleShareAccess\<close> checks and their links lead back to it; files change only for their owner;
  a share of type \<open>user\<close> without a user is recorded and then reported as failed; the mapping returns what
  was added.
\<close>

section \<open>Codes\<close>

lemma draw_run: "\<exists>k s'. draw en lo hi s = (Ret k, s') \<and> lo \<le> k \<and> k \<le> lo + (hi - lo)"
  by (simp add: draw_def upd_app_def less_Suc_eq_le [symmetric])

lemma random_code_run:
  assumes "length chars = 36"
  shows "\<exists>c s'. random_code en chars n s = (Ret c, s') \<and> length c = n \<and> set c \<subseteq> set chars"
proof (induction n arbitrary: s)
  case 0
  show ?case by (simp add: ret_def)
next
  case (Suc n)
  obtain k s1 where k: "draw en 0 35 s = (Ret k, s1)" "k \<le> 35" using draw_run [of en 0 35 s] by auto
  from Suc.IH [of s1] obtain c s2 where c: "random_code en chars n s1 = (Ret c, s2)" "length c = n" "set c \<subseteq> set chars" by blast
  have "chars ! k \<in> set chars" using k(2) assms by (simp add: nth_mem)
  with k c show ?case by (simp add: bindE_Ret [of "draw en 0 35", OF k(1)] bindE_Ret [of "random_code en chars n", OF c(1)] ret_def)
qed

lemma db_only_random_code [db_only_intros]: "db_only (random_code en chars n)"
  by (induction n) (simp_all add: db_only_pure db_only_bind db_only_draw)

lemma random_code_mysql: "ap_mysql (hs_app (snd (random_code en chars n s))) = ap_mysql (hs_app s)"
proof (induction n arbitrary: s)
  case (Suc n)
  let ?s1 = "upd_app (\<lambda>a. a\<lparr>ap_draws := ap_draws a + 1\<rparr>) s"
  from Suc.IH [of ?s1] show ?case
    by (auto simp: bindE_def draw_def ret_def upd_app_def split: prod.split outcome.split)
qed (simp add: ret_def)



section \<open>Deletion\<close>

definition deleted :: "('db, 'j) env \<Rightarrow> string \<Rightarrow> 'db app_state \<Rightarrow> 'db app_state" where
  "deleted en filename a = eraseFilenameMapping en filename (unlink_file en (c_str (uploadDir @ ''/'' @ filename)) a)"

lemma load_keeps: "ap_files (loadFilenameMapping en a) = ap_files a" "ap_sql (loadFilenameMapping en a) = ap_sql a"
  by (simp_all add: loadFilenameMapping_def split: option.split)

lemma deleted_files:
  "ap_files (deleted en filename a) f \<noteq> ap_files a f \<Longrightarrow> f = c_str (uploadDir @ ''/'' @ filename) \<or> f = mappingFile"
  by (auto simp: deleted_def eraseFilenameMapping_def saveFilenameMapping_def Let_def load_keeps unlink_file_def split: if_splits)

lemma deleted_sql: "ap_sql (deleted en filename a) = ap_sql a"
  by (simp add: deleted_def eraseFilenameMapping_def saveFilenameMapping_def Let_def load_keeps unlink_file_def)

lemma executeQuery_sent:
  assumes "executeQuery en q s = (Ret ok, s')"
  shows "ap_sql (hs_app s') = ap_sql (hs_app s) @ (if ap_mysql (hs_app s) = None then [] else [c_str q])"
    and "ap_mysql (hs_app s') = None \<longleftrightarrow> ap_mysql (hs_app s) = None" and "ok \<Longrightarrow> ap_mysql (hs_app s) \<noteq> None"
  using assms
  by (auto simp: executeQuery_def executeQueryWithResult_def bindE_def ret_def upd_app_def split: option.splits prod.splits)

lemma reply_json_files:
  "reply_json en j s = (Ret b, s') \<Longrightarrow> hs_app s' = hs_app s"
  by (auto simp: reply_json_def proc_inv upd_resp_def setWriteCompleteCallback_def)

lemma delete_for_files:
  assumes "delete_for en userId s = (Ret b, s')" and "ap_files (hs_app s') f \<noteq> ap_files (hs_app s) f"
  shows "\<exists>row fileId s1. query_first en (delete_query (escaped en s (getPathParam (req s) ''filename'')) userId) s = (Ret (Some row), s1)
    \<and> fst (col_int row 0 ()) = Ret fileId
    \<and> ap_sql (hs_app s') = ap_sql (hs_app s1) @ [c_str (delete_shares_sql fileId), c_str (delete_file_sql fileId)]
    \<and> (f = c_str (uploadDir @ ''/'' @ getPathParam (req s) ''filename'') \<or> f = mappingFile)"
proof -
  let ?fn = "getPathParam (req s) ''filename''"
  have ff: "fail en m c t = (Ret b, s') \<Longrightarrow> ap_files (hs_app t) = ap_files (hs_app s) \<Longrightarrow> False" for m c t
    using fail_actions [of en m c t b s'] assms(2) by auto
  have nn: "?fn \<noteq> []" using assms(1) ff [of _ _ s] by (auto simp: delete_for_def bindE_gets)
  with assms(1) obtain found s1 where
    q: "query_first en (delete_query (escaped en s ?fn) userId) s = (Ret found, s1)" and
    r1: "(case found of None \<Rightarrow> fail en msg_delete_denied k403Forbidden
       | Some row \<Rightarrow>
           bindE (col_int row 0) (\<lambda>fileId.
           bindE (executeQuery en (delete_shares_sql fileId)) (\<lambda>_.
           bindE (executeQuery en (delete_file_sql fileId)) (\<lambda>ok.
           if \<not> ok then fail en msg_delete_failed k500InternalServerError
           else thenE (modify (upd_app (unlink_file en (c_str (uploadDir @ ''/'' @ ?fn)))))
               (thenE (modify (upd_app (eraseFilenameMapping en ?fn)))
                  (reply_json en (jobj [(''code'', JInt 0), (''message'', JStr ''success'')]))))))) s1 = (Ret b, s')"
    unfolding delete_for_def bindE_gets if_not_P [OF nn] bindE_escape bindE_eq_Ret [of "query_first en _"] by blast
  note s1 = db_only_step [OF db_only_calls(3) q]
  from r1 ff s1(4) obtain row where row: "found = Some row" by (cases found) auto
  with r1 obtain fileId ok1 ok s2 s3 where
    i: "fst (col_int row 0 ()) = Ret fileId" and
    e: "executeQuery en (delete_shares_sql fileId) s1 = (Ret ok1, s2)" "executeQuery en (delete_file_sql fileId) s2 = (Ret ok, s3)" and
    r2: "(if \<not> ok then fail en msg_delete_failed k500InternalServerError
           else thenE (modify (upd_app (unlink_file en (c_str (uploadDir @ ''/'' @ ?fn)))))
               (thenE (modify (upd_app (eraseFilenameMapping en ?fn)))
                  (reply_json en (jobj [(''code'', JInt 0), (''message'', JStr ''success'')])))) s3 = (Ret b, s')"
    by (auto simp: col_binds bindE_eq_Ret [of "executeQuery en _"])
  have f3: "ap_files (hs_app s3) = ap_files (hs_app s)"
    using db_only_step(4) [OF db_only_calls(1) e(1)] db_only_step(4) [OF db_only_calls(1) e(2)] s1(4) by simp
  with r2 ff have ok: "ok" by (cases ok) auto
  with r2 have app: "hs_app s' = deleted en ?fn (hs_app s3)"
    by (auto simp: thenE_modify upd_app_def deleted_def dest: reply_json_files)
  from this assms(2) f3 deleted_files [of en ?fn "hs_app s3" f] have "f = c_str (uploadDir @ ''/'' @ ?fn) \<or> f = mappingFile"
    by auto
  moreover have "ap_sql (hs_app s') = ap_sql (hs_app s1) @ [c_str (delete_shares_sql fileId), c_str (delete_file_sql fileId)]"
    using app executeQuery_sent [OF e(1)] executeQuery_sent [OF e(2)] ok by (simp add: deleted_sql)
  ultimately show ?thesis using q row i by blast
qed

section \<open>Properties\<close>

text \<open>
  C9: Files are deleted only for their owner. When \<open>handleDelete\<close> changes any file, the request named a
  valid session, the database returned a row for the file under that session's user, both delete
  statements (shares first, then the file's row) were sent for that row, and the only files that changed
  are the named upload and the mapping file.
\<close>

theorem delete_only_own:
  assumes "handleDelete en s = (Ret b, s')" and "ap_files (hs_app s') f \<noteq> ap_files (hs_app s) f"
  shows "\<exists>userId name s1 row fileId s2.
      validateSession en (getHeader (req s) ''X-Session-ID'') s = (Ret (Some (userId, name)), s1)
    \<and> query_first en (delete_query (escaped en s1 (getPathParam (req s) ''filename'')) userId) s1 = (Ret (Some row), s2)
    \<and> fst (col_int row 0 ()) = Ret fileId
    \<and> ap_sql (hs_app s') = ap_sql (hs_app s2) @ [c_str (delete_shares_sql fileId), c_str (delete_file_sql fileId)]
    \<and> (f = c_str (uploadDir @ ''/'' @ getPathParam (req s) ''filename'') \<or> f = mappingFile)"
proof -
  let ?sid = "getHeader (req s) ''X-Session-ID''"
  from assms(1) obtain session s1 where v: "validateSession en ?sid s = (Ret session, s1)" and
    r: "(case session of None \<Rightarrow> fail en msg_session k401Unauthorized | Some (userId, username) \<Rightarrow> delete_for en userId) s1 = (Ret b, s')"
    unfolding handleDelete_def with_session_def bindE_gets bindE_eq_Ret [of "validateSession en _"] by blast
  note s1 = db_only_step [OF db_only_validateSession v]
  have "session \<noteq> None"
  proof
    assume "session = None"
    with r have "fail en msg_session k401Unauthorized s1 = (Ret b, s')" by simp
    with fail_actions [OF this] assms(2) s1(4) show False by simp
  qed
  then obtain userId name where n: "session = Some (userId, name)" by force
  with r have "delete_for en userId s1 = (Ret b, s')" by simp
  from delete_for_files [OF this, of f] assms(2) s1(1,4) v n show ?thesis by (simp; blast)
qed

definition delete_request_state :: "table_db hstate" where
  "delete_request_state = start_state [] [(''uploads/f'', ''data'')]
     ((simple_request kDelete ''/delete/f'' [(''X-Session-ID'', ''k'')])\<lparr>rq_pathParams := Map.empty(''filename'' \<mapsto> ''f'')\<rparr>)"

lemma one_user_query:
  "ap_mysql (hs_app s) = Some db \<Longrightarrow> executeQueryWithResult one_user_env q s =
     (Ret (Some [[Some ''5'', Some ''u'']]), upd_app (\<lambda>a. a\<lparr>ap_mysql := Some db, ap_sql := ap_sql a @ [c_str q]\<rparr>) s)"
  by (simp add: executeQueryWithResult_def one_user_env_def)

lemma one_user_delete:
  "\<exists>s'. handleDelete one_user_env delete_request_state = (Ret True, s') \<and> ap_files (hs_app s') ''uploads/f'' = None"
proof -
  let ?en = one_user_env and ?s = delete_request_state
  have h: "getHeader (req ?s) ''X-Session-ID'' = ''k''" "getPathParam (req ?s) ''filename'' = ''f''"
    "ap_mysql (hs_app ?s) = Some []"
    by (simp_all add: delete_request_state_def start_state_def simple_request_def getHeader_def getPathParam_def)
  from one_user_session [of "''k''"] h(3) obtain name s1 where
    v: "validateSession ?en ''k'' ?s = (Ret (Some (5, name)), s1)" "ap_mysql (hs_app s1) \<noteq> None"
    unfolding lasting_session_def by auto
  note s1 = db_only_step [OF db_only_validateSession v(1)]
  from v(2) obtain db where db: "ap_mysql (hs_app s1) = Some db" by blast
  have c: "fst (col_int [Some ''5'', Some ''u''] 0 ()) = Ret 5" by code_simp
  have p: "c_str (uploadDir @ ''/'' @ ''f'') = ''uploads/f''" by (simp add: uploadDir_def c_str_def)
  have ne: "''uploads/f'' \<noteq> mappingFile" by (simp add: mappingFile_def)
  have x: "ap_files (hs_app s1) ''uploads/f'' = Some ''data''"
    using s1(4) by (simp add: delete_request_state_def start_state_def)
  have q: "\<exists>s2. query_first ?en (delete_query (escaped ?en s1 ''f'') 5) s1 = (Ret (Some [Some ''5'', Some ''u'']), s2)
      \<and> ap_mysql (hs_app s2) = Some db" (is "\<exists>s2. ?Q s2")
    by (simp add: query_first_def bindE_Ret [of "executeQueryWithResult ?en _", OF one_user_query [OF db]] ret_def upd_app_def)
  then obtain s2 where s2: "?Q s2" ..
  have ex: "\<exists>t'. executeQuery ?en y t = (Ret True, t') \<and> ap_mysql (hs_app t') = Some db" if "ap_mysql (hs_app t) = Some db" for y t
    by (simp add: executeQuery_def bindE_Ret [of "executeQueryWithResult ?en _", OF one_user_query [OF that]] ret_def upd_app_def)
  from ex s2 obtain s3 where s3: "executeQuery ?en (delete_shares_sql 5) s2 = (Ret True, s3)" "ap_mysql (hs_app s3) = Some db" by blast
  from ex s3(2) obtain s4 where s4: "executeQuery ?en (delete_file_sql 5) s3 = (Ret True, s4)" by blast
  have "ap_files (hs_app s4) ''uploads/f'' = Some ''data''"
    using x db_only_step(4) [OF db_only_calls(3) conjunct1 [OF s2]] db_only_step(4) [OF db_only_calls(1) s3(1)]
      db_only_step(4) [OF db_only_calls(1) s4] by simp
  then have gone: "ap_files (deleted ?en ''f'' (hs_app s4)) ''uploads/f'' = None"
    using ne unfolding deleted_def p
    by (auto simp: eraseFilenameMapping_def saveFilenameMapping_def Let_def load_keeps unlink_file_def one_user_env_def table_env_def)
  let ?j = "jobj [(''code'', JInt 0), (''message'', JStr ''success'')]" and ?s5 = "upd_app (deleted ?en ''f'') s4"
  have "en_dump ?en ?j = Inr ''{}''" by (simp add: one_user_env_def table_env_def)
  from reply_json_run [OF this, of ?s5] obtain s5 where s5: "reply_json ?en ?j ?s5 = (Ret True, s5)" "hs_app s5 = hs_app ?s5" by blast
  have "delete_for ?en 5 s1 = thenE (modify (upd_app (unlink_file ?en (c_str (uploadDir @ ''/'' @ ''f'')))))
      (thenE (modify (upd_app (eraseFilenameMapping ?en ''f''))) (reply_json ?en ?j)) s4"
    unfolding delete_for_def bindE_gets s1(1) h(2)
    by (simp add: bindE_escape bindE_Ret [of "query_first ?en _", OF conjunct1 [OF s2]] col_runs(1) [OF c]
        bindE_Ret [of "executeQuery ?en _", OF s3(1)] bindE_Ret [of "executeQuery ?en _", OF s4])
  also have "\<dots> = reply_json ?en ?j ?s5" by (simp add: thenE_modify upd_app_def deleted_def)
  finally have "handleDelete ?en ?s = (Ret True, s5)"
    unfolding handleDelete_def with_session_def bindE_gets h(1) bindE_Ret [of "validateSession ?en _", OF v(1)] by (simp add: s5(1))
  with gone s5(2) show ?thesis by (simp add: upd_app_def)
qed

theorem delete_only_own_witness:
  "\<exists>userId name s1 row s2. validateSession one_user_env ''k'' delete_request_state = (Ret (Some (userId, name)), s1)
     \<and> query_first one_user_env (delete_query (escaped one_user_env s1 ''f'') userId) s1 = (Ret (Some row), s2)"
proof -
  obtain s' where r: "handleDelete one_user_env delete_request_state = (Ret True, s')" "ap_files (hs_app s') ''uploads/f'' = None"
    using one_user_delete by blast
  have h: "getHeader (req delete_request_state) ''X-Session-ID'' = ''k''" "getPathParam (req delete_request_state) ''filename'' = ''f''"
    "ap_files (hs_app delete_request_state) ''uploads/f'' = Some ''data''"
    by (simp_all add: delete_request_state_def start_state_def simple_request_def getHeader_def getPathParam_def)
  have "ap_files (hs_app s') ''uploads/f'' \<noteq> ap_files (hs_app delete_request_state) ''uploads/f''" using r(2) h(3) by simp
  from delete_only_own [OF r(1) this] show ?thesis unfolding h by blast
qed


section \<open>The filename mapping\<close>

text \<open>Well-formed UTF-8 (RFC 3629): no overlong forms, no surrogates, nothing above \<open>U+10FFFF\<close>.\<close>

definition utf8_tail :: "nat \<Rightarrow> bool" where
  "utf8_tail b \<longleftrightarrow> 0x80 \<le> b \<and> b \<le> 0xBF"

fun utf8_codes :: "nat list \<Rightarrow> bool" where
  "utf8_codes [] = True"
| "utf8_codes (b # bs) =
     (if b < 0x80 then utf8_codes bs
      else case bs of
             [] \<Rightarrow> False
           | c # cs \<Rightarrow>
               if b \<le> 0xDF then 0xC2 \<le> b \<and> utf8_tail c \<and> utf8_codes cs
               else case cs of
                      [] \<Rightarrow> False
                    | d # ds \<Rightarrow>
                        if b \<le> 0xEF
                        then utf8_tail c \<and> (b = 0xE0 \<longrightarrow> 0xA0 \<le> c) \<and> (b = 0xED \<longrightarrow> c \<le> 0x9F) \<and> utf8_tail d \<and> utf8_codes ds
                        else case ds of
                               [] \<Rightarrow> False
                             | e # es \<Rightarrow> b \<le> 0xF4 \<and> utf8_tail c \<and> (b = 0xF0 \<longrightarrow> 0x90 \<le> c) \<and> (b = 0xF4 \<longrightarrow> c \<le> 0x8F)
                                 \<and> utf8_tail d \<and> utf8_tail e \<and> utf8_codes es)"

definition utf8_map :: "(string \<times> string) list \<Rightarrow> bool" where
  "utf8_map m \<longleftrightarrow> list_all (\<lambda>(k, v). utf8_codes (map of_char k) \<and> utf8_codes (map of_char v)) m"

text \<open>
  The JSON library's contract for the mapping file: \<open>dump\<close> throws exactly when a string is not valid UTF-8, what was
  dumped parses back to the same entries, and an empty text does not parse. The mapping file can be opened for writing.
\<close>

definition mapping_laws :: "('db, 'j) env \<Rightarrow> bool" where
  "mapping_laws en \<longleftrightarrow> en_open_ok en mappingFile
     \<and> (\<forall>m. om_inv m \<and> utf8_map m \<longrightarrow> (\<exists>t. en_mapping_dump en m = Some t \<and> en_mapping_parse en t = Some m))
     \<and> (\<forall>m. \<not> utf8_map m \<longrightarrow> en_mapping_dump en m = None)
     \<and> en_mapping_parse en [] = None"

lemma put_all_same:
  fixes m :: "(string, string) omap"
  assumes "om_inv m"
  shows "om_get (fold (\<lambda>(k, v). om_put k v) m []) k = om_get m k"
proof -
  have "distinct (map fst m)" using assms by (simp add: om_inv_def strict_sorted_iff)
  then have "map_of (rev m) = map_of m" by (subst map_of_inject_set) (simp_all add: rev_map [symmetric])
  with om.put_all_get [OF om.inv_empty, of m k] show ?thesis by (simp add: om_get_def split: option.splits)
qed

text \<open>What a server that starts on these files loads into its empty mapping.\<close>

definition reloaded :: "('db, 'j) env \<Rightarrow> 'db app_state \<Rightarrow> (string, string) omap" where
  "reloaded en a = ap_mapping (loadFilenameMapping en (a\<lparr>ap_mapping := []\<rparr>))"

text \<open>
  A mapping written back: any later call of the same process finds it again; a new process does when it could be dumped, and finds
  an empty file otherwise.
\<close>

lemma load_saved:
  assumes "mapping_laws en" and "om_inv (ap_mapping a)"
  shows "om_get (ap_mapping (loadFilenameMapping en (saveFilenameMapping en a))) k = om_get (ap_mapping a) k"
    and "if utf8_map (ap_mapping a) then om_get (reloaded en (saveFilenameMapping en a)) k = om_get (ap_mapping a) k
      else ap_files (saveFilenameMapping en a) mappingFile = Some [] \<and> reloaded en (saveFilenameMapping en a) = []"
proof -
  have o: "en_open_ok en mappingFile" using assms(1) by (simp add: mapping_laws_def)
  show "om_get (ap_mapping (loadFilenameMapping en (saveFilenameMapping en a))) k = om_get (ap_mapping a) k"
    and "if utf8_map (ap_mapping a) then om_get (reloaded en (saveFilenameMapping en a)) k = om_get (ap_mapping a) k
      else ap_files (saveFilenameMapping en a) mappingFile = Some [] \<and> reloaded en (saveFilenameMapping en a) = []"
  proof (atomize (full), cases "utf8_map (ap_mapping a)")
    case True
    with assms obtain t where "en_mapping_dump en (ap_mapping a) = Some t" "en_mapping_parse en t = Some (ap_mapping a)"
      unfolding mapping_laws_def by blast
    with o True put_all_same [OF assms(2), of k]
    show "om_get (ap_mapping (loadFilenameMapping en (saveFilenameMapping en a))) k = om_get (ap_mapping a) k \<and>
      (if utf8_map (ap_mapping a) then om_get (reloaded en (saveFilenameMapping en a)) k = om_get (ap_mapping a) k
       else ap_files (saveFilenameMapping en a) mappingFile = Some [] \<and> reloaded en (saveFilenameMapping en a) = [])"
      by (simp add: loadFilenameMapping_def saveFilenameMapping_def reloaded_def)
  next
    case False
    then have "en_mapping_dump en (ap_mapping a) = None" "en_mapping_parse en [] = None"
      using assms(1) by (simp_all add: mapping_laws_def)
    with o False
    show "om_get (ap_mapping (loadFilenameMapping en (saveFilenameMapping en a))) k = om_get (ap_mapping a) k \<and>
      (if utf8_map (ap_mapping a) then om_get (reloaded en (saveFilenameMapping en a)) k = om_get (ap_mapping a) k
       else ap_files (saveFilenameMapping en a) mappingFile = Some [] \<and> reloaded en (saveFilenameMapping en a) = [])"
      by (simp add: loadFilenameMapping_def saveFilenameMapping_def reloaded_def)
  qed
qed

lemma loaded_inv: "om_inv (ap_mapping a) \<Longrightarrow> om_inv (ap_mapping (loadFilenameMapping en a))"
  using om.put_all_inv [OF om.inv_empty] by (auto simp: loadFilenameMapping_def split: option.split)

text \<open>
  C28: The filename mapping remembers, when the mapping file can be written and the JSON library does as documented. Whatever the
  mapping file held, after \<open>addFilenameMapping\<close> the original name of that server file is the one added and every other
  server file has the original name it had; after the entry is erased (\<open>handleDelete\<close>) the server file is its own original
  name again. That is so in the running server whatever the names are; a server that starts on the files afterwards loads the same
  entries if all names of the mapping are valid UTF-8. If one is not, \<open>dump\<close> throws after the file has been truncated: the
  file is left empty, and a new server loads no entry at all.
\<close>

theorem filename_mapping_roundtrip:
  assumes "mapping_laws en" and "om_inv (ap_mapping a)"
  shows "fst (getOriginalFilename en g (addFilenameMapping en f orig a))
      = (if g = f then orig else fst (getOriginalFilename en g a))
    \<and> fst (getOriginalFilename en g (eraseFilenameMapping en f a))
      = (if g = f then f else fst (getOriginalFilename en g a))
    \<and> (let m = om_put f orig (ap_mapping (loadFilenameMapping en a))
       in if utf8_map m then om_get (reloaded en (addFilenameMapping en f orig a)) g = om_get m g
       else ap_files (addFilenameMapping en f orig a) mappingFile = Some [] \<and> reloaded en (addFilenameMapping en f orig a) = [])
    \<and> (let m = om_erase f (ap_mapping (loadFilenameMapping en a))
       in if utf8_map m then om_get (reloaded en (eraseFilenameMapping en f a)) g = om_get m g
       else ap_files (eraseFilenameMapping en f a) mappingFile = Some [] \<and> reloaded en (eraseFilenameMapping en f a) = [])"
proof -
  let ?a1 = "loadFilenameMapping en a"
  define m_add where "m_add = om_put f orig (ap_mapping ?a1)"
  define m_erase where "m_erase = om_erase f (ap_mapping ?a1)"
  have i: "om_inv (ap_mapping ?a1)" using loaded_inv [OF assms(2)] .
  then have inv: "om_inv m_add" "om_inv m_erase" by (simp_all add: m_add_def m_erase_def om.inv_put om.inv_erase)
  have add: "addFilenameMapping en f orig a = saveFilenameMapping en (?a1\<lparr>ap_mapping := m_add\<rparr>)"
    and erase: "eraseFilenameMapping en f a = saveFilenameMapping en (?a1\<lparr>ap_mapping := m_erase\<rparr>)"
    by (simp_all add: addFilenameMapping_def eraseFilenameMapping_def m_add_def m_erase_def Let_def)
  have get: "fst (getOriginalFilename en g b) = (case om_get (ap_mapping (loadFilenameMapping en b)) g of Some t \<Rightarrow> t | None \<Rightarrow> g)" for b
    by (simp add: getOriginalFilename_def Let_def)
  have "om_get m_add g = (if g = f then Some orig else om_get (ap_mapping ?a1) g)"
    "om_get m_erase g = (if g = f then None else om_get (ap_mapping ?a1) g)"
    by (simp_all add: m_add_def m_erase_def om.get_put om.get_erase i)
  with load_saved [OF assms(1), of "?a1\<lparr>ap_mapping := m_add\<rparr>" g] load_saved [OF assms(1), of "?a1\<lparr>ap_mapping := m_erase\<rparr>" g] inv
  show ?thesis unfolding get add erase Let_def m_add_def [symmetric] m_erase_def [symmetric] by simp
qed

subsection \<open>The mapping file as JSON\<close>

text \<open>
  A printer and a reader for JSON objects of strings, in the layout of \<open>dump(2)\<close>: the printer refuses what is not UTF-8 and escapes
  quotes, backslashes and control characters; the reader skips white space and refuses everything but one object.
\<close>

definition json_hex :: "nat \<Rightarrow> char" where
  "json_hex d = ''0123456789abcdef'' ! d"

definition json_escape :: "char \<Rightarrow> string" where
  "json_escape c =
     (let n = of_char c :: nat
      in if c = quote_char \<or> c = backslash then [backslash, c]
         else if n = 8 then [backslash, CHR ''b''] else if n = 9 then [backslash, CHR ''t'']
         else if n = 10 then [backslash, CHR ''n''] else if n = 12 then [backslash, CHR ''f'']
         else if n = 13 then [backslash, CHR ''r'']
         else if n < 32 then [backslash, CHR ''u'', CHR ''0'', CHR ''0'', json_hex (n div 16), json_hex (n mod 16)]
         else [c])"

definition json_string :: "string \<Rightarrow> string" where
  "json_string s = quote_char # concat (map json_escape s) @ [quote_char]"

definition json_entry :: "string \<times> string \<Rightarrow> string" where
  "json_entry kv = lf # ''  '' @ json_string (fst kv) @ '': '' @ json_string (snd kv)"

fun json_entries :: "(string \<times> string) list \<Rightarrow> string" where
  "json_entries [] = []"
| "json_entries [kv] = json_entry kv @ [lf, CHR 0x7D]"
| "json_entries (kv # kvs) = json_entry kv @ CHR '','' # json_entries kvs"

definition json_object :: "(string \<times> string) list \<Rightarrow> string" where
  "json_object m = CHR 0x7B # (if m = [] then [CHR 0x7D] else json_entries m)"

definition json_unescape :: "char \<Rightarrow> char option" where
  "json_unescape c =
     (if c = quote_char \<or> c = backslash \<or> c = CHR ''/'' then Some c
      else if c = CHR ''b'' then Some CHR 0x08 else if c = CHR ''t'' then Some CHR 0x09
      else if c = CHR ''n'' then Some CHR 0x0A else if c = CHR ''f'' then Some CHR 0x0C
      else if c = CHR ''r'' then Some CHR 0x0D else None)"

function json_read_string :: "string \<Rightarrow> (string \<times> string) option" where
  "json_read_string s =
     (case s of
        [] \<Rightarrow> None
      | c # r \<Rightarrow>
          if c = quote_char then Some ([], r)
          else if c \<noteq> backslash
          then if (of_char c :: nat) < 32 then None else map_option (apfst (Cons c)) (json_read_string r)
          else if take 3 r = ''u00''
          then case (hex_val (r ! 3), hex_val (r ! 4)) of
                 (Some x, Some y) \<Rightarrow>
                   if x < 8 \<and> 5 \<le> length r then map_option (apfst (Cons (char_of (16 * x + y)))) (json_read_string (drop 5 r)) else None
               | _ \<Rightarrow> None
          else case r of
                 [] \<Rightarrow> None
               | e # r' \<Rightarrow>
                   (case json_unescape e of
                      None \<Rightarrow> None
                    | Some d \<Rightarrow> map_option (apfst (Cons d)) (json_read_string r')))"
  by pat_completeness auto
termination by (relation "measure length") auto

declare json_read_string.simps [simp del]

definition json_expect :: "char \<Rightarrow> string \<Rightarrow> string option" where
  "json_expect c s =
     (case dropWhile is_space s of [] \<Rightarrow> None | d # r \<Rightarrow> if d = c then Some r else None)"

definition json_quoted :: "string \<Rightarrow> (string \<times> string) option" where
  "json_quoted s = Option.bind (json_expect quote_char s) json_read_string"

fun json_read_entries :: "nat \<Rightarrow> string \<Rightarrow> (string \<times> string) list option" where
  "json_read_entries 0 s = None"
| "json_read_entries (Suc n) s = do {
     (k, s1) \<leftarrow> json_quoted s;
     s2 \<leftarrow> json_expect CHR '':'' s1;
     (v, s3) \<leftarrow> json_quoted s2;
     (case json_expect CHR '','' s3 of
        Some s4 \<Rightarrow> map_option (Cons (k, v)) (json_read_entries n s4)
      | None \<Rightarrow> do {
          s4 \<leftarrow> json_expect CHR 0x7D s3;
          if dropWhile is_space s4 = [] then Some [(k, v)] else None }) }"

definition json_read_object :: "string \<Rightarrow> (string \<times> string) list option" where
  "json_read_object s = do {
     s1 \<leftarrow> json_expect CHR 0x7B s;
     (case json_expect CHR 0x7D s1 of
        Some s2 \<Rightarrow> if dropWhile is_space s2 = [] then Some [] else None
      | None \<Rightarrow> json_read_entries (length s1) s1) }"

lemma hex_val_digit: "d < 16 \<Longrightarrow> hex_val (json_hex d) = Some d"
proof -
  have "list_all (\<lambda>d. hex_val (json_hex d) = Some d) [0..<16]" by code_simp
  then show "d < 16 \<Longrightarrow> hex_val (json_hex d) = Some d" by (simp add: list_all_iff)
qed

lemma json_read_escape: "json_read_string (json_escape c @ r) = map_option (apfst (Cons c)) (json_read_string r)"
proof (cases "(of_char c :: nat) < 32 \<and> of_char c \<notin> {8, 9, 10, 12, 13 :: nat}")
  case True
  let ?n = "of_char c :: nat"
  have q: "c \<noteq> quote_char" "c \<noteq> backslash" using True by (auto simp: quote_char_def backslash_def)
  with True have e: "json_escape c = backslash # ''u00'' @ [json_hex (?n div 16), json_hex (?n mod 16)]"
    by (simp add: json_escape_def Let_def)
  have h: "hex_val (json_hex (?n div 16)) = Some (?n div 16)" "hex_val (json_hex (?n mod 16)) = Some (?n mod 16)"
    using True by (intro hex_val_digit; simp)+
  have "?n div 16 < 8" using True by (intro less_mult_imp_div_less) simp
  with True h show ?thesis unfolding e
    by (subst json_read_string.simps) (simp add: quote_char_def backslash_def)
next
  case False
  have chars: "char_of (8 :: nat) = CHR 0x08" "char_of (9 :: nat) = CHR 0x09" "char_of (10 :: nat) = CHR 0x0A"
    "char_of (12 :: nat) = CHR 0x0C" "char_of (13 :: nat) = CHR 0x0D" by code_simp+
  have n: "c = char_of k" if "(of_char c :: nat) = k" for k using that by (metis char_of_char)
  have "32 \<le> (of_char c :: nat) \<or> (of_char c :: nat) = 8 \<or> (of_char c :: nat) = 9 \<or> (of_char c :: nat) = 10
      \<or> (of_char c :: nat) = 12 \<or> (of_char c :: nat) = 13"
    using False by auto
  then consider "c = quote_char" | "c = backslash" | "c = CHR 0x08" | "c = CHR 0x09" | "c = CHR 0x0A"
    | "c = CHR 0x0C" | "c = CHR 0x0D" | "32 \<le> (of_char c :: nat)" "c \<noteq> quote_char" "c \<noteq> backslash"
    using n [of 8] n [of 9] n [of 10] n [of 12] n [of 13] unfolding chars by blast
  then show ?thesis
    by cases (subst json_read_string.simps, simp add: json_escape_def json_unescape_def quote_char_def backslash_def Let_def)+
qed

lemma json_read_printed: "json_read_string (concat (map json_escape s) @ quote_char # r) = Some (s, r)"
  by (induction s) (simp_all add: json_read_escape, simp add: json_read_string.simps [of "quote_char # r"])

lemma json_quoted_printed: "list_all is_space w \<Longrightarrow> json_quoted (w @ json_string s @ r) = Some (s, r)"
  using json_read_printed [of s r]
  by (induction w) (simp_all add: json_quoted_def json_expect_def json_string_def quote_char_def is_space_def)

lemma json_entry_read:
  "json_read_entries (Suc n) (json_entry (k, v) @ r) =
     (case json_expect CHR '','' r of
        Some s4 \<Rightarrow> map_option (Cons (k, v)) (json_read_entries n s4)
      | None \<Rightarrow> do { s4 \<leftarrow> json_expect CHR 0x7D r; if dropWhile is_space s4 = [] then Some [(k, v)] else None })"
proof -
  have "json_quoted (json_entry (k, v) @ r) = Some (k, '': '' @ json_string v @ r)"
    using json_quoted_printed [of "lf # ''  ''" k "'': '' @ json_string v @ r"] by (simp add: json_entry_def is_space_def lf_def)
  moreover have "json_expect CHR '':'' ('': '' @ json_string v @ r) = Some ('' '' @ json_string v @ r)"
    by (simp add: json_expect_def is_space_def)
  moreover have "json_quoted ('' '' @ json_string v @ r) = Some (v, r)"
    using json_quoted_printed [of "'' ''" v r] by (simp add: is_space_def)
  ultimately show ?thesis by simp
qed

lemma json_entries_read: "kvs \<noteq> [] \<Longrightarrow> length kvs \<le> n \<Longrightarrow> json_read_entries n (json_entries kvs) = Some kvs"
proof (induction kvs arbitrary: n rule: json_entries.induct)
  case (2 kv)
  then obtain n' where "n = Suc n'" by (cases n) auto
  then show ?case
    by (cases kv) (simp add: json_entry_read json_expect_def is_space_def lf_def del: json_read_entries.simps(2))
next
  case (3 kv kv' kvs)
  then obtain n' where n: "n = Suc n'" "json_read_entries n' (json_entries (kv' # kvs)) = Some (kv' # kvs)" by (cases n) auto
  then show ?case
    by (cases kv) (simp add: json_entry_read json_expect_def is_space_def del: json_read_entries.simps(2))
qed simp

lemma json_object_read: "json_read_object (json_object m) = Some m"
proof (cases m)
  case (Cons kv kvs)
  have len: "length m \<le> length (json_entries m)" by (induction m rule: json_entries.induct) (auto simp: json_entry_def)
  have "\<exists>z. json_entries m = lf # CHR '' '' # CHR '' '' # quote_char # z"
    unfolding Cons by (cases kvs) (simp_all add: json_entry_def json_string_def)
  then have "json_expect CHR 0x7D (json_entries m) = None"
    by (auto simp: json_expect_def is_space_def lf_def quote_char_def)
  with json_entries_read [OF _ len] Cons show ?thesis
    by (simp add: json_read_object_def json_object_def json_expect_def [of "CHR 0x7B"] is_space_def)
qed (simp add: json_read_object_def json_object_def json_expect_def is_space_def)

definition mapping_env :: "(table_db, table_json) env" where
  "mapping_env = (table_env [])\<lparr>en_mapping_dump := (\<lambda>m. if utf8_map m then Some (json_object m) else None),
     en_mapping_parse := json_read_object\<rparr>"

lemma mapping_env_laws: "mapping_laws mapping_env"
  using json_object_read
  by (simp add: mapping_laws_def mapping_env_def table_env_def) (simp add: json_read_object_def json_expect_def)

text \<open>A name with a quote in it survives; one with the byte \<open>0xFF\<close> is remembered and empties the file.\<close>

theorem filename_mapping_roundtrip_witness:
  "let a = hs_app (start_state [] [] (simple_request kGet [] []));
       name = [CHR ''a'', quote_char];
       good = addFilenameMapping mapping_env ''u1'' name a;
       bad = addFilenameMapping mapping_env ''u2'' [CHR 0xFF] good
   in fst (getOriginalFilename mapping_env ''u1'' good) = name \<and> om_get (reloaded mapping_env good) ''u1'' = Some name
    \<and> fst (getOriginalFilename mapping_env ''u2'' bad) = [CHR 0xFF] \<and> fst (getOriginalFilename mapping_env ''u1'' bad) = name
    \<and> ap_files bad mappingFile = Some [] \<and> reloaded mapping_env bad = []"
proof -
  define a where "a = hs_app (start_state [] [] (simple_request kGet [] []))"
  define name where "name = [CHR ''a'', quote_char]"
  define good where "good = addFilenameMapping mapping_env ''u1'' name a"
  have a: "ap_mapping a = []" "ap_files a = Map.empty" by (simp_all add: a_def start_state_def)
  have load: "loadFilenameMapping mapping_env a = a" by (simp add: loadFilenameMapping_def a)
  have m: "om_put ''u1'' name (ap_mapping (loadFilenameMapping mapping_env a)) = [(''u1'', name)]" by (simp add: load a)
  have u: "utf8_map [(''u1'', name)]" unfolding name_def by code_simp
  have "om_inv (ap_mapping a)" by (simp add: a)
  note one = filename_mapping_roundtrip [OF mapping_env_laws this, of "''u1''" "''u1''" name]
  have g: "fst (getOriginalFilename mapping_env ''u1'' good) = name" "om_get (reloaded mapping_env good) ''u1'' = Some name"
    using one u unfolding m good_def by (simp_all add: om_get_def)
  have env: "en_open_ok mapping_env mappingFile"
    "en_mapping_dump mapping_env [(''u1'', name)] = (if utf8_map [(''u1'', name)] then Some (json_object [(''u1'', name)]) else None)"
    by (simp_all add: mapping_env_def table_env_def)
  have files: "ap_files good mappingFile = Some (json_object [(''u1'', name)])" "ap_mapping good = [(''u1'', name)]"
    using u env by (simp_all add: good_def addFilenameMapping_def saveFilenameMapping_def Let_def load a)
  have l: "ap_mapping (loadFilenameMapping mapping_env good) = [(''u1'', name)]"
    using files by (simp add: loadFilenameMapping_def mapping_env_def json_object_read)
  have m2: "om_put ''u2'' [CHR 0xFF] [(''u1'', name)] = [(''u1'', name), (''u2'', [CHR 0xFF])]" by code_simp
  have nu: "\<not> utf8_map [(''u1'', name), (''u2'', [CHR 0xFF])]" unfolding name_def by code_simp
  have "om_inv (ap_mapping good)" by (simp add: files om_inv_def)
  from filename_mapping_roundtrip [OF mapping_env_laws this, of "''u2''" "''u2''" "[CHR 0xFF]"]
    filename_mapping_roundtrip [OF mapping_env_laws this, of "''u1''" "''u2''" "[CHR 0xFF]"] nu g
  show ?thesis unfolding l m2 Let_def a_def [symmetric] name_def [symmetric] good_def [symmetric] by simp
qed

section \<open>Sharing with a user that is not named\<close>

lemma stoi_NULL: "stoi ''NULL'' s = (Throw ''stoi'', s)"
  by (simp add: stoi_def signed_digits_def is_space_def is_digit_def Let_def throw_def)

lemma share_reply_user_null:
  "share_reply en i ''user'' code ''NULL'' ec s = (Throw ''stoi'', s)"
  by (simp add: share_reply_def bindE_def stoi_NULL)

text \<open>
  A share of type \<open>user\<close> without \<open>sharedWithId\<close> is stored and then reported as failed: the row is
  inserted with a null grantee, after which \<open>std::stoi\<close> of the text \<open>NULL\<close> throws and the owner is
  answered 500.
\<close>

lemma share_without_grantee:
  assumes "validateSession en (getHeader (req s) ''X-Session-ID'') s = (Ret (Some (userId, name)), s1)"
    and "en_parse en (rq_body (req s)) = Inr j" and "en_get_int en j ''fileId'' = Inr fileId"
    and "en_get_string en j ''shareType'' = Inr ''user''" and "\<not> en_contains en j ''sharedWithId''"
    and "\<not> en_contains en j ''expireTime''"
    and "query_first en (share_owned_query fileId userId) s1 = (Ret (Some row), s2)"
    and "ap_mysql (hs_app s2) \<noteq> None" and "\<forall>db q. fst (en_query en db q) \<noteq> None"
    and "en_dump en (error_json (msg_share_error @ ''stoi'') k500InternalServerError) = Inr body"
  shows "\<exists>s' st sc. handleShareFile en s = (Ret True, s') \<and> rs_statusCode (hs_resp s') = k500InternalServerError
    \<and> last (ap_sql (hs_app s')) = c_str (share_insert_sql fileId userId ''NULL'' st sc ''NULL'' ''NULL'')"
proof -
  note s1 = db_only_step(1) [OF db_only_validateSession assms(1)]
  have "length lower_alnum = 36" by (simp add: lower_alnum_def)
  from random_code_run [OF this, of en 32 s2] obtain code s3 where
    c: "generateShareCode en s2 = (Ret code, s3)" unfolding generateShareCode_def by blast
  have m3: "ap_mysql (hs_app s3) \<noteq> None" using c assms(8) random_code_mysql [of en lower_alnum 32 s2]
    by (simp add: generateShareCode_def)
  let ?q = "share_insert_sql fileId userId ''NULL'' (escaped en s3 ''user'') (escaped en s3 code) ''NULL'' ''NULL''"
  from m3 obtain db where db: "ap_mysql (hs_app s3) = Some db" by blast
  obtain rows db' where "en_query en db (c_str ?q) = (Some rows, db')" using assms(9) by (metis option.exhaust prod.collapse)
  then have e: "executeQuery en ?q s3 = (Ret True, upd_app (\<lambda>a. a\<lparr>ap_mysql := Some db', ap_sql := ap_sql a @ [c_str ?q]\<rparr>) s3)"
    (is "_ = (_, ?s4)") using db by (simp add: executeQuery_def executeQueryWithResult_def bindE_def ret_def)
  have i: "insertId en ?s4 = (Ret (int32_cast (en_insert_id en db')), ?s4)" by (simp add: insertId_def upd_app_def)
  have x: "expire_sql en j s2 = (Ret ''NULL'', s2)" using assms(6) by (simp add: expire_sql_def ret_def)
  have t: "share_target en j fileId ''user'' s3 = (Ret (Some (''NULL'', ''NULL'')), s3)"
    using assms(5) by (simp add: share_target_def ret_def)
  have "handleShareFile en s = fail en (msg_share_error @ ''stoi'') k500InternalServerError ?s4"
    unfolding handleShareFile_def with_session_def bindE_gets bindE_Ret [of "validateSession en _", OF assms(1)]
    by (simp add: tryE_def bindE_gets s1 assms(2-4) bindE_Inr bindE_Ret [of "query_first en _", OF assms(7)]
        bindE_Ret [of "expire_sql en j", OF x] bindE_Ret [of "generateShareCode en", OF c]
        bindE_Ret [of "share_target en j fileId ''user''", OF t] bindE_escape bindE_Ret [of "executeQuery en _", OF e]
        bindE_Ret [of "insertId en", OF i] share_reply_user_null)
  with fail_run [OF assms(10), of ?s4] show ?thesis by (simp add: upd_app_def; blast)
qed

definition share_env :: "(table_db, table_json) env" where
  "share_env = (table_env [(''fileId'', Inr 3), (''shareType'', Inl ''user'')])
     \<lparr>en_query := (\<lambda>db q. (Some [[Some ''5'', Some ''u'']], db))\<rparr>"

lemma share_without_grantee_witness:
  "\<exists>s' st sc. handleShareFile share_env (start_state [] [] (simple_request kPost ''/share'' [(''X-Session-ID'', ''k'')])) = (Ret True, s')
     \<and> rs_statusCode (hs_resp s') = k500InternalServerError
     \<and> last (ap_sql (hs_app s')) = c_str (share_insert_sql 3 5 ''NULL'' st sc ''NULL'' ''NULL'')"
proof -
  let ?s = "start_state [] [] (simple_request kPost ''/share'' [(''X-Session-ID'', ''k'')])"
  have h: "getHeader (req ?s) ''X-Session-ID'' = ''k''" "ap_mysql (hs_app ?s) = Some []"
    by (simp_all add: start_state_def simple_request_def getHeader_def)
  have q: "en_query share_env db x = (Some [[Some ''5'', Some ''u'']], db)" for db x by (simp add: share_env_def)
  from constant_row_session [of share_env "''k''", OF q] h(2) obtain name s1 where
    v: "validateSession share_env ''k'' ?s = (Ret (Some (5, name)), s1)" "ap_mysql (hs_app s1) \<noteq> None"
    unfolding lasting_session_def by auto
  from v(2) obtain db where db: "ap_mysql (hs_app s1) = Some db" by blast
  obtain s2 where s2: "query_first share_env (share_owned_query 3 5) s1 = (Ret (Some [Some ''5'', Some ''u'']), s2)"
    "ap_mysql (hs_app s2) \<noteq> None"
    by (simp add: query_first_def executeQueryWithResult_def db q bindE_def ret_def upd_app_def)
  show ?thesis
  proof (rule share_without_grantee [where j = "[(''fileId'', Inr 3), (''shareType'', Inl ''user'')]" and ?s1.0 = s1 and ?s2.0 = s2
        and name = name and row = "[Some ''5'', Some ''u'']" and body = "''{}''"])
    show "validateSession share_env (getHeader (req ?s) ''X-Session-ID'') ?s = (Ret (Some (5, name)), s1)" unfolding h by (rule v(1))
  qed (use s2 in \<open>simp_all add: q, simp_all add: share_env_def table_env_def\<close>)
qed

end
