(* ===== verification/TimerQueue.thy ===== *)
theory TimerQueue
  imports Prelude "HOL-Library.Product_Lexorder"
begin

text \<open>
  Timers: \<open>net/Timer.h\<close>, \<open>net/Timer.cc\<close>, \<open>net/TimerId.h\<close>, \<open>net/TimerQueue.h\<close>, \<open>net/TimerQueue.cc\<close> and the
  arithmetic of \<open>base/Timestamp.h\<close> they use. A \<open>Timer*\<close> is an address into an explicit heap, so that
  \<open>delete\<close>, reuse of addresses and stale \<open>TimerId\<close>s are part of the model; an access to a deleted timer
  or a failing assertion is \<^term>\<open>None\<close>. \<open>std::set\<close> of entries is its sorted list of elements; the other
  two sets are only searched. Time stamps are microseconds. An interval is a \<open>double\<close> that the code
  looks at in two ways only, its sign and its number of microseconds. The allocator is a parameter.
\<close>

section \<open>Timers\<close>

record interval =
  iv_positive :: bool
  iv_micros :: int

record 'c timer =
  tm_callback :: 'c
  tm_expiration :: int
  tm_interval :: interval
  tm_repeat :: bool
  tm_sequence :: nat

type_synonym timer_id = "nat \<times> nat"

definition invalid_timestamp :: int where "invalid_timestamp = 0"

definition addTime :: "int \<Rightarrow> interval \<Rightarrow> int" where
  "addTime t iv = t + iv_micros iv"

definition new_timer :: "'c \<Rightarrow> int \<Rightarrow> interval \<Rightarrow> nat \<Rightarrow> 'c timer" where
  "new_timer cb when iv numCreated =
     \<lparr>tm_callback = cb, tm_expiration = when, tm_interval = iv, tm_repeat = iv_positive iv,
      tm_sequence = numCreated\<rparr>"

definition restart :: "int \<Rightarrow> 'c timer \<Rightarrow> 'c timer" where
  "restart now t =
     (if tm_repeat t then t\<lparr>tm_expiration := addTime now (tm_interval t)\<rparr>
      else t\<lparr>tm_expiration := invalid_timestamp\<rparr>)"

section \<open>The queue\<close>

type_synonym entry = "int \<times> nat"

record 'c timer_queue =
  tq_heap :: "nat \<rightharpoonup> 'c timer"
  tq_numCreated :: nat
  tq_timers :: "entry list"
  tq_active :: "timer_id set"
  tq_calling :: bool
  tq_canceling :: "timer_id set"
  tq_armed :: "int option"

definition new_timer_queue :: "'c timer_queue" where
  "new_timer_queue = \<lparr>tq_heap = (\<lambda>_. None), tq_numCreated = 0, tq_timers = [], tq_active = {},
     tq_calling = False, tq_canceling = {}, tq_armed = None\<rparr>"

text \<open>
  \<open>howMuchTimeFromNow\<close> is a \<open>timespec\<close>: seconds and nanoseconds. \<open>timerfd_settime\<close> starts a one-shot
  countdown; \<^const>\<open>tq_armed\<close> is the moment it ends, in nanoseconds. Reading the descriptor clears it.
\<close>

definition howMuchTimeFromNow :: "int \<Rightarrow> int \<Rightarrow> int \<times> int" where
  "howMuchTimeFromNow now when =
     (let microseconds = when - now;
          microseconds = (if microseconds < 100 then 100 else microseconds)
      in (microseconds div 1000000, (microseconds mod 1000000) * 1000))"

definition resetTimerfd :: "int \<Rightarrow> int \<Rightarrow> 'c timer_queue \<Rightarrow> 'c timer_queue" where
  "resetTimerfd now expiration q =
     (let (tv_sec, tv_nsec) = howMuchTimeFromNow now expiration
      in q\<lparr>tq_armed := Some (now * 1000 + tv_sec * 1000000000 + tv_nsec)\<rparr>)"

definition readTimerfd :: "'c timer_queue \<Rightarrow> 'c timer_queue" where
  "readTimerfd q = q\<lparr>tq_armed := None\<rparr>"

definition sizes_agree :: "'c timer_queue \<Rightarrow> bool" where
  "sizes_agree q \<longleftrightarrow> length (tq_timers q) = card (tq_active q)"

definition asserting :: "bool \<Rightarrow> 'a \<Rightarrow> 'a checked" where
  "asserting b x = (if b then Some x else None)"

definition tq_insert :: "nat \<Rightarrow> 'c timer_queue \<Rightarrow> (bool \<times> 'c timer_queue) checked" where
  "tq_insert a q = do {
     asserting (sizes_agree q) ();
     t \<leftarrow> tq_heap q a;
     let when = tm_expiration t;
     let earliestChanged = (case tq_timers q of [] \<Rightarrow> True | e # _ \<Rightarrow> when < fst e);
     asserting ((when, a) \<notin> set (tq_timers q)) ();
     asserting ((a, tm_sequence t) \<notin> tq_active q) ();
     let q1 = q\<lparr>tq_timers := insort_insert (when, a) (tq_timers q),
                tq_active := insert (a, tm_sequence t) (tq_active q)\<rparr>;
     asserting (sizes_agree q1) (earliestChanged, q1) }"

text \<open>
  The first half of \<open>addTimer\<close>: \<open>new Timer\<close> in the caller's thread. The allocator gives an address for the
  set of addresses in use, or \<open>new\<close> throws \<open>std::bad_alloc\<close> before anything has changed.
\<close>

definition create_timer ::
  "(nat set \<Rightarrow> nat option) \<Rightarrow> 'c \<Rightarrow> int \<Rightarrow> interval \<Rightarrow> 'c timer_queue \<Rightarrow> (nat \<times> 'c timer_queue) option" where
  "create_timer alloc cb when iv q =
     (case alloc (dom (tq_heap q)) of
        None \<Rightarrow> None
      | Some a \<Rightarrow> Some (a,
          q\<lparr>tq_heap := (tq_heap q)(a \<mapsto> new_timer cb when iv (tq_numCreated q)),
            tq_numCreated := tq_numCreated q + 1\<rparr>))"

text \<open>
  The end of \<open>addTimer\<close>, after \<open>runInLoop\<close>: the identifier is made from what the timer's memory holds then. In another thread than the
  loop's this is a later step than the hand-over of the timer to the loop.
\<close>

definition make_timer_id :: "nat \<Rightarrow> 'c timer_queue \<Rightarrow> timer_id checked" where
  "make_timer_id a q = (case tq_heap q a of None \<Rightarrow> None | Some t \<Rightarrow> Some (a, tm_sequence t))"

definition addTimerInLoop :: "int \<Rightarrow> nat \<Rightarrow> 'c timer_queue \<Rightarrow> 'c timer_queue checked" where
  "addTimerInLoop now a q = do {
     (earliestChanged, q1) \<leftarrow> tq_insert a q;
     t \<leftarrow> tq_heap q1 a;
     Some (if earliestChanged then resetTimerfd now (tm_expiration t) q1 else q1) }"

definition cancelInLoop :: "timer_id \<Rightarrow> 'c timer_queue \<Rightarrow> 'c timer_queue checked" where
  "cancelInLoop timer q = do {
     asserting (sizes_agree q) ();
     q1 \<leftarrow> (if timer \<in> tq_active q then do {
              t \<leftarrow> tq_heap q (fst timer);
              let e = (tm_expiration t, fst timer);
              asserting (e \<in> set (tq_timers q))
                (q\<lparr>tq_timers := remove1 e (tq_timers q), tq_heap := (tq_heap q)(fst timer := None),
                   tq_active := tq_active q - {timer}\<rparr>) }
            else if tq_calling q then Some (q\<lparr>tq_canceling := insert timer (tq_canceling q)\<rparr>)
            else Some q);
     asserting (sizes_agree q1) q1 }"

text \<open>\<open>getExpired\<close>: \<open>lower_bound\<close> of the sentry cuts the set; every entry before it is moved out.\<close>

definition sentry :: "int \<Rightarrow> entry" where
  "sentry now = (now, 2 ^ 64 - 1)"

fun erase_active :: "entry list \<Rightarrow> 'c timer_queue \<Rightarrow> 'c timer_queue checked" where
  "erase_active [] q = Some q"
| "erase_active (e # es) q = do {
     t \<leftarrow> tq_heap q (snd e);
     asserting ((snd e, tm_sequence t) \<in> tq_active q) ();
     erase_active es (q\<lparr>tq_active := tq_active q - {(snd e, tm_sequence t)}\<rparr>) }"

definition getExpired :: "int \<Rightarrow> 'c timer_queue \<Rightarrow> (entry list \<times> 'c timer_queue) checked" where
  "getExpired now q = do {
     asserting (sizes_agree q) ();
     let expired = takeWhile (\<lambda>e. e < sentry now) (tq_timers q);
     let rest = dropWhile (\<lambda>e. e < sentry now) (tq_timers q);
     asserting (rest = [] \<or> now < fst (hd rest)) ();
     q1 \<leftarrow> erase_active expired (q\<lparr>tq_timers := rest\<rparr>);
     asserting (sizes_agree q1) (expired, q1) }"

fun reset_entries :: "entry list \<Rightarrow> int \<Rightarrow> 'c timer_queue \<Rightarrow> 'c timer_queue checked" where
  "reset_entries [] now q = Some q"
| "reset_entries (e # es) now q = do {
     t \<leftarrow> tq_heap q (snd e);
     q1 \<leftarrow> (if tm_repeat t \<and> (snd e, tm_sequence t) \<notin> tq_canceling q
            then map_option snd (tq_insert (snd e) (q\<lparr>tq_heap := (tq_heap q)(snd e \<mapsto> restart now t)\<rparr>))
            else Some (q\<lparr>tq_heap := (tq_heap q)(snd e := None)\<rparr>));
     reset_entries es now q1 }"

definition tq_reset :: "entry list \<Rightarrow> int \<Rightarrow> int \<Rightarrow> 'c timer_queue \<Rightarrow> 'c timer_queue checked" where
  "tq_reset expired now now' q = do {
     q1 \<leftarrow> reset_entries expired now q;
     nextExpire \<leftarrow> (case tq_timers q1 of
                       [] \<Rightarrow> Some invalid_timestamp
                     | e # _ \<Rightarrow> map_option tm_expiration (tq_heap q1 (snd e)));
     Some (if nextExpire > 0 then resetTimerfd now' nextExpire q1 else q1) }"

text \<open>
  What user code does with the queue in the loop's thread: \<open>addTimer\<close> (where \<open>runInLoop\<close> calls
  \<open>addTimerInLoop\<close> at once; the time stamp is what \<open>Timestamp::now\<close> says then; a thrown \<open>std::bad_alloc\<close> is
  the user code's to handle) and \<open>cancel\<close>. Every callback of a round is such a sequence; \<open>acts\<close> gives it
  for the timer at an address.
\<close>

datatype 'c user_op = AddTimer int 'c int interval | CancelTimer timer_id

text \<open>The calls of \<open>EventLoop\<close>; \<open>now\<close> is the clock when the timer is made, \<open>late\<close> when it is put into the queue.\<close>

definition runAt :: "int \<Rightarrow> int \<Rightarrow> 'c \<Rightarrow> 'c user_op" where
  "runAt late time cb = AddTimer late cb time \<lparr>iv_positive = False, iv_micros = 0\<rparr>"

definition runAfter :: "int \<Rightarrow> int \<Rightarrow> interval \<Rightarrow> 'c \<Rightarrow> 'c user_op" where
  "runAfter now late delay cb = runAt late (addTime now delay) cb"

definition runEvery :: "int \<Rightarrow> int \<Rightarrow> interval \<Rightarrow> 'c \<Rightarrow> 'c user_op" where
  "runEvery now late iv cb = AddTimer late cb (addTime now iv) iv"

definition loop_cancel :: "timer_id \<Rightarrow> 'c user_op" where
  "loop_cancel timerId = CancelTimer timerId"

fun user_call :: "(nat set \<Rightarrow> nat option) \<Rightarrow> 'c user_op \<Rightarrow> 'c timer_queue \<Rightarrow> 'c timer_queue checked" where
  "user_call alloc (AddTimer now cb when iv) q =
     (case create_timer alloc cb when iv q of
        None \<Rightarrow> Some q
      | Some (a, q1) \<Rightarrow> do {
          q2 \<leftarrow> addTimerInLoop now a q1;
          i \<leftarrow> make_timer_id a q2;
          Some q2 })"
| "user_call alloc (CancelTimer i) q = cancelInLoop i q"

fun user_calls :: "(nat set \<Rightarrow> nat option) \<Rightarrow> 'c user_op list \<Rightarrow> 'c timer_queue \<Rightarrow> 'c timer_queue checked" where
  "user_calls alloc [] q = Some q"
| "user_calls alloc (u # us) q = do { q1 \<leftarrow> user_call alloc u q; user_calls alloc us q1 }"

fun run_expired ::
  "(nat set \<Rightarrow> nat option) \<Rightarrow> (nat \<Rightarrow> 'c user_op list) \<Rightarrow> entry list \<Rightarrow> 'c timer_queue \<Rightarrow> 'c timer_queue checked" where
  "run_expired alloc acts [] q = Some q"
| "run_expired alloc acts (e # es) q = do {
     t \<leftarrow> tq_heap q (snd e);
     q1 \<leftarrow> user_calls alloc (acts (snd e)) q;
     run_expired alloc acts es q1 }"

text \<open>\<open>handleRead\<close> returns the entries whose callbacks it ran, in order.\<close>

definition tq_handleRead ::
  "(nat set \<Rightarrow> nat option) \<Rightarrow> (nat \<Rightarrow> 'c user_op list) \<Rightarrow> int \<Rightarrow> int \<Rightarrow> 'c timer_queue
     \<Rightarrow> (entry list \<times> 'c timer_queue) checked" where
  "tq_handleRead alloc acts now now' q = do {
     (expired, q1) \<leftarrow> getExpired now (readTimerfd q);
     q2 \<leftarrow> run_expired alloc acts expired (q1\<lparr>tq_calling := True, tq_canceling := {}\<rparr>);
     q3 \<leftarrow> tq_reset expired now now' (q2\<lparr>tq_calling := False\<rparr>);
     Some (expired, q3) }"

section \<open>The invariant\<close>

text \<open>
  \<open>P\<close> holds the addresses of timers that exist but are not scheduled: created and not yet inserted, or
  expired and not yet reset. Every other timer on the heap is in both sets, under its expiration and
  under its sequence number, so that nothing leaks.
\<close>

definition alloc_ok :: "(nat set \<Rightarrow> nat option) \<Rightarrow> bool" where
  "alloc_ok alloc \<longleftrightarrow> (\<forall>A a. alloc A = Some a \<longrightarrow> a \<notin> A \<and> a < 2 ^ 64 - 1)"

definition interval_ok :: "interval \<Rightarrow> bool" where
  "interval_ok iv \<longleftrightarrow> (iv_positive iv \<longrightarrow> 0 \<le> iv_micros iv)"

fun user_op_ok :: "int \<Rightarrow> 'c user_op \<Rightarrow> bool" where
  "user_op_ok c (AddTimer now cb when iv) \<longleftrightarrow> now \<le> c \<and> interval_ok iv"
| "user_op_ok c (CancelTimer i) \<longleftrightarrow> True"

lemma loop_calls_ok:
  "late \<le> c \<Longrightarrow> user_op_ok c (runAt late time cb)" "late \<le> c \<Longrightarrow> user_op_ok c (runAfter now late delay cb)"
  "late \<le> c \<Longrightarrow> interval_ok iv \<Longrightarrow> user_op_ok c (runEvery now late iv cb)" "user_op_ok c (loop_cancel i)"
  by (simp_all add: runAt_def runAfter_def runEvery_def loop_cancel_def interval_ok_def)

definition timer_ok :: "'c timer_queue \<Rightarrow> nat \<Rightarrow> 'c timer \<Rightarrow> bool" where
  "timer_ok q a t \<longleftrightarrow> tm_sequence t < tq_numCreated q \<and> a < 2 ^ 64 - 1 \<and> interval_ok (tm_interval t)
     \<and> tm_repeat t = iv_positive (tm_interval t)"

definition tq_wf :: "nat set \<Rightarrow> 'c timer_queue \<Rightarrow> bool" where
  "tq_wf P q \<longleftrightarrow> sorted (tq_timers q) \<and> distinct (tq_timers q)
     \<and> (\<forall>e a. (e, a) \<in> set (tq_timers q) \<longleftrightarrow>
          (\<exists>t. tq_heap q a = Some t \<and> tm_expiration t = e \<and> (a, tm_sequence t) \<in> tq_active q))
     \<and> (\<forall>a s. (a, s) \<in> tq_active q \<longrightarrow> (\<exists>t. tq_heap q a = Some t \<and> tm_sequence t = s))
     \<and> finite (dom (tq_heap q)) \<and> P \<subseteq> dom (tq_heap q)
     \<and> (\<forall>a t. tq_heap q a = Some t \<longrightarrow> timer_ok q a t \<and> (a \<in> P \<longleftrightarrow> (a, tm_sequence t) \<notin> tq_active q))"

lemma asserting_bind [simp]: "Option.bind (asserting b x) f = (if b then f x else None)"
  by (simp add: asserting_def)

lemma tq_wf_timers:
  assumes "tq_wf P q"
  shows "sorted (tq_timers q)" and "distinct (tq_timers q)" and "finite (dom (tq_heap q))"
    and "(e, a) \<in> set (tq_timers q) \<longleftrightarrow>
      (\<exists>t. tq_heap q a = Some t \<and> tm_expiration t = e \<and> (a, tm_sequence t) \<in> tq_active q)"
  using assms by (simp_all add: tq_wf_def)

lemma tq_wf_heap:
  assumes "tq_wf P q" and "tq_heap q a = Some t"
  shows "timer_ok q a t \<and> (a \<in> P \<longleftrightarrow> (a, tm_sequence t) \<notin> tq_active q)"
  using assms by (simp add: tq_wf_def)

lemma tq_wf_active:
  assumes "tq_wf P q" and "(a, s) \<in> tq_active q"
  obtains t where "tq_heap q a = Some t" "tm_sequence t = s" "a \<notin> P" "(tm_expiration t, a) \<in> set (tq_timers q)"
proof -
  from assms have "\<exists>t. tq_heap q a = Some t \<and> tm_sequence t = s" unfolding tq_wf_def by blast
  then obtain t where t: "tq_heap q a = Some t" "tm_sequence t = s" by blast
  with assms have "a \<notin> P" by (auto simp: tq_wf_def)
  moreover from assms t have "(tm_expiration t, a) \<in> set (tq_timers q)" by (simp add: tq_wf_timers(4))
  ultimately show ?thesis using that t by blast
qed

lemma tq_wf_detached:
  assumes "tq_wf P q" and "a \<in> P"
  obtains t where "tq_heap q a = Some t" "timer_ok q a t" "\<And>s. (a, s) \<notin> tq_active q" "\<And>e. (e, a) \<notin> set (tq_timers q)"
proof -
  from assms obtain t where t: "tq_heap q a = Some t" by (auto simp: tq_wf_def)
  with assms have "timer_ok q a t" "(a, tm_sequence t) \<notin> tq_active q" by (auto simp: tq_wf_def)
  moreover from assms have "(a, s) \<notin> tq_active q" for s by (meson tq_wf_active)
  ultimately show ?thesis using that t assms(1) by (simp add: tq_wf_timers(4))
qed

lemma tq_wf_sizes:
  assumes "tq_wf P q"
  shows "sizes_agree q"
proof -
  have same: "snd ` set (tq_timers q) = fst ` tq_active q"
  proof (intro equalityI subsetI)
    fix a assume "a \<in> snd ` set (tq_timers q)"
    then obtain e where "(e, a) \<in> set (tq_timers q)" by auto
    with assms show "a \<in> fst ` tq_active q" by (force simp: tq_wf_timers(4))
  next
    fix a assume "a \<in> fst ` tq_active q"
    then obtain s where "(a, s) \<in> tq_active q" by auto
    with assms obtain t :: "'a timer" where "(tm_expiration t, a) \<in> set (tq_timers q)"
      using tq_wf_active by blast
    then show "a \<in> snd ` set (tq_timers q)" by force
  qed
  have "inj_on snd (set (tq_timers q))"
    using assms by (auto simp: inj_on_def tq_wf_timers(4))
  moreover have "inj_on fst (tq_active q)"
    by (rule inj_onI) (metis assms option.inject prod.collapse tq_wf_active)
  ultimately have "card (set (tq_timers q)) = card (tq_active q)"
    using same by (metis card_image)
  then show ?thesis
    using assms by (simp add: sizes_agree_def distinct_card tq_wf_timers(2))
qed

section \<open>What every operation keeps\<close>

lemma tq_wf_insert:
  assumes "tq_wf (insert a P) q" and "a \<notin> P" and "tq_heap q a = Some t"
  defines "q' \<equiv> q\<lparr>tq_timers := insort_insert (tm_expiration t, a) (tq_timers q),
    tq_active := insert (a, tm_sequence t) (tq_active q)\<rparr>"
  shows "tq_insert a q = Some (case tq_timers q of [] \<Rightarrow> True | e # _ \<Rightarrow> tm_expiration t < fst e, q')"
    and "tq_wf P q'"
proof -
  from assms(1) have new: "(a, s) \<notin> tq_active q" "(e, a) \<notin> set (tq_timers q)" for s e
    by (meson insertI1 tq_wf_detached)+
  have ne: "(e, b) \<in> set (tq_timers q) \<Longrightarrow> b \<noteq> a" for e b using new by auto
  have tm: "(e, b) \<in> set (tq_timers q') \<longleftrightarrow>
      (\<exists>t. tq_heap q' b = Some t \<and> tm_expiration t = e \<and> (b, tm_sequence t) \<in> tq_active q')" for e b
    using assms(1,3) ne by (auto simp: q'_def set_insort_insert tq_wf_timers(4))
  have ac: "\<exists>t. tq_heap q' b = Some t \<and> tm_sequence t = s" if "(b, s) \<in> tq_active q'" for b s
    using that assms(1,3) by (auto simp: q'_def elim: tq_wf_active)
  have "sorted (tq_timers q')" "distinct (tq_timers q')"
    using assms(1) by (simp_all add: q'_def tq_wf_timers sorted_insort_insert distinct_insort_insert)
  moreover have "timer_ok q' b t'\<and> (b \<in> P \<longleftrightarrow> (b, tm_sequence t') \<notin> tq_active q')"
    if "tq_heap q' b = Some t'" for b t'
    using that assms(2,3) tq_wf_heap [OF assms(1), of b t'] by (auto simp: q'_def timer_ok_def)
  ultimately show wf: "tq_wf P q'"
    unfolding tq_wf_def using tm ac assms(1) by (simp add: q'_def tq_wf_def)
  show "tq_insert a q = Some (case tq_timers q of [] \<Rightarrow> True | e # _ \<Rightarrow> tm_expiration t < fst e, q')"
    using tq_wf_sizes [OF assms(1)] tq_wf_sizes [OF wf] assms(3) new
    by (simp add: tq_insert_def q'_def asserting_def Let_def)
qed

lemma tq_wf_create:
  assumes "tq_wf P q" and "alloc_ok alloc" and "interval_ok iv" and "create_timer alloc cb when iv q = Some (a, q')"
  shows "tq_wf (insert a P) q'" and "a \<notin> P" and "tq_heap q a = None"
    and "q' = q\<lparr>tq_heap := (tq_heap q)(a \<mapsto> new_timer cb when iv (tq_numCreated q)),
       tq_numCreated := tq_numCreated q + 1\<rparr>"
proof -
  let ?a = a and ?t = "new_timer cb when iv (tq_numCreated q)"
  show q': "q' = q\<lparr>tq_heap := (tq_heap q)(?a \<mapsto> ?t), tq_numCreated := tq_numCreated q + 1\<rparr>"
    using assms(4) by (auto simp: create_timer_def split: option.splits)
  have "alloc (dom (tq_heap q)) = Some ?a" using assms(4) by (auto simp: create_timer_def split: option.splits)
  with assms(2) have a: "?a \<notin> dom (tq_heap q)" "?a < 2 ^ 64 - 1" unfolding alloc_ok_def by blast+
  then show n: "tq_heap q ?a = None" by blast
  with assms(1) have na: "(?a, s) \<notin> tq_active q" for s by (metis option.distinct(1) tq_wf_active)
  have ok: "timer_ok q b t \<Longrightarrow> timer_ok q' b t" for b t
    by (simp add: timer_ok_def q')
  from assms(1) n show "?a \<notin> P" by (auto simp: tq_wf_def)
  have "timer_ok q' ?a ?t" using a assms(3) by (simp add: timer_ok_def q' new_timer_def)
  with assms(1) n na ok show "tq_wf (insert ?a P) q'" unfolding tq_wf_def q'
    by (auto; fastforce)
qed

lemma tq_wf_cancel:
  assumes "tq_wf P q" and "i \<in> tq_active q" and "tq_heap q (fst i) = Some t"
  defines "q' \<equiv> q\<lparr>tq_timers := remove1 (tm_expiration t, fst i) (tq_timers q),
    tq_heap := (tq_heap q)(fst i := None), tq_active := tq_active q - {i}\<rparr>"
  shows "cancelInLoop i q = Some q'" and "tq_wf P q'"
proof -
  obtain a where i: "i = (a, tm_sequence t)"
    using assms(1-3) by (metis option.inject prod.collapse tq_wf_active)
  have t: "tq_heap q a = Some t" and ac: "(a, tm_sequence t) \<in> tq_active q" using assms(2,3) i by auto
  have e: "(tm_expiration t, a) \<in> set (tq_timers q)" and nP: "a \<notin> P"
    using assms(1) t ac by (auto simp: tq_wf_timers(4) elim: tq_wf_active)
  have only: "s = tm_sequence t" if "(a, s) \<in> tq_active q" for s
    using that t assms(1) by (metis option.inject tq_wf_active)
  have tm: "(e', b) \<in> set (tq_timers q') \<longleftrightarrow>
      (\<exists>t. tq_heap q' b = Some t \<and> tm_expiration t = e' \<and> (b, tm_sequence t) \<in> tq_active q')" for e' b
    using assms(1) t i by (auto simp: q'_def tq_wf_timers(4) tq_wf_timers(2))
  have act: "\<exists>t. tq_heap q' b = Some t \<and> tm_sequence t = s" if "(b, s) \<in> tq_active q'" for b s
    using that only assms(1) i by (auto simp: q'_def elim: tq_wf_active)
  have hp: "timer_ok q' b t' \<and> (b \<in> P \<longleftrightarrow> (b, tm_sequence t') \<notin> tq_active q')"
    if "tq_heap q' b = Some t'" for b t'
    using that i tq_wf_heap [OF assms(1), of b t'] by (auto simp: q'_def timer_ok_def split: if_splits)
  have "sorted (tq_timers q')" "distinct (tq_timers q')" "finite (dom (tq_heap q'))"
    using assms(1) by (simp_all add: q'_def tq_wf_timers sorted_remove1)
  moreover have "P \<subseteq> dom (tq_heap q')"
    using assms(1) nP i by (auto simp: tq_wf_def q'_def)
  ultimately show wf: "tq_wf P q'" unfolding tq_wf_def using tm act hp by blast
  show "cancelInLoop i q = Some q'"
    using tq_wf_sizes [OF assms(1)] tq_wf_sizes [OF wf] assms(2,3) e i
    by (simp add: cancelInLoop_def q'_def asserting_def Let_def)
qed

lemma cancel_inactive:
  assumes "tq_wf P q" and "i \<notin> tq_active q"
  shows "cancelInLoop i q = Some (if tq_calling q then q\<lparr>tq_canceling := insert i (tq_canceling q)\<rparr> else q)"
  using tq_wf_sizes [OF assms(1)] assms(2)
  by (auto simp: cancelInLoop_def asserting_def sizes_agree_def)

section \<open>The alarm\<close>

text \<open>
  The descriptor is armed for the first entry, with the minimum of 100 microseconds after the clock \<open>c\<close>;
  a first entry that is \<open>late\<close> is left to the end of the round in progress.
\<close>

definition armed_ok :: "(int \<Rightarrow> bool) \<Rightarrow> int \<Rightarrow> 'c timer_queue \<Rightarrow> bool" where
  "armed_ok late c q \<longleftrightarrow> (case tq_timers q of
      [] \<Rightarrow> True
    | e # _ \<Rightarrow> late (fst e) \<or> (\<exists>d. tq_armed q = Some d \<and> d \<le> 1000 * max (fst e) (c + 100)))"

lemma resetTimerfd_deadline:
  "resetTimerfd now when q = q\<lparr>tq_armed := Some (1000 * max when (now + 100))\<rparr>"
proof -
  have "m div 1000000 * 1000000000 + m mod 1000000 * 1000 = 1000 * m" for m :: int
    using div_mult_mod_eq [of m 1000000] by linarith
  then show ?thesis
    by (auto simp: resetTimerfd_def howMuchTimeFromNow_def Let_def max_def algebra_simps)
qed

lemma armed_ok_weaken:
  fixes q q' :: "'c timer_queue"
  assumes "armed_ok late c q" and "mono late" and "c \<le> c'"
    and "tq_timers q = z # zs" and "tq_timers q' = y # ys" and "fst z \<le> fst y" and "tq_armed q' = tq_armed q"
  shows "armed_ok late c' q'"
proof -
  have le: "1000 * max (fst z) (c + 100) \<le> 1000 * max (fst y) (c' + 100)"
    using max.mono [OF assms(6), of "c + 100" "c' + 100"] assms(3) by simp
  have "d \<le> 1000 * max (fst z) (c + 100) \<Longrightarrow> d \<le> 1000 * max (fst y) (c' + 100)" for d
    using le by (rule order_trans [rotated])
  moreover have "late (fst z) \<Longrightarrow> late (fst y)" using monoD [OF assms(2,6)] by simp
  ultimately show ?thesis using assms(1,4,5,7) unfolding armed_ok_def by auto
qed

lemma armed_ok_later:
  assumes "armed_ok late c q" and "mono late" and "c \<le> c'"
  shows "armed_ok late c' q"
proof (cases "tq_timers q")
  case (Cons z zs)
  show ?thesis by (rule armed_ok_weaken [OF assms Cons Cons]) simp_all
qed (simp add: armed_ok_def)

lemma insort_insert_first:
  assumes "x \<notin> set xs"
  shows "insort_insert x xs = (case xs of [] \<Rightarrow> [x] | y # _ \<Rightarrow> if x \<le> y then x # xs else y # insort_insert x (tl xs))"
  using assms by (cases xs) (auto simp: insort_insert_key_def)

lemma armed_ok_insert:
  fixes q q' :: "'c timer_queue"
  assumes "armed_ok late c q" and "mono late"
    and "(when, a) \<notin> set (tq_timers q)" and "now \<le> c"
    and "tq_timers q' = insort_insert (when, a) (tq_timers q)"
    and "tq_armed q' = (if (case tq_timers q of [] \<Rightarrow> True | e # _ \<Rightarrow> when < fst e)
                        then Some (1000 * max when (now + 100)) else tq_armed q)"
  shows "armed_ok late c q'"
proof (cases "tq_timers q")
  case Nil
  with assms show ?thesis by (auto simp: armed_ok_def insort_insert_first)
next
  case (Cons e es)
  have "fst e = when" if "(when, a) \<le> e" "\<not> when < fst e"
    using that by (cases e) (auto simp: less_eq_prod_def)
  with Cons assms show ?thesis
    by (auto simp: armed_ok_def insort_insert_first split: if_splits; force)
qed

lemma sorted_remove1_first:
  assumes "sorted xs" and "remove1 x xs = y # ys"
  obtains z zs where "xs = z # zs" and "z \<le> y"
  using assms by (cases xs) (auto split: if_splits)

lemma armed_ok_remove:
  fixes q q' :: "'c timer_queue"
  assumes "armed_ok late c q" and "mono late" and "sorted (tq_timers q)"
    and "tq_timers q' = remove1 x (tq_timers q)" and "tq_armed q' = tq_armed q"
  shows "armed_ok late c q'"
proof (cases "tq_timers q'")
  case (Cons y ys)
  with assms(3,4) obtain z zs where z: "tq_timers q = z # zs" "z \<le> y"
    by (metis sorted_remove1_first)
  from z(2) have "fst z \<le> fst y" by (cases z; cases y) auto
  with armed_ok_weaken [OF assms(1,2) order_refl z(1) Cons] assms(5) show ?thesis by blast
qed (simp add: armed_ok_def)

section \<open>User calls\<close>

text \<open>
  What a call from the loop's thread does to the timers in \<open>P\<close>: it leaves them alone, and notes a
  cancellation while callbacks run.
\<close>

definition user_frame :: "nat set \<Rightarrow> 'c user_op set \<Rightarrow> 'c timer_queue \<Rightarrow> 'c timer_queue \<Rightarrow> bool" where
  "user_frame P us q q' \<longleftrightarrow> tq_wf P q' \<and> (\<forall>a\<in>P. tq_heap q' a = tq_heap q a) \<and> tq_calling q' = tq_calling q
     \<and> (tq_calling q \<longrightarrow> (\<forall>i. fst i \<in> P \<longrightarrow>
          (i \<in> tq_canceling q' \<longleftrightarrow> i \<in> tq_canceling q \<or> CancelTimer i \<in> us)))"

lemma user_frame_refl: "tq_wf P q \<Longrightarrow> user_frame P {} q q"
  by (simp add: user_frame_def)

lemma user_frame_trans:
  "user_frame P us q q1 \<Longrightarrow> user_frame P vs q1 q2 \<Longrightarrow> user_frame P (us \<union> vs) q q2"
  by (auto simp: user_frame_def)

lemma addTimerInLoop_ok:
  assumes "tq_wf (insert a P) q" and "a \<notin> P" and "now \<le> c" and "mono late" and "armed_ok late c q"
  shows "\<exists>q'. addTimerInLoop now a q = Some q' \<and> tq_wf P q' \<and> armed_ok late c q' \<and> tq_heap q' = tq_heap q
    \<and> tq_calling q' = tq_calling q \<and> tq_canceling q' = tq_canceling q"
proof -
  obtain t where t: "tq_heap q a = Some t" "(tm_expiration t, a) \<notin> set (tq_timers q)"
    using tq_wf_detached [OF assms(1), of a] by blast
  let ?b = "case tq_timers q of [] \<Rightarrow> True | e # _ \<Rightarrow> tm_expiration t < fst e"
  let ?q1 = "q\<lparr>tq_timers := insort_insert (tm_expiration t, a) (tq_timers q),
    tq_active := insert (a, tm_sequence t) (tq_active q)\<rparr>"
  let ?q2 = "if ?b then resetTimerfd now (tm_expiration t) ?q1 else ?q1"
  note ins = tq_wf_insert [OF assms(1,2) t(1)]
  have "addTimerInLoop now a q = Some ?q2"
    using ins(1) t(1) by (cases "tq_timers q") (simp_all add: addTimerInLoop_def)
  moreover have "armed_ok late c ?q2"
    by (rule armed_ok_insert [OF assms(5,4) t(2) assms(3)]) (simp_all add: resetTimerfd_deadline)
  moreover have "tq_wf P ?q2"
    using ins(2) by (simp add: resetTimerfd_deadline tq_wf_def timer_ok_def)
  moreover have "tq_heap ?q2 = tq_heap q" "tq_calling ?q2 = tq_calling q" "tq_canceling ?q2 = tq_canceling q"
    by (simp_all add: resetTimerfd_deadline)
  ultimately show ?thesis by blast
qed

lemma addTimer_call:
  assumes "tq_wf P q" and "alloc_ok alloc" and "interval_ok iv" and "now \<le> c" and "mono late" and "armed_ok late c q"
  shows "\<exists>q'. user_call alloc (AddTimer now cb when iv) q = Some q'
    \<and> user_frame P {AddTimer now cb when iv} q q' \<and> armed_ok late c q'"
proof (cases "create_timer alloc cb when iv q")
  case None
  with assms(1,6) show ?thesis by (auto simp: user_frame_def)
next
  case (Some r)
  then obtain a q1 where r: "create_timer alloc cb when iv q = Some (a, q1)" by (cases r) simp
  note cr = tq_wf_create [OF assms(1-3) r]
  have "armed_ok late c q1" using assms(6) cr(4) by (auto simp: armed_ok_def split: list.splits)
  from addTimerInLoop_ok [OF cr(1,2) assms(4,5) this] obtain q' where "addTimerInLoop now a q1 = Some q'"
    "tq_wf P q'" "armed_ok late c q'" "tq_heap q' = tq_heap q1" "tq_calling q' = tq_calling q1"
    "tq_canceling q' = tq_canceling q1" by blast
  with r cr(2,4) show ?thesis by (auto simp: user_frame_def make_timer_id_def)
qed

lemma cancel_call:
  assumes "tq_wf P q" and "mono late" and "armed_ok late c q"
  shows "\<exists>q'. cancelInLoop i q = Some q' \<and> user_frame P {CancelTimer i} q q' \<and> armed_ok late c q'"
proof (cases "i \<in> tq_active q")
  case True
  then obtain t where t: "tq_heap q (fst i) = Some t" "fst i \<notin> P"
    using assms(1) by (metis prod.collapse tq_wf_active)
  note c = tq_wf_cancel [OF assms(1) True t(1)]
  show ?thesis
    using c t(2) armed_ok_remove [OF assms(3,2) tq_wf_timers(1) [OF assms(1)], of _ "(tm_expiration t, fst i)"]
    by (auto simp: user_frame_def)
next
  case False
  let ?q = "if tq_calling q then q\<lparr>tq_canceling := insert i (tq_canceling q)\<rparr> else q"
  have "user_frame P {CancelTimer i} q ?q"
    using assms(1) by (auto simp: user_frame_def tq_wf_def timer_ok_def)
  moreover have "armed_ok late c ?q" using assms(3) by (auto simp: armed_ok_def split: list.splits)
  ultimately show ?thesis using cancel_inactive [OF assms(1) False] by blast
qed

lemma user_call_ok:
  assumes "tq_wf P q" and "alloc_ok alloc" and "user_op_ok c u" and "mono late" and "armed_ok late c q"
  shows "\<exists>q'. user_call alloc u q = Some q' \<and> user_frame P {u} q q' \<and> armed_ok late c q'"
  using assms by (cases u) (auto simp del: user_call.simps(1) intro: addTimer_call cancel_call)

lemma user_calls_ok:
  assumes "tq_wf P q" and "alloc_ok alloc" and "list_all (user_op_ok c) us" and "mono late" and "armed_ok late c q"
  shows "\<exists>q'. user_calls alloc us q = Some q' \<and> user_frame P (set us) q q' \<and> armed_ok late c q'"
  using assms(1,3,5)
proof (induction us arbitrary: q)
  case Nil
  then show ?case by (simp add: user_frame_refl)
next
  case (Cons u us)
  then obtain q1 where q1: "user_call alloc u q = Some q1" "user_frame P {u} q q1" "armed_ok late c q1"
    using user_call_ok [OF Cons.prems(1) assms(2) _ assms(4) Cons.prems(3), of u] by auto
  then have "tq_wf P q1" by (simp add: user_frame_def)
  with Cons q1(3) obtain q2 where "user_calls alloc us q1 = Some q2" "user_frame P (set us) q1 q2" "armed_ok late c q2"
    by auto
  with q1 user_frame_trans [OF q1(2)] show ?case by fastforce
qed

section \<open>A round of expired timers\<close>

lemma takeWhile_sorted:
  assumes "sorted xs" and "\<And>x y. x \<le> y \<Longrightarrow> Q y \<Longrightarrow> Q x"
  shows "takeWhile Q xs = filter Q xs" and "dropWhile Q xs = filter (\<lambda>x. \<not> Q x) xs"
proof -
  have "takeWhile Q xs = filter Q xs \<and> dropWhile Q xs = filter (\<lambda>x. \<not> Q x) xs"
    using assms(1)
  proof (induction xs)
    case (Cons x xs)
    show ?case
    proof (cases "Q x")
      case False
      with Cons.prems have "\<forall>y\<in>set xs. \<not> Q y" using assms(2) by auto
      with False show ?thesis by (simp add: filter_empty_conv)
    qed (use Cons in simp)
  qed simp
  then show "takeWhile Q xs = filter Q xs" and "dropWhile Q xs = filter (\<lambda>x. \<not> Q x) xs" by auto
qed

lemma erase_active_run:
  assumes "distinct (map snd es)" and "\<And>e. e \<in> set es \<Longrightarrow> \<exists>t. tq_heap q (snd e) = Some t \<and> (snd e, tm_sequence t) \<in> tq_active q"
    and "\<And>a s. (a, s) \<in> tq_active q \<Longrightarrow> \<exists>t. tq_heap q a = Some t \<and> tm_sequence t = s"
  shows "erase_active es q = Some (q\<lparr>tq_active := {i \<in> tq_active q. fst i \<notin> snd ` set es}\<rparr>)"
  using assms
proof (induction es arbitrary: q)
  case (Cons e es)
  from Cons.prems(2) [of e] obtain t where t: "tq_heap q (snd e) = Some t" "(snd e, tm_sequence t) \<in> tq_active q"
    by auto
  let ?q = "q\<lparr>tq_active := tq_active q - {(snd e, tm_sequence t)}\<rparr>"
  have "erase_active es ?q = Some (?q\<lparr>tq_active := {i \<in> tq_active ?q. fst i \<notin> snd ` set es}\<rparr>)"
  proof (rule Cons.IH)
    fix e' assume e': "e' \<in> set es"
    with Cons.prems(1) have "snd e' \<noteq> snd e" by (metis distinct.simps(2) image_eqI list.set_map list.simps(9))
    with Cons.prems(2) [of e'] e' show "\<exists>t. tq_heap ?q (snd e') = Some t \<and> (snd e', tm_sequence t) \<in> tq_active ?q"
      by auto
  qed (use Cons.prems in auto)
  moreover have "i \<in> tq_active q - {(snd e, tm_sequence t)} \<and> fst i \<notin> snd ` set es \<longleftrightarrow>
      i \<in> tq_active q \<and> fst i \<notin> snd ` set (e # es)" for i
    using Cons.prems(3) [of "fst i" "snd i"] t(1) by (cases i) auto
  ultimately show ?case using t by simp
qed simp

lemma getExpired_ok:
  fixes now :: int and q :: "'c timer_queue"
  assumes "tq_wf P q"
  defines "expired \<equiv> filter (\<lambda>e. fst e \<le> now) (tq_timers q)"
  defines "q' \<equiv> q\<lparr>tq_timers := filter (\<lambda>e. now < fst e) (tq_timers q),
    tq_active := {i \<in> tq_active q. fst i \<notin> snd ` set expired}\<rparr>"
  shows "getExpired now q = Some (expired, q')" and "tq_wf (P \<union> snd ` set expired) q'"
    and "distinct (map snd expired)" and "snd ` set expired \<inter> P = {}"
proof -
  have addr: "snd e < 2 ^ 64 - 1" if "e \<in> set (tq_timers q)" for e
    using that tq_wf_heap [OF assms(1)] tq_wf_timers(4) [OF assms(1), of "fst e" "snd e"] by (auto simp: timer_ok_def)
  have below: "e < sentry now \<longleftrightarrow> fst e \<le> now" if "e \<in> set (tq_timers q)" for e
    using addr [OF that] by (auto simp: sentry_def less_prod_def prod.case_eq_if)
  have cut: "takeWhile (\<lambda>e. e < sentry now) (tq_timers q) = expired"
    "dropWhile (\<lambda>e. e < sentry now) (tq_timers q) = filter (\<lambda>e. now < fst e) (tq_timers q)"
    using takeWhile_sorted [OF tq_wf_timers(1) [OF assms(1)], of "\<lambda>e. e < sentry now"] below
    by (simp_all add: expired_def not_le order.strict_trans1 cong: filter_cong)
  have ex: "\<exists>t. tq_heap q (snd e) = Some t \<and> tm_expiration t = fst e \<and> (snd e, tm_sequence t) \<in> tq_active q"
    if "e \<in> set (tq_timers q)" for e
    using that tq_wf_timers(4) [OF assms(1), of "fst e" "snd e"] by simp
  show dist: "distinct (map snd expired)"
    using tq_wf_timers(2) [OF assms(1)] ex
    by (auto simp: expired_def distinct_map inj_on_def) (metis option.inject prod.collapse snd_conv)+
  show "snd ` set expired \<inter> P = {}"
    using ex by (auto simp: expired_def) (metis assms(1) snd_conv tq_wf_active)
  have gone: "a \<in> snd ` set expired \<longleftrightarrow> e \<le> now" if "(e, a) \<in> set (tq_timers q)" for e a
  proof -
    have "e' = e" if "(e', a) \<in> set (tq_timers q)" for e'
      using ex [OF that] ex [OF \<open>(e, a) \<in> set (tq_timers q)\<close>] by auto
    then have "a \<in> snd ` set expired \<longleftrightarrow> (e, a) \<in> set expired" by (auto simp: expired_def image_iff)
    with that show ?thesis by (simp add: expired_def)
  qed
  have tm: "(e, a) \<in> set (tq_timers q') \<longleftrightarrow>
      (\<exists>t. tq_heap q' a = Some t \<and> tm_expiration t = e \<and> (a, tm_sequence t) \<in> tq_active q')" for e a
  proof (cases "(e, a) \<in> set (tq_timers q)")
    case True
    with gone [OF True] assms(1) show ?thesis by (auto simp: q'_def tq_wf_timers(4))
  next
    case False
    with assms(1) show ?thesis by (auto simp: q'_def tq_wf_timers(4))
  qed
  have hp: "timer_ok q' a t \<and> (a \<in> P \<union> snd ` set expired \<longleftrightarrow> (a, tm_sequence t) \<notin> tq_active q')"
    if "tq_heap q' a = Some t" for a t
    using that tq_wf_heap [OF assms(1), of a t] by (auto simp: q'_def timer_ok_def)
  have sub: "P \<union> snd ` set expired \<subseteq> dom (tq_heap q')"
    using assms(1) ex by (force simp: tq_wf_def q'_def expired_def)
  have "sorted (tq_timers q')" "distinct (tq_timers q')" "finite (dom (tq_heap q'))"
    using assms(1) by (simp_all add: q'_def tq_wf_timers sorted_wrt_filter)
  moreover have "\<exists>t. tq_heap q' a = Some t \<and> tm_sequence t = s" if "(a, s) \<in> tq_active q'" for a s
    using that assms(1) by (auto simp: q'_def elim: tq_wf_active)
  ultimately show wf: "tq_wf (P \<union> snd ` set expired) q'"
    unfolding tq_wf_def using tm hp sub by blast
  have "erase_active expired (q\<lparr>tq_timers := filter (\<lambda>e. now < fst e) (tq_timers q)\<rparr>) = Some q'"
    by (subst erase_active_run [OF dist])
      (use ex assms(1) in \<open>fastforce simp: expired_def q'_def elim: tq_wf_active\<close>)+
  moreover have "filter (\<lambda>e. now < fst e) (tq_timers q) = [] \<or> now < fst (hd (filter (\<lambda>e. now < fst e) (tq_timers q)))"
    using hd_in_set [of "filter (\<lambda>e. now < fst e) (tq_timers q)"] by auto
  ultimately show "getExpired now q = Some (expired, q')"
    using tq_wf_sizes [OF assms(1)] tq_wf_sizes [OF wf]
    by (simp add: getExpired_def cut asserting_def Let_def)
qed

lemma run_expired_ok:
  assumes "tq_wf P q" and "alloc_ok alloc" and "snd ` set es \<subseteq> P"
    and "\<And>e. e \<in> set es \<Longrightarrow> list_all (user_op_ok c) (acts (snd e))" and "mono late" and "armed_ok late c q"
  shows "\<exists>q'. run_expired alloc acts es q = Some q'
    \<and> user_frame P (\<Union>e\<in>set es. set (acts (snd e))) q q' \<and> armed_ok late c q'"
  using assms(1,3,4,6)
proof (induction es arbitrary: q)
  case Nil
  then show ?case by (simp add: user_frame_refl)
next
  case (Cons e es)
  obtain t where t: "tq_heap q (snd e) = Some t"
    using Cons.prems(1,2) by (auto elim: tq_wf_detached [of P q "snd e"])
  have "list_all (user_op_ok c) (acts (snd e))" by (rule Cons.prems(3)) simp
  then obtain q1 where q1: "user_calls alloc (acts (snd e)) q = Some q1"
    "user_frame P (set (acts (snd e))) q q1" "armed_ok late c q1"
    using user_calls_ok [OF Cons.prems(1) assms(2) _ assms(5) Cons.prems(4)] by blast
  have "tq_wf P q1" using q1(2) by (simp add: user_frame_def)
  from Cons.IH [OF this _ _ q1(3)] Cons.prems(2,3) obtain q2 where q2: "run_expired alloc acts es q1 = Some q2"
    "user_frame P (\<Union>e\<in>set es. set (acts (snd e))) q1 q2" "armed_ok late c q2" by auto
  with t q1 user_frame_trans [OF q1(2) q2(2)] show ?case by simp
qed

text \<open>What becomes of an expired timer: rescheduled if it repeats and was not cancelled, else deleted.\<close>

definition rescheduled :: "int \<Rightarrow> 'c timer_queue \<Rightarrow> nat \<Rightarrow> 'c timer option" where
  "rescheduled now q a = (case tq_heap q a of
      None \<Rightarrow> None
    | Some t \<Rightarrow> if tm_repeat t \<and> (a, tm_sequence t) \<notin> tq_canceling q then Some (restart now t) else None)"

lemma restart_fields [simp]:
  "tm_sequence (restart now t) = tm_sequence t" "tm_repeat (restart now t) = tm_repeat t"
  "tm_interval (restart now t) = tm_interval t" "tm_callback (restart now t) = tm_callback t"
  by (simp_all add: restart_def)

lemma tq_wf_set_detached:
  assumes "tq_wf (insert a P) q" and "a \<notin> P" and "\<And>t. v = Some t \<Longrightarrow> timer_ok q a t"
  shows "tq_wf (if v = None then P else insert a P) (q\<lparr>tq_heap := (tq_heap q)(a := v)\<rparr>)"
    (is "tq_wf ?P ?q")
proof -
  have n: "(a, s) \<notin> tq_active q" "(e, a) \<notin> set (tq_timers q)" for s e
    using assms(1) by (meson insertI1 tq_wf_detached)+
  have tm: "(e, b) \<in> set (tq_timers ?q) \<longleftrightarrow>
      (\<exists>t. tq_heap ?q b = Some t \<and> tm_expiration t = e \<and> (b, tm_sequence t) \<in> tq_active ?q)" for e b
    using n tq_wf_timers(4) [OF assms(1), of e b] by (cases "b = a") auto
  have ac: "\<exists>t. tq_heap ?q b = Some t \<and> tm_sequence t = s" if "(b, s) \<in> tq_active ?q" for b s
    using that n assms(1) by (cases "b = a") (auto elim: tq_wf_active)
  have hp: "timer_ok ?q b t \<and> (b \<in> ?P \<longleftrightarrow> (b, tm_sequence t) \<notin> tq_active ?q)" if "tq_heap ?q b = Some t" for b t
    using that n assms(2,3) tq_wf_heap [OF assms(1), of b t] by (cases "b = a") (auto simp: timer_ok_def)
  have "sorted (tq_timers ?q)" "distinct (tq_timers ?q)" "finite (dom (tq_heap ?q))"
    using assms(1) by (simp_all add: tq_wf_timers)
  moreover have "?P \<subseteq> dom (tq_heap ?q)" using assms(1,2) by (auto simp: tq_wf_def)
  ultimately show ?thesis unfolding tq_wf_def [of ?P] using tm ac hp by blast
qed

lemma reset_entry_ok:
  assumes "tq_wf (insert a P) q" and "a \<notin> P" and "tq_heap q a = Some t"
  shows "\<exists>q'. (if tm_repeat t \<and> (a, tm_sequence t) \<notin> tq_canceling q
        then map_option snd (tq_insert a (q\<lparr>tq_heap := (tq_heap q)(a \<mapsto> restart now t)\<rparr>))
        else Some (q\<lparr>tq_heap := (tq_heap q)(a := None)\<rparr>)) = Some q'
    \<and> tq_wf P q' \<and> tq_heap q' = (tq_heap q)(a := rescheduled now q a)
    \<and> tq_canceling q' = tq_canceling q \<and> tq_calling q' = tq_calling q \<and> tq_armed q' = tq_armed q
    \<and> set (tq_timers q') = set (tq_timers q) \<union> {(addTime now (tm_interval t), a) |u. rescheduled now q a = Some u}"
proof (cases "rescheduled now q a")
  case None
  with tq_wf_set_detached [OF assms(1,2), of None] assms(3) show ?thesis
    by (auto simp: rescheduled_def split: if_splits)
next
  case (Some u)
  then have u: "u = restart now t" "tm_repeat t" "(a, tm_sequence t) \<notin> tq_canceling q"
    using assms(3) by (auto simp: rescheduled_def split: if_splits)
  let ?q = "q\<lparr>tq_heap := (tq_heap q)(a \<mapsto> u)\<rparr>"
  have "tq_wf (insert a P) ?q"
    using tq_wf_set_detached [OF assms(1,2), of "Some u"] tq_wf_heap [OF assms(1,3)] u(1)
    by (simp add: timer_ok_def)
  moreover have "tm_expiration u = addTime now (tm_interval t)" using u by (simp add: restart_def)
  ultimately show ?thesis
    using tq_wf_insert [of a P ?q u] assms(2) u Some by (auto simp: set_insort_insert)
qed

lemma rescheduled_later:
  assumes "tq_wf P q" and "tq_heap q a = Some t" and "rescheduled now q a = Some u"
  shows "now \<le> addTime now (tm_interval t)"
  using assms tq_wf_heap [OF assms(1,2)]
  by (auto simp: rescheduled_def addTime_def timer_ok_def interval_ok_def split: if_splits)

lemma reset_entries_ok:
  assumes "tq_wf (P \<union> snd ` set es) q" and "distinct (map snd es)" and "snd ` set es \<inter> P = {}"
  shows "\<exists>q'. reset_entries es now q = Some q' \<and> tq_wf P q'
    \<and> tq_heap q' = (\<lambda>a. if a \<in> snd ` set es then rescheduled now q a else tq_heap q a)
    \<and> tq_calling q' = tq_calling q \<and> tq_armed q' = tq_armed q
    \<and> set (tq_timers q) \<subseteq> set (tq_timers q') \<and> (\<forall>e\<in>set (tq_timers q'). e \<in> set (tq_timers q) \<or> now \<le> fst e)"
  using assms
proof (induction es arbitrary: q)
  case (Cons e es)
  let ?a = "snd e" and ?P = "P \<union> snd ` set es"
  have wf: "tq_wf (insert ?a ?P) q" and a: "?a \<notin> ?P" using Cons.prems by auto
  obtain t where t: "tq_heap q ?a = Some t" using tq_wf_detached [OF wf, of ?a] by blast
  obtain q1 where q1: "(if tm_repeat t \<and> (?a, tm_sequence t) \<notin> tq_canceling q
        then map_option snd (tq_insert ?a (q\<lparr>tq_heap := (tq_heap q)(?a \<mapsto> restart now t)\<rparr>))
        else Some (q\<lparr>tq_heap := (tq_heap q)(?a := None)\<rparr>)) = Some q1" "tq_wf ?P q1"
    "tq_heap q1 = (tq_heap q)(?a := rescheduled now q ?a)"
    "tq_canceling q1 = tq_canceling q" "tq_calling q1 = tq_calling q" "tq_armed q1 = tq_armed q"
    "set (tq_timers q1) = set (tq_timers q) \<union> {(addTime now (tm_interval t), ?a) |u. rescheduled now q ?a = Some u}"
    using reset_entry_ok [OF wf a t, of now] by blast
  have other: "rescheduled now q1 b = rescheduled now q b" if "b \<noteq> ?a" for b
    using that q1(3,4) by (simp add: rescheduled_def split: option.split)
  from Cons.IH [OF q1(2)] Cons.prems obtain q2 where q2: "reset_entries es now q1 = Some q2" "tq_wf P q2"
    "tq_heap q2 = (\<lambda>a. if a \<in> snd ` set es then rescheduled now q1 a else tq_heap q1 a)"
    "tq_calling q2 = tq_calling q1" "tq_armed q2 = tq_armed q1" "set (tq_timers q1) \<subseteq> set (tq_timers q2)"
    "\<forall>e\<in>set (tq_timers q2). e \<in> set (tq_timers q1) \<or> now \<le> fst e"
    by auto
  have "tq_heap q2 = (\<lambda>b. if b \<in> snd ` set (e # es) then rescheduled now q b else tq_heap q b)"
  proof
    fix b
    show "tq_heap q2 b = (if b \<in> snd ` set (e # es) then rescheduled now q b else tq_heap q b)"
      using q2(3) q1(3) a other [of b] by (cases "b = ?a") simp_all
  qed
  moreover have "\<forall>x\<in>set (tq_timers q2). x \<in> set (tq_timers q) \<or> now \<le> fst x"
  proof
    fix x assume "x \<in> set (tq_timers q2)"
    with q2(7) consider "now \<le> fst x" | "x \<in> set (tq_timers q1)" by blast
    then show "x \<in> set (tq_timers q) \<or> now \<le> fst x"
      by cases (use q1(7) rescheduled_later [OF wf t, of now] in auto)
  qed
  moreover have "set (tq_timers q) \<subseteq> set (tq_timers q2)" using q1(7) q2(6) by blast
  ultimately show ?case using t q1(1,5,6) q2(1,2,4,5) by simp
qed simp

lemma tq_reset_ok:
  assumes "tq_wf (P \<union> snd ` set es) q" and "distinct (map snd es)" and "snd ` set es \<inter> P = {}"
    and "0 < now" and "armed_ok (\<lambda>e. now < e) now' q"
  shows "\<exists>q'. tq_reset es now now' q = Some q' \<and> tq_wf P q' \<and> armed_ok (\<lambda>_. False) now' q'
    \<and> tq_heap q' = (\<lambda>a. if a \<in> snd ` set es then rescheduled now q a else tq_heap q a)
    \<and> tq_calling q' = tq_calling q"
proof -
  obtain q1 where q1: "reset_entries es now q = Some q1" "tq_wf P q1"
    "tq_heap q1 = (\<lambda>a. if a \<in> snd ` set es then rescheduled now q a else tq_heap q a)"
    "tq_calling q1 = tq_calling q" "tq_armed q1 = tq_armed q" "set (tq_timers q) \<subseteq> set (tq_timers q1)"
    "\<forall>e\<in>set (tq_timers q1). e \<in> set (tq_timers q) \<or> now \<le> fst e"
    using reset_entries_ok [OF assms(1-3)] by blast
  show ?thesis
  proof (cases "tq_timers q1")
    case Nil
    with q1 show ?thesis by (auto simp: tq_reset_def invalid_timestamp_def armed_ok_def)
  next
    case (Cons x xs)
    then have x: "x \<in> set (tq_timers q1)" by simp
    with q1(2) obtain t where t: "tq_heap q1 (snd x) = Some t" "tm_expiration t = fst x"
      using tq_wf_timers(4) [of P q1 "fst x" "snd x"] by auto
    have "tq_reset es now now' q = Some (if fst x > 0 then resetTimerfd now' (fst x) q1 else q1)"
      using q1(1) Cons t by (simp add: tq_reset_def)
    moreover have "tq_wf P (resetTimerfd now' (fst x) q1)"
      using q1(2) by (simp add: resetTimerfd_deadline tq_wf_def timer_ok_def)
    moreover have "armed_ok (\<lambda>_. False) now' (resetTimerfd now' (fst x) q1)"
      using Cons by (simp add: resetTimerfd_deadline armed_ok_def)
    moreover have "armed_ok (\<lambda>_. False) now' q1" if "\<not> fst x > 0"
    proof -
      from that q1(7) x assms(4) have m: "x \<in> set (tq_timers q)" by force
      then obtain y ys where y: "tq_timers q = y # ys" by (cases "tq_timers q") auto
      with q1(6) Cons tq_wf_timers(1) [OF q1(2)] have "x \<le> y" by auto
      moreover have "y \<le> x" using m y tq_wf_timers(1) [OF assms(1)] by auto
      ultimately show ?thesis using y Cons assms(4,5) that q1(5) by (auto simp: armed_ok_def)
    qed
    ultimately show ?thesis using q1(2-4) by (auto simp: resetTimerfd_deadline)
  qed
qed

lemma tq_handleRead_ok:
  assumes "tq_wf P q" and "alloc_ok alloc" and "0 < now"
    and "\<And>a. list_all (user_op_ok now') (acts a)"
  defines "expired \<equiv> filter (\<lambda>e. fst e \<le> now) (tq_timers q)"
  shows "\<exists>q'. tq_handleRead alloc acts now now' q = Some (expired, q') \<and> tq_wf P q'
    \<and> armed_ok (\<lambda>_. False) now' q' \<and> \<not> tq_calling q' \<and> (\<forall>a\<in>P. tq_heap q' a = tq_heap q a)
    \<and> (\<forall>e\<in>set expired. \<forall>t. tq_heap q (snd e) = Some t \<longrightarrow> tq_heap q' (snd e) =
         (if tm_repeat t \<and> (\<forall>e'\<in>set expired. CancelTimer (snd e, tm_sequence t) \<notin> set (acts (snd e')))
          then Some (restart now t) else None))"
proof -
  let ?P = "P \<union> snd ` set expired"
  have "tq_wf P (readTimerfd q)" using assms(1) by (simp add: readTimerfd_def tq_wf_def timer_ok_def)
  note ge = getExpired_ok [OF this, of now]
  obtain q1 where q1: "getExpired now (readTimerfd q) = Some (expired, q1)" "tq_wf ?P q1"
    "tq_timers q1 = filter (\<lambda>e. now < fst e) (tq_timers q)" "tq_heap q1 = tq_heap q"
    using ge(1,2) by (auto simp: readTimerfd_def expired_def)
  have ex: "distinct (map snd expired)" "snd ` set expired \<inter> P = {}"
    using ge(3,4) by (simp_all add: expired_def readTimerfd_def)
  let ?q1 = "q1\<lparr>tq_calling := True, tq_canceling := {}\<rparr>"
  have wf1: "tq_wf ?P ?q1" using q1(2) by (simp add: tq_wf_def timer_ok_def)
  have "armed_ok (\<lambda>e. now < e) now' ?q1"
  proof (cases "tq_timers ?q1")
    case (Cons x xs)
    then have "x \<in> set (filter (\<lambda>e. now < fst e) (tq_timers q))" using q1(3) by simp
    with Cons show ?thesis by (simp add: armed_ok_def)
  qed (simp add: armed_ok_def)
  moreover have "mono (\<lambda>e. now < e)" by (auto intro: monoI)
  ultimately obtain q2 where q2: "run_expired alloc acts expired ?q1 = Some q2"
    "user_frame ?P (\<Union>e\<in>set expired. set (acts (snd e))) ?q1 q2" "armed_ok (\<lambda>e. now < e) now' q2"
    using run_expired_ok [OF wf1 assms(2), of expired now' acts] assms(4) by blast
  let ?q2 = "q2\<lparr>tq_calling := False\<rparr>"
  have "tq_wf ?P ?q2" using q2(2) by (simp add: user_frame_def tq_wf_def timer_ok_def)
  moreover have "armed_ok (\<lambda>e. now < e) now' ?q2" using q2(3) by (auto simp: armed_ok_def split: list.splits)
  ultimately obtain q3 where q3: "tq_reset expired now now' ?q2 = Some q3" "tq_wf P q3"
    "armed_ok (\<lambda>_. False) now' q3"
    "tq_heap q3 = (\<lambda>a. if a \<in> snd ` set expired then rescheduled now ?q2 a else tq_heap ?q2 a)"
    "tq_calling q3 = tq_calling ?q2"
    using tq_reset_ok [OF _ ex assms(3)] by blast
  have "tq_heap q3 (snd e) = (if tm_repeat t \<and> (\<forall>e'\<in>set expired. CancelTimer (snd e, tm_sequence t) \<notin> set (acts (snd e')))
      then Some (restart now t) else None)" if "e \<in> set expired" "tq_heap q (snd e) = Some t" for e t
  proof -
    have "tq_heap q2 (snd e) = Some t" using q2(2) that q1(4) by (auto simp: user_frame_def)
    moreover have "(snd e, tm_sequence t) \<in> tq_canceling q2 \<longleftrightarrow>
        (\<exists>e'\<in>set expired. CancelTimer (snd e, tm_sequence t) \<in> set (acts (snd e')))"
      using q2(2) that(1) by (simp add: user_frame_def)
    ultimately show ?thesis using q3(4) that(1) by (simp add: rescheduled_def)
  qed
  moreover have "tq_heap q3 a = tq_heap q a" if "a \<in> P" for a
    using that ex(2) q3(4) q2(2) q1(4) by (auto simp: user_frame_def)
  ultimately show ?thesis using q1(1) q2(1) q3 by (simp add: tq_handleRead_def)
qed

section \<open>The queue with the threads around it\<close>

text \<open>
  Other threads construct a timer at once and leave the insertion, like a cancellation, to a functor
  that the loop runs in order. The loop's thread calls the queue directly and handles the descriptor
  when its countdown is over. \<open>tw_returning\<close> has the calls of \<open>addTimer\<close> in other threads that have handed their timer over
  and have yet to read its identifier: the address, and as ghosts the timer's sequence number and whether the
  functor is still waiting.
\<close>

datatype tq_functor = AddInLoop nat | CancelInLoop timer_id

fun run_tq_functor :: "int \<Rightarrow> tq_functor \<Rightarrow> 'c timer_queue \<Rightarrow> 'c timer_queue checked" where
  "run_tq_functor now (AddInLoop a) q = addTimerInLoop now a q"
| "run_tq_functor now (CancelInLoop i) q = cancelInLoop i q"

record 'c tq_world =
  tw_queue :: "'c timer_queue"
  tw_functors :: "tq_functor list"
  tw_clock :: int
  tw_returning :: "(nat \<times> nat \<times> bool) list"

definition handed_over :: "nat \<Rightarrow> nat \<times> nat \<times> bool \<Rightarrow> nat \<times> nat \<times> bool" where
  "handed_over a r = (case r of (b, s, waiting) \<Rightarrow> (b, s, waiting \<and> b \<noteq> a))"

fun functor_runs :: "tq_functor \<Rightarrow> (nat \<times> nat \<times> bool) list \<Rightarrow> (nat \<times> nat \<times> bool) list" where
  "functor_runs (AddInLoop a) rs = map (handed_over a) rs"
| "functor_runs (CancelInLoop i) rs = rs"

inductive tq_step :: "(nat set \<Rightarrow> nat option) \<Rightarrow> 'c tq_world \<Rightarrow> 'c tq_world \<Rightarrow> bool" for alloc where
  clock: "tw_clock w \<le> c \<Longrightarrow> tq_step alloc w (w\<lparr>tw_clock := c\<rparr>)"
| other_add: "create_timer alloc cb when iv (tw_queue w) = Some (a, q) \<Longrightarrow> interval_ok iv \<Longrightarrow>
    tq_step alloc w (w\<lparr>tw_queue := q, tw_functors := tw_functors w @ [AddInLoop a],
      tw_returning := (a, tq_numCreated (tw_queue w), True) # tw_returning w\<rparr>)"
| other_returns: "r \<in> set (tw_returning w) \<Longrightarrow> make_timer_id (fst r) (tw_queue w) = Some i \<Longrightarrow>
    tq_step alloc w (w\<lparr>tw_returning := remove1 r (tw_returning w)\<rparr>)"
| other_cancel: "tq_step alloc w (w\<lparr>tw_functors := tw_functors w @ [CancelInLoop i]\<rparr>)"
| functor_call: "tw_functors w = f # fs \<Longrightarrow> run_tq_functor (tw_clock w) f (tw_queue w) = Some q \<Longrightarrow>
    tq_step alloc w (w\<lparr>tw_queue := q, tw_functors := fs, tw_returning := functor_runs f (tw_returning w)\<rparr>)"
| loop_call: "user_op_ok (tw_clock w) u \<Longrightarrow> user_call alloc u (tw_queue w) = Some q \<Longrightarrow>
    tq_step alloc w (w\<lparr>tw_queue := q\<rparr>)"
| fire: "tq_armed (tw_queue w) = Some d \<Longrightarrow> d \<le> 1000 * tw_clock w \<Longrightarrow> tw_clock w \<le> now' \<Longrightarrow>
    (\<And>a. list_all (user_op_ok now') (acts a)) \<Longrightarrow>
    tq_handleRead alloc acts (tw_clock w) now' (tw_queue w) = Some (expired, q) \<Longrightarrow>
    tq_step alloc w (w\<lparr>tw_queue := q, tw_clock := now'\<rparr>)"

inductive tq_reachable :: "(nat set \<Rightarrow> nat option) \<Rightarrow> 'c tq_world \<Rightarrow> bool" for alloc where
  start: "0 < c \<Longrightarrow> tq_reachable alloc \<lparr>tw_queue = new_timer_queue, tw_functors = [], tw_clock = c, tw_returning = []\<rparr>"
| step: "tq_reachable alloc w \<Longrightarrow> tq_step alloc w w' \<Longrightarrow> tq_reachable alloc w'"

fun added :: "tq_functor list \<Rightarrow> nat list" where
  "added [] = []"
| "added (AddInLoop a # fs) = a # added fs"
| "added (CancelInLoop i # fs) = added fs"

lemma added_append [simp]: "added (fs @ gs) = added fs @ added gs"
  by (induction fs rule: added.induct) auto

definition tq_world_ok :: "'c tq_world \<Rightarrow> bool" where
  "tq_world_ok w \<longleftrightarrow> tq_wf (set (added (tw_functors w))) (tw_queue w) \<and> distinct (added (tw_functors w))
     \<and> armed_ok (\<lambda>_. False) (tw_clock w) (tw_queue w) \<and> \<not> tq_calling (tw_queue w) \<and> 0 < tw_clock w"

lemma mono_never: "mono (\<lambda>_ :: int. False)"
  by (auto intro: monoI)

lemma tq_functor_ok:
  assumes "tq_world_ok w" and "tw_functors w = f # fs"
  shows "\<exists>q. run_tq_functor (tw_clock w) f (tw_queue w) = Some q \<and> tq_world_ok (w\<lparr>tw_queue := q, tw_functors := fs, tw_returning := rs\<rparr>)
    \<and> (\<forall>a\<in>set (added fs). tq_heap q a = tq_heap (tw_queue w) a)"
proof (cases f)
  case (AddInLoop a)
  with assms addTimerInLoop_ok [of a "set (added fs)" "tw_queue w" "tw_clock w" "tw_clock w", OF _ _ _ mono_never]
  show ?thesis by (auto simp: tq_world_ok_def)
next
  case (CancelInLoop i)
  with assms cancel_call [of "set (added fs)" "tw_queue w", OF _ mono_never, of "tw_clock w" i]
  show ?thesis by (auto simp: tq_world_ok_def user_frame_def)
qed

lemma tq_world_ok_step:
  assumes "tq_step alloc w w'" and "alloc_ok alloc" and "tq_world_ok w"
  shows "tq_world_ok w'"
  using assms(1)
proof cases
  case (clock c)
  with assms(3) armed_ok_later [OF _ mono_never, of "tw_clock w" "tw_queue w" c] show ?thesis
    by (auto simp: tq_world_ok_def)
next
  case (other_add cb "when" iv a q)
  from assms(3) have wf: "tq_wf (set (added (tw_functors w))) (tw_queue w)" by (simp add: tq_world_ok_def)
  note cr = tq_wf_create [OF wf assms(2) other_add(3,2)]
  with other_add(1) assms(3) show ?thesis by (auto simp: tq_world_ok_def armed_ok_def split: list.splits)
next
  case (other_cancel i)
  with assms(3) show ?thesis by (simp add: tq_world_ok_def)
next
  case (other_returns r i)
  with assms(3) show ?thesis by (simp add: tq_world_ok_def)
next
  case (functor_call f fs q)
  with tq_functor_ok [OF assms(3), of f fs "functor_runs f (tw_returning w)"] show ?thesis by auto
next
  case (loop_call u q)
  with assms(2,3) user_call_ok [OF _ assms(2) _ mono_never, of _ "tw_queue w" "tw_clock w" u] show ?thesis
    by (fastforce simp: tq_world_ok_def user_frame_def)
next
  case (fire d now' acts expired q)
  with assms(3) tq_handleRead_ok [of _ "tw_queue w" alloc "tw_clock w" now' acts, OF _ assms(2)] show ?thesis
    by (fastforce simp: tq_world_ok_def)
qed

lemma tq_world_ok_reachable:
  assumes "tq_reachable alloc w" and "alloc_ok alloc"
  shows "tq_world_ok w"
  using assms(1)
proof induction
  case (start c)
  then show ?case
    by (simp add: tq_world_ok_def new_timer_queue_def tq_wf_def armed_ok_def)
next
  case (step w w')
  then show ?case using tq_world_ok_step assms(2) by blast
qed

text \<open>While the functor of an \<open>addTimer\<close> waits, its timer is there, and the caller reads the right identifier.\<close>

definition returning_ok :: "'c tq_world \<Rightarrow> bool" where
  "returning_ok w \<longleftrightarrow> (\<forall>a s. (a, s, True) \<in> set (tw_returning w) \<longrightarrow>
     a \<in> set (added (tw_functors w)) \<and> make_timer_id a (tw_queue w) = Some (a, s))"

lemma functor_runs_waiting:
  "(a, s, True) \<in> set (functor_runs f rs) \<Longrightarrow> (a, s, True) \<in> set rs \<and> f \<noteq> AddInLoop a"
  by (cases f) (auto simp: handed_over_def)

lemma returning_ok_step:
  assumes "tq_step alloc w w'" and "alloc_ok alloc" and "tq_world_ok w" and "returning_ok w"
  shows "returning_ok w'"
proof -
  have wf: "tq_wf (set (added (tw_functors w))) (tw_queue w)" and c: "0 < tw_clock w"
    and arm: "armed_ok (\<lambda>_. False) (tw_clock w) (tw_queue w)" using assms(3) by (simp_all add: tq_world_ok_def)
  have same: "make_timer_id a q = make_timer_id a (tw_queue w)" if "tq_heap q a = tq_heap (tw_queue w) a" for a q
    using that by (simp add: make_timer_id_def)
  from assms(1) show ?thesis
  proof cases
    case (clock c)
    with assms(4) show ?thesis by (simp add: returning_ok_def)
  next
    case (other_add cb "when" iv a q)
    note cr = tq_wf_create [OF wf assms(2) other_add(3,2)]
    have "make_timer_id b q = make_timer_id b (tw_queue w)" if "b \<in> set (added (tw_functors w))" for b
      using that cr(2,4) by (intro same) auto
    moreover have "make_timer_id a q = Some (a, tq_numCreated (tw_queue w))"
      by (simp add: cr(4) make_timer_id_def new_timer_def)
    ultimately show ?thesis using assms(4) other_add(1) by (auto simp: returning_ok_def)
  next
    case (other_returns r i)
    with assms(4) set_remove1_subset [of r "tw_returning w"] show ?thesis by (auto simp: returning_ok_def)
  next
    case (other_cancel i)
    with assms(4) show ?thesis by (auto simp: returning_ok_def)
  next
    case (functor_call f fs q)
    with tq_functor_ok [OF assms(3), of f fs] have h: "\<forall>a\<in>set (added fs). tq_heap q a = tq_heap (tw_queue w) a" by auto
    show ?thesis unfolding returning_ok_def
    proof (intro allI impI)
      fix a s assume "(a, s, True) \<in> set (tw_returning w')"
      then have r: "(a, s, True) \<in> set (tw_returning w)" "f \<noteq> AddInLoop a"
        using functor_call(1) functor_runs_waiting by auto
      with assms(4) have "a \<in> set (added (tw_functors w))" "make_timer_id a (tw_queue w) = Some (a, s)"
        unfolding returning_ok_def by blast+
      moreover from this(1) r(2) functor_call(2) have "a \<in> set (added fs)" by (cases f) auto
      ultimately show "a \<in> set (added (tw_functors w')) \<and> make_timer_id a (tw_queue w') = Some (a, s)"
        using h same [of q a] functor_call(1) by simp
    qed
  next
    case (loop_call u q)
    with user_call_ok [OF wf assms(2) loop_call(2) mono_never arm] have
      "\<forall>a\<in>set (added (tw_functors w)). tq_heap q a = tq_heap (tw_queue w) a" by (auto simp: user_frame_def simp del: user_call.simps)
    then have "\<forall>a\<in>set (added (tw_functors w)). make_timer_id a q = make_timer_id a (tw_queue w)" using same by blast
    with assms(4) loop_call(1) show ?thesis by (simp add: returning_ok_def)
  next
    case (fire d now' acts expired q)
    with tq_handleRead_ok [OF wf assms(2) c, of now' acts] have "\<forall>a\<in>set (added (tw_functors w)). tq_heap q a = tq_heap (tw_queue w) a"
      by auto
    then have "\<forall>a\<in>set (added (tw_functors w)). make_timer_id a q = make_timer_id a (tw_queue w)" using same by blast
    with assms(4) fire(1) show ?thesis by (simp add: returning_ok_def)
  qed
qed

lemma returning_ok_reachable:
  assumes "tq_reachable alloc w" and "alloc_ok alloc"
  shows "returning_ok w"
  using assms(1)
proof induction
  case (step w w')
  then show ?case using returning_ok_step assms(2) tq_world_ok_reachable by blast
qed (simp add: returning_ok_def)

lemma tq_wf_domain:
  assumes "tq_wf P q"
  shows "dom (tq_heap q) = snd ` set (tq_timers q) \<union> P"
proof (intro equalityI subsetI)
  fix a assume "a \<in> dom (tq_heap q)"
  then obtain t where t: "tq_heap q a = Some t" by blast
  show "a \<in> snd ` set (tq_timers q) \<union> P"
  proof (cases "a \<in> P")
    case False
    with tq_wf_heap [OF assms t] have "(a, tm_sequence t) \<in> tq_active q" by blast
    with t tq_wf_timers(4) [OF assms, of "tm_expiration t" a] show ?thesis by force
  qed simp
next
  fix a assume "a \<in> snd ` set (tq_timers q) \<union> P"
  then show "a \<in> dom (tq_heap q)"
    using tq_wf_timers(4) [OF assms] assms by (auto simp: tq_wf_def)
qed

text \<open>A first-fit allocator over a small arena, and a queue with a repeating timer, for concrete runs.\<close>

definition first_fit :: "nat set \<Rightarrow> nat option" where
  "first_fit A = find (\<lambda>a. a \<notin> A) [1..<100]"

lemma first_fit_ok: "alloc_ok first_fit"
  by (auto simp: alloc_ok_def first_fit_def find_Some_iff)

definition second_interval :: interval where
  "second_interval = \<lparr>iv_positive = True, iv_micros = 1000000\<rparr>"

definition one_timer_queue :: "nat timer_queue" where
  "one_timer_queue = \<lparr>tq_heap = [1 \<mapsto> new_timer 7 500 second_interval 0], tq_numCreated = 1, tq_timers = [(500, 1)],
     tq_active = {(1, 0)}, tq_calling = False, tq_canceling = {}, tq_armed = Some 500000\<rparr>"

lemma one_timer_reachable:
  assumes "400 \<le> c"
  shows "tq_reachable first_fit \<lparr>tw_queue = one_timer_queue, tw_functors = [], tw_clock = c, tw_returning = []\<rparr>"
proof -
  have s: "tq_reachable first_fit \<lparr>tw_queue = new_timer_queue :: nat timer_queue, tw_functors = [], tw_clock = 400, tw_returning = []\<rparr>"
    by (rule tq_reachable.start) simp
  have f: "first_fit {} = Some 1" by (simp add: first_fit_def upt_rec)
  have "user_call first_fit (AddTimer 400 7 500 second_interval) new_timer_queue = Some one_timer_queue"
    by (simp add: create_timer_def new_timer_queue_def f addTimerInLoop_def tq_insert_def sizes_agree_def
        new_timer_def insort_insert_key_def resetTimerfd_deadline one_timer_queue_def asserting_def make_timer_id_def)
  with tq_reachable.step [OF s] tq_step.loop_call [of "\<lparr>tw_queue = new_timer_queue :: nat timer_queue, tw_functors = [], tw_clock = 400, tw_returning = []\<rparr>"
      "AddTimer 400 7 500 second_interval" first_fit one_timer_queue]
  have "tq_reachable first_fit \<lparr>tw_queue = one_timer_queue, tw_functors = [], tw_clock = 400, tw_returning = []\<rparr>"
    by (simp add: second_interval_def interval_ok_def)
  from tq_reachable.step [OF this tq_step.clock [of _ c]] assms show ?thesis by simp
qed

text \<open>
  A caller in another thread may read the identifier too late: the loop can insert the timer, run it and delete it before the
  caller's \<open>timer->sequence()\<close>, which then reads deleted memory.
\<close>

lemma late_identifier_read:
  "\<exists>w :: nat tq_world. tq_reachable first_fit w \<and> (1, 0, False) \<in> set (tw_returning w) \<and> make_timer_id 1 (tw_queue w) = None"
proof -
  let ?iv = "\<lparr>iv_positive = False, iv_micros = 0\<rparr>"
  let ?t = "new_timer (7 :: nat) 500 ?iv 0"
  let ?q1 = "(new_timer_queue :: nat timer_queue)\<lparr>tq_heap := [1 \<mapsto> ?t], tq_numCreated := 1\<rparr>"
  let ?q2 = "?q1\<lparr>tq_timers := [(500, 1)], tq_active := {(1, 0)}, tq_armed := Some 500000\<rparr>"
  let ?w = "\<lambda>q fs c b. \<lparr>tw_queue = q, tw_functors = fs, tw_clock = c, tw_returning = [(1, 0, b)]\<rparr>"
  have f: "first_fit {} = Some 1" by (simp add: first_fit_def upt_rec)
  have s: "tq_reachable first_fit \<lparr>tw_queue = new_timer_queue :: nat timer_queue, tw_functors = [], tw_clock = 400, tw_returning = []\<rparr>"
    by (rule tq_reachable.start) simp
  have "create_timer first_fit 7 500 ?iv (new_timer_queue :: nat timer_queue) = Some (1, ?q1)"
    using f by (simp add: create_timer_def new_timer_queue_def)
  from tq_reachable.step [OF s tq_step.other_add [of _ 7 500 ?iv]] this
  have r1: "tq_reachable first_fit (?w ?q1 [AddInLoop 1] 400 True)" by (simp add: interval_ok_def new_timer_queue_def)
  have "addTimerInLoop 400 1 ?q1 = Some ?q2"
    by (simp add: new_timer_queue_def addTimerInLoop_def tq_insert_def sizes_agree_def new_timer_def insort_insert_key_def
        resetTimerfd_deadline asserting_def)
  from tq_reachable.step [OF r1 tq_step.functor_call [of _ "AddInLoop 1" "[]"]] this
  have r2: "tq_reachable first_fit (?w ?q2 [] 400 False)" by (simp add: handed_over_def)
  from tq_reachable.step [OF r2 tq_step.clock [of _ 600]] have r3: "tq_reachable first_fit (?w ?q2 [] 600 False)" by simp
  have wf: "tq_wf {} ?q2" using tq_world_ok_reachable [OF r3 first_fit_ok] by (simp add: tq_world_ok_def)
  obtain ex q where q: "tq_handleRead first_fit (\<lambda>_. []) 600 600 ?q2 = Some (ex, q)" "tq_heap q 1 = None"
    using tq_handleRead_ok [OF wf first_fit_ok, of 600 600 "\<lambda>_. []"] by (auto simp: new_timer_def)
  have "tq_reachable first_fit (?w q [] 600 False)"
    using tq_reachable.step [OF r3 tq_step.fire [of _ 500000 600 "\<lambda>_. []" first_fit ex q]] q(1) by simp
  with q(2) show ?thesis by (intro exI [of _ "?w q [] 600 False"]) (simp add: make_timer_id_def)
qed

text \<open>
  C19: However other threads' calls, calls from callbacks and alarms interleave, no assertion of the timer
  queue fails and the loop's thread never touches a deleted timer: a waiting functor, a call from the loop's thread (with the
  identifier it returns) and the alarm handler with whatever its callbacks do all return; and no timer leaks: every timer that
  exists is scheduled or waits for its insertion. A caller of \<open>addTimer\<close> in another thread reads its timer's identifier
  after it has handed the timer over: it reads the right one as long as the loop has not run the insertion. After
  that the timer may have been run and deleted, and the read is not safe; nothing is claimed of it.
\<close>

theorem timer_queue_safe:
  assumes "tq_reachable alloc w" and "alloc_ok alloc"
  shows "(\<forall>f fs. tw_functors w = f # fs \<longrightarrow> run_tq_functor (tw_clock w) f (tw_queue w) \<noteq> None)
    \<and> (\<forall>u. user_op_ok (tw_clock w) u \<longrightarrow> user_call alloc u (tw_queue w) \<noteq> None)
    \<and> (\<forall>acts now'. (\<forall>a. list_all (user_op_ok now') (acts a)) \<longrightarrow>
          tq_handleRead alloc acts (tw_clock w) now' (tw_queue w) \<noteq> None)
    \<and> dom (tq_heap (tw_queue w)) = snd ` set (tq_timers (tw_queue w)) \<union> set (added (tw_functors w))
    \<and> (\<forall>a s. (a, s, True) \<in> set (tw_returning w) \<longrightarrow> make_timer_id a (tw_queue w) = Some (a, s))"
proof (intro conjI allI impI)
  from tq_world_ok_reachable [OF assms] have ok: "tq_world_ok w" .
  then have wf: "tq_wf (set (added (tw_functors w))) (tw_queue w)" and arm: "armed_ok (\<lambda>_. False) (tw_clock w) (tw_queue w)"
    and c: "0 < tw_clock w" by (simp_all add: tq_world_ok_def)
  show "run_tq_functor (tw_clock w) f (tw_queue w) \<noteq> None" if "tw_functors w = f # fs" for f fs
    using tq_functor_ok [OF ok that] by auto
  show "user_call alloc u (tw_queue w) \<noteq> None" if "user_op_ok (tw_clock w) u" for u
    using user_call_ok [OF wf assms(2) that mono_never arm] by auto
  show "tq_handleRead alloc acts (tw_clock w) now' (tw_queue w) \<noteq> None"
    if "\<forall>a. list_all (user_op_ok now') (acts a)" for acts now'
    using tq_handleRead_ok [OF wf assms(2) c, of now' acts] that by auto
  show "dom (tq_heap (tw_queue w)) = snd ` set (tq_timers (tw_queue w)) \<union> set (added (tw_functors w))"
    by (rule tq_wf_domain [OF wf])
  show "make_timer_id a (tw_queue w) = Some (a, s)" if "(a, s, True) \<in> set (tw_returning w)" for a s
    using returning_ok_reachable [OF assms] that by (simp add: returning_ok_def)
qed

theorem timer_queue_safe_witness:
  "tq_handleRead first_fit (\<lambda>_. [CancelTimer (1, 0), AddTimer 600 8 700 second_interval]) 600 600 one_timer_queue \<noteq> None"
  using timer_queue_safe [OF one_timer_reachable [of 600] first_fit_ok]
  by (simp add: second_interval_def interval_ok_def)



text \<open>
  C30: The alarm is never forgotten: whenever a timer is scheduled, the descriptor is armed, and for a
  moment no later than the first expiration, or 100 microseconds from now if that is later.
\<close>

theorem timer_alarm_set:
  assumes "tq_reachable alloc w" and "alloc_ok alloc" and "tq_timers (tw_queue w) = e # es"
  shows "(\<forall>e'\<in>set es. fst e \<le> fst e') \<and>
    (\<exists>d. tq_armed (tw_queue w) = Some d \<and> d \<le> 1000 * max (fst e) (tw_clock w + 100))"
proof -
  from tq_world_ok_reachable [OF assms(1,2)] have wf: "tq_wf (set (added (tw_functors w))) (tw_queue w)"
    and a: "armed_ok (\<lambda>_. False) (tw_clock w) (tw_queue w)" by (simp_all add: tq_world_ok_def)
  from tq_wf_timers(1) [OF wf] assms(3) have "\<forall>e'\<in>set es. e \<le> e'" by simp
  then have "\<forall>e'\<in>set es. fst e \<le> fst e'" by (auto simp: less_eq_prod_def prod.case_eq_if)
  with a assms(3) show ?thesis by (simp add: armed_ok_def)
qed

theorem timer_alarm_set_witness:
  "\<exists>d. tq_armed one_timer_queue = Some d \<and> d \<le> 1000 * max 500 (450 + 100)"
  using timer_alarm_set [OF one_timer_reachable [of 450] first_fit_ok] by (simp add: one_timer_queue_def)

text \<open>
  Cancelling outside of a round removes the timer the identifier names and nothing else; an
  identifier of a timer that has gone, also when a new timer has its address, changes nothing.
\<close>

lemma cancel_exact:
  assumes "tq_reachable alloc w" and "alloc_ok alloc"
  shows "\<exists>q'. cancelInLoop i (tw_queue w) = Some q' \<and> tq_active q' = tq_active (tw_queue w) - {i}
    \<and> (\<forall>a. tq_heap q' a = (if i \<in> tq_active (tw_queue w) \<and> a = fst i then None else tq_heap (tw_queue w) a))
    \<and> (i \<notin> tq_active (tw_queue w) \<longrightarrow> q' = tw_queue w)"
proof -
  let ?P = "set (added (tw_functors w))" and ?q = "tw_queue w"
  from tq_world_ok_reachable [OF assms] have wf: "tq_wf ?P ?q" and c: "\<not> tq_calling ?q"
    by (simp_all add: tq_world_ok_def)
  show ?thesis
  proof (cases "i \<in> tq_active ?q")
    case True
    then obtain t where t: "tq_heap ?q (fst i) = Some t" using wf by (metis prod.collapse tq_wf_active)
    from tq_wf_cancel(1) [OF wf True t] True show ?thesis by simp
  next
    case False
    with cancel_inactive [OF wf False] c show ?thesis by simp
  qed
qed

lemma cancel_exact_witness:
  "\<exists>q'. cancelInLoop (1, 5) one_timer_queue = Some q' \<and> q' = one_timer_queue"
  using cancel_exact [OF one_timer_reachable [of 450] first_fit_ok, of "(1, 5)"] by (auto simp: one_timer_queue_def)

end
