(* ===== verification/RouteTrie.thy ===== *)
theory RouteTrie
  imports Prelude
begin

text \<open>
  The route trie of \<open>net/RouteTrie.h\<close> and \<open>net/RouteTrie.cc\<close>. Nodes are created by \<open>addRoute\<close> and linked
  once, so that the trie is a datatype; children and handlers are only looked up by key, so that both
  maps are functions. The theorems compare the trie with a table of its parameter-free routes: that is
  all it implements, because \<open>addRoute\<close> keeps a parameter's name in the parent of the node in which
  \<open>findMatches\<close> looks for it.
\<close>

section \<open>The trie\<close>

datatype trie_node = TrieNode
  (children: "string \<Rightarrow> trie_node option") (handlers: "string \<Rightarrow> string option")
  (paramNames: "string list") (isLeaf: bool)

definition new_node :: trie_node where
  "new_node = TrieNode (\<lambda>_. None) (\<lambda>_. None) [] False"

text \<open>\<open>splitPath\<close>: \<open>std::getline\<close> with the delimiter \<open>/\<close>, empty segments dropped.\<close>

fun getline_split :: "string \<Rightarrow> string \<Rightarrow> string list" where
  "getline_split acc [] = (if acc = [] then [] else [acc])"
| "getline_split acc (c # cs) = (if c = CHR ''/'' then acc # getline_split [] cs else getline_split (acc @ [c]) cs)"

definition splitPath :: "string \<Rightarrow> string list" where
  "splitPath path = filter (\<lambda>s. s \<noteq> []) (getline_split [] path)"

definition is_param :: "string \<Rightarrow> bool" where
  "is_param segment \<longleftrightarrow> starts_with '':'' segment"

definition child_or_new :: "trie_node \<Rightarrow> string \<Rightarrow> trie_node" where
  "child_or_new n k = (case children n k of None \<Rightarrow> new_node | Some c \<Rightarrow> c)"

fun add_segments :: "string list \<Rightarrow> string \<Rightarrow> string \<Rightarrow> trie_node \<Rightarrow> trie_node" where
  "add_segments [] meth handler n =
     TrieNode (children n) ((handlers n)(meth \<mapsto> handler)) (paramNames n) True"
| "add_segments (segment # segments) meth handler n =
     (if is_param segment
      then TrieNode ((children n)(''*'' \<mapsto> add_segments segments meth handler (child_or_new n ''*'')))
             (handlers n) (paramNames n @ [tl segment]) (isLeaf n)
      else TrieNode ((children n)(segment \<mapsto> add_segments segments meth handler (child_or_new n segment)))
             (handlers n) (paramNames n) (isLeaf n))"

definition trie_addRoute :: "string \<Rightarrow> string \<Rightarrow> string \<Rightarrow> trie_node \<Rightarrow> trie_node" where
  "trie_addRoute path meth handler root = add_segments (splitPath path) meth handler root"

type_synonym params = "string \<rightharpoonup> string"

text \<open>The value of a wildcard: the segments it covers, joined with \<open>/\<close>.\<close>

definition join_segment :: "string \<Rightarrow> string \<Rightarrow> string" where
  "join_segment v s = (if v \<noteq> [] then v @ ''/'' else v) @ s"

definition join_segments :: "string list \<Rightarrow> string" where
  "join_segments segs = foldl join_segment [] segs"

text \<open>
  \<open>findMatches\<close> on the segments from \<open>currentIndex\<close> on; the matches are in the order in which the code
  adds them to the vector.
\<close>

function findMatches :: "trie_node \<Rightarrow> string list \<Rightarrow> params \<Rightarrow> (trie_node \<times> params) list" where
  "findMatches node [] currentParams = (if isLeaf node then [(node, currentParams)] else [])"
| "findMatches node (currentSegment # rest) currentParams =
     (case children node currentSegment of
        None \<Rightarrow> []
      | Some c \<Rightarrow> findMatches c rest currentParams) @
     (case children node ''*'' of
        None \<Rightarrow> []
      | Some paramNode \<Rightarrow>
          if paramNames paramNode = [] then []
          else findMatches paramNode rest (currentParams(last (paramNames paramNode) \<mapsto> currentSegment))) @
     (case children node ''**'' of
        None \<Rightarrow> []
      | Some wildcardNode \<Rightarrow>
          concat (map (\<lambda>i. let wildcardValue = join_segments (take i (currentSegment # rest))
                           in if wildcardValue = [] then []
                              else findMatches wildcardNode (drop i (currentSegment # rest))
                                     (currentParams(''*'' \<mapsto> wildcardValue)))
                    [0..<length (currentSegment # rest) + 1]))"
  by pat_completeness auto
termination
proof (relation "measure (\<lambda>(n, segs, ps). length segs)", goal_cases)
  case (4 node s rest ps w i v)
  then have "i \<noteq> 0" by (cases i) (auto simp: join_segments_def)
  then show ?case by (cases i) auto
qed auto

fun first_with_method :: "string \<Rightarrow> (trie_node \<times> params) list \<Rightarrow> string \<times> params" where
  "first_with_method meth [] = ([], (\<lambda>_. None))"
| "first_with_method meth ((n, ps) # matches) =
     (case (isLeaf n, handlers n meth) of
        (True, Some h) \<Rightarrow> (h, ps)
      | _ \<Rightarrow> first_with_method meth matches)"

definition findRoute :: "string \<Rightarrow> string \<Rightarrow> trie_node \<Rightarrow> string \<times> params" where
  "findRoute path meth root =
     (let basePath = (case find_char (CHR ''?'') path of Some i \<Rightarrow> take i path | None \<Rightarrow> path);
          segments = splitPath basePath
      in first_with_method meth (findMatches root segments (\<lambda>_. None)))"

section \<open>Walking the trie\<close>

type_synonym route = "string \<times> string \<times> string"

definition build_trie :: "route list \<Rightarrow> trie_node" where
  "build_trie rs = fold (\<lambda>(path, meth, handler). trie_addRoute path meth handler) rs new_node"

fun walk :: "trie_node \<Rightarrow> string list \<Rightarrow> trie_node option" where
  "walk n [] = Some n"
| "walk n (k # ks) = (case children n k of None \<Rightarrow> None | Some c \<Rightarrow> walk c ks)"

definition label :: "string \<Rightarrow> string" where
  "label segment = (if is_param segment then ''*'' else segment)"

definition at :: "(trie_node \<Rightarrow> 'a) \<Rightarrow> trie_node \<Rightarrow> string list \<Rightarrow> 'a" where
  "at f n ks = f (case walk n ks of None \<Rightarrow> new_node | Some c \<Rightarrow> c)"

lemma new_node_simps [simp]:
  "children new_node = (\<lambda>_. None)" "handlers new_node = (\<lambda>_. None)" "paramNames new_node = []" "isLeaf new_node = False"
  by (simp_all add: new_node_def)

lemma at_Nil [simp]: "at f n [] = f n"
  by (simp add: at_def)

lemma at_new [simp]: "at f new_node ks = f new_node"
  by (cases ks) (simp_all add: at_def)

lemma at_Cons: "at f n (k # ks) = at f (child_or_new n k) ks"
proof (cases "children n k")
  case None
  then show ?thesis by (cases ks) (simp_all add: at_def child_or_new_def)
qed (simp add: at_def child_or_new_def)

lemma child_or_new_add:
  "child_or_new (add_segments (s # segs) m h n) k =
     (if k = label s then add_segments segs m h (child_or_new n k) else child_or_new n k)"
  by (simp add: label_def child_or_new_def)

lemma add_Cons_same [simp]:
  "handlers (add_segments (s # segs) m h n) = handlers n" "isLeaf (add_segments (s # segs) m h n) = isLeaf n"
  by simp_all

lemma handler_at_add:
  "at handlers (add_segments segs m h n) ks =
     (if ks = map label segs then (at handlers n ks)(m \<mapsto> h) else at handlers n ks)"
proof (induction segs arbitrary: n ks)
  case Nil
  then show ?case by (cases ks) (simp_all add: at_Cons child_or_new_def)
next
  case (Cons s segs)
  then show ?case by (cases ks) (simp_all add: child_or_new_add at_Cons del: add_segments.simps)
qed

lemma leaf_at_add:
  "at isLeaf (add_segments segs m h n) ks \<longleftrightarrow> ks = map label segs \<or> at isLeaf n ks"
proof (induction segs arbitrary: n ks)
  case Nil
  then show ?case by (cases ks) (simp_all add: at_Cons child_or_new_def)
next
  case (Cons s segs)
  then show ?case by (cases ks) (simp_all add: child_or_new_add at_Cons del: add_segments.simps)
qed

text \<open>What a node has, it got from an earlier route or from the segment with which this route goes on there.\<close>

lemma at_add_origin:
  assumes "at Q (add_segments segs m h n) ks" and "\<And>n. Q (add_segments [] m h n) \<Longrightarrow> Q n"
    and "\<And>s segs n. Q (add_segments (s # segs) m h n) \<Longrightarrow> Q n \<or> R s"
  shows "at Q n ks \<or> (\<exists>i<length segs. ks = map label (take i segs) \<and> R (segs ! i))"
  using assms(1)
proof (induction segs arbitrary: n ks)
  case Nil
  then show ?case using assms(2) by (cases ks) (simp_all add: at_Cons child_or_new_def)
next
  case (Cons s segs)
  show ?case
  proof (cases ks)
    case Nil
    with Cons.prems assms(3) show ?thesis by (auto intro!: exI [of _ 0] simp del: add_segments.simps)
  next
    case (Cons k ks')
    note prems = Cons.prems [unfolded Cons at_Cons child_or_new_add]
    show ?thesis
    proof (cases "k = label s")
      case True
      with prems Cons.IH [of "child_or_new n k" ks'] show ?thesis
        by (fastforce simp: Cons at_Cons)
    qed (use prems Cons in \<open>simp add: at_Cons\<close>)
  qed
qed

definition segments_of :: "route \<Rightarrow> string list" where
  "segments_of r = splitPath (fst r)"

lemma build_trie_snoc: "build_trie (rs @ [r]) = add_segments (segments_of r) (fst (snd r)) (snd (snd r)) (build_trie rs)"
  by (simp add: build_trie_def segments_of_def trie_addRoute_def prod.case_eq_if)

lemma at_build_origin:
  assumes "at Q (build_trie rs) ks" and "\<not> Q new_node" and "\<And>m h n. Q (add_segments [] m h n) \<Longrightarrow> Q n"
    and "\<And>s segs m h n. Q (add_segments (s # segs) m h n) \<Longrightarrow> Q n \<or> R s"
  shows "\<exists>r\<in>set rs. \<exists>i<length (segments_of r). ks = map label (take i (segments_of r)) \<and> R (segments_of r ! i)"
  using assms(1)
proof (induction rs rule: rev_induct)
  case Nil
  then show ?case using assms(2) by (simp add: build_trie_def)
next
  case (snoc r rs)
  have "at Q (build_trie rs) ks \<or> (\<exists>i<length (segments_of r). ks = map label (take i (segments_of r)) \<and> R (segments_of r ! i))"
    by (rule at_add_origin [OF snoc.prems [unfolded build_trie_snoc]]) (fact assms(3), fact assms(4))
  with snoc.IH show ?case by auto
qed

lemma names_in_build:
  assumes "at (\<lambda>n. paramNames n \<noteq> []) (build_trie rs) ks"
  shows "\<exists>r\<in>set rs. \<exists>i<length (segments_of r). ks = map label (take i (segments_of r)) \<and> is_param (segments_of r ! i)"
  by (rule at_build_origin [OF assms]) (auto split: if_splits)

lemma child_in_build:
  assumes "at (\<lambda>n. children n k \<noteq> None) (build_trie rs) ks"
  shows "\<exists>r\<in>set rs. \<exists>i<length (segments_of r). ks = map label (take i (segments_of r)) \<and> label (segments_of r ! i) = k"
  by (rule at_build_origin [OF assms]) (auto simp: label_def split: if_splits)

lemma leaf_in_build: "at isLeaf (build_trie rs) ks \<longleftrightarrow> (\<exists>r\<in>set rs. ks = map label (segments_of r))"
  by (induction rs rule: rev_induct) (auto simp: build_trie_snoc leaf_at_add, simp add: build_trie_def)

text \<open>The reference: what was registered last for the labels and the method.\<close>

definition labelled_table :: "route list \<Rightarrow> string list \<times> string \<Rightarrow> string option" where
  "labelled_table rs = map_of (rev (map (\<lambda>r. ((map label (segments_of r), fst (snd r)), snd (snd r))) rs))"

lemma handler_in_build: "at handlers (build_trie rs) ks m = labelled_table rs (ks, m)"
  by (induction rs rule: rev_induct)
    (auto simp: build_trie_snoc handler_at_add labelled_table_def, simp_all add: build_trie_def)

section \<open>What is found\<close>

lemma at_id: "at f n ks = f (at (\<lambda>c. c) n ks)"
  by (simp add: at_def)

lemma findMatches_exact:
  assumes "\<And>ks. \<not> at (\<lambda>n. paramNames n \<noteq> []) n (ks @ [''*''])" and "\<And>ks. \<not> at (\<lambda>n. children n ''**'' \<noteq> None) n ks"
  shows "findMatches n segs ps = (if at isLeaf n segs then [(at (\<lambda>c. c) n segs, ps)] else [])"
  using assms
proof (induction segs arbitrary: n ps)
  case (Cons s segs)
  have "\<not> at (\<lambda>n. paramNames n \<noteq> []) (child_or_new n s) (ks @ [''*''])" for ks
    using Cons.prems(1) [of "s # ks"] by (simp add: at_Cons)
  moreover have "\<not> at (\<lambda>n. children n ''**'' \<noteq> None) (child_or_new n s) ks" for ks
    using Cons.prems(2) [of "s # ks"] by (simp add: at_Cons)
  ultimately have "findMatches (child_or_new n s) segs ps = (if at isLeaf n (s # segs) then [(at (\<lambda>c. c) n (s # segs), ps)] else [])"
    using Cons.IH by (simp add: at_Cons)
  moreover have "findMatches new_node segs ps = []" by (cases segs) simp_all
  moreover have "paramNames c = []" if "children n ''*'' = Some c" for c
    using that Cons.prems(1) [of "[]"] by (simp add: at_Cons child_or_new_def)
  moreover have "children n ''**'' = None" using Cons.prems(2) [of "[]"] by simp
  ultimately show ?case by (cases "children n s") (auto simp: child_or_new_def split: option.splits if_splits)
qed simp

definition static_route :: "route \<Rightarrow> bool" where
  "static_route r \<longleftrightarrow> (\<forall>s\<in>set (segments_of r). \<not> is_param s)"

definition static_table :: "route list \<Rightarrow> string list \<times> string \<Rightarrow> string option" where
  "static_table rs = map_of (rev (map (\<lambda>r. ((segments_of r, fst (snd r)), snd (snd r))) (filter static_route rs)))"

definition base_path :: "string \<Rightarrow> string" where
  "base_path path = (case find_char (CHR ''?'') path of Some i \<Rightarrow> take i path | None \<Rightarrow> path)"

text \<open>Routes with neither a star nor two parameters in a row.\<close>

definition plain_route :: "route \<Rightarrow> bool" where
  "plain_route r \<longleftrightarrow> ''*'' \<notin> set (segments_of r) \<and> ''**'' \<notin> set (segments_of r)
     \<and> (\<forall>i. Suc i < length (segments_of r) \<longrightarrow> is_param (segments_of r ! i) \<longrightarrow> \<not> is_param (segments_of r ! Suc i))"

lemma label_static: "''*'' \<notin> set (map label segs) \<longleftrightarrow> (\<forall>s\<in>set segs. \<not> is_param s \<and> s \<noteq> ''*'')"
  by (auto simp: label_def)

lemma labelled_static:
  assumes "''*'' \<notin> set ks"
  shows "labelled_table rs (ks, m) = static_table rs (ks, m)"
proof (induction rs rule: rev_induct)
  case (snoc r rs)
  have "map label (segments_of r) = ks \<longleftrightarrow> static_route r \<and> segments_of r = ks"
  proof
    assume m: "map label (segments_of r) = ks"
    with assms have "static_route r" by (auto simp: static_route_def label_def)
    then have "map label (segments_of r) = segments_of r"
      by (intro map_idI) (simp add: static_route_def label_def)
    with m \<open>static_route r\<close> show "static_route r \<and> segments_of r = ks" by simp
  next
    assume "static_route r \<and> segments_of r = ks"
    then show "map label (segments_of r) = ks" by (auto simp: static_route_def label_def intro: map_idI)
  qed
  with snoc show ?case by (auto simp: labelled_table_def static_table_def)
qed (simp add: labelled_table_def static_table_def)

lemma build_no_params:
  assumes "\<And>r. r \<in> set rs \<Longrightarrow> plain_route r"
  shows "\<not> at (\<lambda>n. paramNames n \<noteq> []) (build_trie rs) (ks @ [''*''])"
proof
  assume "at (\<lambda>n. paramNames n \<noteq> []) (build_trie rs) (ks @ [''*''])"
  then obtain r i where r: "r \<in> set rs" "i < length (segments_of r)" "ks @ [''*''] = map label (take i (segments_of r))"
    "is_param (segments_of r ! i)" using names_in_build by blast
  from r(3) obtain j where j: "i = Suc j" by (cases i) auto
  with r(2,3) have "label (segments_of r ! j) = ''*''" by (simp add: take_Suc_conv_app_nth)
  moreover have "segments_of r ! j \<noteq> ''*''"
    using assms [OF r(1)] r(2) j by (auto simp: plain_route_def dest!: nth_mem [of j] Suc_lessD)
  ultimately have "is_param (segments_of r ! j)" by (auto simp: label_def split: if_splits)
  with assms [OF r(1)] r(2,4) j show False by (auto simp: plain_route_def)
qed

lemma build_no_wildcards:
  assumes "\<And>r. r \<in> set rs \<Longrightarrow> plain_route r"
  shows "\<not> at (\<lambda>n. children n ''**'' \<noteq> None) (build_trie rs) ks"
proof
  assume "at (\<lambda>n. children n ''**'' \<noteq> None) (build_trie rs) ks"
  then obtain r i where r: "r \<in> set rs" "i < length (segments_of r)" "label (segments_of r ! i) = ''**''"
    using child_in_build by blast
  then have "segments_of r ! i = ''**''" by (auto simp: label_def split: if_splits)
  with assms [OF r(1)] r(2) nth_mem [OF r(2)] show False by (simp add: plain_route_def)
qed

text \<open>
  C31: For routes without stars and without two parameters in a row, and requests without a star, the
  trie is exactly the table of the parameter-free routes: the handler registered last for the segments
  and the method is found, with no parameters. In particular a route with a parameter is never found.
\<close>

theorem trie_is_static_table:
  assumes "\<And>r. r \<in> set rs \<Longrightarrow> plain_route r" and "''*'' \<notin> set (splitPath (base_path path))"
  shows "findRoute path meth (build_trie rs) =
    (case static_table rs (splitPath (base_path path), meth) of None \<Rightarrow> ([], Map.empty) | Some h \<Rightarrow> (h, Map.empty))"
proof -
  let ?ks = "splitPath (base_path path)" and ?t = "build_trie rs"
  have f: "findMatches ?t ?ks ps = (if at isLeaf ?t ?ks then [(at (\<lambda>c. c) ?t ?ks, ps)] else [])" for ps
    by (rule findMatches_exact [OF build_no_params build_no_wildcards]) (use assms(1) in auto)
  have h: "handlers (at (\<lambda>c. c) ?t ?ks) meth = static_table rs (?ks, meth)"
    using handler_in_build [of rs ?ks meth] labelled_static [OF assms(2)] by (metis at_id)
  have l: "at isLeaf ?t ?ks" if "static_table rs (?ks, meth) = Some x" for x
  proof -
    from that labelled_static [OF assms(2), of rs meth] have "labelled_table rs (?ks, meth) = Some x" by simp
    then show ?thesis by (auto simp: labelled_table_def leaf_in_build dest!: map_of_SomeD)
  qed
  show ?thesis
    unfolding findRoute_def base_path_def [symmetric] Let_def f using h l at_id [of isLeaf ?t ?ks]
    by (auto split: option.split)
qed

theorem trie_is_static_table_witness:
  "findRoute ''/files/a?x=1'' ''GET'' (build_trie [(''/files/a'', ''GET'', ''h''), (''/files/:id'', ''GET'', ''p'')]) = (''h'', Map.empty)
   \<and> findRoute ''/files/b'' ''GET'' (build_trie [(''/files/a'', ''GET'', ''h''), (''/files/:id'', ''GET'', ''p'')]) = ([], Map.empty)"
proof -
  have p: "plain_route r" if "r \<in> set [(''/files/a'', ''GET'', ''h''), (''/files/:id'', ''GET'', ''p'')]" for r
    using that by (auto simp: plain_route_def segments_of_def splitPath_def is_param_def less_Suc_eq_0_disj)
  note f = trie_is_static_table [where rs = "[(''/files/a'', ''GET'', ''h''), (''/files/:id'', ''GET'', ''p'')]" and meth = "''GET''", OF p]
  have "findRoute ''/files/a?x=1'' ''GET'' (build_trie [(''/files/a'', ''GET'', ''h''), (''/files/:id'', ''GET'', ''p'')]) = (''h'', Map.empty)"
    by (subst f) (simp_all add: static_table_def static_route_def segments_of_def splitPath_def base_path_def is_param_def)
  moreover have "findRoute ''/files/b'' ''GET'' (build_trie [(''/files/a'', ''GET'', ''h''), (''/files/:id'', ''GET'', ''p'')]) = ([], Map.empty)"
    by (subst f) (simp_all add: static_table_def static_route_def segments_of_def splitPath_def base_path_def is_param_def)
  ultimately show ?thesis ..
qed

lemma getline_split_segment:
  "CHR ''/'' \<notin> set x \<Longrightarrow> getline_split acc x = (if acc @ x = [] then [] else [acc @ x])"
  "CHR ''/'' \<notin> set x \<Longrightarrow> getline_split acc (x @ CHR ''/'' # r) = (acc @ x) # getline_split [] r"
  by (induction x arbitrary: acc) auto

lemma splitPath_one: "x \<noteq> [] \<Longrightarrow> CHR ''/'' \<notin> set x \<Longrightarrow> splitPath (CHR ''/'' # x) = [x]"
  by (simp add: splitPath_def getline_split_segment)

lemma splitPath_two:
  "x \<noteq> [] \<Longrightarrow> y \<noteq> [] \<Longrightarrow> CHR ''/'' \<notin> set x \<Longrightarrow> CHR ''/'' \<notin> set y \<Longrightarrow> splitPath (CHR ''/'' # x @ CHR ''/'' # y) = [x, y]"
  by (simp add: splitPath_def getline_split_segment)

text \<open>
  With two parameters in a row the shorter route is found, but its parameter has the longer route's
  name; the longer route is not found at all.
\<close>

lemma param_bound_to_wrong_name:
  assumes "CHR ''/'' \<notin> set (name1 @ name2 @ x @ y)" and "CHR ''?'' \<notin> set (x @ y)"
    and "x \<noteq> []" and "y \<noteq> []" and "x \<noteq> ''*''" and "y \<noteq> ''*''"
  shows "let t = build_trie [(''/:'' @ name1, meth, h1), (''/:'' @ name1 @ ''/:'' @ name2, meth, h2)]
    in findRoute (''/'' @ x) meth t = (h1, [name2 \<mapsto> x]) \<and> findRoute (''/'' @ x @ ''/'' @ y) meth t = ([], Map.empty)"
proof -
  have routes: "splitPath (''/:'' @ name1) = [CHR '':'' # name1]"
    "splitPath (''/:'' @ name1 @ ''/:'' @ name2) = [CHR '':'' # name1, CHR '':'' # name2]"
    using assms(1) splitPath_one [of "CHR '':'' # name1"] splitPath_two [of "CHR '':'' # name1" "CHR '':'' # name2"]
    by simp_all
  have base: "base_path (''/'' @ x) = ''/'' @ x" "base_path (''/'' @ x @ ''/'' @ y) = ''/'' @ x @ ''/'' @ y"
    using assms(2) find_char_None [of "CHR ''?''" "''/'' @ x"] find_char_None [of "CHR ''?''" "''/'' @ x @ ''/'' @ y"]
    by (simp_all add: base_path_def)
  have segs: "splitPath (''/'' @ x) = [x]" "splitPath (''/'' @ x @ ''/'' @ y) = [x, y]"
    using assms(1,3,4) splitPath_one [of x] splitPath_two [of x y] by simp_all
  let ?t = "build_trie [(''/:'' @ name1, meth, h1), (''/:'' @ name1 @ ''/:'' @ name2, meth, h2)]"
  have t: "?t = add_segments [CHR '':'' # name1, CHR '':'' # name2] meth h2 (add_segments [CHR '':'' # name1] meth h1 new_node)"
    by (simp only: build_trie_def trie_addRoute_def routes fold.simps comp_apply id_apply prod.case)
  show ?thesis
    unfolding findRoute_def base_path_def [symmetric] Let_def base segs t
    using assms(5,6) by (simp add: is_param_def child_or_new_def)
qed

lemma param_bound_to_wrong_name_witness:
  "findRoute ''/bob'' ''GET'' (build_trie [(''/:user'', ''GET'', ''profile''), (''/:user/:file'', ''GET'', ''show'')])
     = (''profile'', [''file'' \<mapsto> ''bob''])"
  using param_bound_to_wrong_name [of "''user''" "''file''" "''bob''" "''x''" "''GET''" "''profile''" "''show''"] by (simp add: Let_def)

end
