(* ===== verification/LoopThreads.thy ===== *)
theory LoopThreads
  imports Prelude "HOL-Library.Multiset"
begin

text \<open>
  Threads with an event loop each: \<open>net/EventLoopThreadPool.h\<close>, \<open>net/EventLoopThreadPool.cc\<close> and
  \<open>net/EventLoopThread.cc\<close>. The pool is a record with its operations; what \<open>startLoop\<close> of a new thread
  returns is an argument. A thread and the object that owns it run concurrently: their interleavings
  are a step relation on the phases of \<open>threadFunc\<close> and of the owner.
\<close>

section \<open>The pool\<close>

record 'l loop_pool =
  lp_baseLoop :: 'l
  lp_name :: string
  lp_started :: bool
  lp_numThreads :: int
  lp_next :: nat
  lp_threads :: "string list"
  lp_loops :: "'l list"

definition new_pool :: "'l \<Rightarrow> string \<Rightarrow> 'l loop_pool" where
  "new_pool baseLoop nameArg = \<lparr>lp_baseLoop = baseLoop, lp_name = nameArg, lp_started = False,
     lp_numThreads = 0, lp_next = 0, lp_threads = [], lp_loops = []\<rparr>"

definition setThreadNum :: "int \<Rightarrow> 'l loop_pool \<Rightarrow> 'l loop_pool" where
  "setThreadNum n p = p\<lparr>lp_numThreads := n\<rparr>"

fun start_threads :: "(string \<Rightarrow> 'l) \<Rightarrow> nat list \<Rightarrow> 'l loop_pool \<Rightarrow> 'l loop_pool" where
  "start_threads startLoop [] p = p"
| "start_threads startLoop (i # is) p =
     (let buf = lp_name p @ show_nat i
      in start_threads startLoop is
           (p\<lparr>lp_threads := lp_threads p @ [buf], lp_loops := lp_loops p @ [startLoop buf]\<rparr>))"

text \<open>\<open>start\<close> also gives the loop on which it calls the initialization callback itself, if it does.\<close>

definition pool_start :: "(string \<Rightarrow> 'l) \<Rightarrow> bool \<Rightarrow> bool \<Rightarrow> 'l loop_pool \<Rightarrow> ('l option \<times> 'l loop_pool) checked" where
  "pool_start startLoop inBaseLoop has_cb p =
     (if \<not> lp_started p \<and> inBaseLoop
      then Some (if lp_numThreads p = 0 \<and> has_cb then Some (lp_baseLoop p) else None,
                 start_threads startLoop [0..<nat (lp_numThreads p)] (p\<lparr>lp_started := True\<rparr>))
      else None)"

text \<open>\<open>stop\<close> gives the loops on which a functor that quits them is queued.\<close>

definition pool_stop :: "bool \<Rightarrow> 'l loop_pool \<Rightarrow> ('l list \<times> 'l loop_pool) checked" where
  "pool_stop inBaseLoop p =
     (if lp_started p \<and> inBaseLoop
      then Some (lp_loops p, p\<lparr>lp_threads := [], lp_loops := [], lp_started := False\<rparr>)
      else None)"

text \<open>An index past the end of \<open>loops_\<close> is undefined behaviour, \<^term>\<open>None\<close> like a failing assertion.\<close>

definition getNextLoop :: "'l loop_pool \<Rightarrow> ('l \<times> 'l loop_pool) checked" where
  "getNextLoop p =
     (if \<not> lp_started p then None
      else if lp_loops p = [] then Some (lp_baseLoop p, p)
      else if lp_next p < length (lp_loops p)
           then Some (lp_loops p ! lp_next p,
                  p\<lparr>lp_next := (if lp_next p + 1 \<ge> length (lp_loops p) then 0 else lp_next p + 1)\<rparr>)
           else None)"

definition getAllLoops :: "'l loop_pool \<Rightarrow> 'l list checked" where
  "getAllLoops p =
     (if \<not> lp_started p then None
      else if lp_loops p = [] then Some [lp_baseLoop p] else Some (lp_loops p))"

fun next_loops :: "nat \<Rightarrow> 'l loop_pool \<Rightarrow> ('l list \<times> 'l loop_pool) checked" where
  "next_loops 0 p = Some ([], p)"
| "next_loops (Suc n) p = do {
     (l, p1) \<leftarrow> getNextLoop p;
     (ls, p2) \<leftarrow> next_loops n p1;
     Some (l # ls, p2) }"

definition pool_inv :: "'l loop_pool \<Rightarrow> bool" where
  "pool_inv p \<longleftrightarrow> length (lp_threads p) = length (lp_loops p) \<and> (lp_started p \<or> lp_loops p = [])
     \<and> (lp_loops p = [] \<or> lp_next p < length (lp_loops p))"

lemma start_threads_run:
  "start_threads startLoop is p = p\<lparr>lp_threads := lp_threads p @ map (\<lambda>i. lp_name p @ show_nat i) is,
     lp_loops := lp_loops p @ map (\<lambda>i. startLoop (lp_name p @ show_nat i)) is\<rparr>"
  by (induction "is" arbitrary: p) (simp_all add: Let_def)

lemma next_loops_run:
  assumes "lp_started p" and "lp_loops p \<noteq> []" and "lp_next p < length (lp_loops p)"
  shows "next_loops k p = Some (map (\<lambda>i. lp_loops p ! ((lp_next p + i) mod length (lp_loops p))) [0..<k],
    p\<lparr>lp_next := (lp_next p + k) mod length (lp_loops p)\<rparr>)"
  using assms
proof (induction k arbitrary: p)
  case (Suc k)
  let ?n = "length (lp_loops p)"
  let ?p = "p\<lparr>lp_next := (lp_next p + 1) mod ?n\<rparr>"
  have g: "getNextLoop p = Some (lp_loops p ! lp_next p, ?p)"
    using Suc.prems by (auto simp: getNextLoop_def mod_if)
  have "next_loops k ?p = Some (map (\<lambda>i. lp_loops ?p ! ((lp_next ?p + i) mod length (lp_loops ?p))) [0..<k],
      ?p\<lparr>lp_next := (lp_next ?p + k) mod length (lp_loops ?p)\<rparr>)"
    using Suc.prems by (intro Suc.IH) auto
  moreover have "map (\<lambda>i. lp_loops p ! (((lp_next p + 1) mod ?n + i) mod ?n)) [0..<k]
      = map (\<lambda>i. lp_loops p ! ((lp_next p + i) mod ?n)) [1..<Suc k]"
    by (simp add: map_Suc_upt [symmetric] mod_simps del: map_Suc_upt upt_Suc)
  ultimately show ?case using g Suc.prems by (simp add: upt_conv_Cons mod_simps del: upt_Suc)
qed simp

lemma sum_mod_block:
  assumes "0 < (n :: nat)"
  shows "map (\<lambda>i. (s + i) mod n) [0..<n] = map (\<lambda>i. i mod n) [s..<s + n]"
  by (rule nth_equalityI) simp_all

lemma mset_mod_block:
  assumes "0 < (n :: nat)"
  shows "mset (map (\<lambda>i. i mod n) [s..<s + n]) = mset [0..<n]"
proof (induction s)
  case 0
  have "map (\<lambda>i. i mod n) [0..<n] = [0..<n]" by (intro map_idI) simp
  then show ?case by simp
next
  case (Suc s)
  have "[s..<s + n] = s # [Suc s..<s + n]" "[Suc s..<Suc s + n] = [Suc s..<s + n] @ [s + n]"
    using assms by (simp_all add: upt_conv_Cons)
  with Suc show ?case by simp
qed

lemma mset_round:
  assumes "xs \<noteq> []"
  shows "mset (map (\<lambda>i. xs ! ((s + i) mod length xs)) [0..<k * length xs]) = repeat_mset k (mset xs)"
proof (induction k)
  case (Suc k)
  let ?n = "length xs" and ?a = "s + k * length xs"
  from assms have n: "0 < ?n" by simp
  have "map (\<lambda>i. (s + i) mod ?n) [k * ?n..<k * ?n + ?n] = map (\<lambda>i. i mod ?n) [?a..<?a + ?n]"
    by (rule nth_equalityI) (simp_all add: ac_simps)
  then have "mset (map (\<lambda>i. (s + i) mod ?n) [k * ?n..<k * ?n + ?n]) = mset [0..<?n]"
    using mset_mod_block [OF n] by metis
  then have "image_mset (nth xs) (mset (map (\<lambda>i. (s + i) mod ?n) [k * ?n..<k * ?n + ?n])) = mset xs"
    by (metis map_nth mset_map)
  then have "mset (map (\<lambda>i. xs ! ((s + i) mod ?n)) [k * ?n..<k * ?n + ?n]) = mset xs"
    by (simp add: multiset.map_comp comp_def)
  moreover have "[0..<Suc k * ?n] = [0..<k * ?n] @ [k * ?n..<k * ?n + ?n]"
    using upt_add_eq_append [of 0 "k * ?n" ?n] by (simp only: le0 mult_Suc add.commute)
  ultimately show ?case using Suc by simp
qed simp

lemma pool_start_inv [inv_intros]:
  assumes "pool_inv p" and "lp_next p = 0" and "pool_start f i c p = Some (cb, p')"
  shows "pool_inv p'"
  using assms by (auto simp: pool_inv_def pool_start_def start_threads_run split: if_splits)

lemma getNextLoop_inv [inv_intros]: "pool_inv p \<Longrightarrow> getNextLoop p = Some (l, p') \<Longrightarrow> pool_inv p'"
  by (cases "lp_loops p = []") (auto simp: pool_inv_def getNextLoop_def split: if_splits)

text \<open>
  Round robin is fair: from any state of a started pool with threads, \<open>k\<close> rounds of \<open>getNextLoop\<close> hand
  out every loop exactly \<open>k\<close> times and come back to where they started.
\<close>

lemma round_robin_fair:
  assumes "pool_inv p" and "lp_started p" and "lp_loops p \<noteq> []"
  shows "\<exists>ls. next_loops (k * length (lp_loops p)) p = Some (ls, p) \<and> mset ls = repeat_mset k (mset (lp_loops p))"
proof -
  from assms have n: "lp_next p < length (lp_loops p)" by (simp add: pool_inv_def)
  from next_loops_run [OF assms(2,3) n, of "k * length (lp_loops p)"] mset_round [OF assms(3)] n
  show ?thesis by simp
qed

lemma round_robin_fair_witness:
  "\<exists>ls. next_loops 4 \<lparr>lp_baseLoop = 0, lp_name = ''io'', lp_started = True, lp_numThreads = 2, lp_next = 1,
      lp_threads = [''io0'', ''io1''], lp_loops = [7, 8 :: nat]\<rparr> =
    Some (ls, \<lparr>lp_baseLoop = 0, lp_name = ''io'', lp_started = True, lp_numThreads = 2, lp_next = 1,
      lp_threads = [''io0'', ''io1''], lp_loops = [7, 8]\<rparr>) \<and> mset ls = repeat_mset 2 {#7, 8#}"
proof -
  let ?p = "\<lparr>lp_baseLoop = 0, lp_name = ''io'', lp_started = True, lp_numThreads = 2, lp_next = 1,
      lp_threads = [''io0'', ''io1''], lp_loops = [7, 8 :: nat]\<rparr>"
  have "pool_inv ?p" by (simp add: pool_inv_def)
  from round_robin_fair [OF this, of 2] show ?thesis by simp
qed

text \<open>
  A pool that is stopped and started again with fewer threads keeps its old position: if that is past
  the new number of loops, the next \<open>getNextLoop\<close> reads behind the end of \<open>loops_\<close>.
\<close>

lemma restart_with_fewer_threads:
  assumes "pool_inv p" and "lp_started p" and "0 < n" and "n \<le> int (lp_next p)" and "lp_loops p \<noteq> []"
  shows "\<exists>ls p1 cb p2. pool_stop True p = Some (ls, p1)
    \<and> pool_start startLoop True has_cb (setThreadNum n p1) = Some (cb, p2) \<and> length (lp_loops p2) = nat n
    \<and> getNextLoop p2 = None"
  using assms by (auto simp: pool_stop_def pool_start_def setThreadNum_def start_threads_run getNextLoop_def)

lemma restart_with_fewer_threads_witness:
  "\<exists>ls p1 cb p2. pool_stop True (\<lparr>lp_baseLoop = 0, lp_name = ''io'', lp_started = True, lp_numThreads = 3, lp_next = 2,
      lp_threads = [''io0'', ''io1'', ''io2''], lp_loops = [7, 8, 9 :: nat]\<rparr>) = Some (ls, p1)
    \<and> pool_start length True False (setThreadNum 2 p1) = Some (cb, p2) \<and> getNextLoop p2 = None"
  using restart_with_fewer_threads [of "\<lparr>lp_baseLoop = 0, lp_name = ''io'', lp_started = True, lp_numThreads = 3, lp_next = 2,
      lp_threads = [''io0'', ''io1'', ''io2''], lp_loops = [7, 8, 9 :: nat]\<rparr>" 2 length False]
  by (simp add: pool_inv_def) blast

section \<open>A thread and its owner\<close>

text \<open>
  \<open>threadFunc\<close>: the loop object is on the thread's stack; it is published through \<open>loop_\<close>, runs, and
  after \<open>loop\<close> has returned \<open>loop_\<close> is cleared and the object is gone. The owner calls \<open>startLoop\<close>, which
  waits for the publication, possibly queues a functor that quits the loop (\<open>EventLoopThreadPool::stop\<close>),
  and destroys the \<open>EventLoopThread\<close>: it looks at \<open>loop_\<close> without the mutex, then calls \<open>quit\<close> and joins.
\<close>

datatype thread_phase = Not_started | Initializing | Published | Looping | Loop_returned | Thread_finished
datatype owner_phase = Constructed | Waiting | Has_loop | Saw_loop | Joining | Destroyed | Touched_dead_loop

record loop_thread =
  lt_loop_set :: bool
  lt_phase :: thread_phase
  lt_quit :: bool
  lt_quit_functors :: nat
  lt_owner :: owner_phase
  lt_exiting :: bool

definition new_loop_thread :: loop_thread where
  "new_loop_thread = \<lparr>lt_loop_set = False, lt_phase = Not_started, lt_quit = False, lt_quit_functors = 0,
     lt_owner = Constructed, lt_exiting = False\<rparr>"

text \<open>\<open>pool\<close> says whether the owner may queue the quitting functor before it destroys the thread.\<close>

inductive thread_step :: "bool \<Rightarrow> loop_thread \<Rightarrow> loop_thread \<Rightarrow> bool" for pool where
  start_loop: "lt_owner t = Constructed \<Longrightarrow> thread_step pool t (t\<lparr>lt_owner := Waiting, lt_phase := Initializing\<rparr>)"
| publish: "lt_phase t = Initializing \<Longrightarrow> thread_step pool t (t\<lparr>lt_phase := Published, lt_loop_set := True\<rparr>)"
| wait_done: "lt_owner t = Waiting \<Longrightarrow> lt_loop_set t \<Longrightarrow> thread_step pool t (t\<lparr>lt_owner := Has_loop\<rparr>)"
| enter_loop: "lt_phase t = Published \<Longrightarrow> thread_step pool t (t\<lparr>lt_phase := Looping, lt_quit := False\<rparr>)"
| queue_quit: "pool \<Longrightarrow> lt_owner t = Has_loop \<Longrightarrow> lt_phase t \<noteq> Thread_finished \<Longrightarrow>
    thread_step pool t (t\<lparr>lt_quit_functors := lt_quit_functors t + 1\<rparr>)"
| run_functor: "lt_phase t = Looping \<Longrightarrow> 0 < lt_quit_functors t \<Longrightarrow>
    thread_step pool t (t\<lparr>lt_quit_functors := lt_quit_functors t - 1, lt_quit := True\<rparr>)"
| leave_loop: "lt_phase t = Looping \<Longrightarrow> lt_quit t \<Longrightarrow> thread_step pool t (t\<lparr>lt_phase := Loop_returned\<rparr>)"
| clear: "lt_phase t = Loop_returned \<Longrightarrow> thread_step pool t (t\<lparr>lt_phase := Thread_finished, lt_loop_set := False\<rparr>)"
| check: "lt_owner t = Has_loop \<Longrightarrow>
    thread_step pool t (t\<lparr>lt_exiting := True, lt_owner := (if lt_loop_set t then Saw_loop else Destroyed)\<rparr>)"
| quit_loop: "lt_owner t = Saw_loop \<Longrightarrow> thread_step pool t
    (if lt_phase t = Thread_finished then t\<lparr>lt_owner := Touched_dead_loop\<rparr> else t\<lparr>lt_quit := True, lt_owner := Joining\<rparr>)"
| join: "lt_owner t = Joining \<Longrightarrow> lt_phase t = Thread_finished \<Longrightarrow> thread_step pool t (t\<lparr>lt_owner := Destroyed\<rparr>)"

inductive thread_reachable :: "bool \<Rightarrow> loop_thread \<Rightarrow> bool" for pool where
  start: "thread_reachable pool new_loop_thread"
| step: "thread_reachable pool u \<Longrightarrow> thread_step pool u v \<Longrightarrow> thread_reachable pool v"

text \<open>Without the functor nothing stops the loop before the owner does.\<close>

definition owned_ok :: "loop_thread \<Rightarrow> bool" where
  "owned_ok t \<longleftrightarrow> lt_quit_functors t = 0
     \<and> (lt_loop_set t \<longleftrightarrow> lt_phase t \<in> {Published, Looping, Loop_returned})
     \<and> (lt_owner t = Constructed \<longleftrightarrow> lt_phase t = Not_started)
     \<and> (lt_owner t \<in> {Has_loop, Saw_loop} \<longrightarrow> lt_phase t \<in> {Published, Looping})
     \<and> (lt_owner t \<in> {Constructed, Waiting, Has_loop, Saw_loop} \<longrightarrow>
          \<not> lt_quit t \<and> lt_phase t \<in> {Not_started, Initializing, Published, Looping})
     \<and> (lt_owner t = Destroyed \<longrightarrow> lt_phase t = Thread_finished) \<and> lt_owner t \<noteq> Touched_dead_loop"

lemma owned_ok_step:
  assumes "thread_step False t u" and "owned_ok t"
  shows "owned_ok u"
  using assms by cases (auto simp: owned_ok_def)

lemma owned_ok_steps:
  assumes "thread_reachable False t"
  shows "owned_ok t"
  using assms
proof induction
  case start
  then show ?case by (simp add: owned_ok_def new_loop_thread_def)
next
  case (step u v)
  then show ?case by (blast intro: owned_ok_step)
qed

text \<open>
  An \<open>EventLoopThread\<close> that is destroyed without a quitting functor never calls into a loop that is
  gone, and when its destructor has returned, the thread has finished.
\<close>

lemma thread_owner_safe:
  assumes "thread_reachable False t"
  shows "lt_owner t \<noteq> Touched_dead_loop \<and> (lt_owner t = Destroyed \<longrightarrow> lt_phase t = Thread_finished)"
  using owned_ok_steps [OF assms] by (simp add: owned_ok_def)

lemma thread_owner_safe_witness:
  "\<exists>t. thread_reachable False t \<and> lt_owner t = Waiting \<and> lt_owner t \<noteq> Touched_dead_loop"
proof -
  have "thread_reachable False (new_loop_thread\<lparr>lt_owner := Waiting, lt_phase := Initializing\<rparr>)"
    by (rule thread_reachable.step [OF thread_reachable.start start_loop]) (simp add: new_loop_thread_def)
  from thread_owner_safe [OF this] this show ?thesis by fastforce
qed

lemma run_step: "thread_reachable pool u \<Longrightarrow> thread_step pool u v' \<Longrightarrow> v' = v \<Longrightarrow> thread_reachable pool v"
  by (blast intro: thread_reachable.step)

lemma published_run:
  "thread_reachable pool \<lparr>lt_loop_set = True, lt_phase = Published, lt_quit = False, lt_quit_functors = 0,
     lt_owner = Has_loop, lt_exiting = False\<rparr>"
proof -
  let ?t = "\<lambda>s p o'. \<lparr>lt_loop_set = s, lt_phase = p, lt_quit = False, lt_quit_functors = 0, lt_owner = o', lt_exiting = False\<rparr>"
  have "thread_reachable pool (?t False Initializing Waiting)"
    by (rule run_step [OF thread_reachable.start start_loop]) (simp_all add: new_loop_thread_def)
  then have "thread_reachable pool (?t True Published Waiting)"
    by (rule run_step [OF _ publish]) simp_all
  then show ?thesis by (rule run_step [OF _ wait_done]) simp_all
qed

text \<open>
  Two ways in which stopping goes wrong. A thread destroyed before it has entered its loop waits
  forever: the \<open>quit\<close> of the destructor is reset by \<open>loop\<close>, and no step is possible any more. And
  \<open>EventLoopThreadPool::stop\<close>, which queues a quitting functor first, can find \<open>loop_\<close> set and then call
  \<open>quit\<close> on a loop that the finished thread has destroyed.
\<close>

lemma stopping_threads_goes_wrong:
  "(\<exists>t. thread_reachable False t \<and> lt_owner t = Joining \<and> lt_phase t = Looping \<and> (\<forall>u. \<not> thread_step False t u))
   \<and> (\<exists>t. thread_reachable True t \<and> lt_owner t = Touched_dead_loop)"
proof
  let ?t = "\<lambda>s p q o'. \<lparr>lt_loop_set = s, lt_phase = p, lt_quit = q, lt_quit_functors = 0, lt_owner = o', lt_exiting = True\<rparr>"
  have "thread_reachable False (?t True Published False Saw_loop)"
    by (rule run_step [OF published_run check]) simp_all
  then have "thread_reachable False (?t True Published True Joining)"
    by (rule run_step [OF _ quit_loop]) simp_all
  then have "thread_reachable False (?t True Looping False Joining)"
    by (rule run_step [OF _ enter_loop]) simp_all
  moreover have "\<not> thread_step False (?t True Looping False Joining) u" for u
    by (auto elim: thread_step.cases)
  ultimately show "\<exists>t. thread_reachable False t \<and> lt_owner t = Joining \<and> lt_phase t = Looping
      \<and> (\<forall>u. \<not> thread_step False t u)" by (metis loop_thread.select_convs(2,5))
next
  let ?t = "\<lambda>s p q n o' e. \<lparr>lt_loop_set = s, lt_phase = p, lt_quit = q, lt_quit_functors = n, lt_owner = o', lt_exiting = e\<rparr>"
  have "thread_reachable True (?t True Looping False 0 Has_loop False)"
    by (rule run_step [OF published_run enter_loop]) simp_all
  then have "thread_reachable True (?t True Looping False 1 Has_loop False)"
    by (rule run_step [OF _ queue_quit]) simp_all
  then have "thread_reachable True (?t True Looping False 1 Saw_loop True)"
    by (rule run_step [OF _ check]) simp_all
  then have "thread_reachable True (?t True Looping True 0 Saw_loop True)"
    by (rule run_step [OF _ run_functor]) simp_all
  then have "thread_reachable True (?t True Loop_returned True 0 Saw_loop True)"
    by (rule run_step [OF _ leave_loop]) simp_all
  then have "thread_reachable True (?t False Thread_finished True 0 Saw_loop True)"
    by (rule run_step [OF _ clear]) simp_all
  then have "thread_reachable True (?t False Thread_finished True 0 Touched_dead_loop True)"
    by (rule run_step [OF _ quit_loop]) simp_all
  then show "\<exists>t. thread_reachable True t \<and> lt_owner t = Touched_dead_loop" by fastforce
qed

end
