(* ===== verification/TcpServer.thy ===== *)
theory TcpServer
  imports TcpConnection LoopThreads "HOL-Library.Sublist"
begin

text \<open>
  The server of \<open>net/TcpServer.h\<close> and \<open>net/TcpServer.cc\<close>: the table of connections by name, the choice of
  an input/output loop for each, and the functors that establish, remove and destroy connections on the
  right threads. The connections are those of theory \<open>TcpConnection\<close>; every loop has a queue of tasks
  that it runs in order, and the threads of the loops interleave. A task that would fail an assertion of
  a connection is \<^term>\<open>None\<close>. The connection counter is an \<open>int\<close> that the code never resets: counting it on from
  its largest value is undefined behaviour, and \<^term>\<open>None\<close> too.
\<close>

section \<open>What a connection reports\<close>

text \<open>
  A connection's callbacks to its owner: while it lives it says nothing, when it closes it says so once.
\<close>

definition reports :: "('c, 'w) tcp_conn \<Rightarrow> ('c, 'w) tcp_conn \<Rightarrow> bool" where
  "reports s s' \<longleftrightarrow>
     tc_log s' = tc_log s \<and> (tc_state s' = kDisconnected \<longleftrightarrow> tc_state s = kDisconnected)
     \<or> tc_log s' = tc_log s @ [ConnectionCalled False, CloseCalled] \<and> tc_state s \<noteq> kDisconnected \<and> tc_state s' = kDisconnected"

lemma reports_refl [simp]: "reports s s"
  by (simp add: reports_def)

lemma reports_trans: "reports s1 s2 \<Longrightarrow> reports s2 s3 \<Longrightarrow> reports s1 s3"
  by (auto simp: reports_def)

lemma reports_same: "tc_log s' = tc_log s \<Longrightarrow> tc_state s' = tc_state s \<Longrightarrow> reports s s'"
  by (simp add: reports_def)

lemma sock_write_same: "sock_write d s = (n, s') \<Longrightarrow> tc_log s' = tc_log s \<and> tc_state s' = tc_state s"
  by (auto simp: sock_write_def split: list.splits write_outcome.splits if_splits)

lemma queue_same [simp]:
  "tc_log (conn_queue f s) = tc_log s" "tc_state (conn_queue f s) = tc_state s"
  "tc_log (queue_writeComplete s) = tc_log s" "tc_state (queue_writeComplete s) = tc_state s"
  "tc_log (shutdownInLoop s) = tc_log s" "tc_state (shutdownInLoop s) = tc_state s"
  by (auto simp: conn_queue_def queue_writeComplete_def shutdownInLoop_def split: option.split)

lemma handleClose_reports: "handleClose cb s = Some s' \<Longrightarrow> reports s s'"
  by (auto simp: handleClose_def reports_def split: if_splits)

lemma handleWrite_reports:
  assumes "handleWrite cb s = Some s'"
  shows "reports s s'"
proof (cases "isWriting (tc_channel s)")
  case True
  obtain n s1 where w: "sock_write (peek (tc_outputBuffer s)) s = (n, s1)" by fastforce
  note same = sock_write_same [OF w]
  show ?thesis
  proof (cases "handleClose cb s1 = Some s'")
    case True
    from handleClose_reports [OF this] same show ?thesis by (simp add: reports_def)
  next
    case False
    with assms w same \<open>isWriting (tc_channel s)\<close> show ?thesis
      by (auto simp: handleWrite_def Let_def reports_def split: bind_splits if_splits)
  qed
qed (use assms in \<open>simp add: handleWrite_def\<close>)

lemma sendInLoop_reports:
  assumes "sendInLoop cb d s = Some s'"
  shows "reports s s'"
proof (cases "tc_state s = kDisconnected")
  case False
  obtain n fault s1 where sd: "send_direct d s = (n, fault, s1)" by (cases "send_direct d s")
  then have same: "tc_log s1 = tc_log s" "tc_state s1 = tc_state s"
    by (auto simp: send_direct_def Let_def dest: sock_write_same split: prod.splits if_splits)
  have step: "reports s s'" if "handleWrite cb s4 = Some s'" "tc_log s4 = tc_log s1" "tc_state s4 = tc_state s1" for s4
    using handleWrite_reports [OF that(1)] that(2,3) same by (simp add: reports_def)
  show ?thesis
    using assms sd same False unfolding sendInLoop_def Let_def
    by (auto split: if_splits bind_splits intro: step reports_same)
qed (use assms in \<open>simp add: sendInLoop_def\<close>)

lemma do_action_reports: "do_action cb a s = Some s' \<Longrightarrow> reports s s'"
  by (cases a) (auto simp: conn_send_def shutdown_def forceClose_def Let_def reports_def
      dest: sendInLoop_reports split: if_splits)

lemma do_actions_reports: "do_actions cb as s = Some s' \<Longrightarrow> reports s s'"
proof (induction "as" arbitrary: s)
  case (Cons a as)
  from Cons.prems obtain s1 where s1: "do_action cb a s = Some s1" "do_actions cb as s1 = Some s'"
    by (auto split: bind_splits)
  from do_action_reports [OF s1(1)] Cons.IH [OF s1(2)] show ?case by (rule reports_trans)
qed simp

lemma handleRead_reports:
  assumes "handleRead cb r s = Some s'"
  shows "reports s s'"
proof -
  obtain n err b where r: "readFd r (tc_inputBuffer s) = Some (n, err, b)"
    using assms by (auto simp: handleRead_def split: bind_splits)
  let ?s = "s\<lparr>tc_inputBuffer := b\<rparr>"
  show ?thesis
  proof (cases "0 < n")
    case True
    with assms r obtain ctx b' as where "do_actions cb as (?s\<lparr>tc_context := ctx, tc_inputBuffer := b'\<rparr>) = Some s'"
      by (auto simp: handleRead_def split: bind_splits)
    from do_actions_reports [OF this] show ?thesis by (simp add: reports_def)
  next
    case False
    with assms r have "handleClose cb ?s = Some s' \<or> s' = ?s"
      by (auto simp: handleRead_def handleError_def Let_def split: if_splits)
    then show ?thesis using handleClose_reports [of cb ?s s'] by (auto simp: reports_def)
  qed
qed

lemma run_functor_reports: "run_functor cb f s = Some s' \<Longrightarrow> reports s s'"
proof (cases f)
  case (WriteComplete w)
  assume a: "run_functor cb f s = Some s'"
  obtain ctx as where "cb_writeComplete cb w (tc_context s) = (ctx, as)" by fastforce
  with a WriteComplete do_actions_reports [of cb "as" "s\<lparr>tc_context := ctx\<rparr>" s'] show ?thesis
    by (auto simp: reports_def)
qed (auto simp: forceCloseInLoop_def intro: reports_same
    dest: sendInLoop_reports handleWrite_reports handleClose_reports split: if_splits)

lemma conn_callback_reports: "conn_callback cb r k s = Some s' \<Longrightarrow> reports s s'"
  by (cases k) (auto simp: conn_callback_def handleError_def
      dest: handleClose_reports handleRead_reports handleWrite_reports)

lemma run_callbacks_reports: "run_callbacks (conn_callback cb r) ks s = Some s' \<Longrightarrow> reports s s'"
proof (induction ks arbitrary: s)
  case (Cons k ks)
  from Cons.prems obtain s1 where s1: "conn_callback cb r k s = Some s1" "run_callbacks (conn_callback cb r) ks s1 = Some s'"
    by (auto split: bind_splits)
  from conn_callback_reports [OF s1(1)] Cons.IH [OF s1(2)] show ?case by (rule reports_trans)
qed simp

lemma conn_active_reports:
  assumes "conn_active cb s s'"
  shows "reports s s'"
  using assms
proof cases
  case (event r ev)
  then show ?thesis
    by (auto simp: conn_handleEvent_def handleEvent_def handleEventWithGuard_def reports_def
        dest!: run_callbacks_reports split: bind_splits if_splits)
next
  case (functor_run f fs)
  from run_functor_reports [OF functor_run(2)] show ?thesis by (simp add: reports_def)
next
  case (local_call a)
  then show ?thesis by (blast intro: do_action_reports)
next
  case (remote_send d)
  then show ?thesis by (auto simp: conn_send_def reports_def split: if_splits)
next
  case remote_shutdown
  then show ?thesis by (auto simp: shutdown_def reports_def Let_def)
next
  case (kernel ws)
  then show ?thesis by (simp add: reports_def)
qed

section \<open>The server\<close>

record 'l tcp_server =
  ts_name :: string
  ts_ipPort :: string
  ts_pool :: "'l loop_pool"
  ts_started :: bool
  ts_listening :: bool
  ts_nextConnId :: int
  ts_connections :: "string \<rightharpoonup> int"

definition new_server :: "'l \<Rightarrow> string \<Rightarrow> string \<Rightarrow> 'l tcp_server" where
  "new_server loop ipPort nameArg = \<lparr>ts_name = nameArg, ts_ipPort = ipPort, ts_pool = new_pool loop nameArg,
     ts_started = False, ts_listening = False, ts_nextConnId = 1, ts_connections = (\<lambda>_. None)\<rparr>"

definition server_setThreadNum :: "int \<Rightarrow> 'l tcp_server \<Rightarrow> 'l tcp_server" where
  "server_setThreadNum n s = s\<lparr>ts_pool := setThreadNum n (ts_pool s)\<rparr>"

definition server_start :: "(string \<Rightarrow> 'l) \<Rightarrow> bool \<Rightarrow> 'l tcp_server \<Rightarrow> 'l tcp_server checked" where
  "server_start startLoop has_cb s =
     (if ts_started s then Some s
      else do { (cb, p) \<leftarrow> pool_start startLoop True has_cb (ts_pool s);
                Some (s\<lparr>ts_started := True, ts_pool := p, ts_listening := True\<rparr>) })"

definition connName :: "'l tcp_server \<Rightarrow> int \<Rightarrow> string" where
  "connName s i = ts_name s @ ''-'' @ ts_ipPort s @ ''#'' @ show_int i"

text \<open>\<open>++\<close> on an \<open>int\<close>.\<close>

definition int_max :: int where "int_max = 2 ^ 31 - 1"

definition int_incr :: "int \<Rightarrow> int checked" where
  "int_incr i = (if i < int_max then Some (i + 1) else None)"

text \<open>The tasks that \<open>runInLoop\<close> and \<open>queueInLoop\<close> carry between the loops, by connection number.\<close>

datatype task = ConnectEstablished int | RemoveConnectionInLoop int | ConnectDestroyed int

datatype stage = Accepted | Up | Closing | Removed | Gone

record ('c, 'w, 'l) server_conn =
  sc_name :: string
  sc_loop :: 'l
  sc_conn :: "('c, 'w) tcp_conn"
  sc_stage :: stage

record ('c, 'w, 'l) server_world =
  sw_server :: "'l tcp_server"
  sw_conns :: "int \<rightharpoonup> ('c, 'w, 'l) server_conn"
  sw_tasks :: "'l \<Rightarrow> task list"

definition set_conn :: "int \<Rightarrow> ('c, 'w, 'l) server_conn \<Rightarrow> ('c, 'w, 'l) server_world \<Rightarrow> ('c, 'w, 'l) server_world" where
  "set_conn i c w = w\<lparr>sw_conns := (sw_conns w)(i \<mapsto> c)\<rparr>"

definition queue_task :: "'l \<Rightarrow> task \<Rightarrow> ('c, 'w, 'l) server_world \<Rightarrow> ('c, 'w, 'l) server_world" where
  "queue_task l t w = w\<lparr>sw_tasks := (sw_tasks w)(l := sw_tasks w l @ [t])\<rparr>"

definition removeConnectionInLoop :: "int \<Rightarrow> ('c, 'w, 'l) server_conn \<Rightarrow> ('c, 'w, 'l) server_world \<Rightarrow> ('c, 'w, 'l) server_world" where
  "removeConnectionInLoop i c w =
     queue_task (sc_loop c) (ConnectDestroyed i)
       (set_conn i (c\<lparr>sc_stage := Removed\<rparr>)
         (w\<lparr>sw_server := (sw_server w)\<lparr>ts_connections := (ts_connections (sw_server w))(sc_name c := None)\<rparr>\<rparr>))"

fun run_task :: "('c, 'w) callbacks \<Rightarrow> task \<Rightarrow> ('c, 'w, 'l) server_world \<Rightarrow> ('c, 'w, 'l) server_world checked" where
  "run_task cb (ConnectEstablished i) w = do {
     c \<leftarrow> sw_conns w i;
     s \<leftarrow> connectEstablished cb (sc_conn c);
     Some (set_conn i (c\<lparr>sc_conn := s, sc_stage := Up\<rparr>) w) }"
| "run_task cb (RemoveConnectionInLoop i) w = do {
     c \<leftarrow> sw_conns w i;
     Some (removeConnectionInLoop i c w) }"
| "run_task cb (ConnectDestroyed i) w = do {
     c \<leftarrow> sw_conns w i;
     s \<leftarrow> connectDestroyed cb (sc_conn c);
     Some (set_conn i (c\<lparr>sc_conn := s, sc_stage := Gone\<rparr>) w) }"

text \<open>\<open>runInLoop\<close> called on the thread of loop \<open>me\<close>.\<close>

definition run_in_loop ::
  "('c, 'w) callbacks \<Rightarrow> 'l \<Rightarrow> 'l \<Rightarrow> task \<Rightarrow> ('c, 'w, 'l) server_world \<Rightarrow> ('c, 'w, 'l) server_world checked" where
  "run_in_loop cb me l t w = (if me = l then run_task cb t w else Some (queue_task l t w))"

text \<open>\<open>newConnection\<close>, on the thread of the base loop; \<open>ws\<close> is what the socket will do with writes.\<close>

definition newConnection ::
  "('c, 'w) callbacks \<Rightarrow> int \<Rightarrow> write_outcome list \<Rightarrow> ('c, 'w, 'l) server_world \<Rightarrow> ('c, 'w, 'l) server_world checked" where
  "newConnection cb sockfd ws w = do {
     let s = sw_server w;
     (ioLoop, p) \<leftarrow> getNextLoop (ts_pool s);
     let i = ts_nextConnId s;
     let name = connName s i;
     next \<leftarrow> int_incr i;
     let conn = \<lparr>sc_name = name, sc_loop = ioLoop, sc_conn = new_conn sockfd ws, sc_stage = Accepted\<rparr>;
     let s1 = s\<lparr>ts_pool := p, ts_nextConnId := next, ts_connections := (ts_connections s)(name \<mapsto> i)\<rparr>;
     run_in_loop cb (lp_baseLoop (ts_pool s)) ioLoop (ConnectEstablished i) (set_conn i conn (w\<lparr>sw_server := s1\<rparr>)) }"

text \<open>\<open>removeConnection\<close>, the close callback of a connection, on the thread of the connection's loop.\<close>

definition removeConnection ::
  "('c, 'w) callbacks \<Rightarrow> int \<Rightarrow> ('c, 'w, 'l) server_conn \<Rightarrow> ('c, 'w, 'l) server_world \<Rightarrow> ('c, 'w, 'l) server_world checked" where
  "removeConnection cb i c w =
     run_in_loop cb (sc_loop c) (lp_baseLoop (ts_pool (sw_server w))) (RemoveConnectionInLoop i)
       (set_conn i (c\<lparr>sc_stage := Closing\<rparr>) w)"

text \<open>Activity of a connection, and the server's reaction when it reports its close.\<close>

definition after_activity ::
  "('c, 'w) callbacks \<Rightarrow> int \<Rightarrow> ('c, 'w, 'l) server_conn \<Rightarrow> ('c, 'w) tcp_conn \<Rightarrow> ('c, 'w, 'l) server_world
     \<Rightarrow> ('c, 'w, 'l) server_world checked" where
  "after_activity cb i c s' w =
     (let c' = c\<lparr>sc_conn := s'\<rparr>; w' = set_conn i c' w
      in if CloseCalled \<in> set (drop (length (tc_log (sc_conn c))) (tc_log s')) then removeConnection cb i c' w' else Some w')"

inductive server_step :: "('c, 'w) callbacks \<Rightarrow> ('c, 'w, 'l) server_world \<Rightarrow> ('c, 'w, 'l) server_world \<Rightarrow> bool" for cb where
  accept: "newConnection cb sockfd ws w = Some w' \<Longrightarrow> server_step cb w w'"
| task: "sw_tasks w l = t # ts \<Longrightarrow> run_task cb t (w\<lparr>sw_tasks := (sw_tasks w)(l := ts)\<rparr>) = Some w' \<Longrightarrow> server_step cb w w'"
| activity: "sw_conns w i = Some c \<Longrightarrow> sc_stage c \<noteq> Accepted \<Longrightarrow> conn_active cb (sc_conn c) s' \<Longrightarrow>
    after_activity cb i c s' w = Some w' \<Longrightarrow> server_step cb w w'"

inductive server_reachable :: "('c, 'w) callbacks \<Rightarrow> ('c, 'w, 'l) server_world \<Rightarrow> bool" for cb where
  start: "server_start startLoop has_cb (server_setThreadNum n (new_server loop ipPort name)) = Some s \<Longrightarrow>
    server_reachable cb \<lparr>sw_server = s, sw_conns = (\<lambda>_. None), sw_tasks = (\<lambda>_. [])\<rparr>"
| step: "server_reachable cb w \<Longrightarrow> server_step cb w w' \<Longrightarrow> server_reachable cb w'"

section \<open>The invariant\<close>

text \<open>
  A connection's stage says what it has reported and which task is due for it: exactly one from its
  acceptance until it is established, none while it is up, and one each for its removal and destruction.
\<close>

fun due_task :: "'l \<Rightarrow> int \<Rightarrow> ('c, 'w, 'l) server_conn \<Rightarrow> stage \<Rightarrow> ('l \<times> task) option" where
  "due_task base i c Accepted = Some (sc_loop c, ConnectEstablished i)"
| "due_task base i c Up = None"
| "due_task base i c Closing = Some (base, RemoveConnectionInLoop i)"
| "due_task base i c Removed = Some (sc_loop c, ConnectDestroyed i)"
| "due_task base i c Gone = None"

fun in_table :: "stage \<Rightarrow> bool" where
  "in_table Accepted = True" | "in_table Up = True" | "in_table Closing = True"
| "in_table Removed = False" | "in_table Gone = False"

fun stage_ok :: "('c, 'w) callbacks \<Rightarrow> stage \<Rightarrow> ('c, 'w) tcp_conn \<Rightarrow> bool" where
  "stage_ok cb Accepted s \<longleftrightarrow> (\<exists>fd ws. s = new_conn fd ws)"
| "stage_ok cb Up s \<longleftrightarrow> conn_reachable cb s \<and> open_state (tc_state s) \<and> tc_log s = [ConnectionCalled True]"
| "stage_ok cb _ s \<longleftrightarrow> conn_reachable cb s \<and> tc_state s = kDisconnected
     \<and> tc_log s = [ConnectionCalled True, ConnectionCalled False, CloseCalled]"

abbreviation base_loop :: "('c, 'w, 'l) server_world \<Rightarrow> 'l" where
  "base_loop w \<equiv> lp_baseLoop (ts_pool (sw_server w))"

definition due :: "('c, 'w, 'l) server_world \<Rightarrow> 'l \<Rightarrow> task \<Rightarrow> bool" where
  "due w l t \<longleftrightarrow> (\<exists>i c. sw_conns w i = Some c \<and> due_task (base_loop w) i c (sc_stage c) = Some (l, t))"

text \<open>\<open>X\<close> is the task in hand, taken from its queue or not queued yet.\<close>

definition world_ok :: "('c, 'w) callbacks \<Rightarrow> ('l \<times> task) set \<Rightarrow> ('c, 'w, 'l) server_world \<Rightarrow> bool" where
  "world_ok cb X w \<longleftrightarrow> pool_inv (ts_pool (sw_server w)) \<and> lp_started (ts_pool (sw_server w))
     \<and> 1 \<le> ts_nextConnId (sw_server w) \<and> ts_nextConnId (sw_server w) \<le> int_max
     \<and> (\<forall>i c. sw_conns w i = Some c \<longrightarrow> 1 \<le> i \<and> i < ts_nextConnId (sw_server w) \<and> sc_name c = connName (sw_server w) i
          \<and> stage_ok cb (sc_stage c) (sc_conn c))
     \<and> (\<forall>n i. ts_connections (sw_server w) n = Some i \<longleftrightarrow>
          (\<exists>c. sw_conns w i = Some c \<and> sc_name c = n \<and> in_table (sc_stage c)))
     \<and> (\<forall>l t. t \<in> set (sw_tasks w l) \<longleftrightarrow> due w l t \<and> (l, t) \<notin> X)
     \<and> (\<forall>l. distinct (sw_tasks w l))"

fun task_conn :: "task \<Rightarrow> int" where
  "task_conn (ConnectEstablished i) = i"
| "task_conn (RemoveConnectionInLoop i) = i"
| "task_conn (ConnectDestroyed i) = i"

lemma due_task_conn: "due_task base i c st = Some (l, t) \<Longrightarrow> task_conn t = i"
  by (cases st) auto

lemma due_iff:
  "due w l t \<longleftrightarrow> (\<exists>c. sw_conns w (task_conn t) = Some c \<and> due_task (base_loop w) (task_conn t) c (sc_stage c) = Some (l, t))"
  unfolding due_def by (metis due_task_conn)

lemma connName_inject [simp]: "connName s i = connName s j \<longleftrightarrow> i = j"
  by (auto simp: connName_def dest: show_int_inject)

lemma update_conn_ok:
  assumes ok: "world_ok cb X w"
    and X: "X = (case sw_conns w i of None \<Rightarrow> {} | Some c \<Rightarrow> set_option (due_task (base_loop w) i c (sc_stage c)))"
    and c': "sc_name c' = connName (sw_server w) i" "stage_ok cb (sc_stage c') (sc_conn c')"
    and s1: "ts_name s1 = ts_name (sw_server w)" "ts_ipPort s1 = ts_ipPort (sw_server w)" "pool_inv (ts_pool s1)"
      "lp_started (ts_pool s1)" "lp_baseLoop (ts_pool s1) = base_loop w"
      "ts_nextConnId (sw_server w) \<le> ts_nextConnId s1" "1 \<le> i \<and> i < ts_nextConnId s1"
      "ts_connections s1 = (ts_connections (sw_server w))
         (connName (sw_server w) i := if in_table (sc_stage c') then Some i else None)" "ts_nextConnId s1 \<le> int_max"
  shows "world_ok cb (set_option (due_task (base_loop w) i c' (sc_stage c'))) (set_conn i c' (w\<lparr>sw_server := s1\<rparr>))"
    (is "world_ok cb ?X ?w")
proof -
  have name: "connName s1 j = connName (sw_server w) j" for j using s1(1,2) by (simp add: connName_def)
  have base: "base_loop ?w = base_loop w" using s1(5) by (simp add: set_conn_def)
  have conns: "sw_conns ?w j = (if j = i then Some c' else sw_conns w j)" for j by (simp add: set_conn_def)
  have other: "due ?w l t \<and> (l, t) \<notin> ?X \<longleftrightarrow> due w l t \<and> (l, t) \<notin> X" for l t
  proof (cases "task_conn t = i")
    case True
    then show ?thesis using X by (auto simp: due_iff conns base)
  next
    case False
    have "(l, t) \<notin> ?X" "(l, t) \<notin> X"
      using False X by (auto simp: elem_set dest!: due_task_conn split: option.splits)
    moreover have "due ?w l t \<longleftrightarrow> due w l t"
      using False by (simp add: due_iff conns base)
    ultimately show ?thesis by simp
  qed
  have table: "ts_connections s1 n = Some j \<longleftrightarrow> (\<exists>c. sw_conns ?w j = Some c \<and> sc_name c = n \<and> in_table (sc_stage c))" for n j
  proof (cases "j = i")
    case True
    have "sc_name c = connName (sw_server w) i" if "sw_conns w i = Some c" for c using ok that by (simp add: world_ok_def)
    with True ok s1(8) c'(1) show ?thesis by (auto simp: world_ok_def conns)
  next
    case False
    have "sc_name c = connName (sw_server w) j" if "sw_conns w j = Some c" for c using ok that by (simp add: world_ok_def)
    with False ok s1(8) show ?thesis by (auto simp: world_ok_def conns)
  qed
  have each: "1 \<le> j \<and> j < ts_nextConnId s1 \<and> sc_name c = connName s1 j \<and> stage_ok cb (sc_stage c) (sc_conn c)"
    if "sw_conns ?w j = Some c" for j c
  proof (cases "j = i")
    case False
    with that ok have "1 \<le> j \<and> j < ts_nextConnId (sw_server w) \<and> sc_name c = connName (sw_server w) j \<and> stage_ok cb (sc_stage c) (sc_conn c)"
      by (simp add: world_ok_def conns)
    with s1(6) show ?thesis by (simp add: name)
  qed (use that c' s1(7) in \<open>simp add: conns name\<close>)
  have "sw_server ?w = s1" "sw_tasks ?w = sw_tasks w" by (simp_all add: set_conn_def)
  moreover have "1 \<le> ts_nextConnId s1" using ok s1(6) by (simp add: world_ok_def)
  ultimately show ?thesis using ok s1(3,4,9) each table other unfolding world_ok_def by simp
qed

lemma queue_task_ok:
  assumes "world_ok cb {(l, t)} w" and "due w l t"
  shows "world_ok cb {} (queue_task l t w)"
proof -
  have "due (queue_task l t w) = due w" by (simp add: due_def queue_task_def fun_eq_iff)
  moreover have "t \<notin> set (sw_tasks w l)" using assms by (simp add: world_ok_def)
  ultimately show ?thesis using assms unfolding world_ok_def by (auto simp: queue_task_def)
qed

text \<open>A step of one connection that leaves the server's table and its counter alone.\<close>

lemma set_conn_ok:
  assumes "world_ok cb X w" and "sw_conns w i = Some c" and "X = set_option (due_task (base_loop w) i c (sc_stage c))"
    and "sc_name c' = sc_name c" and "stage_ok cb (sc_stage c') (sc_conn c')" and "in_table (sc_stage c') = in_table (sc_stage c)"
  shows "world_ok cb (set_option (due_task (base_loop w) i c' (sc_stage c'))) (set_conn i c' w)"
proof -
  let ?s = "sw_server w"
  have n: "sc_name c = connName ?s i" and i: "1 \<le> i" "i < ts_nextConnId ?s" using assms(1,2) by (simp_all add: world_ok_def)
  have g: "ts_nextConnId ?s \<le> int_max" "pool_inv (ts_pool ?s)" "lp_started (ts_pool ?s)"
    using assms(1) by (simp_all add: world_ok_def)
  have tab: "ts_connections ?s n = Some j \<longleftrightarrow> (\<exists>c. sw_conns w j = Some c \<and> sc_name c = n \<and> in_table (sc_stage c))" for n j
    using assms(1) by (simp add: world_ok_def)
  have "ts_connections ?s (connName ?s i) = (if in_table (sc_stage c) then Some i else None)"
  proof (cases "ts_connections ?s (connName ?s i)")
    case None
    with tab [of "connName ?s i" i] assms(2) n show ?thesis by auto
  next
    case (Some j)
    with tab [of "connName ?s i" j] obtain d where "sw_conns w j = Some d" "sc_name d = connName ?s i" "in_table (sc_stage d)"
      by blast
    moreover from this assms(1) have "sc_name d = connName ?s j" by (simp add: world_ok_def)
    ultimately show ?thesis using Some assms(2) by simp
  qed
  then have "ts_connections ?s = (ts_connections ?s)(connName ?s i := if in_table (sc_stage c') then Some i else None)"
    using assms(6) by auto
  then have "world_ok cb (set_option (due_task (base_loop w) i c' (sc_stage c'))) (set_conn i c' (w\<lparr>sw_server := ?s\<rparr>))"
    using assms(2-5) n i g by (intro update_conn_ok [OF assms(1)]) simp_all
  then show ?thesis by simp
qed

lemma established_ok:
  assumes "stage_ok cb Accepted s"
  shows "\<exists>s'. connectEstablished cb s = Some s' \<and> stage_ok cb Up s'"
proof -
  from assms obtain fd ws where s: "s = new_conn fd ws" by auto
  then obtain s' where s': "connectEstablished cb s = Some s'" "tc_log s' = [ConnectionCalled True]"
    by (simp add: connectEstablished_def new_conn_def)
  moreover have "conn_reachable cb s'" using s' s by (auto intro: conn_reachable.established)
  moreover have "open_state (tc_state s')" using established_inv [of cb fd ws s'] s' s by (simp add: open_state_def)
  ultimately show ?thesis by auto
qed

lemma destroyed_ok:
  assumes "stage_ok cb Removed s" and "good_callbacks cb"
  shows "\<exists>s'. connectDestroyed cb s = Some s' \<and> stage_ok cb Gone s'"
proof -
  have r: "conn_reachable cb s" and st: "tc_state s = kDisconnected" using assms(1) by auto
  have "isNoneEvent (tc_channel s)" using reachable_inv [OF r assms(2)] st by (auto simp: conn_inv_def open_state_def)
  then have "connectDestroyed cb s = Some (s\<lparr>tc_channel := (tc_channel s)\<lparr>ch_addedToLoop := False\<rparr>\<rparr>)"
    using st by (simp add: connectDestroyed_def chan_remove_def)
  moreover have "conn_reachable cb (s\<lparr>tc_channel := (tc_channel s)\<lparr>ch_addedToLoop := False\<rparr>\<rparr>)"
    by (rule conn_reachable.step [OF r conn_step.destroyed [OF calculation]]) (simp add: st)
  ultimately show ?thesis using assms(1) by auto
qed

lemma run_task_ok:
  assumes "world_ok cb {(l, t)} w" and "due w l t" and "good_callbacks cb"
  shows "\<exists>w'. run_task cb t w = Some w' \<and> world_ok cb {} w'"
proof -
  let ?i = "task_conn t"
  obtain c where c: "sw_conns w ?i = Some c" "due_task (base_loop w) ?i c (sc_stage c) = Some (l, t)"
    using assms(2) by (auto simp: due_iff)
  have st: "stage_ok cb (sc_stage c) (sc_conn c)" using assms(1) c(1) by (simp add: world_ok_def)
  show ?thesis
  proof (cases t)
    case (ConnectEstablished i)
    with c have a: "sc_stage c = Accepted" by (cases "sc_stage c") auto
    obtain s' where s': "connectEstablished cb (sc_conn c) = Some s'" "stage_ok cb Up s'" using established_ok st a by metis
    from set_conn_ok [OF assms(1) c(1), of "c\<lparr>sc_conn := s', sc_stage := Up\<rparr>"] c(2) a s' ConnectEstablished c(1)
    show ?thesis by simp
  next
    case (ConnectDestroyed i)
    with c have a: "sc_stage c = Removed" by (cases "sc_stage c") auto
    obtain s' where s': "connectDestroyed cb (sc_conn c) = Some s'" "stage_ok cb Gone s'" using destroyed_ok st a assms(3) by metis
    from set_conn_ok [OF assms(1) c(1), of "c\<lparr>sc_conn := s', sc_stage := Gone\<rparr>"] c(2) a s' ConnectDestroyed c(1)
    show ?thesis by simp
  next
    case (RemoveConnectionInLoop i)
    with c have a: "sc_stage c = Closing" "l = base_loop w" by (cases "sc_stage c"; auto)+
    let ?s1 = "(sw_server w)\<lparr>ts_connections := (ts_connections (sw_server w))(sc_name c := None)\<rparr>"
    let ?c' = "c\<lparr>sc_stage := Removed\<rparr>" and ?w = "set_conn i (c\<lparr>sc_stage := Removed\<rparr>) (w\<lparr>sw_server := ?s1\<rparr>)"
    have n: "sc_name c = connName (sw_server w) i" "1 \<le> i \<and> i < ts_nextConnId (sw_server w)" "pool_inv (ts_pool (sw_server w))"
      "lp_started (ts_pool (sw_server w))" "ts_nextConnId (sw_server w) \<le> int_max" using assms(1) c(1) RemoveConnectionInLoop by (simp_all add: world_ok_def)
    have "world_ok cb (set_option (due_task (base_loop w) i ?c' (sc_stage ?c'))) ?w"
      by (rule update_conn_ok [OF assms(1)]) (use c a n st RemoveConnectionInLoop in auto)
    then have "world_ok cb {(sc_loop c, ConnectDestroyed i)} ?w" by simp
    moreover have "due ?w (sc_loop c) (ConnectDestroyed i)" by (simp add: due_iff set_conn_def)
    ultimately show ?thesis using queue_task_ok RemoveConnectionInLoop c(1)
      by (auto simp: removeConnectionInLoop_def)
  qed
qed

lemma run_in_loop_ok:
  assumes "world_ok cb {(l, t)} w" and "due w l t" and "good_callbacks cb"
  shows "\<exists>w'. run_in_loop cb me l t w = Some w' \<and> world_ok cb {} w'"
  using run_task_ok [OF assms] queue_task_ok [OF assms(1,2)] by (simp add: run_in_loop_def)

lemma set_conn_same:
  assumes "world_ok cb X w" and "sw_conns w i = Some c" and "sc_name c' = sc_name c" and "sc_loop c' = sc_loop c"
    and "sc_stage c' = sc_stage c" and "stage_ok cb (sc_stage c') (sc_conn c')"
  shows "world_ok cb X (set_conn i c' w)"
proof -
  let ?w = "set_conn i c' w"
  have conns: "sw_conns ?w j = (if j = i then Some c' else sw_conns w j)" for j by (simp add: set_conn_def)
  have rest: "sw_server ?w = sw_server w" "sw_tasks ?w = sw_tasks w" by (simp_all add: set_conn_def)
  have "due_task b j c' st = due_task b j c st" for b j st using assms(4) by (cases st) simp_all
  then have "due ?w = due w" using assms(2,5) by (auto simp: due_iff conns rest fun_eq_iff)
  moreover have "(\<exists>d. sw_conns ?w j = Some d \<and> sc_name d = n \<and> in_table (sc_stage d)) \<longleftrightarrow>
      (\<exists>d. sw_conns w j = Some d \<and> sc_name d = n \<and> in_table (sc_stage d))" for j n
    using assms(2,3,5) by (simp add: conns)
  moreover have "1 \<le> j \<and> j < ts_nextConnId (sw_server w) \<and> sc_name d = connName (sw_server w) j \<and> stage_ok cb (sc_stage d) (sc_conn d)"
    if "sw_conns ?w j = Some d" for j d
    using that assms by (cases "j = i") (auto simp: conns world_ok_def)
  ultimately show ?thesis using assms(1) unfolding world_ok_def rest by simp
qed

lemma getNextLoop_ok:
  assumes "pool_inv p" and "lp_started p"
  shows "\<exists>l p'. getNextLoop p = Some (l, p') \<and> pool_inv p' \<and> lp_started p' \<and> lp_baseLoop p' = lp_baseLoop p"
proof -
  have "getNextLoop p \<noteq> None" using assms by (auto simp: getNextLoop_def pool_inv_def)
  then obtain l p' where g: "getNextLoop p = Some (l, p')" by auto
  then have "lp_started p' \<and> lp_baseLoop p' = lp_baseLoop p" by (auto simp: getNextLoop_def split: if_splits)
  with g getNextLoop_inv [OF assms(1) g] show ?thesis by blast
qed

lemma newConnection_ok:
  fixes w :: "('c, 'w, 'l) server_world"
  assumes "world_ok cb {} w" and "good_callbacks cb" and "ts_nextConnId (sw_server w) < int_max"
  shows "\<exists>w'. newConnection cb sockfd ws w = Some w' \<and> world_ok cb {} w'"
proof -
  let ?s = "sw_server w" and ?i = "ts_nextConnId (sw_server w)"
  have pool: "pool_inv (ts_pool ?s)" "lp_started (ts_pool ?s)" and one: "1 \<le> ?i" using assms(1) by (simp_all add: world_ok_def)
  then obtain l p where p: "getNextLoop (ts_pool ?s) = Some (l, p)" "pool_inv p" "lp_started p"
    "lp_baseLoop p = base_loop w" using getNextLoop_ok by blast
  let ?c = "\<lparr>sc_name = connName ?s ?i, sc_loop = l, sc_conn = new_conn sockfd ws :: ('c, 'w) tcp_conn, sc_stage = Accepted\<rparr>"
  let ?s1 = "?s\<lparr>ts_pool := p, ts_nextConnId := ?i + 1, ts_connections := (ts_connections ?s)(connName ?s ?i \<mapsto> ?i)\<rparr>"
  let ?w = "set_conn ?i ?c (w\<lparr>sw_server := ?s1\<rparr>)"
  have none: "sw_conns w ?i = None"
    using assms(1) by (metis less_irrefl not_Some_eq world_ok_def)
  have "world_ok cb (set_option (due_task (base_loop w) ?i ?c (sc_stage ?c))) ?w"
    by (rule update_conn_ok [OF assms(1)]) (use none p one assms(3) in auto)
  then have "world_ok cb {(l, ConnectEstablished ?i)} ?w" by simp
  moreover have "due ?w l (ConnectEstablished ?i)" by (simp add: due_iff set_conn_def)
  ultimately show ?thesis using run_in_loop_ok assms(2,3) p(1) by (auto simp: newConnection_def int_incr_def Let_def)
qed

lemma newConnection_overflow: "\<not> ts_nextConnId (sw_server w) < int_max \<Longrightarrow> newConnection cb sockfd ws w = None"
  by (simp add: newConnection_def int_incr_def Let_def case_prod_beta split: bind_splits)

lemma after_activity_ok:
  assumes "world_ok cb {} w" and "good_callbacks cb" and c: "sw_conns w i = Some c" and "sc_stage c \<noteq> Accepted"
    and a: "conn_active cb (sc_conn c) s'"
  shows "\<exists>w'. after_activity cb i c s' w = Some w' \<and> world_ok cb {} w'"
proof -
  let ?s = "sc_conn c" and ?c' = "c\<lparr>sc_conn := s'\<rparr>"
  have st: "stage_ok cb (sc_stage c) ?s" using assms(1) c by (simp add: world_ok_def)
  then have r: "conn_reachable cb ?s" using assms(4) by (cases "sc_stage c") auto
  have r': "conn_reachable cb s'" by (rule conn_reachable.step [OF r conn_step.active [OF a]])
  show ?thesis
  proof (cases "tc_log s' = tc_log ?s")
    case True
    with conn_active_reports [OF a] have "tc_state s' = kDisconnected \<longleftrightarrow> tc_state ?s = kDisconnected" by (auto simp: reports_def)
    moreover have "tc_state s' \<noteq> kConnecting" using reachable_inv [OF r' assms(2)] by simp
    ultimately have "stage_ok cb (sc_stage c) s'" using st r' True assms(4)
      by (cases "sc_stage c"; cases "tc_state s'") (auto simp: open_state_def)
    with set_conn_same [OF assms(1) c, of ?c'] True show ?thesis by (simp add: after_activity_def)
  next
    case False
    with conn_active_reports [OF a] have log: "tc_log s' = tc_log ?s @ [ConnectionCalled False, CloseCalled]"
      "tc_state ?s \<noteq> kDisconnected" "tc_state s' = kDisconnected" by (auto simp: reports_def)
    then have up: "sc_stage c = Up" using st assms(4) by (cases "sc_stage c") auto
    let ?c'' = "c\<lparr>sc_conn := s', sc_stage := Closing\<rparr>"
    have "world_ok cb (set_option (due_task (base_loop w) i ?c'' (sc_stage ?c''))) (set_conn i ?c'' w)"
      by (rule set_conn_ok [OF assms(1) c]) (use st log r' up in auto)
    then have "world_ok cb {(base_loop w, RemoveConnectionInLoop i)} (set_conn i ?c'' w)" by simp
    moreover have "due (set_conn i ?c'' w) (base_loop w) (RemoveConnectionInLoop i)" by (simp add: due_iff set_conn_def)
    ultimately show ?thesis using run_in_loop_ok assms(2) log(1)
      by (auto simp: after_activity_def removeConnection_def set_conn_def Let_def)
  qed
qed

lemma pop_task_ok:
  assumes "world_ok cb {} w" and "sw_tasks w l = t # ts"
  shows "world_ok cb {(l, t)} (w\<lparr>sw_tasks := (sw_tasks w)(l := ts)\<rparr>)" (is "world_ok cb _ ?w")
    and "due (w\<lparr>sw_tasks := (sw_tasks w)(l := ts)\<rparr>) l t"
proof -
  have d: "due ?w = due w" by (simp add: due_def fun_eq_iff)
  have m: "t' \<in> set (sw_tasks w l') \<longleftrightarrow> due w l' t'" "distinct (sw_tasks w l')" for l' t'
    using assms(1) by (simp_all add: world_ok_def)
  show "due ?w l t" using m(1) [of t l] assms(2) d by simp
  have "t' \<in> set (sw_tasks ?w l') \<longleftrightarrow> due ?w l' t' \<and> (l', t') \<notin> {(l, t)}" for l' t'
    using m(1) [of _ l'] m(2) [of l'] d assms(2) by (cases "l' = l") auto
  moreover have "distinct (sw_tasks ?w l')" for l' using m(2) [of l'] assms(2) by (cases "l' = l") auto
  ultimately show "world_ok cb {(l, t)} ?w" using assms(1) unfolding world_ok_def by simp
qed

lemma server_step_ok:
  assumes "server_step cb w w'" and "world_ok cb {} w" and "good_callbacks cb"
  shows "world_ok cb {} w'"
  using assms(1)
proof cases
  case (accept sockfd ws)
  then have "ts_nextConnId (sw_server w) < int_max"
    by (auto simp: newConnection_def int_incr_def Let_def split: bind_splits if_splits)
  with accept newConnection_ok [OF assms(2,3)] show ?thesis by (metis option.inject)
next
  case (task l t ts)
  with run_task_ok [OF pop_task_ok [OF assms(2) task(1)] assms(3)] show ?thesis by simp
next
  case (activity i c s')
  with after_activity_ok [OF assms(2,3)] show ?thesis by (metis option.inject)
qed

lemma server_world_ok:
  assumes "server_reachable cb w" and "good_callbacks cb"
  shows "world_ok cb {} w"
  using assms(1)
proof induction
  case (start startLoop has_cb n loop ipPort name s)
  then obtain cb' p where p: "pool_start startLoop True has_cb (setThreadNum n (new_pool loop name)) = Some (cb', p)"
    "ts_pool s = p" "ts_connections s = (\<lambda>_. None)" "ts_nextConnId s = 1"
    by (auto simp: server_start_def server_setThreadNum_def new_server_def split: bind_splits)
  have "pool_inv p" by (rule pool_start_inv [OF _ _ p(1)]) (simp_all add: pool_inv_def setThreadNum_def new_pool_def)
  moreover have "lp_started p" using p(1) by (auto simp: pool_start_def start_threads_run split: if_splits)
  ultimately show ?case using p by (simp add: world_ok_def due_def int_max_def)
next
  case (step w w')
  then show ?case using server_step_ok assms(2) by blast
qed

lemma run_task_counter: "run_task cb t w = Some w' \<Longrightarrow> ts_nextConnId (sw_server w') = ts_nextConnId (sw_server w)"
  by (cases t) (auto simp: set_conn_def removeConnectionInLoop_def queue_task_def split: bind_splits)

lemma newConnection_counts:
  assumes "newConnection cb sockfd ws w = Some w'"
  shows "ts_nextConnId (sw_server w') = ts_nextConnId (sw_server w) + 1"
  using assms by (auto simp: newConnection_def int_incr_def run_in_loop_def queue_task_def set_conn_def Let_def
      dest!: run_task_counter split: bind_splits if_splits)

section \<open>Properties\<close>

text \<open>
  C20: The life of every connection of a running server, however its loops interleave: it reports that it
  is up before it reports that it is down and closed, each once; connections have different names, and the table
  holds exactly the connections that are not removed yet, each under its name, and nothing else; no task of any loop fails an
  assertion and neither does the reaction to a close; a new connection is taken without a failed assertion as long as the counter,
  an \<open>int\<close> that starts at 1 and is never reset, is below its largest value \<open>2^31 - 1\<close> (counting on from there is
  undefined); and when all queues are empty, the table holds exactly the open connections.
\<close>

theorem server_lifecycle:
  assumes "server_reachable cb w" and "good_callbacks cb"
  shows "(\<forall>i c. sw_conns w i = Some c \<longrightarrow> prefix (tc_log (sc_conn c)) [ConnectionCalled True, ConnectionCalled False, CloseCalled])
    \<and> (\<forall>i j c d. sw_conns w i = Some c \<and> sw_conns w j = Some d \<and> sc_name c = sc_name d \<longrightarrow> i = j)
    \<and> (\<forall>n i. ts_connections (sw_server w) n = Some i \<longleftrightarrow>
          (\<exists>c. sw_conns w i = Some c \<and> sc_name c = n \<and> in_table (sc_stage c)))
    \<and> (\<forall>l t ts. sw_tasks w l = t # ts \<longrightarrow> run_task cb t (w\<lparr>sw_tasks := (sw_tasks w)(l := ts)\<rparr>) \<noteq> None)
    \<and> (\<forall>sockfd ws. newConnection cb sockfd ws w \<noteq> None \<longleftrightarrow> ts_nextConnId (sw_server w) < 2 ^ 31 - 1)
    \<and> (\<forall>i c s'. sw_conns w i = Some c \<and> sc_stage c \<noteq> Accepted \<and> conn_active cb (sc_conn c) s' \<longrightarrow>
          after_activity cb i c s' w \<noteq> None)
    \<and> ((\<forall>l. sw_tasks w l = []) \<longrightarrow> (\<forall>n i. ts_connections (sw_server w) n = Some i \<longleftrightarrow>
          (\<exists>c. sw_conns w i = Some c \<and> sc_name c = n \<and> open_state (tc_state (sc_conn c)))))"
proof -
  have ok: "world_ok cb {} w" by (rule server_world_ok [OF assms])
  have st: "stage_ok cb (sc_stage c) (sc_conn c)" "sc_name c = connName (sw_server w) i" if "sw_conns w i = Some c" for i c
    using ok that by (simp_all add: world_ok_def)
  have tab: "ts_connections (sw_server w) n = Some i \<longleftrightarrow> (\<exists>c. sw_conns w i = Some c \<and> sc_name c = n \<and> in_table (sc_stage c))" for n i
    using ok by (simp add: world_ok_def)
  have log: "prefix (tc_log (sc_conn c)) [ConnectionCalled True, ConnectionCalled False, CloseCalled]"
    if "sw_conns w i = Some c" for i c
    using st(1) [OF that] by (cases "sc_stage c") (auto simp: new_conn_def)
  have idle: "sc_stage c = Up \<or> sc_stage c = Gone" if "\<forall>l. sw_tasks w l = []" "sw_conns w i = Some c" for i c
  proof -
    have "\<not> due w l t" for l t using ok that(1) unfolding world_ok_def by (metis empty_iff empty_set)
    then have "due_task (base_loop w) i c (sc_stage c) = None" using that(2)
      by (cases "due_task (base_loop w) i c (sc_stage c)") (auto simp: due_def)
    then show ?thesis by (cases "sc_stage c") auto
  qed
  have op: "in_table (sc_stage c) \<longleftrightarrow> open_state (tc_state (sc_conn c))"
    if "\<forall>l. sw_tasks w l = []" "sw_conns w i = Some c" for i c
    using idle [OF that] st(1) [OF that(2)] by (auto simp: open_state_def)
  have tasks: "run_task cb t (w\<lparr>sw_tasks := (sw_tasks w)(l := ts)\<rparr>) \<noteq> None" if "sw_tasks w l = t # ts" for l t ts
    using run_task_ok [OF pop_task_ok [OF ok that] assms(2)] by auto
  have new: "newConnection cb sockfd ws w \<noteq> None \<longleftrightarrow> ts_nextConnId (sw_server w) < 2 ^ 31 - 1" for sockfd ws
    using newConnection_ok [OF ok assms(2)] newConnection_overflow [of w cb sockfd ws]
    by (cases "ts_nextConnId (sw_server w) < int_max") (auto simp: int_max_def)
  have act: "after_activity cb i c s' w \<noteq> None"
    if "sw_conns w i = Some c" "sc_stage c \<noteq> Accepted" "conn_active cb (sc_conn c) s'" for i c s'
    using after_activity_ok [OF ok assms(2) that] by auto
  have names: "i = j" if "sw_conns w i = Some c" "sw_conns w j = Some d" "sc_name c = sc_name d" for i j c d
    using st(2) [OF that(1)] st(2) [OF that(2)] that(3) by simp
  have quiet: "\<forall>n i. ts_connections (sw_server w) n = Some i \<longleftrightarrow>
      (\<exists>c. sw_conns w i = Some c \<and> sc_name c = n \<and> open_state (tc_state (sc_conn c)))" if "\<forall>l. sw_tasks w l = []"
  proof (intro allI)
    fix n i
    show "ts_connections (sw_server w) n = Some i \<longleftrightarrow>
        (\<exists>c. sw_conns w i = Some c \<and> sc_name c = n \<and> open_state (tc_state (sc_conn c)))"
      unfolding tab using op [OF that, of i] by auto
  qed
  show ?thesis
    by (intro conjI allI impI; (elim conjE)?; (rule log tab new tasks | rule act names, assumption+ | rule quiet [rule_format]); assumption?) blast
qed

theorem server_lifecycle_witness:
  "\<exists>s w. server_start length False (server_setThreadNum 2 (new_server 0 ''0.0.0.0:80'' ''http'')) = Some s
    \<and> newConnection idle_callbacks 5 [] \<lparr>sw_server = s, sw_conns = (\<lambda>_. None), sw_tasks = (\<lambda>_. [])\<rparr> = Some w
    \<and> ts_nextConnId (sw_server w) = 2 \<and> newConnection idle_callbacks 6 [] w \<noteq> None"
proof -
  obtain s where s: "server_start length False (server_setThreadNum 2 (new_server 0 ''0.0.0.0:80'' ''http'')) = Some s"
    "ts_nextConnId s = 1"
    by (simp add: server_start_def server_setThreadNum_def new_server_def pool_start_def setThreadNum_def new_pool_def)
  let ?w = "\<lparr>sw_server = s, sw_conns = (\<lambda>_. None), sw_tasks = (\<lambda>_. [])\<rparr>"
  note r = server_reachable.start [OF s(1), of idle_callbacks]
  from server_lifecycle [OF r good_idle] s(2) obtain w where w: "newConnection idle_callbacks 5 [] ?w = Some w" by fastforce
  then have n: "ts_nextConnId (sw_server w) = 2" using s(2) newConnection_counts [OF w] by simp
  from server_lifecycle [OF server_reachable.step [OF r server_step.accept [OF w]] good_idle] n
  have "newConnection idle_callbacks 6 [] w \<noteq> None" by simp
  with s w n show ?thesis by blast
qed

section \<open>Destruction\<close>

text \<open>
  \<open>~TcpServer\<close> on the thread of loop \<open>me\<close>: the connections of the table, in the order of the table, are destroyed on
  their own loops.
\<close>

fun destroy_connections ::
  "('c, 'w) callbacks \<Rightarrow> 'l \<Rightarrow> int list \<Rightarrow> ('c, 'w, 'l) server_world \<Rightarrow> ('c, 'w, 'l) server_world checked" where
  "destroy_connections cb me [] w = Some w"
| "destroy_connections cb me (i # is) w = do {
     c \<leftarrow> sw_conns w i;
     w' \<leftarrow> run_in_loop cb me (sc_loop c) (ConnectDestroyed i) w;
     destroy_connections cb me is w' }"

lemma connectDestroyed_connected:
  assumes "tc_state s = kConnected" and "chan_inv (tc_channel s)"
  shows "\<exists>s'. connectDestroyed cb s = Some s' \<and> tc_state s' = kDisconnected \<and> tc_log s' = tc_log s @ [ConnectionCalled False]
    \<and> isNoneEvent (tc_channel s')"
  using assms interest_switches(9) [OF assms(2)] by (simp add: connectDestroyed_def chan_remove_def isNoneEvent_def)

text \<open>
  Connected connections on the server's own loop are disconnected at once and say so; those on other loops get
  their task.
\<close>

lemma server_destroyed:
  assumes "\<forall>i \<in> set is. \<exists>c. sw_conns w i = Some c \<and> tc_state (sc_conn c) = kConnected \<and> chan_inv (tc_channel (sc_conn c))" and "distinct is"
  shows "\<exists>w'. destroy_connections cb me is w = Some w'
    \<and> (\<forall>l. set (sw_tasks w l) \<subseteq> set (sw_tasks w' l)) \<and> (\<forall>j. j \<notin> set is \<longrightarrow> sw_conns w' j = sw_conns w j)
    \<and> (\<forall>i \<in> set is. \<exists>c. sw_conns w i = Some c \<and>
         (if sc_loop c = me
          then \<exists>c'. sw_conns w' i = Some c' \<and> sc_stage c' = Gone \<and> tc_state (sc_conn c') = kDisconnected
                 \<and> tc_log (sc_conn c') = tc_log (sc_conn c) @ [ConnectionCalled False]
          else ConnectDestroyed i \<in> set (sw_tasks w' (sc_loop c))))"
  using assms
proof (induction "is" arbitrary: w)
  case (Cons i "is")
  then obtain c where c: "sw_conns w i = Some c" "tc_state (sc_conn c) = kConnected" "chan_inv (tc_channel (sc_conn c))" by auto
  obtain s' where s: "connectDestroyed cb (sc_conn c) = Some s'" "tc_state s' = kDisconnected"
    "tc_log s' = tc_log (sc_conn c) @ [ConnectionCalled False]" using connectDestroyed_connected [OF c(2,3)] by blast
  define w1 where "w1 = (if me = sc_loop c then set_conn i (c\<lparr>sc_conn := s', sc_stage := Gone\<rparr>) w
                         else queue_task (sc_loop c) (ConnectDestroyed i) w)"
  have r: "run_in_loop cb me (sc_loop c) (ConnectDestroyed i) w = Some w1"
    using c s by (simp add: run_in_loop_def w1_def)
  have same: "sw_conns w1 j = sw_conns w j" if "j \<noteq> i" for j using that by (simp add: w1_def set_conn_def queue_task_def)
  have tasks: "set (sw_tasks w l) \<subseteq> set (sw_tasks w1 l)" for l by (auto simp: w1_def set_conn_def queue_task_def)
  have "\<forall>j \<in> set is. \<exists>c. sw_conns w1 j = Some c \<and> tc_state (sc_conn c) = kConnected \<and> chan_inv (tc_channel (sc_conn c))"
    using Cons.prems same by fastforce
  from Cons.IH [OF this] Cons.prems(2) obtain w' where w': "destroy_connections cb me is w1 = Some w'"
    "\<forall>l. set (sw_tasks w1 l) \<subseteq> set (sw_tasks w' l)" "\<forall>j. j \<notin> set is \<longrightarrow> sw_conns w' j = sw_conns w1 j"
    "\<forall>i \<in> set is. \<exists>c. sw_conns w1 i = Some c \<and>
         (if sc_loop c = me
          then \<exists>c'. sw_conns w' i = Some c' \<and> sc_stage c' = Gone \<and> tc_state (sc_conn c') = kDisconnected
                 \<and> tc_log (sc_conn c') = tc_log (sc_conn c) @ [ConnectionCalled False]
          else ConnectDestroyed i \<in> set (sw_tasks w' (sc_loop c)))" by auto
  have "i \<notin> set is" using Cons.prems(2) by simp
  then have "if sc_loop c = me
      then \<exists>c'. sw_conns w' i = Some c' \<and> sc_stage c' = Gone \<and> tc_state (sc_conn c') = kDisconnected
             \<and> tc_log (sc_conn c') = tc_log (sc_conn c) @ [ConnectionCalled False]
      else ConnectDestroyed i \<in> set (sw_tasks w' (sc_loop c))"
    using w'(2) [rule_format, of "sc_loop c"] w'(3) s(2,3) by (auto simp: w1_def set_conn_def queue_task_def)
  moreover have "sw_conns w1 j = sw_conns w j" if "j \<in> set is" for j using same that \<open>i \<notin> set is\<close> by metis
  moreover have "set (sw_tasks w l) \<subseteq> set (sw_tasks w' l)" for l using tasks [of l] w'(2) by blast
  ultimately show ?case using c(1) r w'(1,3,4) same by (intro exI [of _ w']) (auto split: if_splits)
qed simp

text \<open>A connection that is shutting down is not: its channel is still enabled, and the assertion of \<open>remove\<close> fails.\<close>

lemma destroy_half_closed_aborts:
  assumes "sw_conns w i = Some c" and "sc_loop c = me" and "tc_state (sc_conn c) = kDisconnecting"
    and "\<not> isNoneEvent (tc_channel (sc_conn c))"
  shows "destroy_connections cb me (i # is) w = None"
  using assms by (simp add: run_in_loop_def connectDestroyed_def chan_remove_def)

end
