(* ===== verification/Sockets.thy ===== *)
theory Sockets
  imports Prelude "HOL-Library.Word"
begin

text \<open>
  Socket helpers with logic of their own: byte order (\<open>net/Endian.h\<close>, on a little-endian host), addresses
  (\<open>net/InetAddress.cc\<close>) and, from \<open>net/SocketsOps.cc\<close>, the treatment of errors of \<open>accept\<close> and the
  self-connection test. \<open>inet_ntop\<close> and \<open>inet_pton\<close> are arguments; an address that is not understood
  leaves the zeroed field.
\<close>

unbundle bit_operations_syntax

section \<open>Byte order\<close>

definition hostToNetwork16 :: "16 word \<Rightarrow> 16 word" where
  "hostToNetwork16 x = push_bit 8 x OR drop_bit 8 x"

definition networkToHost16 :: "16 word \<Rightarrow> 16 word" where
  "networkToHost16 x = push_bit 8 x OR drop_bit 8 x"

definition swap32 :: "32 word \<Rightarrow> 32 word" where
  "swap32 x = push_bit 24 (take_bit 8 x) OR push_bit 16 (take_bit 8 (drop_bit 8 x))
     OR push_bit 8 (take_bit 8 (drop_bit 16 x)) OR drop_bit 24 x"

definition hostToNetwork32 :: "32 word \<Rightarrow> 32 word" where "hostToNetwork32 x = swap32 x"
definition networkToHost32 :: "32 word \<Rightarrow> 32 word" where "networkToHost32 x = swap32 x"

lemma network16_roundtrip [simp]: "networkToHost16 (hostToNetwork16 x) = x"
  by (rule bit_word_eqI) (auto simp: networkToHost16_def hostToNetwork16_def bit_simps)

lemma bit_beyond: "32 \<le> n \<Longrightarrow> \<not> bit (x :: 32 word) n"
  by (auto dest: bit_imp_le_length)

lemma swap32_bits:
  "n < 8 \<Longrightarrow> bit (swap32 x) n \<longleftrightarrow> bit x (n + 24)"
  "8 \<le> n \<Longrightarrow> n < 16 \<Longrightarrow> bit (swap32 x) n \<longleftrightarrow> bit x (n + 8)"
  "16 \<le> n \<Longrightarrow> n < 24 \<Longrightarrow> bit (swap32 x) n \<longleftrightarrow> bit x (n - 8)"
  "24 \<le> n \<Longrightarrow> n < 32 \<Longrightarrow> bit (swap32 x) n \<longleftrightarrow> bit x (n - 24)"
  by (simp_all add: swap32_def bit_simps ac_simps) (auto simp: bit_beyond)

lemma swap32_swap32: "swap32 (swap32 x) = x"
proof (rule bit_word_eqI)
  fix n assume "n < LENGTH(32)"
  then consider "n < 8" | "8 \<le> n" "n < 16" | "16 \<le> n" "n < 24" | "24 \<le> n" "n < 32" by fastforce
  then show "bit (swap32 (swap32 x)) n \<longleftrightarrow> bit x n"
    by cases (simp_all add: swap32_bits)
qed

lemma network32_roundtrip [simp]: "networkToHost32 (hostToNetwork32 x) = x"
  by (simp add: networkToHost32_def hostToNetwork32_def swap32_swap32)

section \<open>Addresses\<close>

text \<open>The union of \<open>sockaddr_in\<close> and \<open>sockaddr_in6\<close>, told apart by the family; fields in network order.\<close>

datatype inet_address =
    Inet4 (sin_port: "16 word") (sin_addr: "32 word")
  | Inet6 (sin_port: "16 word") (sin6_addr: "128 word")

record inet_lib =
  ntop4 :: "32 word \<Rightarrow> string"
  ntop6 :: "128 word \<Rightarrow> string"
  pton4 :: "string \<Rightarrow> 32 word option"
  pton6 :: "string \<Rightarrow> 128 word option"

definition kInaddrAny :: "32 word" where "kInaddrAny = 0"
definition kInaddrLoopback :: "32 word" where "kInaddrLoopback = 0x7F000001"

definition isIpV6Address :: "string \<Rightarrow> bool" where
  "isIpV6Address ip \<longleftrightarrow> find_char (CHR '':'') ip \<noteq> None"

definition InetAddress_port :: "16 word \<Rightarrow> bool \<Rightarrow> inet_address" where
  "InetAddress_port port loopbackOnly =
     Inet4 (hostToNetwork16 port) (hostToNetwork32 (if loopbackOnly then kInaddrLoopback else kInaddrAny))"

definition InetAddress_family :: "inet_lib \<Rightarrow> string \<Rightarrow> 16 word \<Rightarrow> bool \<Rightarrow> inet_address" where
  "InetAddress_family lib ip port ipv6 =
     (if ipv6
      then Inet6 (hostToNetwork16 port) (case pton6 lib ip of None \<Rightarrow> 0 | Some a \<Rightarrow> a)
      else Inet4 (hostToNetwork16 port) (case pton4 lib ip of None \<Rightarrow> 0 | Some a \<Rightarrow> a))"

definition InetAddress_ip :: "inet_lib \<Rightarrow> string \<Rightarrow> 16 word \<Rightarrow> inet_address" where
  "InetAddress_ip lib ip port =
     (if isIpV6Address ip
      then Inet6 (hostToNetwork16 port) (case pton6 lib ip of None \<Rightarrow> 0 | Some a \<Rightarrow> a)
      else Inet4 (hostToNetwork16 port) (case pton4 lib ip of None \<Rightarrow> 0 | Some a \<Rightarrow> a))"

text \<open>
  Both printers write into a buffer of 64 bytes; \<open>inet_ntop\<close> fails when it does not fit, and \<open>snprintf\<close>
  cuts what it appends.
\<close>

definition ntop_into :: "nat \<Rightarrow> string \<Rightarrow> string" where
  "ntop_into n text = (if length text < n then text else [])"

definition snprintf_into :: "nat \<Rightarrow> string \<Rightarrow> string" where
  "snprintf_into n text = take (n - 1) text"

definition toIp :: "inet_lib \<Rightarrow> inet_address \<Rightarrow> string" where
  "toIp lib a = (case a of Inet4 p ip \<Rightarrow> ntop_into 64 (ntop4 lib ip) | Inet6 p ip \<Rightarrow> ntop_into 64 (ntop6 lib ip))"

definition toIpPort :: "inet_lib \<Rightarrow> inet_address \<Rightarrow> string" where
  "toIpPort lib a =
     (case a of
        Inet4 p ip \<Rightarrow>
          (let buf = ntop_into 64 (ntop4 lib ip); port = networkToHost16 p
           in buf @ snprintf_into (64 - length buf) ('':'' @ show_nat (unat port)))
      | Inet6 p ip \<Rightarrow>
          (let buf = ''['' @ ntop_into 63 (ntop6 lib ip); port = networkToHost16 p
           in buf @ snprintf_into (64 - length buf) ('']:'' @ show_nat (unat port))))"

definition port_of :: "inet_address \<Rightarrow> 16 word" where
  "port_of a = networkToHost16 (sin_port a)"

text \<open>The two addresses of one socket have the same family.\<close>

definition isSelfConnect :: "inet_address \<Rightarrow> inet_address \<Rightarrow> bool" where
  "isSelfConnect localaddr peeraddr =
     (case (localaddr, peeraddr) of
        (Inet4 lp la, Inet4 rp ra) \<Rightarrow> lp = rp \<and> la = ra
      | (Inet6 lp la, Inet6 rp ra) \<Rightarrow> lp = rp \<and> la = ra
      | _ \<Rightarrow> False)"

lemma length_show_port: "length (show_nat (unat (p :: 16 word))) \<le> 5"
proof -
  have "unat p < 2 ^ 16" using unsigned_less [of p] by simp
  then show ?thesis using length_show_nat_le [of 5 "unat p"] by simp
qed

text \<open>
  An address made from its text and a port gives both back: the port through the two byte orders, and
  \<open>toIpPort\<close> prints exactly \<open>ip:port\<close>, or \<open>[ip]:port\<close> for an address with colons, never cut off by its
  64-byte buffer.
\<close>

lemma address_roundtrip:
  assumes "pton4 lib dotted = Some a" and "ntop4 lib a = dotted" and "length dotted \<le> 15" and "CHR '':'' \<notin> set dotted"
    and "pton6 lib colons = Some b" and "ntop6 lib b = colons" and "length colons \<le> 45" and "CHR '':'' \<in> set colons"
  shows "port_of (InetAddress_ip lib ip port) = port
    \<and> toIpPort lib (InetAddress_ip lib dotted port) = dotted @ '':'' @ show_nat (unat port)
    \<and> toIpPort lib (InetAddress_ip lib colons port) = ''['' @ colons @ '']:'' @ show_nat (unat port)
    \<and> toIp lib (InetAddress_ip lib dotted port) = dotted \<and> toIp lib (InetAddress_ip lib colons port) = colons"
  using assms length_show_port [of port]
  by (auto simp: port_of_def InetAddress_ip_def toIpPort_def toIp_def isIpV6Address_def find_char_None
      ntop_into_def snprintf_into_def Let_def)

lemma address_roundtrip_witness:
  "toIpPort \<lparr>ntop4 = (\<lambda>_. ''127.0.0.1''), ntop6 = (\<lambda>_. ''::1''), pton4 = (\<lambda>_. Some 0x7F000001), pton6 = (\<lambda>_. Some 1)\<rparr>
     (InetAddress_ip \<lparr>ntop4 = (\<lambda>_. ''127.0.0.1''), ntop6 = (\<lambda>_. ''::1''), pton4 = (\<lambda>_. Some 0x7F000001), pton6 = (\<lambda>_. Some 1)\<rparr>
        ''::1'' 80) = ''[::1]:'' @ show_nat (unat (80 :: 16 word))"
  using address_roundtrip [where lib = "\<lparr>ntop4 = (\<lambda>_. ''127.0.0.1''), ntop6 = (\<lambda>_. ''::1''), pton4 = (\<lambda>_. Some 0x7F000001), pton6 = (\<lambda>_. Some 1)\<rparr>"
      and dotted = "''127.0.0.1''" and a = "0x7F000001" and colons = "''::1''" and b = 1 and port = 80] by simp

section \<open>Errors of system calls\<close>

datatype sys_errno = EAGAIN | ECONNABORTED | EINTR | EPROTO | EPERM | EMFILE
  | EBADF | EFAULT | EINVAL | ENFILE | ENOBUFS | ENOMEM | ENOTSOCK | EOPNOTSUPP
  | EINPROGRESS | EISCONN | EADDRINUSE | EADDRNOTAVAIL | ECONNREFUSED | ENETUNREACH
  | EACCES | EAFNOSUPPORT | EALREADY | EOTHER nat

text \<open>\<open>sockets::accept\<close>: the errors in the first group are returned to the caller, all others abort.\<close>

definition accept_transient :: "sys_errno \<Rightarrow> bool" where
  "accept_transient e \<longleftrightarrow> e \<in> {EAGAIN, ECONNABORTED, EINTR, EPROTO, EPERM, EMFILE}"

end
