(* ===== verification/Acceptor.thy ===== *)
theory Acceptor
  imports Sockets
begin

text \<open>
  The acceptor of \<open>net/Acceptor.h\<close> and \<open>net/Acceptor.cc\<close> over the descriptor table of the process: a set of
  open descriptors with a limit, and the queue of connections that wait to be accepted. A new descriptor
  is the lowest free one. The acceptor keeps one descriptor in reserve so that it can refuse connections
  when the table is full.
\<close>

section \<open>Descriptors\<close>

record 'p fd_table =
  ft_open :: "nat set"
  ft_limit :: nat
  ft_pending :: "'p list"
  ft_refused :: "'p list"

definition lowest_free :: "'p fd_table \<Rightarrow> nat option" where
  "lowest_free k = find (\<lambda>fd. fd \<notin> ft_open k) [0..<ft_limit k]"

definition sys_open :: "'p fd_table \<Rightarrow> (sys_errno + nat) \<times> 'p fd_table" where
  "sys_open k = (case lowest_free k of
      None \<Rightarrow> (Inl EMFILE, k)
    | Some fd \<Rightarrow> (Inr fd, k\<lparr>ft_open := insert fd (ft_open k)\<rparr>))"

definition sys_accept :: "'p fd_table \<Rightarrow> (sys_errno + nat \<times> 'p) \<times> 'p fd_table" where
  "sys_accept k = (case ft_pending k of
      [] \<Rightarrow> (Inl EAGAIN, k)
    | p # ps \<Rightarrow> (case lowest_free k of
        None \<Rightarrow> (Inl EMFILE, k)
      | Some fd \<Rightarrow> (Inr (fd, p), k\<lparr>ft_open := insert fd (ft_open k), ft_pending := ps\<rparr>)))"

definition sys_close :: "nat \<Rightarrow> 'p fd_table \<Rightarrow> 'p fd_table" where
  "sys_close fd k = k\<lparr>ft_open := ft_open k - {fd}\<rparr>"

section \<open>The acceptor\<close>

text \<open>\<open>None\<close> for \<open>idleFd_\<close> is the value -1 of a failed \<open>open\<close> or \<open>accept\<close>; closing it does nothing.\<close>

record acceptor =
  ac_socket :: nat
  ac_listening :: bool
  ac_hasCallback :: bool
  ac_idleFd :: "nat option"

definition close_idle :: "nat option \<Rightarrow> 'p fd_table \<Rightarrow> 'p fd_table" where
  "close_idle fd k = (case fd of None \<Rightarrow> k | Some n \<Rightarrow> sys_close n k)"

text \<open>\<open>socket\<close>, \<open>bind\<close> and \<open>listen\<close> abort the process when they fail; \<open>bind_ok\<close> and \<open>listen_ok\<close> say that they do not.\<close>

definition new_acceptor :: "bool \<Rightarrow> 'p fd_table \<Rightarrow> (acceptor \<times> 'p fd_table) checked" where
  "new_acceptor bind_ok k = (case sys_open k of
      (Inl e, k1) \<Rightarrow> None
    | (Inr sock, k1) \<Rightarrow> (case sys_open k1 of
        (Inl e, k2) \<Rightarrow> None
      | (Inr fd, k2) \<Rightarrow>
          if bind_ok
          then Some (\<lparr>ac_socket = sock, ac_listening = False, ac_hasCallback = False, ac_idleFd = Some fd\<rparr>, k2)
          else None))"

definition setNewConnectionCallback :: "acceptor \<Rightarrow> acceptor" where
  "setNewConnectionCallback a = a\<lparr>ac_hasCallback := True\<rparr>"

definition acceptor_listen :: "bool \<Rightarrow> acceptor \<Rightarrow> acceptor checked" where
  "acceptor_listen listen_ok a = (if listen_ok then Some (a\<lparr>ac_listening := True\<rparr>) else None)"

text \<open>
  \<open>handleRead\<close> gives the connection it hands to the callback, if it does. The descriptor table belongs to the whole process:
  \<open>other n\<close> is what the other threads do to it after the \<open>n\<close>-th system call of the recovery from \<open>EMFILE\<close>. \<open>fault n\<close> is an
  error of the \<open>n\<close>-th \<open>accept\<close> that comes from the network or a signal (\<open>ECONNABORTED\<close>, \<open>EINTR\<close> and so on), if there is one.
\<close>

definition accept_call :: "sys_errno option \<Rightarrow> 'p fd_table \<Rightarrow> (sys_errno + nat \<times> 'p) \<times> 'p fd_table" where
  "accept_call flt k = (case flt of Some e \<Rightarrow> (Inl e, k) | None \<Rightarrow> sys_accept k)"

definition acceptor_handleRead ::
  "(nat \<Rightarrow> sys_errno option) \<Rightarrow> (nat \<Rightarrow> 'p fd_table \<Rightarrow> 'p fd_table) \<Rightarrow> acceptor \<Rightarrow> 'p fd_table
     \<Rightarrow> ((nat \<times> 'p) option \<times> acceptor \<times> 'p fd_table) checked" where
  "acceptor_handleRead fault other a k =
     (case accept_call (fault 0) k of
        (Inr (connfd, peer), k1) \<Rightarrow>
          (if ac_hasCallback a then Some (Some (connfd, peer), a, k1) else Some (None, a, sys_close connfd k1))
      | (Inl e, k1) \<Rightarrow>
          (if \<not> accept_transient e then None
           else if e = EMFILE then
             let k2 = other 0 (close_idle (ac_idleFd a) k1);
                 (r, k3) = accept_call (fault 1) k2;
                 taken = (case r of Inl e \<Rightarrow> None | Inr (fd, p) \<Rightarrow> Some fd);
                 k4 = other 1 (k3\<lparr>ft_refused := ft_refused k3 @ (case r of Inl e \<Rightarrow> [] | Inr (fd, p) \<Rightarrow> [p])\<rparr>);
                 k5 = other 2 (close_idle taken k4);
                 (o', k6) = sys_open k5;
                 idle = (case o' of Inl e \<Rightarrow> None | Inr fd \<Rightarrow> Some fd)
             in Some (None, a\<lparr>ac_idleFd := idle\<rparr>, k6)
           else Some (None, a, k1)))"

abbreviation undisturbed :: "acceptor \<Rightarrow> 'p fd_table \<Rightarrow> ((nat \<times> 'p) option \<times> acceptor \<times> 'p fd_table) checked" where
  "undisturbed \<equiv> acceptor_handleRead (\<lambda>_. None) (\<lambda>_ k. k)"

text \<open>The destructor closes the reserve; the socket is closed with its member object.\<close>

definition acceptor_destroy :: "acceptor \<Rightarrow> 'p fd_table \<Rightarrow> 'p fd_table" where
  "acceptor_destroy a k = sys_close (ac_socket a) (close_idle (ac_idleFd a) k)"

definition acceptor_inv :: "acceptor \<Rightarrow> 'p fd_table \<Rightarrow> bool" where
  "acceptor_inv a k \<longleftrightarrow> (\<exists>fd. ac_idleFd a = Some fd \<and> fd \<in> ft_open k) \<and> ft_open k \<subseteq> {..<ft_limit k}"

lemma lowest_free_full: "lowest_free k = None \<Longrightarrow> ft_open k \<subseteq> {..<ft_limit k} \<Longrightarrow> ft_open k = {..<ft_limit k}"
  by (auto simp: lowest_free_def find_None_iff)

lemma lowest_free_Some: "lowest_free k = Some fd \<Longrightarrow> fd \<notin> ft_open k \<and> fd < ft_limit k"
  by (auto simp: lowest_free_def find_Some_iff)

lemma lowest_free_only:
  assumes "ft_open k = {..<ft_limit k} - {fd}" and "fd < ft_limit k"
  shows "lowest_free k = Some fd"
proof (cases "lowest_free k")
  case None
  then show ?thesis using assms by (auto simp: lowest_free_def find_None_iff)
next
  case (Some n)
  with lowest_free_Some [OF Some] assms show ?thesis by auto
qed

lemma sys_open_table:
  assumes "sys_open k = (Inr fd, k')" and "ft_open k \<subseteq> {..<ft_limit k}"
  shows "fd \<in> ft_open k'" and "ft_open k \<subseteq> ft_open k'" and "ft_open k' \<subseteq> {..<ft_limit k'}"
  using assms lowest_free_Some [of k fd] by (auto simp: sys_open_def split: option.splits)

lemma new_acceptor_inv [inv_intros]:
  assumes "new_acceptor bind_ok k = Some (a, k')" and "ft_open k \<subseteq> {..<ft_limit k}"
  shows "acceptor_inv a k'"
proof -
  obtain sock k1 fd where o: "sys_open k = (Inr sock, k1)" "sys_open k1 = (Inr fd, k')" "ac_idleFd a = Some fd"
    using assms(1) by (auto simp: new_acceptor_def split: prod.splits sum.splits if_splits)
  from sys_open_table(3) [OF o(1) assms(2)] sys_open_table [OF o(2)] o(3) show ?thesis by (auto simp: acceptor_inv_def)
qed

text \<open>An acceptor that is made and destroyed leaves the descriptor table as it was.\<close>

lemma acceptor_destroy_restores:
  assumes "new_acceptor bind_ok k = Some (a, k')"
  shows "ft_open (acceptor_destroy a k') = ft_open k"
proof -
  obtain sock k1 fd where o: "sys_open k = (Inr sock, k1)" "sys_open k1 = (Inr fd, k')" "ac_idleFd a = Some fd" "ac_socket a = sock"
    using assms by (auto simp: new_acceptor_def split: prod.splits sum.splits if_splits)
  have "ft_open k1 = insert sock (ft_open k)" "sock \<notin> ft_open k"
    using o(1) lowest_free_Some [of k sock] by (auto simp: sys_open_def split: option.splits)
  moreover have "ft_open k' = insert fd (ft_open k1)" "fd \<notin> ft_open k1"
    using o(2) lowest_free_Some [of k1 fd] by (auto simp: sys_open_def split: option.splits)
  ultimately show ?thesis using o(3,4) by (auto simp: acceptor_destroy_def close_idle_def sys_close_def)
qed

text \<open>
  C37: When \<open>accept\<close> fails only for want of a connection or of a descriptor, and no other thread changes the descriptor table
  between the system calls of the handler, then with its reserve descriptor in place the acceptor takes a waiting connection off the queue every
  time it is called, in order: with room in the table it is handed to the callback under a fresh
  descriptor, and with a full table it is accepted and closed at once, after which the table is as full
  as before and the reserve is in place again; so a full table never leaves a connection waiting.
\<close>

theorem acceptor_takes_connection:
  assumes "acceptor_inv a k" and "ac_hasCallback a" and "ft_pending k = p # ps"
  shows "\<exists>r a' k'. acceptor_handleRead (\<lambda>_. None) (\<lambda>_ k. k) a k = Some (r, a', k') \<and> acceptor_inv a' k' \<and> ft_pending k' = ps
    \<and> (if ft_open k = {..<ft_limit k}
       then r = None \<and> ft_open k' = ft_open k \<and> ft_refused k' = ft_refused k @ [p]
       else \<exists>fd. r = Some (fd, p) \<and> fd \<notin> ft_open k \<and> ft_open k' = insert fd (ft_open k) \<and> ft_refused k' = ft_refused k)"
proof (cases "lowest_free k")
  case None
  with assms(1) have full: "ft_open k = {..<ft_limit k}" by (simp add: acceptor_inv_def lowest_free_full)
  obtain i where i: "ac_idleFd a = Some i" "i < ft_limit k" using assms(1) full by (auto simp: acceptor_inv_def)
  let ?k2 = "k\<lparr>ft_open := ft_open k - {i}\<rparr>"
  have l2: "lowest_free ?k2 = Some i" by (rule lowest_free_only) (use full i in simp_all)
  have a2: "sys_accept ?k2 = (Inr (i, p), ?k2\<lparr>ft_open := {..<ft_limit k}, ft_pending := ps\<rparr>)"
    using l2 assms(3) full i(2) by (simp add: sys_accept_def insert_absorb)
  let ?k4 = "k\<lparr>ft_pending := ps, ft_refused := ft_refused k @ [p], ft_open := {..<ft_limit k} - {i}\<rparr>"
  have l4: "lowest_free ?k4 = Some i" by (rule lowest_free_only) (use i in simp_all)
  have o4: "sys_open ?k4 = (Inr i, ?k4\<lparr>ft_open := {..<ft_limit k}\<rparr>)"
    using l4 i(2) by (simp add: sys_open_def insert_absorb)
  have "undisturbed a k = Some (None, a\<lparr>ac_idleFd := Some i\<rparr>, ?k4\<lparr>ft_open := {..<ft_limit k}\<rparr>)"
    using None assms(3) i(1) a2 o4
    by (simp add: acceptor_handleRead_def accept_call_def sys_accept_def [of k] accept_transient_def close_idle_def sys_close_def)
  with full i show ?thesis by (auto simp: acceptor_inv_def)
next
  case (Some fd)
  with lowest_free_Some [OF Some] assms show ?thesis
    by (auto simp: acceptor_handleRead_def accept_call_def sys_accept_def acceptor_inv_def)
qed

theorem acceptor_takes_connection_witness:
  "\<exists>r a' k'. acceptor_handleRead (\<lambda>_. None) (\<lambda>_ k. k) \<lparr>ac_socket = 1, ac_listening = True, ac_hasCallback = True, ac_idleFd = Some 2\<rparr>
      \<lparr>ft_open = {0, 1, 2}, ft_limit = 3, ft_pending = [''a'', ''b''], ft_refused = []\<rparr> = Some (r, a', k')
    \<and> ft_pending k' = [''b''] \<and> ac_idleFd a' \<noteq> None"
proof -
  have "{0, 1, 2} = {..<3 :: nat}" by auto
  then have "acceptor_inv \<lparr>ac_socket = 1, ac_listening = True, ac_hasCallback = True, ac_idleFd = Some 2\<rparr>
      \<lparr>ft_open = {0, 1, 2}, ft_limit = 3, ft_pending = [''a'', ''b''], ft_refused = []\<rparr>"
    by (simp add: acceptor_inv_def)
  from acceptor_takes_connection [OF this, of "''a''" "[''b'']"] show ?thesis by (auto simp: acceptor_inv_def)
qed

text \<open>
  The recovery is not atomic. When another thread opens a descriptor just after the reserve was closed, it takes the freed one: the
  connection stays in the queue, the table is full again, and the acceptor is left without a reserve.
\<close>

lemma reserve_taken:
  assumes "acceptor_inv a k" and "ft_open k = {..<ft_limit k}" and "ft_pending k \<noteq> []"
  shows "\<exists>a' k'. acceptor_handleRead (\<lambda>_. None) (\<lambda>n k. if n = 0 then snd (sys_open k) else k) a k = Some (None, a', k')
    \<and> ac_idleFd a' = None \<and> ft_pending k' = ft_pending k \<and> ft_open k' = ft_open k"
proof -
  obtain i where i: "ac_idleFd a = Some i" "i < ft_limit k" using assms(1,2) by (auto simp: acceptor_inv_def)
  have full: "lowest_free k = None" using assms(2) by (auto simp: lowest_free_def find_None_iff)
  let ?k2 = "k\<lparr>ft_open := ft_open k - {i}\<rparr>"
  have "lowest_free ?k2 = Some i" by (rule lowest_free_only) (use assms(2) i in simp_all)
  then have o: "snd (sys_open ?k2) = k" using assms(2) i(2) by (simp add: sys_open_def insert_absorb)
  from assms(3) obtain p ps where p: "ft_pending k = p # ps" by (cases "ft_pending k") auto
  have a: "sys_accept k = (Inl EMFILE, k)" "sys_open k = (Inl EMFILE, k)"
    using full p by (simp_all add: sys_accept_def sys_open_def)
  then show ?thesis using i(1) o
    by (simp add: acceptor_handleRead_def accept_call_def accept_transient_def close_idle_def sys_close_def p)
qed

text \<open>A signal or a connection that was aborted meanwhile changes nothing; any other error of \<open>accept\<close> ends the process.\<close>

lemma accept_faults:
  assumes "fault 0 = Some e" and "e \<noteq> EMFILE"
  shows "acceptor_handleRead fault other a k = (if accept_transient e then Some (None, a, k) else None)"
  using assms by (simp add: acceptor_handleRead_def accept_call_def)

end
