(* ===== verification/Connector.thy ===== *)
theory Connector
  imports Sockets
begin

text \<open>
  The client side: \<open>net/Connector.h\<close>, \<open>net/Connector.cc\<close>, \<open>net/TcpClient.h\<close>, \<open>net/TcpClient.cc\<close>. A connector
  is a state machine around a non-blocking \<open>connect\<close>: it watches the socket until the outcome is known,
  hands a connected socket to its callback, and otherwise tries again after a growing delay. Its sockets,
  its functors in the loop and its retry timers are part of the state; the outcome of \<open>connect\<close>, the
  socket error and the self-connection test are arguments.
\<close>

section \<open>Connector\<close>

datatype connector_state = CDisconnected | CConnecting | CConnected

datatype cn_functor = StartInLoop | StopInLoop | ResetChannel

text \<open>
  \<^item> \<open>cn_watching\<close>: the channel is registered and enabled for writing
  \<^item> \<open>cn_timers\<close>: delays of the retry timers that are running
  \<^item> \<open>cn_open\<close>: sockets the connector has opened and neither closed nor handed over
  \<^item> \<open>cn_handed\<close>: sockets handed to the callback
  \<^item> \<open>cn_delays\<close>: every delay of this series of attempts
\<close>

record connector =
  cn_connect :: bool
  cn_state :: connector_state
  cn_channel :: "nat option"
  cn_watching :: bool
  cn_retryDelayMs :: nat
  cn_functors :: "cn_functor list"
  cn_timers :: "nat list"
  cn_open :: "nat set"
  cn_handed :: "nat list"
  cn_delays :: "nat list"

definition kMaxRetryDelayMs :: nat where "kMaxRetryDelayMs = 30 * 1000"
definition kInitRetryDelayMs :: nat where "kInitRetryDelayMs = 500"

definition new_connector :: connector where
  "new_connector = \<lparr>cn_connect = False, cn_state = CDisconnected, cn_channel = None, cn_watching = False,
     cn_retryDelayMs = kInitRetryDelayMs, cn_functors = [], cn_timers = [], cn_open = {}, cn_handed = [], cn_delays = []\<rparr>"

definition cn_close :: "nat \<Rightarrow> connector \<Rightarrow> connector" where
  "cn_close fd c = c\<lparr>cn_open := cn_open c - {fd}\<rparr>"

definition cn_queue :: "cn_functor \<Rightarrow> connector \<Rightarrow> connector" where
  "cn_queue f c = c\<lparr>cn_functors := cn_functors c @ [f]\<rparr>"

definition retry :: "nat \<Rightarrow> connector \<Rightarrow> connector" where
  "retry sockfd c =
     (let c1 = (cn_close sockfd c)\<lparr>cn_state := CDisconnected\<rparr>
      in if cn_connect c1
         then c1\<lparr>cn_timers := cn_timers c1 @ [cn_retryDelayMs c1], cn_delays := cn_delays c1 @ [cn_retryDelayMs c1],
                cn_retryDelayMs := min (cn_retryDelayMs c1 * 2) kMaxRetryDelayMs\<rparr>
         else c1)"

definition connecting :: "nat \<Rightarrow> connector \<Rightarrow> connector checked" where
  "connecting sockfd c =
     (let c1 = c\<lparr>cn_state := CConnecting\<rparr>
      in if cn_channel c1 = None then Some (c1\<lparr>cn_channel := Some sockfd, cn_watching := True\<rparr>) else None)"

text \<open>\<open>connect\<close>: \<open>sockfd\<close> is the new socket, \<open>outcome\<close> the error of \<open>::connect\<close>, if any.\<close>

definition connector_connect :: "nat \<Rightarrow> sys_errno option \<Rightarrow> connector \<Rightarrow> connector checked" where
  "connector_connect sockfd outcome c =
     (let c1 = c\<lparr>cn_open := insert sockfd (cn_open c)\<rparr>
      in case outcome of
           None \<Rightarrow> connecting sockfd c1
         | Some savedErrno \<Rightarrow>
             if savedErrno \<in> {EINPROGRESS, EINTR, EISCONN} then connecting sockfd c1
             else if savedErrno \<in> {EAGAIN, EADDRINUSE, EADDRNOTAVAIL, ECONNREFUSED, ENETUNREACH} then Some (retry sockfd c1)
             else Some (cn_close sockfd c1))"

definition startInLoop :: "nat \<Rightarrow> sys_errno option \<Rightarrow> connector \<Rightarrow> connector checked" where
  "startInLoop sockfd outcome c =
     (if cn_state c \<noteq> CDisconnected then None
      else if cn_connect c then connector_connect sockfd outcome c else Some c)"

definition connector_start :: "bool \<Rightarrow> nat \<Rightarrow> sys_errno option \<Rightarrow> connector \<Rightarrow> connector checked" where
  "connector_start inLoopThread sockfd outcome c =
     (let c1 = c\<lparr>cn_connect := True\<rparr>
      in if inLoopThread then startInLoop sockfd outcome c1 else Some (cn_queue StartInLoop c1))"

definition connector_stop :: "connector \<Rightarrow> connector" where
  "connector_stop c = cn_queue StopInLoop (c\<lparr>cn_connect := False\<rparr>)"

text \<open>A null \<open>channel_\<close> is undefined behaviour.\<close>

definition removeAndResetChannel :: "connector \<Rightarrow> (nat \<times> connector) checked" where
  "removeAndResetChannel c =
     (case cn_channel c of
        None \<Rightarrow> None
      | Some sockfd \<Rightarrow> Some (sockfd, cn_queue ResetChannel (c\<lparr>cn_watching := False\<rparr>)))"

definition resetChannel :: "connector \<Rightarrow> connector" where
  "resetChannel c = c\<lparr>cn_channel := None\<rparr>"

definition stopInLoop :: "connector \<Rightarrow> connector checked" where
  "stopInLoop c =
     (if cn_state c = CConnecting
      then do { (sockfd, c1) \<leftarrow> removeAndResetChannel (c\<lparr>cn_state := CDisconnected\<rparr>);
                Some (retry sockfd c1) }
      else Some c)"

definition connector_restart :: "nat \<Rightarrow> sys_errno option \<Rightarrow> connector \<Rightarrow> connector checked" where
  "connector_restart sockfd outcome c =
     startInLoop sockfd outcome
       (c\<lparr>cn_state := CDisconnected, cn_retryDelayMs := kInitRetryDelayMs, cn_connect := True, cn_delays := []\<rparr>)"

definition connector_handleWrite :: "bool \<Rightarrow> bool \<Rightarrow> connector \<Rightarrow> connector checked" where
  "connector_handleWrite err selfConnect c =
     (if cn_state c = CConnecting then do {
        (sockfd, c1) \<leftarrow> removeAndResetChannel c;
        Some (if err then retry sockfd c1
              else if selfConnect then retry sockfd c1
              else let c2 = c1\<lparr>cn_state := CConnected\<rparr>
                   in if cn_connect c2
                      then c2\<lparr>cn_open := cn_open c2 - {sockfd}, cn_handed := cn_handed c2 @ [sockfd]\<rparr>
                      else cn_close sockfd c2) }
      else if cn_state c = CDisconnected then Some c else None)"

definition connector_handleError :: "connector \<Rightarrow> connector checked" where
  "connector_handleError c =
     (if cn_state c = CConnecting then do {
        (sockfd, c1) \<leftarrow> removeAndResetChannel c;
        Some (retry sockfd c1) }
      else Some c)"

fun run_cn_functor :: "nat \<Rightarrow> sys_errno option \<Rightarrow> cn_functor \<Rightarrow> connector \<Rightarrow> connector checked" where
  "run_cn_functor sockfd outcome StartInLoop c = startInLoop sockfd outcome c"
| "run_cn_functor sockfd outcome StopInLoop c = stopInLoop c"
| "run_cn_functor sockfd outcome ResetChannel c = Some (resetChannel c)"

definition retry_timer :: "nat \<Rightarrow> sys_errno option \<Rightarrow> connector \<Rightarrow> connector checked" where
  "retry_timer sockfd outcome c = startInLoop sockfd outcome (c\<lparr>cn_timers := tl (cn_timers c)\<rparr>)"

section \<open>Runs of a connector\<close>

text \<open>
  A connector used in turn: \<open>start\<close> only when it is idle, \<open>restart\<close> only after a connection was handed
  over, \<open>stop\<close> at any time. A retry timer runs for half a second at least, so that the loop has run the
  functor that resets the channel before it ends. Events only come from a channel that is watched.
\<close>

definition cn_idle :: "connector \<Rightarrow> bool" where
  "cn_idle c \<longleftrightarrow> cn_state c = CDisconnected \<and> cn_timers c = [] \<and> cn_channel c = None"

inductive cn_step :: "connector \<Rightarrow> connector \<Rightarrow> bool" where
  start: "cn_idle c \<Longrightarrow> connector_start True fd outcome c = Some c' \<Longrightarrow> cn_step c c'"
| restart: "cn_state c = CConnected \<Longrightarrow> cn_channel c = None \<Longrightarrow> connector_restart fd outcome c = Some c' \<Longrightarrow> cn_step c c'"
| stop: "cn_step c (connector_stop c)"
| functor_call: "cn_functors c = f # fs \<Longrightarrow> run_cn_functor fd outcome f (c\<lparr>cn_functors := fs\<rparr>) = Some c' \<Longrightarrow> cn_step c c'"
| writable: "cn_watching c \<Longrightarrow> connector_handleWrite err self c = Some c' \<Longrightarrow> cn_step c c'"
| failed: "cn_watching c \<Longrightarrow> connector_handleError c = Some c' \<Longrightarrow> cn_step c c'"
| timer: "cn_timers c \<noteq> [] \<Longrightarrow> ResetChannel \<notin> set (cn_functors c) \<Longrightarrow> retry_timer fd outcome c = Some c' \<Longrightarrow> cn_step c c'"

inductive cn_reachable :: "connector \<Rightarrow> bool" where
  initial: "cn_reachable new_connector"
| step: "cn_reachable c \<Longrightarrow> cn_step c c' \<Longrightarrow> cn_reachable c'"

definition backoff :: "nat \<Rightarrow> nat" where
  "backoff n = min (kInitRetryDelayMs * 2 ^ n) kMaxRetryDelayMs"

text \<open>The queued functors that reset the channel: one exactly while a channel waits for it.\<close>

definition resets_due :: "connector \<Rightarrow> nat" where
  "resets_due c = (if cn_channel c \<noteq> None \<and> \<not> cn_watching c then 1 else 0)"

definition cn_ok :: "connector \<Rightarrow> bool" where
  "cn_ok c \<longleftrightarrow> (cn_watching c \<longleftrightarrow> cn_state c = CConnecting)
     \<and> cn_open c = (if cn_watching c then set_option (cn_channel c) else {})
     \<and> (cn_watching c \<longrightarrow> cn_channel c \<noteq> None)
     \<and> count_list (cn_functors c) ResetChannel = resets_due c
     \<and> StartInLoop \<notin> set (cn_functors c)
     \<and> (cn_timers c \<noteq> [] \<longrightarrow> cn_state c = CDisconnected) \<and> length (cn_timers c) \<le> 1
     \<and> cn_retryDelayMs c = backoff (length (cn_delays c)) \<and> cn_delays c = map backoff [0..<length (cn_delays c)]"

lemma backoff_Suc: "min (backoff n * 2) kMaxRetryDelayMs = backoff (Suc n)"
  by (auto simp: backoff_def kMaxRetryDelayMs_def kInitRetryDelayMs_def min_def)

lemma backoff_0: "backoff 0 = kInitRetryDelayMs"
  by (simp add: backoff_def kMaxRetryDelayMs_def kInitRetryDelayMs_def)

text \<open>What \<open>retry\<close> leaves, from a state in which only its socket is open and no timer runs.\<close>

lemma retry_ok:
  assumes "cn_open c \<subseteq> {fd}" and "cn_timers c = []" and "\<not> cn_watching c"
    and "count_list (cn_functors c) ResetChannel = resets_due c" and "StartInLoop \<notin> set (cn_functors c)"
    and "cn_retryDelayMs c = backoff (length (cn_delays c))" and "cn_delays c = map backoff [0..<length (cn_delays c)]"
  shows "cn_ok (retry fd c)"
  using assms backoff_Suc [of "length (cn_delays c)"]
  by (auto simp: cn_ok_def retry_def cn_close_def resets_due_def Let_def)

lemma connect_ok:
  assumes "cn_ok c" and "cn_idle c"
  shows "\<exists>c'. connector_connect fd outcome c = Some c' \<and> cn_ok c'"
proof -
  let ?c = "c\<lparr>cn_open := insert fd (cn_open c)\<rparr>"
  have idle: "cn_state c = CDisconnected" "cn_timers c = []" "cn_channel c = None" "\<not> cn_watching c" "cn_open c = {}"
    using assms by (auto simp: cn_ok_def cn_idle_def)
  have "\<exists>c'. connecting fd ?c = Some c' \<and> cn_ok c'"
    using assms(1) idle by (simp add: connecting_def cn_ok_def resets_due_def)
  moreover have "cn_ok (retry fd ?c)"
    by (rule retry_ok) (use assms(1) idle in \<open>simp_all add: cn_ok_def resets_due_def\<close>)
  moreover have "cn_ok (cn_close fd ?c)"
    using assms(1) idle by (simp add: cn_ok_def cn_close_def resets_due_def)
  ultimately show ?thesis by (simp add: connector_connect_def Let_def split: option.split)
qed

lemma startInLoop_ok:
  assumes "cn_ok c" and "cn_idle c"
  shows "\<exists>c'. startInLoop fd outcome c = Some c' \<and> cn_ok c'"
  using assms connect_ok [OF assms] by (simp add: startInLoop_def cn_idle_def)

text \<open>The end of an attempt: the watched channel is removed and its socket given up or handed over.\<close>

lemma removeChannel_ok:
  assumes "cn_ok c" and "cn_watching c"
  obtains fd c1 where "removeAndResetChannel c = Some (fd, c1)" "cn_open c1 = {fd}" "cn_timers c1 = []" "\<not> cn_watching c1"
    "count_list (cn_functors c1) ResetChannel = resets_due c1" "StartInLoop \<notin> set (cn_functors c1)" "cn_state c1 = cn_state c"
    "cn_retryDelayMs c1 = backoff (length (cn_delays c1))" "cn_delays c1 = map backoff [0..<length (cn_delays c1)]"
    "cn_connect c1 = cn_connect c"
proof -
  from assms obtain fd where fd: "cn_channel c = Some fd" "cn_open c = {fd}" by (auto simp: cn_ok_def)
  show ?thesis
    by (rule that [of fd "cn_queue ResetChannel (c\<lparr>cn_watching := False\<rparr>)"])
      (use assms fd in \<open>auto simp: removeAndResetChannel_def cn_queue_def cn_ok_def resets_due_def\<close>)
qed

lemma connector_handleWrite_ok:
  assumes "cn_ok c" and "cn_watching c"
  shows "\<exists>c'. connector_handleWrite err self c = Some c' \<and> cn_ok c'"
proof -
  obtain fd c1 where c1: "removeAndResetChannel c = Some (fd, c1)" "cn_open c1 = {fd}" "cn_timers c1 = []" "\<not> cn_watching c1"
    "count_list (cn_functors c1) ResetChannel = resets_due c1" "StartInLoop \<notin> set (cn_functors c1)" "cn_state c1 = cn_state c"
    "cn_retryDelayMs c1 = backoff (length (cn_delays c1))" "cn_delays c1 = map backoff [0..<length (cn_delays c1)]"
    by (rule removeChannel_ok [OF assms])
  have st: "cn_state c = CConnecting" using assms by (simp add: cn_ok_def)
  have "cn_ok (retry fd c1)" by (rule retry_ok) (use c1 in simp_all)
  moreover have "cn_ok (c1\<lparr>cn_state := CConnected, cn_open := {}, cn_handed := h\<rparr>)" for h
    using c1 by (simp add: cn_ok_def resets_due_def)
  moreover have "cn_ok (cn_close fd (c1\<lparr>cn_state := CConnected\<rparr>))"
    using c1 by (simp add: cn_ok_def resets_due_def cn_close_def)
  ultimately show ?thesis using c1(1,2) st by (simp add: connector_handleWrite_def Let_def)
qed

lemma connector_handleError_ok:
  assumes "cn_ok c" and "cn_watching c"
  shows "\<exists>c'. connector_handleError c = Some c' \<and> cn_ok c'"
proof -
  obtain fd c1 where c1: "removeAndResetChannel c = Some (fd, c1)" "cn_open c1 = {fd}" "cn_timers c1 = []" "\<not> cn_watching c1"
    "count_list (cn_functors c1) ResetChannel = resets_due c1" "StartInLoop \<notin> set (cn_functors c1)"
    "cn_retryDelayMs c1 = backoff (length (cn_delays c1))" "cn_delays c1 = map backoff [0..<length (cn_delays c1)]"
    by (rule removeChannel_ok [OF assms])
  have "cn_ok (retry fd c1)" by (rule retry_ok) (use c1 in simp_all)
  with c1(1) assms show ?thesis by (simp add: connector_handleError_def)
qed

lemma stopInLoop_ok:
  assumes "cn_ok c"
  shows "\<exists>c'. stopInLoop c = Some c' \<and> cn_ok c'"
proof (cases "cn_watching c")
  case True
  obtain fd c1 where c1: "removeAndResetChannel c = Some (fd, c1)" "cn_open c1 = {fd}" "cn_timers c1 = []" "\<not> cn_watching c1"
    "count_list (cn_functors c1) ResetChannel = resets_due c1" "StartInLoop \<notin> set (cn_functors c1)"
    "cn_retryDelayMs c1 = backoff (length (cn_delays c1))" "cn_delays c1 = map backoff [0..<length (cn_delays c1)]"
    by (rule removeChannel_ok [OF assms True])
  have "removeAndResetChannel (c\<lparr>cn_state := CDisconnected\<rparr>) = Some (fd, c1\<lparr>cn_state := CDisconnected\<rparr>)"
    using c1(1) by (auto simp: removeAndResetChannel_def cn_queue_def split: option.splits)
  moreover have "cn_ok (retry fd (c1\<lparr>cn_state := CDisconnected\<rparr>))"
    by (rule retry_ok) (use c1 in \<open>simp_all add: resets_due_def\<close>)
  ultimately show ?thesis using assms True by (simp add: stopInLoop_def cn_ok_def)
qed (use assms in \<open>simp add: stopInLoop_def cn_ok_def\<close>)

lemma cn_step_defined:
  assumes "cn_ok c"
  shows "cn_idle c \<Longrightarrow> \<exists>c'. connector_start True fd outcome c = Some c' \<and> cn_ok c'"
    and "cn_state c = CConnected \<Longrightarrow> cn_channel c = None \<Longrightarrow> \<exists>c'. connector_restart fd outcome c = Some c' \<and> cn_ok c'"
    and "cn_functors c = f # fs \<Longrightarrow> \<exists>c'. run_cn_functor fd outcome f (c\<lparr>cn_functors := fs\<rparr>) = Some c' \<and> cn_ok c'"
    and "cn_timers c \<noteq> [] \<Longrightarrow> ResetChannel \<notin> set (cn_functors c) \<Longrightarrow> \<exists>c'. retry_timer fd outcome c = Some c' \<and> cn_ok c'"
    and "cn_ok (connector_stop c)"
proof -
  show "cn_idle c \<Longrightarrow> \<exists>c'. connector_start True fd outcome c = Some c' \<and> cn_ok c'"
    using startInLoop_ok [of "c\<lparr>cn_connect := True\<rparr>"] assms
    by (simp add: connector_start_def cn_ok_def cn_idle_def resets_due_def)
  show "\<exists>c'. connector_restart fd outcome c = Some c' \<and> cn_ok c'" if "cn_state c = CConnected" "cn_channel c = None"
  proof -
    let ?c = "c\<lparr>cn_state := CDisconnected, cn_retryDelayMs := kInitRetryDelayMs, cn_connect := True, cn_delays := []\<rparr>"
    have "cn_ok ?c" "cn_idle ?c" using assms that by (auto simp: cn_ok_def cn_idle_def resets_due_def backoff_0)
    from startInLoop_ok [OF this] show ?thesis by (simp add: connector_restart_def)
  qed
  show "\<exists>c'. run_cn_functor fd outcome f (c\<lparr>cn_functors := fs\<rparr>) = Some c' \<and> cn_ok c'" if q: "cn_functors c = f # fs"
  proof (cases f)
    case StopInLoop
    have "cn_ok (c\<lparr>cn_functors := fs\<rparr>)" using assms q StopInLoop by (auto simp: cn_ok_def resets_due_def)
    from stopInLoop_ok [OF this] StopInLoop show ?thesis by simp
  next
    case ResetChannel
    with assms q show ?thesis by (auto simp: cn_ok_def resets_due_def resetChannel_def split: if_splits)
  qed (use assms q in \<open>simp add: cn_ok_def\<close>)
  show "\<exists>c'. retry_timer fd outcome c = Some c' \<and> cn_ok c'" if t: "cn_timers c \<noteq> []" "ResetChannel \<notin> set (cn_functors c)"
  proof -
    have "cn_ok (c\<lparr>cn_timers := tl (cn_timers c)\<rparr>)" "cn_idle (c\<lparr>cn_timers := tl (cn_timers c)\<rparr>)"
      using assms t by (cases "cn_timers c"; auto simp: cn_ok_def cn_idle_def resets_due_def count_list_0_iff split: if_splits)+
    from startInLoop_ok [OF this] show ?thesis by (simp add: retry_timer_def)
  qed
  show "cn_ok (connector_stop c)" using assms by (simp add: connector_stop_def cn_queue_def cn_ok_def resets_due_def)
qed

lemma cn_reachable_ok:
  assumes "cn_reachable c"
  shows "cn_ok c"
  using assms
proof induction
  case initial
  then show ?case by (simp add: cn_ok_def new_connector_def resets_due_def backoff_0)
next
  case (step c c')
  note d = cn_step_defined [OF step.IH]
  from step.hyps(2) show ?case
  proof cases
    case (writable err self)
    with connector_handleWrite_ok [OF step.IH, of err self] show ?thesis by auto
  next
    case failed
    with connector_handleError_ok [OF step.IH] show ?thesis by auto
  qed (use d in \<open>metis option.inject\<close>)+
qed

text \<open>
  C21: A connector used in turn never fails an assertion and never loses a socket: at most one is open, the
  one whose outcome it waits for; at most one retry timer runs, and none while it waits; the delays of a
  series of attempts are half a second, doubled each time up to thirty seconds; and whatever comes next,
  a call, a functor, an event or the end of a timer, is handled.
\<close>

theorem connector_in_turn:
  assumes "cn_reachable c"
  shows "card (cn_open c) = (if cn_state c = CConnecting then 1 else 0)
    \<and> length (cn_timers c) \<le> (if cn_state c = CDisconnected then 1 else 0)
    \<and> cn_delays c = map (\<lambda>i. min (500 * 2 ^ i) 30000) [0..<length (cn_delays c)]
    \<and> (cn_idle c \<longrightarrow> connector_start True fd outcome c \<noteq> None)
    \<and> (cn_state c = CConnected \<and> cn_channel c = None \<longrightarrow> connector_restart fd outcome c \<noteq> None)
    \<and> (cn_functors c = f # fs \<longrightarrow> run_cn_functor fd outcome f (c\<lparr>cn_functors := fs\<rparr>) \<noteq> None)
    \<and> (cn_watching c \<longrightarrow> connector_handleWrite err self c \<noteq> None \<and> connector_handleError c \<noteq> None)
    \<and> (cn_timers c \<noteq> [] \<and> ResetChannel \<notin> set (cn_functors c) \<longrightarrow> retry_timer fd outcome c \<noteq> None)"
proof -
  have ok: "cn_ok c" by (rule cn_reachable_ok [OF assms])
  note d = cn_step_defined [OF ok]
  have "backoff = (\<lambda>i. min (500 * 2 ^ i) 30000)" by (simp add: fun_eq_iff backoff_def kInitRetryDelayMs_def kMaxRetryDelayMs_def)
  with ok have "cn_delays c = map (\<lambda>i. min (500 * 2 ^ i) 30000) [0..<length (cn_delays c)]" by (metis cn_ok_def)
  moreover have "card (cn_open c) = (if cn_state c = CConnecting then 1 else 0)" using ok by (auto simp: cn_ok_def)
  moreover have "length (cn_timers c) \<le> (if cn_state c = CDisconnected then 1 else 0)" using ok by (auto simp: cn_ok_def)
  ultimately show ?thesis
    using d(1-4) connector_handleWrite_ok [OF ok, of err self] connector_handleError_ok [OF ok] by (metis option.distinct(1))
qed

theorem connector_in_turn_witness:
  "\<exists>c. cn_reachable c \<and> cn_delays c = [500] \<and> retry_timer 5 None c \<noteq> None"
proof -
  obtain c where c: "connector_start True 4 (Some ECONNREFUSED) new_connector = Some c" "cn_delays c = [500]"
    "cn_timers c = [500]" "cn_functors c = []"
    by (simp add: connector_start_def startInLoop_def connector_connect_def retry_def cn_close_def new_connector_def
        kInitRetryDelayMs_def)
  have "cn_idle new_connector" by (simp add: cn_idle_def new_connector_def)
  then have r: "cn_reachable c" by (rule cn_reachable.step [OF cn_reachable.initial cn_step.start]) (rule c(1))
  from connector_in_turn [OF r, of 5 None] c r show ?thesis by auto
qed

text \<open>
  \<open>stop\<close> does not cancel a running retry timer: after \<open>stop\<close> and a new \<open>start\<close> that is in progress, the end
  of the old timer fails the assertion in \<open>startInLoop\<close>.
\<close>

lemma stale_retry_timer_aborts:
  assumes "cn_state c = CDisconnected" and "cn_timers c = t # ts" and "cn_channel c = None"
  shows "\<exists>c1. connector_start True fd None (connector_stop c) = Some c1 \<and> cn_timers c1 = t # ts \<and> retry_timer fd' outcome c1 = None"
  using assms
  by (simp add: connector_start_def connector_stop_def cn_queue_def startInLoop_def connector_connect_def connecting_def
      retry_timer_def Let_def)

lemma stale_retry_timer_aborts_witness:
  "\<exists>c1. connector_start True 5 None (connector_stop (new_connector\<lparr>cn_timers := [500]\<rparr>)) = Some c1 \<and> retry_timer 6 None c1 = None"
  using stale_retry_timer_aborts [of "new_connector\<lparr>cn_timers := [500]\<rparr>" 500 "[]" 5 6 None]
  by (auto simp: new_connector_def)

section \<open>The client\<close>

text \<open>
  A connection is named by its socket. \<open>cl_log\<close> holds the names given to connections, \<open>cl_destroys\<close> the queued
  calls of \<open>connectDestroyed\<close>, \<open>cl_shutdowns\<close> the connections told to shut down, and \<open>cl_leaked\<close> sockets that
  nobody owns any more.
\<close>

record tcp_client =
  cl_name :: string
  cl_connector :: connector
  cl_retry :: bool
  cl_connect :: bool
  cl_nextConnId :: nat
  cl_connection :: "nat option"
  cl_log :: "string list"
  cl_destroys :: "nat list"
  cl_shutdowns :: "nat list"
  cl_leaked :: "nat list"

definition new_client :: "string \<Rightarrow> tcp_client" where
  "new_client nameArg = \<lparr>cl_name = nameArg, cl_connector = new_connector, cl_retry = False, cl_connect = True,
     cl_nextConnId = 1, cl_connection = None, cl_log = [], cl_destroys = [], cl_shutdowns = [], cl_leaked = []\<rparr>"

definition enableRetry :: "tcp_client \<Rightarrow> tcp_client" where
  "enableRetry c = c\<lparr>cl_retry := True\<rparr>"

definition client_connect :: "nat \<Rightarrow> sys_errno option \<Rightarrow> tcp_client \<Rightarrow> tcp_client checked" where
  "client_connect sockfd outcome c = do {
     k \<leftarrow> connector_start True sockfd outcome (cl_connector c);
     Some (c\<lparr>cl_connect := True, cl_connector := k\<rparr>) }"

definition client_disconnect :: "tcp_client \<Rightarrow> tcp_client" where
  "client_disconnect c =
     (let c1 = c\<lparr>cl_connect := False\<rparr>
      in case cl_connection c1 of
           None \<Rightarrow> c1
         | Some conn \<Rightarrow> c1\<lparr>cl_shutdowns := cl_shutdowns c1 @ [conn]\<rparr>)"

definition client_stop :: "tcp_client \<Rightarrow> tcp_client" where
  "client_stop c = c\<lparr>cl_connect := False, cl_connector := connector_stop (cl_connector c)\<rparr>"

text \<open>\<open>newConnection\<close>: \<open>peer\<close> is the peer's address as text, or nothing if \<open>getpeername\<close> fails.\<close>

definition client_newConnection :: "string option \<Rightarrow> bool \<Rightarrow> nat \<Rightarrow> tcp_client \<Rightarrow> tcp_client" where
  "client_newConnection peer getsockname_ok sockfd c =
     (case peer of
        None \<Rightarrow> c\<lparr>cl_leaked := cl_leaked c @ [sockfd]\<rparr>
      | Some ipPort \<Rightarrow>
          let buf = snprintf_into 32 ('':'' @ ipPort @ ''#'' @ show_nat (cl_nextConnId c));
              c1 = c\<lparr>cl_nextConnId := cl_nextConnId c + 1\<rparr>
          in if \<not> getsockname_ok then c1\<lparr>cl_leaked := cl_leaked c1 @ [sockfd]\<rparr>
             else c1\<lparr>cl_connection := Some sockfd, cl_log := cl_log c1 @ [cl_name c1 @ buf]\<rparr>)"

text \<open>A writable event of the connector's channel: a socket it hands over becomes the connection at once.\<close>

definition client_writable :: "bool \<Rightarrow> bool \<Rightarrow> string option \<Rightarrow> bool \<Rightarrow> tcp_client \<Rightarrow> tcp_client checked" where
  "client_writable err self peer getsockname_ok c = do {
     k \<leftarrow> connector_handleWrite err self (cl_connector c);
     let c1 = c\<lparr>cl_connector := k\<rparr>;
     Some (if length (cn_handed (cl_connector c)) < length (cn_handed k)
           then client_newConnection peer getsockname_ok (last (cn_handed k)) c1 else c1) }"

definition client_removeConnection :: "nat \<Rightarrow> sys_errno option \<Rightarrow> nat \<Rightarrow> tcp_client \<Rightarrow> tcp_client checked" where
  "client_removeConnection sockfd outcome conn c =
     (if cl_connection c \<noteq> Some conn then None
      else let c1 = c\<lparr>cl_connection := None, cl_destroys := cl_destroys c @ [conn]\<rparr>
           in if cl_retry c1 \<and> cl_connect c1
              then do { k \<leftarrow> connector_restart sockfd outcome (cl_connector c1); Some (c1\<lparr>cl_connector := k\<rparr>) }
              else Some c1)"

text \<open>
  A client whose connection has come up and gone without automatic retry cannot be connected again: the
  connector still counts as connected, and \<open>connect\<close> fails the assertion in \<open>startInLoop\<close>; with \<open>enableRetry\<close> the
  close itself starts the next attempt instead.
\<close>

lemma client_reconnect:
  assumes "cn_ok (cl_connector c)" and "cn_watching (cl_connector c)" and "cn_connect (cl_connector c)"
    and "client_writable False False (Some ipPort) True c = Some c1"
  shows "\<exists>conn. cl_connection c1 = Some conn
    \<and> (\<not> cl_retry c \<longrightarrow> (\<exists>c2. client_removeConnection fd outcome conn c1 = Some c2 \<and> client_connect fd outcome c2 = None))
    \<and> (cl_retry c \<and> cl_connect c \<longrightarrow>
         (let c2 = c1\<lparr>cl_connector := resetChannel (cl_connector c1)\<rparr>
          in \<exists>c3. client_removeConnection fd None conn c2 = Some c3 \<and> cn_state (cl_connector c3) = CConnecting
               \<and> cn_open (cl_connector c3) = {fd}))"
proof -
  let ?k = "cl_connector c"
  from assms(1,2) obtain conn where k: "cn_channel ?k = Some conn" "cn_open ?k = {conn}" "cn_state ?k = CConnecting"
    by (auto simp: cn_ok_def)
  let ?k1 = "(cn_queue ResetChannel (?k\<lparr>cn_watching := False\<rparr>))\<lparr>cn_state := CConnected, cn_open := {}, cn_handed := cn_handed ?k @ [conn]\<rparr>"
  have "connector_handleWrite False False ?k = Some ?k1"
    using k assms(3) by (simp add: connector_handleWrite_def removeAndResetChannel_def cn_queue_def Let_def)
  with assms(4) have c1: "c1 = client_newConnection (Some ipPort) True conn (c\<lparr>cl_connector := ?k1\<rparr>)"
    by (simp add: client_writable_def cn_queue_def Let_def)
  then have "cl_connection c1 = Some conn" "cl_retry c1 = cl_retry c" "cl_connect c1 = cl_connect c" "cl_connector c1 = ?k1"
    by (simp_all add: client_newConnection_def Let_def)
  then show ?thesis
    by (auto simp: client_removeConnection_def client_connect_def connector_start_def startInLoop_def connector_restart_def
        connector_connect_def connecting_def resetChannel_def cn_queue_def Let_def)
qed

lemma client_reconnect_witness:
  "\<exists>c c1 conn c2. client_connect 4 (Some EINPROGRESS) (new_client ''c'') = Some c
     \<and> client_writable False False (Some ''1.2.3.4:80'') True c = Some c1
     \<and> client_removeConnection 5 None conn c1 = Some c2 \<and> client_connect 5 None c2 = None"
proof -
  let ?k = "new_connector\<lparr>cn_connect := True, cn_state := CConnecting, cn_channel := Some 4, cn_watching := True, cn_open := {4}\<rparr>"
  let ?c = "(new_client ''c'')\<lparr>cl_connector := ?k\<rparr>"
  have c: "client_connect 4 (Some EINPROGRESS) (new_client ''c'') = Some ?c"
    by (simp add: client_connect_def new_client_def connector_start_def startInLoop_def connector_connect_def connecting_def
        new_connector_def)
  have k: "cn_ok ?k" "cn_watching ?k" "cn_connect ?k"
    by (simp_all add: cn_ok_def new_connector_def resets_due_def backoff_0)
  obtain c1 where c1: "client_writable False False (Some ''1.2.3.4:80'') True ?c = Some c1"
    using connector_handleWrite_ok [OF k(1,2), of False False] by (auto simp: client_writable_def Let_def)
  from client_reconnect [of ?c "''1.2.3.4:80''" c1 5 None] k c1 c show ?thesis by (auto simp: new_client_def)
qed

section \<open>Destruction\<close>

definition connector_destroy :: "connector \<Rightarrow> unit checked" where
  "connector_destroy c = (if cn_channel c = None then Some () else None)"

text \<open>The two helpers in \<open>namespace detail\<close>; \<open>cl_destroys\<close> stays meaningful after the client is gone: it is the loop's queue.\<close>

definition detail_removeConnection :: "nat \<Rightarrow> nat list \<Rightarrow> nat list" where
  "detail_removeConnection conn queued = queued @ [conn]"

definition removeConnector :: "connector \<Rightarrow> connector" where
  "removeConnector c = connector_stop c"

text \<open>
  The destructor: with a connection, the connection gets a close callback that does not need the client, and is closed
  by force if nobody else owns it; without one, the connector is stopped and kept by a timer of one second.
\<close>

datatype client_effect = Set_close_callback nat | Force_close nat | Keep_connector_one_second

definition client_destroy :: "bool \<Rightarrow> tcp_client \<Rightarrow> client_effect list \<times> connector" where
  "client_destroy unique c =
     (case cl_connection c of
        Some conn \<Rightarrow> (Set_close_callback conn # (if unique then [Force_close conn] else []), cl_connector c)
      | None \<Rightarrow> ([Keep_connector_one_second], connector_stop (cl_connector c)))"

text \<open>One round of the loop's pending functors, as far as they are this connector's.\<close>

fun run_cn_functors :: "cn_functor list \<Rightarrow> connector \<Rightarrow> connector checked" where
  "run_cn_functors [] c = Some c"
| "run_cn_functors (f # fs) c = do { c' \<leftarrow> run_cn_functor 0 None f c; run_cn_functors fs c' }"

definition pending_round :: "connector \<Rightarrow> connector checked" where
  "pending_round c = run_cn_functors (cn_functors c) (c\<lparr>cn_functors := []\<rparr>)"

text \<open>The timer of one second: \<open>removeConnector\<close>, then the callback is deleted with the last owner of the connector.\<close>

definition connector_released :: "connector \<Rightarrow> (connector \<times> cn_functor list) checked" where
  "connector_released c = do { let c1 = removeConnector c; connector_destroy c1; Some (c1, cn_functors c1) }"

text \<open>
  A client destroyed without a connection: two rounds of functors end an attempt that was under way, close its
  socket and free the channel, so the assertion of \<open>~Connector\<close> holds. But the timer that keeps the connector
  calls \<open>stop\<close> once more, which queues \<open>stopInLoop\<close> with a plain pointer, and then destroys the connector: the
  functor runs on a dead object.
\<close>

lemma client_destroy_dangles:
  assumes "cn_ok (cl_connector c)" and "cn_functors (cl_connector c) = []" and "cn_timers (cl_connector c) = []"
    and "cl_connection c = None"
  shows "\<exists>k1 k2 k3. pending_round (snd (client_destroy unique c)) = Some k1 \<and> pending_round k1 = Some k2
    \<and> cn_channel k2 = None \<and> cn_open k2 = {} \<and> cn_timers k2 = [] \<and> cn_functors k2 = []
    \<and> connector_released k2 = Some (k3, [StopInLoop])"
proof -
  let ?k = "cl_connector c"
  let ?k1 = "if cn_state ?k = CConnecting
    then ?k\<lparr>cn_connect := False, cn_state := CDisconnected, cn_watching := False, cn_functors := [ResetChannel], cn_open := {}\<rparr>
    else ?k\<lparr>cn_connect := False\<rparr>"
  have d: "snd (client_destroy unique c) = ?k\<lparr>cn_connect := False, cn_functors := [StopInLoop]\<rparr>"
    using assms(2,4) by (simp add: client_destroy_def connector_stop_def cn_queue_def)
  have idle: "cn_channel ?k = None \<and> cn_open ?k = {}" if "cn_state ?k \<noteq> CConnecting"
    using assms(1,2) that by (auto simp: cn_ok_def resets_due_def split: if_splits)
  have busy: "\<exists>fd. cn_channel ?k = Some fd \<and> cn_open ?k = {fd}" if "cn_state ?k = CConnecting"
    using assms(1) that by (auto simp: cn_ok_def)
  have r1: "pending_round (snd (client_destroy unique c)) = Some ?k1"
    unfolding d using busy assms(2)
    by (cases ?k) (auto simp: pending_round_def stopInLoop_def removeAndResetChannel_def cn_queue_def retry_def cn_close_def Let_def)
  have r2: "pending_round ?k1 = Some (?k1\<lparr>cn_channel := None, cn_functors := []\<rparr>)"
    using idle assms(2) by (cases ?k) (auto simp: pending_round_def resetChannel_def)
  show ?thesis
    by (intro exI conjI, rule r1, rule r2)
      (use idle assms(3) in \<open>auto simp: connector_released_def removeConnector_def connector_stop_def cn_queue_def connector_destroy_def\<close>)
qed

text \<open>
  With a connection: whoever closes it later, the loop gets its \<open>connectDestroyed\<close> without the client. A client
  destroyed before the loop has run \<open>resetChannel\<close>, as in the connection callback itself, fails the assertion of
  \<open>~Connector\<close>.
\<close>

lemma client_destroy_connected:
  assumes "cn_ok (cl_connector c)" and "cn_watching (cl_connector c)" and "cn_connect (cl_connector c)"
    and "client_writable False False (Some ipPort) True c = Some c1"
  shows "\<exists>conn. fst (client_destroy True c1) = [Set_close_callback conn, Force_close conn] \<and> cl_connection c1 = Some conn
    \<and> fst (client_destroy False c1) = [Set_close_callback conn]
    \<and> connector_destroy (snd (client_destroy unique c1)) = None
    \<and> connector_destroy (resetChannel (snd (client_destroy unique c1))) = Some ()"
proof -
  from assms(1,2) obtain conn where k: "cn_channel (cl_connector c) = Some conn" "cn_state (cl_connector c) = CConnecting"
    by (auto simp: cn_ok_def)
  with assms(3,4) show ?thesis
    by (auto simp: client_writable_def connector_handleWrite_def removeAndResetChannel_def cn_queue_def Let_def
        client_newConnection_def client_destroy_def connector_destroy_def resetChannel_def)
qed

end
