(* ===== verification/Dates.thy ===== *)
theory Dates
  imports Prelude
begin

text \<open>
  Dates of \<open>base/Date.h\<close> and \<open>base/Date.cc\<close>: the conversion between calendar dates and Julian day numbers. The
  divisions of the code are of non-negative numbers for every year from -4799 on, where C++ and HOL
  agree; for years up to a million no intermediate value leaves 32 bits. The reference is the Gregorian
  calendar given by its rule for the next day.
\<close>

section \<open>The code\<close>

record year_month_day =
  ymd_year :: int
  ymd_month :: int
  ymd_day :: int

definition getJulianDayNumber :: "int \<Rightarrow> int \<Rightarrow> int \<Rightarrow> int" where
  "getJulianDayNumber year month day =
     (let a = (14 - month) div 12;
          y = year + 4800 - a;
          m = month + 12 * a - 3
      in day + (153 * m + 2) div 5 + y * 365 + y div 4 - y div 100 + y div 400 - 32045)"

definition getYearMonthDay :: "int \<Rightarrow> year_month_day" where
  "getYearMonthDay julianDayNumber =
     (let a = julianDayNumber + 32044;
          b = (4 * a + 3) div 146097;
          c = a - (146097 * b) div 4;
          d = (4 * c + 3) div 1461;
          e = c - (1461 * d) div 4;
          m = (5 * e + 2) div 153
      in \<lparr>ymd_year = 100 * b + d - 4800 + m div 10, ymd_month = m + 3 - 12 * (m div 10),
          ymd_day = e - (153 * m + 2) div 5 + 1\<rparr>)"

definition weekDay :: "int \<Rightarrow> int" where
  "weekDay julianDayNumber = (julianDayNumber + 4) mod 7"

text \<open>\<open>printf\<close> with \<open>%4d\<close> and \<open>%02d\<close> of non-negative numbers.\<close>

definition pad_left :: "char \<Rightarrow> nat \<Rightarrow> string \<Rightarrow> string" where
  "pad_left c n s = replicate (n - length s) c @ s"

definition date_toString :: "int \<Rightarrow> string" where
  "date_toString julianDayNumber =
     (let ymd = getYearMonthDay julianDayNumber
      in pad_left (CHR '' '') 4 (show_int (ymd_year ymd)) @ ''-'' @ pad_left (CHR ''0'') 2 (show_int (ymd_month ymd))
         @ ''-'' @ pad_left (CHR ''0'') 2 (show_int (ymd_day ymd)))"

section \<open>The calendar\<close>

definition leap_year :: "int \<Rightarrow> bool" where
  "leap_year y \<longleftrightarrow> 4 dvd y \<and> (\<not> 100 dvd y \<or> 400 dvd y)"

definition days_in_month :: "int \<Rightarrow> int \<Rightarrow> int" where
  "days_in_month y m = (if m = 2 then (if leap_year y then 29 else 28) else if m \<in> {4, 6, 9, 11} then 30 else 31)"

definition valid_date :: "int \<Rightarrow> int \<Rightarrow> int \<Rightarrow> bool" where
  "valid_date y m d \<longleftrightarrow> 1 \<le> m \<and> m \<le> 12 \<and> 1 \<le> d \<and> d \<le> days_in_month y m"

fun next_day :: "int \<times> int \<times> int \<Rightarrow> int \<times> int \<times> int" where
  "next_day (y, m, d) =
     (if d < days_in_month y m then (y, m, d + 1)
      else if m < 12 then (y, m + 1, 1) else (y + 1, 1, 1))"

section \<open>The year that starts in March\<close>

lemma div_unique_int: "(a :: int) = b * q + r \<Longrightarrow> 0 \<le> r \<Longrightarrow> r < b \<Longrightarrow> a div b = q"
  by (simp add: div_mult_self4)

text \<open>
  A date as a day \<open>n\<close> of the year \<open>y\<close> from March on: day 365 only exists before a leap year's March.
\<close>

definition march_day :: "int \<Rightarrow> int \<Rightarrow> int" where
  "march_day m d = d - 1 + (153 * m + 2) div 5"

lemma months:
  assumes "1 \<le> (m :: int)" and "m \<le> 12"
  shows "m = 1 \<or> m = 2 \<or> m = 3 \<or> m = 4 \<or> m = 5 \<or> m = 6 \<or> m = 7 \<or> m = 8 \<or> m = 9 \<or> m = 10 \<or> m = 11 \<or> m = 12"
  using assms by presburger

lemma march_split:
  assumes "valid_date year month day"
  defines "a \<equiv> (14 - month) div 12"
  defines "y \<equiv> year + 4800 - a" and "m \<equiv> month + 12 * a - 3"
  shows "0 \<le> march_day m day \<and> march_day m day \<le> 365 \<and> (march_day m day = 365 \<longrightarrow> leap_year (y - 4799))
      \<and> (5 * march_day m day + 2) div 153 = m \<and> m + 3 - 12 * (m div 10) = month \<and> y + m div 10 = year + 4800"
proof -
  from assms(1) have "1 \<le> month" and "month \<le> 12" and d: "1 \<le> day" "day \<le> days_in_month year month"
    by (simp_all add: valid_date_def)
  from months [OF this(1,2)] show ?thesis
    using d unfolding a_def y_def m_def days_in_month_def march_day_def
    by (elim disjE; clarsimp split: if_splits) linarith+
qed

lemma quarter: "(b :: int) = 4 * k + a \<Longrightarrow> 4 * (b div 4) = b - a mod 4"
  by (simp add: minus_mod_eq_mult_div [symmetric])

lemma year_split:
  assumes "0 \<le> (s :: int)" and "s \<le> 99" and "0 \<le> n" and "n \<le> 365" and "n = 365 \<longrightarrow> s mod 4 = 3"
  shows "(4 * ((1461 * s) div 4 + n) + 3) div 1461 = s"
proof (rule div_unique_int)
  let ?r = "4 * n + 3 - s mod 4"
  have "4 * ((1461 * s) div 4) = 1461 * s - s mod 4" by (rule quarter [of _ "365 * s"]) simp
  then show "4 * ((1461 * s) div 4 + n) + 3 = 1461 * s + ?r" by simp
  show "0 \<le> ?r" and "?r < 1461" using assms by presburger+
qed

lemma century_split:
  assumes "0 \<le> (c :: int)" and "4 * c + 3 - h mod 4 < 146097"
  shows "(4 * ((146097 * h) div 4 + c) + 3) div 146097 = h"
proof (rule div_unique_int)
  let ?r = "4 * c + 3 - h mod 4"
  have "4 * ((146097 * h) div 4) = 146097 * h - h mod 4" by (rule quarter [of _ "36524 * h"]) simp
  then show "4 * ((146097 * h) div 4 + c) + 3 = 146097 * h + ?r" by simp
  show "0 \<le> ?r" using assms(1) by presburger
  show "?r < 146097" by (rule assms(2))
qed

lemma leap_march:
  assumes "0 \<le> (s :: int)" and "s \<le> 99" and "leap_year (100 * h + s - 4799)"
  shows "s mod 4 = 3" and "s = 99 \<longrightarrow> h mod 4 = 3"
proof -
  from assms(3) obtain k where "100 * h + s - 4799 = 4 * k" by (auto simp: leap_year_def)
  then have "s = 3 + 4 * (k - 25 * h + 1199)" by (simp add: algebra_simps)
  then show "s mod 4 = 3" by (simp only: mod_mult_self2) simp
  show "s = 99 \<longrightarrow> h mod 4 = 3"
  proof
    assume "s = 99"
    then have "100 * h + s - 4799 = 100 * (h - 47)" by simp
    with assms(3) have "100 * 4 dvd 100 * (h - 47)" unfolding leap_year_def by auto
    then have "4 dvd h - 47" by (simp only: dvd_mult_cancel_left) simp
    then show "h mod 4 = 3" by presburger
  qed
qed

text \<open>
  The days since 1 March -4800: \<open>h\<close> centuries, \<open>s\<close> years and \<open>n\<close> days.
\<close>

lemma jdn_of_parts:
  assumes "valid_date year month day"
  defines "a \<equiv> (14 - month) div 12"
  defines "y \<equiv> year + 4800 - a" and "m \<equiv> month + 12 * a - 3"
  defines "h \<equiv> y div 100" and "s \<equiv> y mod 100"
  shows "getJulianDayNumber year month day + 32044 = (146097 * h) div 4 + ((1461 * s) div 4 + march_day m day)"
proof -
  have y: "y = 100 * h + s" and s: "0 \<le> s" "s < 100" by (simp_all add: h_def s_def)
  have "y div 4 = 25 * h + s div 4" unfolding y by (rule div_unique_int [where r = "s mod 4"]) (use s in simp_all)
  moreover have "y div 400 = h div 4"
    by (simp add: h_def zdiv_zmult2_eq [symmetric])
  moreover have "(146097 * h) div 4 = 36524 * h + h div 4"
    by (rule div_unique_int [where r = "h mod 4"]) simp_all
  moreover have "(1461 * s) div 4 = 365 * s + s div 4"
    by (rule div_unique_int [where r = "s mod 4"]) simp_all
  moreover have "getJulianDayNumber year month day
      = day + (153 * m + 2) div 5 + y * 365 + y div 4 - y div 100 + y div 400 - 32045"
    by (simp only: getJulianDayNumber_def Let_def a_def y_def m_def)
  ultimately show ?thesis using y s by (simp add: march_day_def h_def [symmetric])
qed

lemma getYearMonthDay_parts:
  assumes "0 \<le> s" and "s \<le> 99" and "0 \<le> n" and "n \<le> 365" and "n = 365 \<longrightarrow> leap_year (100 * h + s - 4799)"
    and "j + 32044 = (146097 * h) div 4 + ((1461 * s) div 4 + n)"
  defines "m \<equiv> (5 * n + 2) div 153"
  shows "getYearMonthDay j = \<lparr>ymd_year = 100 * h + s - 4800 + m div 10, ymd_month = m + 3 - 12 * (m div 10),
           ymd_day = n - (153 * m + 2) div 5 + 1\<rparr>"
proof -
  have q: "4 * ((1461 * s) div 4) = 1461 * s - s mod 4" by (rule quarter [of _ "365 * s"]) simp
  have long: "n = 365 \<longrightarrow> s mod 4 = 3 \<and> (s = 99 \<longrightarrow> h mod 4 = 3)" using assms(1,2,5) leap_march [of s h] by blast
  have "4 * ((1461 * s) div 4 + n) + 3 - h mod 4 < 146097"
  proof (cases "s = 99")
    case True
    show ?thesis
    proof (cases "n = 365")
      case True
      with long \<open>s = 99\<close> show ?thesis by simp
    next
      case False
      have "0 \<le> h mod 4" by simp
      with False \<open>s = 99\<close> assms(4) show ?thesis by simp
    qed
  next
    case False
    have "0 \<le> h mod 4" "0 \<le> s mod 4" by simp_all
    with q False assms(2,4) show ?thesis by simp
  qed
  moreover have "0 \<le> (1461 * s) div 4 + n" using assms(1,3) by simp
  ultimately have b: "(4 * (j + 32044) + 3) div 146097 = h" unfolding assms(6) by (intro century_split) simp_all
  have "(4 * ((1461 * s) div 4 + n) + 3) div 1461 = s" using assms(1-4) long by (intro year_split) simp_all
  moreover have "j + 32044 - (146097 * h) div 4 = (1461 * s) div 4 + n" using assms(6) by linarith
  ultimately show ?thesis by (simp only: getYearMonthDay_def Let_def b m_def add_diff_cancel_left')
qed

lemma march_day_range:
  assumes "valid_date year month day"
  shows "0 \<le> (14 - month) div 12 \<and> (14 - month) div 12 \<le> 1"
proof -
  from assms have "1 \<le> month" "month \<le> 12" by (simp_all add: valid_date_def)
  then show ?thesis by linarith
qed

lemma jdn_bounds:
  assumes "0 \<le> n" and "n \<le> 365" and "0 \<le> y" and "y \<le> (1004800 :: int)"
  shows "0 \<le> (146097 * (y div 100)) div 4 + ((1461 * (y mod 100)) div 4 + n)
    \<and> 4 * ((146097 * (y div 100)) div 4 + ((1461 * (y mod 100)) div 4 + n)) + 3 < 2 ^ 31"
proof -
  have h: "0 \<le> y div 100" "y div 100 \<le> 10048" and s: "0 \<le> y mod 100" "y mod 100 \<le> 99"
    using assms(3,4) by (simp_all add: zdiv_mono1 [of y 1004800 100, simplified])
  have "0 \<le> (146097 * (y div 100)) div 4" "4 * ((146097 * (y div 100)) div 4) \<le> 146097 * (y div 100)"
    "0 \<le> (1461 * (y mod 100)) div 4" "4 * ((1461 * (y mod 100)) div 4) \<le> 1461 * (y mod 100)"
    using h s by (simp_all add: mult.commute [of 4] minus_mod_eq_div_mult [symmetric] del: mult.commute)
  with h s assms(1,2) show ?thesis by simp
qed

lemma getYearMonthDay_jdn:
  assumes "valid_date year month day" and "-4799 \<le> year"
  shows "getYearMonthDay (getJulianDayNumber year month day) = \<lparr>ymd_year = year, ymd_month = month, ymd_day = day\<rparr>"
proof -
  define a where "a = (14 - month) div 12"
  define y where "y = year + 4800 - a"
  define m where "m = month + 12 * a - 3"
  note march = march_split [OF assms(1), folded a_def, folded y_def m_def]
  have "getYearMonthDay (getJulianDayNumber year month day) =
          \<lparr>ymd_year = 100 * (y div 100) + y mod 100 - 4800 + m div 10, ymd_month = m + 3 - 12 * (m div 10),
           ymd_day = march_day m day - (153 * m + 2) div 5 + 1\<rparr>"
    using getYearMonthDay_parts [of "y mod 100" "march_day m day" "y div 100" "getJulianDayNumber year month day"]
      jdn_of_parts [OF assms(1), folded a_def, folded y_def m_def] march by simp
  with march show ?thesis by (simp add: march_day_def)
qed

text \<open>
  Converting a date to its Julian day number and back gives the date, for every date of the Gregorian
  calendar from the year -4799 to the year 1000000, leap days and turns of the century included, and no
  intermediate value is negative or leaves 31 bits on the way.
\<close>

lemma date_roundtrip:
  assumes "valid_date year month day" and "-4799 \<le> year" and "year \<le> 1000000"
  shows "getYearMonthDay (getJulianDayNumber year month day) =
           \<lparr>ymd_year = year, ymd_month = month, ymd_day = day\<rparr>
    \<and> 0 \<le> getJulianDayNumber year month day + 32044
    \<and> 4 * (getJulianDayNumber year month day + 32044) + 3 < 2 ^ 31"
proof -
  define a where "a = (14 - month) div 12"
  define y where "y = year + 4800 - a"
  define m where "m = month + 12 * a - 3"
  note march = march_split [OF assms(1), folded a_def, folded y_def m_def]
  have y: "0 \<le> y" "y \<le> 1004800" using assms(2,3) y_def march_day_range [OF assms(1)] a_def by simp_all
  have "0 \<le> getJulianDayNumber year month day + 32044
      \<and> 4 * (getJulianDayNumber year month day + 32044) + 3 < 2 ^ 31"
    using jdn_bounds [OF _ _ y] jdn_of_parts [OF assms(1), folded a_def, folded y_def m_def] march by simp
  with getYearMonthDay_jdn [OF assms(1,2)] show ?thesis by blast
qed

lemma date_roundtrip_witness:
  "getYearMonthDay (getJulianDayNumber 2000 2 29) = \<lparr>ymd_year = 2000, ymd_month = 2, ymd_day = 29\<rparr>"
  using date_roundtrip [of 2000 2 29] by (simp add: valid_date_def days_in_month_def leap_year_def)

section \<open>Consecutive days\<close>

lemma div_step:
  assumes "0 < (k :: int)"
  shows "y div k = (y - 1) div k + (if k dvd y then 1 else 0)"
proof (cases "k dvd y")
  case True
  then obtain q where q: "y = k * q" by blast
  have "(y - 1) div k = q - 1" by (rule div_unique_int [where r = "k - 1"]) (use assms q in \<open>simp_all add: algebra_simps\<close>)
  with True q assms show ?thesis by simp
next
  case False
  then have "0 < y mod k" using assms by (simp add: dvd_eq_mod_eq_0 order_less_le)
  then have "(y - 1) div k = y div k"
    using assms pos_mod_bound [of k y] by (intro div_unique_int [where r = "y mod k - 1"]) (simp, simp, linarith)
  with False show ?thesis by simp
qed

lemma leap_year_4800: "leap_year (y + 4800) \<longleftrightarrow> leap_year y"
proof -
  have "4 dvd y + 4800 \<longleftrightarrow> 4 dvd y" "100 dvd y + 4800 \<longleftrightarrow> 100 dvd y" "400 dvd y + 4800 \<longleftrightarrow> 400 dvd y"
    by (intro dvd_add_left_iff, simp)+
  then show ?thesis by (simp only: leap_year_def)
qed

definition year_days :: "int \<Rightarrow> int" where
  "year_days y = y * 365 + y div 4 - y div 100 + y div 400"

lemma sum_step:
  "(a :: int) = a' + x \<Longrightarrow> b = b' + z \<Longrightarrow> c = c' + w \<Longrightarrow> 365 + x - z + w = l
   \<Longrightarrow> y * 365 + a - b + c = (y - 1) * 365 + a' - b' + c' + l"
  by simp

lemma year_days_step: "year_days (y + 4800) = year_days (y + 4799) + (if leap_year y then 366 else 365)"
proof -
  have dvds: "100 dvd y \<longrightarrow> 4 dvd y" "400 dvd y \<longrightarrow> 100 dvd y" for y :: int
    using dvd_trans [of 4 100 y] dvd_trans [of 100 400 y] by auto
  have "year_days Y = year_days (Y - 1) + (if leap_year Y then 366 else 365)" for Y
    unfolding year_days_def
    by (rule sum_step [OF div_step [of 4] div_step [of 100] div_step [of 400]])
      (simp, simp, simp, use dvds [of Y] in
        \<open>cases "4 dvd Y"; cases "100 dvd Y"; cases "400 dvd Y"; simp only: leap_year_def if_True if_False simp_thms; simp\<close>)
  from this [of "y + 4800"] show ?thesis by (simp add: leap_year_4800 add.commute [of _ y])
qed

lemma jdn_year_days:
  "getJulianDayNumber year month day =
     (let a = (14 - month) div 12 in day + (153 * (month + 12 * a - 3) + 2) div 5 + year_days (year + 4800 - a) - 32045)"
  by (simp only: getJulianDayNumber_def year_days_def Let_def)

text \<open>
  Julian day numbers count the days of the Gregorian calendar: the next day has the next number, at the
  ends of months and years and across leap days too.
\<close>

lemma julian_day_counts:
  assumes "valid_date year month day"
  shows "(case next_day (year, month, day) of (y', m', d') \<Rightarrow> getJulianDayNumber y' m' d')
           = getJulianDayNumber year month day + 1"
proof -
  from assms have m: "1 \<le> month" "month \<le> 12" and d: "day \<le> days_in_month year month"
    by (simp_all add: valid_date_def)
  show ?thesis
  proof (cases "day < days_in_month year month")
    case True
    then show ?thesis by (simp add: jdn_year_days Let_def)
  next
    case False
    with d have day: "day = days_in_month year month" by simp
    have step: "year_days (4800 + year) = year_days (4799 + year) + (if leap_year year then 366 else 365)"
      using year_days_step [of year] by (simp only: add.commute)
    from months [OF m] show ?thesis
      by (elim disjE) (simp_all add: day days_in_month_def jdn_year_days Let_def step add.commute [of year])
  qed
qed

lemma julian_day_counts_witness: "getJulianDayNumber 1900 3 1 = getJulianDayNumber 1900 2 28 + 1"
  using julian_day_counts [of 1900 2 28] by (simp add: valid_date_def days_in_month_def leap_year_def)

lemma next_day_valid:
  assumes "valid_date y m d" and "next_day (y, m, d) = (y', m', d')"
  shows "valid_date y' m' d'" and "y \<le> y'"
proof -
  have "1 \<le> days_in_month y k" for y k by (simp add: days_in_month_def)
  with assms show "valid_date y' m' d'" and "y \<le> y'" by (auto simp: valid_date_def split: if_splits)
qed

text \<open>Every day from the epoch on has a date, and \<open>getYearMonthDay\<close> finds it.\<close>

definition epoch_day :: int where
  "epoch_day = 2440588"

lemma day_has_date:
  "\<exists>y m d. valid_date y m d \<and> 1970 \<le> y \<and> getJulianDayNumber y m d = epoch_day + int n"
proof (induction n)
  case 0
  have "valid_date 1970 1 1 \<and> getJulianDayNumber 1970 1 1 = epoch_day"
    by (simp add: valid_date_def days_in_month_def getJulianDayNumber_def epoch_day_def)
  then show ?case by force
next
  case (Suc n)
  then obtain y m d where d: "valid_date y m d" "1970 \<le> y" "getJulianDayNumber y m d = epoch_day + int n" by blast
  obtain y' m' d' where n: "next_day (y, m, d) = (y', m', d')" by (metis prod_cases3)
  have "getJulianDayNumber y' m' d' = epoch_day + int (Suc n)" using julian_day_counts [OF d(1)] n d(3) by simp
  with next_day_valid [OF d(1) n] d(2) show ?case by force
qed

lemma jdn_getYearMonthDay:
  assumes "epoch_day \<le> j"
  shows "valid_date (ymd_year (getYearMonthDay j)) (ymd_month (getYearMonthDay j)) (ymd_day (getYearMonthDay j))"
    and "getJulianDayNumber (ymd_year (getYearMonthDay j)) (ymd_month (getYearMonthDay j)) (ymd_day (getYearMonthDay j)) = j"
    and "1970 \<le> ymd_year (getYearMonthDay j)"
proof -
  obtain y m d where d: "valid_date y m d" "1970 \<le> y" "getJulianDayNumber y m d = j"
    using day_has_date [of "nat (j - epoch_day)"] assms by auto
  have "getYearMonthDay j = \<lparr>ymd_year = y, ymd_month = m, ymd_day = d\<rparr>"
    using getYearMonthDay_jdn [OF d(1)] d by simp
  with d show "valid_date (ymd_year (getYearMonthDay j)) (ymd_month (getYearMonthDay j)) (ymd_day (getYearMonthDay j))"
    and "getJulianDayNumber (ymd_year (getYearMonthDay j)) (ymd_month (getYearMonthDay j)) (ymd_day (getYearMonthDay j)) = j"
    and "1970 \<le> ymd_year (getYearMonthDay j)" by simp_all
qed

text \<open>
  The day of the week is not numbered from Sunday: Thursday, 1 January 1970, gets 0, and the numbers of
  all days are three away from the ones that start at Sunday.
\<close>

lemma week_day_is_shifted:
  "weekDay (getJulianDayNumber 1970 1 1) = 0 \<and> weekDay j = ((j + 1) mod 7 + 3) mod 7 \<and> weekDay j \<noteq> (j + 1) mod 7"
proof -
  have "weekDay j \<noteq> (j + 1) mod 7" unfolding weekDay_def by presburger
  moreover have "weekDay j = ((j + 1) mod 7 + 3) mod 7" unfolding weekDay_def by presburger
  ultimately show ?thesis by (simp add: weekDay_def getJulianDayNumber_def)
qed

end
