(* ===== verification/Monitors.thy ===== *)
theory Monitors
  imports Prelude "HOL-Library.Sublist"
begin

text \<open>
  The monitors of \<open>base/\<close>: \<open>Condition.h\<close>, \<open>BlockingQueue.h\<close>, \<open>BoundedBlockingQueue.h\<close> and \<open>CountDownLatch.cc\<close>. Every
  operation holds the mutex except inside \<open>wait\<close>, so a call is a sequence of atomic passes: a pass checks
  the loop's condition and either goes to sleep or does its work and returns. Threads are numbers; the
  waiters of a condition variable are the threads asleep in it and the threads awake inside the call,
  which still have to get the mutex. Which sleepers a signal wakes is the system's choice: at least one if
  there is one. Spurious wake-ups are steps of their own.
\<close>

section \<open>Condition variables\<close>

record waiters =
  asleep :: "nat set"
  awake :: "nat set"

definition no_waiters :: waiters where
  "no_waiters = \<lparr>asleep = {}, awake = {}\<rparr>"

definition enter :: "nat \<Rightarrow> waiters \<Rightarrow> waiters" where
  "enter t w = w\<lparr>awake := insert t (awake w)\<rparr>"

definition leave :: "nat \<Rightarrow> waiters \<Rightarrow> waiters" where
  "leave t w = w\<lparr>awake := awake w - {t}\<rparr>"

text \<open>\<open>wait\<close> gives the mutex back and sleeps; the sleepers in \<open>T\<close> are woken by \<open>notify\<close>, all of them by \<open>notifyAll\<close>.\<close>

definition cond_wait :: "nat \<Rightarrow> waiters \<Rightarrow> waiters" where
  "cond_wait t w = \<lparr>asleep = insert t (asleep w), awake = awake w - {t}\<rparr>"

definition notify :: "nat set \<Rightarrow> waiters \<Rightarrow> waiters" where
  "notify T w = \<lparr>asleep = asleep w - T, awake = awake w \<union> T\<rparr>"

definition notifyAll :: "waiters \<Rightarrow> waiters" where
  "notifyAll w = \<lparr>asleep = {}, awake = awake w \<union> asleep w\<rparr>"

definition inside :: "waiters \<Rightarrow> nat set" where
  "inside w = asleep w \<union> awake w"

definition signal_ok :: "nat set \<Rightarrow> waiters \<Rightarrow> bool" where
  "signal_ok T w \<longleftrightarrow> T \<subseteq> asleep w \<and> (asleep w \<noteq> {} \<longrightarrow> T \<noteq> {})"

text \<open>
  No wake-up is lost: as long as somebody sleeps, the \<open>n\<close> things waited for have at least as many awake
  threads that will look for them.
\<close>

definition covers :: "nat \<Rightarrow> waiters \<Rightarrow> bool" where
  "covers n w \<longleftrightarrow> finite (asleep w) \<and> finite (awake w) \<and> asleep w \<inter> awake w = {}
     \<and> (asleep w \<noteq> {} \<longrightarrow> n \<le> card (awake w))"

lemmas waiters_defs = no_waiters_def enter_def leave_def cond_wait_def notify_def notifyAll_def inside_def

lemma covers_new: "covers n no_waiters"
  by (simp add: covers_def no_waiters_def)

lemma covers_enter: "covers n w \<Longrightarrow> t \<notin> inside w \<Longrightarrow> covers n (enter t w)"
  by (auto simp: covers_def waiters_defs)

lemma covers_leave: "covers (Suc n) w \<Longrightarrow> t \<in> awake w \<Longrightarrow> covers n (leave t w)"
  by (auto simp: covers_def waiters_defs)

lemma covers_wait: "covers 0 w \<Longrightarrow> t \<in> awake w \<Longrightarrow> covers 0 (cond_wait t w)"
  by (auto simp: covers_def waiters_defs)

lemma covers_less: "covers n w \<Longrightarrow> m \<le> n \<Longrightarrow> covers m w"
  by (auto simp: covers_def)

lemma covers_notify:
  assumes "covers n w" and "T \<subseteq> asleep w" and "asleep w \<noteq> {} \<longrightarrow> k \<le> card T"
  shows "covers (n + k) (notify T w)"
proof (cases "asleep w = {}")
  case True
  with assms show ?thesis by (simp add: covers_def notify_def)
next
  case False
  have "finite T" "awake w \<inter> T = {}" using assms(1,2) by (auto simp: covers_def intro: finite_subset)
  then have "card (awake w \<union> T) = card (awake w) + card T" using assms(1) by (simp add: card_Un_disjoint covers_def)
  with assms False \<open>finite T\<close> show ?thesis by (auto simp: covers_def notify_def)
qed

lemma covers_signal:
  assumes "covers n w" and "signal_ok T w"
  shows "covers (Suc n) (notify T w)"
proof -
  have "asleep w \<noteq> {} \<longrightarrow> 1 \<le> card T"
    using assms by (auto simp: signal_ok_def covers_def Suc_le_eq card_gt_0_iff intro: finite_subset)
  with covers_notify [OF assms(1), of T 1] assms(2) show ?thesis by (simp add: signal_ok_def)
qed

lemma covers_spurious: "covers n w \<Longrightarrow> t \<in> asleep w \<Longrightarrow> covers n (notify {t} w)"
  using covers_notify [of n w "{t}" 0] by simp

lemma covers_all: "covers n w \<Longrightarrow> covers m (notifyAll w)"
  by (simp add: covers_def notifyAll_def)

text \<open>Nobody sleeps for something that is there unless an awake thread is about to look for it.\<close>

lemma covers_quiet: "covers n w \<Longrightarrow> awake w = {} \<Longrightarrow> asleep w \<noteq> {} \<Longrightarrow> n = 0"
  by (simp add: covers_def)

lemma covers_awake: "covers n w \<Longrightarrow> 0 < n \<Longrightarrow> inside w \<noteq> {} \<Longrightarrow> awake w \<noteq> {}"
  by (auto simp: covers_def inside_def)

lemma invariant_steps: "step\<^sup>*\<^sup>* s t \<Longrightarrow> P s \<Longrightarrow> (\<And>u v. step u v \<Longrightarrow> P u \<Longrightarrow> P v) \<Longrightarrow> P t"
  by (induction rule: rtranclp_induct) auto

section \<open>What a blocking queue promises\<close>

text \<open>
  Every step either adds one element at the back or takes some from the front. Then what went out is, in
  order, what came in, up to what is still there.
\<close>

locale blocking_fifo =
  fixes step :: "'s \<Rightarrow> 's \<Rightarrow> bool"
    and items came went :: "'s \<Rightarrow> 'a list"
  assumes in_or_out: "step s s' \<Longrightarrow>
      (\<exists>x. came s' = came s @ [x] \<and> items s' = items s @ [x] \<and> went s' = went s)
      \<or> (\<exists>out. came s' = came s \<and> items s = out @ items s' \<and> went s' = went s @ out)"
begin

lemma fifo_step: "step s s' \<Longrightarrow> came s = went s @ items s \<Longrightarrow> came s' = went s' @ items s'"
  by (drule in_or_out) auto

lemma fifo:
  assumes "step\<^sup>*\<^sup>* s t" and "came s = went s @ items s"
  shows "came t = went t @ items t"
  using assms by (induction rule: rtranclp_induct) (auto intro: fifo_step)

lemma went_grows: "step\<^sup>*\<^sup>* s t \<Longrightarrow> prefix (went s) (went t)"
proof (induction rule: rtranclp_induct)
  case (step u v)
  from in_or_out [OF step(2)] have "prefix (went u) (went v)" by auto
  with step(3) show ?case by (rule prefix_order.trans)
qed simp

end

section \<open>BlockingQueue\<close>

record 'a blocking_queue =
  bq_queue :: "'a list"
  bq_notEmpty :: waiters

definition new_blocking_queue :: "'a blocking_queue" where
  "new_blocking_queue = \<lparr>bq_queue = [], bq_notEmpty = no_waiters\<rparr>"

definition bq_put :: "nat set \<Rightarrow> 'a \<Rightarrow> 'a blocking_queue \<Rightarrow> 'a blocking_queue" where
  "bq_put T x q = q\<lparr>bq_queue := bq_queue q @ [x], bq_notEmpty := notify T (bq_notEmpty q)\<rparr>"

text \<open>One pass of \<open>take\<close> by thread \<open>t\<close>: \<^term>\<open>None\<close> is another wait.\<close>

definition bq_take :: "nat \<Rightarrow> 'a blocking_queue \<Rightarrow> 'a option \<times> 'a blocking_queue" where
  "bq_take t q =
     (case bq_queue q of
        [] \<Rightarrow> (None, q\<lparr>bq_notEmpty := cond_wait t (bq_notEmpty q)\<rparr>)
      | front # queue \<Rightarrow> (Some front, q\<lparr>bq_queue := queue, bq_notEmpty := leave t (bq_notEmpty q)\<rparr>))"

definition bq_drain :: "'a blocking_queue \<Rightarrow> 'a list \<times> 'a blocking_queue" where
  "bq_drain q = (bq_queue q, q\<lparr>bq_queue := []\<rparr>)"

definition bq_size :: "'a blocking_queue \<Rightarrow> nat" where
  "bq_size q = length (bq_queue q)"

text \<open>Any number of threads call the operations; the history is what was put and what came out.\<close>

type_synonym 'a bq_state = "'a blocking_queue \<times> 'a list \<times> 'a list"

inductive bq_step :: "'a bq_state \<Rightarrow> 'a bq_state \<Rightarrow> bool" where
  bq_call_take: "t \<notin> inside (bq_notEmpty q) \<Longrightarrow>
    bq_step (q, i, ou) (q\<lparr>bq_notEmpty := enter t (bq_notEmpty q)\<rparr>, i, ou)"
| bq_pass_take: "t \<in> awake (bq_notEmpty q) \<Longrightarrow> bq_take t q = (r, q') \<Longrightarrow>
    bq_step (q, i, ou) (q', i, ou @ (case r of None \<Rightarrow> [] | Some x \<Rightarrow> [x]))"
| bq_call_put: "signal_ok T (bq_notEmpty q) \<Longrightarrow> bq_step (q, i, ou) (bq_put T x q, i @ [x], ou)"
| bq_call_drain: "bq_drain q = (xs, q') \<Longrightarrow> bq_step (q, i, ou) (q', i, ou @ xs)"
| bq_spurious: "t \<in> asleep (bq_notEmpty q) \<Longrightarrow>
    bq_step (q, i, ou) (q\<lparr>bq_notEmpty := notify {t} (bq_notEmpty q)\<rparr>, i, ou)"

inductive_cases bq_stepE: "bq_step s s'"

interpretation bq: blocking_fifo bq_step "\<lambda>(q, i, ou). bq_queue q" "\<lambda>(q, i, ou). i" "\<lambda>(q, i, ou). ou"
  by unfold_locales (auto elim!: bq_stepE simp: bq_put_def bq_take_def bq_drain_def split: list.splits)

definition bq_ok :: "'a bq_state \<Rightarrow> bool" where
  "bq_ok s = (case s of (q, i, ou) \<Rightarrow> covers (length (bq_queue q)) (bq_notEmpty q))"

lemma bq_ok_step: "bq_step s s' \<Longrightarrow> bq_ok s \<Longrightarrow> bq_ok s'"
  by (erule bq_stepE)
    (auto simp: bq_ok_def bq_put_def bq_take_def bq_drain_def covers_wait covers_leave covers_enter covers_spurious covers_signal
      intro: covers_less split: list.splits)

lemma bq_ok_reachable: "bq_step\<^sup>*\<^sup>* (new_blocking_queue, [], []) s \<Longrightarrow> bq_ok s"
  by (erule invariant_steps [of bq_step _ _ bq_ok, OF _ _ bq_ok_step]) (simp add: bq_ok_def new_blocking_queue_def covers_new)

text \<open>
  With any number of producers and consumers a \<open>BlockingQueue\<close> hands out exactly what was put, in order and
  once, and no wake-up is lost: when it holds elements and some thread is inside \<open>take\<close>, a thread is
  awake whose next pass returns the first element, so once no thread is awake nobody sleeps before a
  non-empty queue.
\<close>

lemma blocking_queue_contract:
  assumes "bq_step\<^sup>*\<^sup>* (new_blocking_queue, [], []) (q, came, went)"
  shows "came = went @ bq_queue q
    \<and> (bq_queue q \<noteq> [] \<and> inside (bq_notEmpty q) \<noteq> {} \<longrightarrow>
         (\<exists>t \<in> awake (bq_notEmpty q). fst (bq_take t q) = Some (hd (bq_queue q))))
    \<and> (asleep (bq_notEmpty q) \<noteq> {} \<longrightarrow> bq_size q \<le> card (awake (bq_notEmpty q)))"
proof -
  have c: "covers (bq_size q) (bq_notEmpty q)" using bq_ok_reachable [OF assms] by (simp add: bq_ok_def bq_size_def)
  have "came = went @ bq_queue q" using bq.fifo [OF assms] by (simp add: new_blocking_queue_def)
  moreover have "\<exists>t \<in> awake (bq_notEmpty q). fst (bq_take t q) = Some (hd (bq_queue q))"
    if "bq_queue q \<noteq> []" and "inside (bq_notEmpty q) \<noteq> {}"
    using covers_awake [OF c] that by (auto simp: bq_take_def bq_size_def neq_Nil_conv)
  ultimately show ?thesis using c by (simp add: covers_def)
qed

lemma blocking_queue_contract_witness:
  "\<exists>q. bq_step\<^sup>*\<^sup>* (new_blocking_queue, [], []) (q, [5 :: nat], []) \<and> bq_size q = 1
     \<and> asleep (bq_notEmpty q) = {} \<and> (\<exists>t \<in> awake (bq_notEmpty q). fst (bq_take t q) = Some 5)"
proof -
  let ?q = "\<lambda>xs a b. \<lparr>bq_queue = xs, bq_notEmpty = \<lparr>asleep = a, awake = b\<rparr>\<rparr> :: nat blocking_queue"
  have "bq_step (new_blocking_queue, [], []) (?q [] {} {1}, [], [])"
    using bq_call_take [of 1 new_blocking_queue "[]" "[]"] by (simp add: new_blocking_queue_def waiters_defs)
  moreover have "bq_step (?q [] {} {1}, [], []) (?q [] {1} {}, [], [])"
    using bq_pass_take [of 1 "?q [] {} {1}" None "?q [] {1} {}" "[]" "[]"] by (simp add: bq_take_def waiters_defs)
  moreover have "bq_step (?q [] {1} {}, [], []) (?q [5] {} {1}, [5], [])"
    using bq_call_put [of "{1}" "?q [] {1} {}" "[]" "[]" 5] by (simp add: bq_put_def waiters_defs signal_ok_def)
  ultimately have "bq_step\<^sup>*\<^sup>* (new_blocking_queue, [], []) (?q [5] {} {1}, [5], [])"
    by (meson converse_rtranclp_into_rtranclp rtranclp.rtrancl_refl)
  from blocking_queue_contract [OF this] this show ?thesis
    by (intro exI [of _ "?q [5] {} {1}"]) (simp add: bq_size_def inside_def)
qed

section \<open>BoundedBlockingQueue\<close>

text \<open>
  The elements are in a \<open>boost::circular_buffer\<close>, which is not part of the repository: its operations are the
  record \<open>ring_ops\<close>, and what its documentation says of them for a capacity is \<open>ring_laws\<close>.
\<close>

record ('b, 'a) ring_ops =
  ring_empty :: "'b \<Rightarrow> bool"
  ring_full :: "'b \<Rightarrow> bool"
  ring_push_back :: "'a \<Rightarrow> 'b \<Rightarrow> 'b"
  ring_front :: "'b \<Rightarrow> 'a"
  ring_pop_front :: "'b \<Rightarrow> 'b"

definition ring_laws :: "('b, 'a) ring_ops \<Rightarrow> ('b \<Rightarrow> 'a list) \<Rightarrow> nat \<Rightarrow> bool" where
  "ring_laws R contents capacity \<longleftrightarrow> (\<forall>b x.
      ring_empty R b = (contents b = []) \<and> ring_full R b = (length (contents b) = capacity)
      \<and> (\<not> ring_full R b \<longrightarrow> contents (ring_push_back R x b) = contents b @ [x])
      \<and> (\<not> ring_empty R b \<longrightarrow> ring_front R b = hd (contents b) \<and> contents (ring_pop_front R b) = tl (contents b)))"

record 'b bounded_queue =
  bb_queue :: 'b
  bb_notEmpty :: waiters
  bb_notFull :: waiters

definition new_bounded_queue :: "'b \<Rightarrow> 'b bounded_queue" where
  "new_bounded_queue b = \<lparr>bb_queue = b, bb_notEmpty = no_waiters, bb_notFull = no_waiters\<rparr>"

text \<open>One pass of \<open>put\<close> by thread \<open>t\<close>: whether it returned, and the queue.\<close>

definition bb_put :: "('b, 'a) ring_ops \<Rightarrow> nat set \<Rightarrow> nat \<Rightarrow> 'a \<Rightarrow> 'b bounded_queue \<Rightarrow> bool \<times> 'b bounded_queue" where
  "bb_put R T t x q =
     (if ring_full R (bb_queue q) then (False, q\<lparr>bb_notFull := cond_wait t (bb_notFull q)\<rparr>)
      else (True, q\<lparr>bb_queue := ring_push_back R x (bb_queue q), bb_notEmpty := notify T (bb_notEmpty q),
                    bb_notFull := leave t (bb_notFull q)\<rparr>))"

definition bb_take :: "('b, 'a) ring_ops \<Rightarrow> nat set \<Rightarrow> nat \<Rightarrow> 'b bounded_queue \<Rightarrow> 'a option \<times> 'b bounded_queue" where
  "bb_take R T t q =
     (if ring_empty R (bb_queue q) then (None, q\<lparr>bb_notEmpty := cond_wait t (bb_notEmpty q)\<rparr>)
      else (Some (ring_front R (bb_queue q)),
            q\<lparr>bb_queue := ring_pop_front R (bb_queue q), bb_notEmpty := leave t (bb_notEmpty q),
              bb_notFull := notify T (bb_notFull q)\<rparr>))"

text \<open>The value a producer brings is fixed when it calls \<open>put\<close>.\<close>

type_synonym ('b, 'a) bb_state = "'b bounded_queue \<times> (nat \<Rightarrow> 'a) \<times> 'a list \<times> 'a list"

inductive bb_step :: "('b, 'a) ring_ops \<Rightarrow> ('b, 'a) bb_state \<Rightarrow> ('b, 'a) bb_state \<Rightarrow> bool"
  for R :: "('b, 'a) ring_ops" where
  bb_call_take: "t \<notin> inside (bb_notEmpty q) \<union> inside (bb_notFull q) \<Longrightarrow>
    bb_step R (q, v, i, ou) (q\<lparr>bb_notEmpty := enter t (bb_notEmpty q)\<rparr>, v, i, ou)"
| bb_call_put: "t \<notin> inside (bb_notEmpty q) \<union> inside (bb_notFull q) \<Longrightarrow>
    bb_step R (q, v, i, ou) (q\<lparr>bb_notFull := enter t (bb_notFull q)\<rparr>, v(t := x), i, ou)"
| bb_pass_take: "t \<in> awake (bb_notEmpty q) \<Longrightarrow> signal_ok T (bb_notFull q) \<Longrightarrow> bb_take R T t q = (r, q') \<Longrightarrow>
    bb_step R (q, v, i, ou) (q', v, i, ou @ (case r of None \<Rightarrow> [] | Some x \<Rightarrow> [x]))"
| bb_pass_put: "t \<in> awake (bb_notFull q) \<Longrightarrow> signal_ok T (bb_notEmpty q) \<Longrightarrow> bb_put R T t (v t) q = (r, q') \<Longrightarrow>
    bb_step R (q, v, i, ou) (q', v, i @ (if r then [v t] else []), ou)"
| bb_spurious_take: "t \<in> asleep (bb_notEmpty q) \<Longrightarrow>
    bb_step R (q, v, i, ou) (q\<lparr>bb_notEmpty := notify {t} (bb_notEmpty q)\<rparr>, v, i, ou)"
| bb_spurious_put: "t \<in> asleep (bb_notFull q) \<Longrightarrow>
    bb_step R (q, v, i, ou) (q\<lparr>bb_notFull := notify {t} (bb_notFull q)\<rparr>, v, i, ou)"

inductive_cases bb_stepE: "bb_step R s s'"

definition bb_ok :: "('b \<Rightarrow> 'a list) \<Rightarrow> nat \<Rightarrow> ('b, 'a) bb_state \<Rightarrow> bool" where
  "bb_ok contents capacity s = (case s of (q, v, i, ou) \<Rightarrow>
      i = ou @ contents (bb_queue q) \<and> length (contents (bb_queue q)) \<le> capacity
      \<and> covers (length (contents (bb_queue q))) (bb_notEmpty q)
      \<and> covers (capacity - length (contents (bb_queue q))) (bb_notFull q))"

lemma bb_pass_take_ok:
  assumes "ring_laws R contents n" and "bb_ok contents n (q, v, i, ou)" and "t \<in> awake (bb_notEmpty q)"
    and "signal_ok T (bb_notFull q)" and "bb_take R T t q = (r, q')"
  shows "bb_ok contents n (q', v, i, ou @ (case r of None \<Rightarrow> [] | Some x \<Rightarrow> [x]))"
proof (cases "contents (bb_queue q)")
  case Nil
  with assms show ?thesis by (auto simp: ring_laws_def bb_ok_def bb_take_def covers_wait)
next
  case (Cons x xs)
  have "covers (Suc (n - Suc (length xs))) (notify T (bb_notFull q))" "Suc (length xs) \<le> n"
    using assms(2,4) Cons by (auto simp: bb_ok_def intro: covers_signal)
  then have "covers (n - length xs) (notify T (bb_notFull q))" by (simp add: Suc_diff_Suc Suc_le_eq)
  with assms Cons show ?thesis by (auto simp: ring_laws_def bb_ok_def bb_take_def covers_leave)
qed

lemma bb_pass_put_ok:
  assumes "ring_laws R contents n" and "bb_ok contents n (q, v, i, ou)" and "t \<in> awake (bb_notFull q)"
    and "signal_ok T (bb_notEmpty q)" and "bb_put R T t (v t) q = (r, q')"
  shows "bb_ok contents n (q', v, i @ (if r then [v t] else []), ou)"
proof (cases "length (contents (bb_queue q)) = n")
  case True
  with assms show ?thesis by (auto simp: ring_laws_def bb_ok_def bb_put_def covers_wait)
next
  case False
  then have "length (contents (bb_queue q)) < n" using assms(2) by (auto simp: bb_ok_def)
  moreover from this have "covers (Suc (n - Suc (length (contents (bb_queue q))))) (bb_notFull q)"
    using assms(2) by (simp add: bb_ok_def Suc_diff_Suc)
  ultimately show ?thesis using assms False by (auto simp: ring_laws_def bb_ok_def bb_put_def covers_signal intro: covers_leave)
qed

lemma bb_ok_step: "bb_step R s s' \<Longrightarrow> ring_laws R contents n \<Longrightarrow> bb_ok contents n s \<Longrightarrow> bb_ok contents n s'"
  by (erule bb_stepE) (auto simp: bb_pass_take_ok bb_pass_put_ok, auto simp: bb_ok_def covers_enter covers_spurious)

lemma bb_ok_reachable:
  "(bb_step R)\<^sup>*\<^sup>* (new_bounded_queue b, v, [], []) s \<Longrightarrow> ring_laws R contents n \<Longrightarrow> contents b = [] \<Longrightarrow> bb_ok contents n s"
  by (erule invariant_steps [of "bb_step R" _ _ "bb_ok contents n", OF _ _ bb_ok_step])
    (simp_all add: bb_ok_def new_bounded_queue_def covers_new)

text \<open>
  C32: A \<open>BoundedBlockingQueue\<close> over a circular buffer that does what its documentation says never holds more than
  its capacity, hands out what was put in order and once, and loses no wake-up on either side: an
  element with a consumer inside, or a free place with a producer inside, always has an awake thread
  whose next pass succeeds. With a capacity above 0 it cannot deadlock: whenever threads are inside, one
  of them is awake unless all of them are consumers of an empty queue or producers of a full one.
\<close>

theorem bounded_queue_contract:
  assumes "ring_laws R contents n" and "contents b = []"
    and "(bb_step R)\<^sup>*\<^sup>* (new_bounded_queue b, v0, [], []) (q, v, came, went)"
  shows "came = went @ contents (bb_queue q) \<and> length (contents (bb_queue q)) \<le> n
    \<and> (contents (bb_queue q) \<noteq> [] \<and> inside (bb_notEmpty q) \<noteq> {} \<longrightarrow>
         (\<exists>t \<in> awake (bb_notEmpty q). \<forall>T. fst (bb_take R T t q) = Some (hd (contents (bb_queue q)))))
    \<and> (length (contents (bb_queue q)) < n \<and> inside (bb_notFull q) \<noteq> {} \<longrightarrow>
         (\<exists>t \<in> awake (bb_notFull q). \<forall>T x. fst (bb_put R T t x q)))
    \<and> (0 < n \<and> awake (bb_notEmpty q) = {} \<and> awake (bb_notFull q) = {} \<longrightarrow>
         asleep (bb_notEmpty q) = {} \<or> asleep (bb_notFull q) = {})"
proof -
  have ok: "bb_ok contents n (q, v, came, went)" by (rule bb_ok_reachable [OF assms(3,1,2)])
  let ?xs = "contents (bb_queue q)"
  have e: "covers (length ?xs) (bb_notEmpty q)" and f: "covers (n - length ?xs) (bb_notFull q)" using ok by (auto simp: bb_ok_def)
  have "\<exists>t \<in> awake (bb_notEmpty q). \<forall>T. fst (bb_take R T t q) = Some (hd ?xs)"
    if "?xs \<noteq> []" and "inside (bb_notEmpty q) \<noteq> {}"
    using covers_awake [OF e] that assms(1) by (auto simp: bb_take_def ring_laws_def)
  moreover have "\<exists>t \<in> awake (bb_notFull q). \<forall>T x. fst (bb_put R T t x q)"
    if "length ?xs < n" and "inside (bb_notFull q) \<noteq> {}"
    using covers_awake [OF f] that assms(1) by (auto simp: bb_put_def ring_laws_def)
  moreover have "asleep (bb_notEmpty q) = {} \<or> asleep (bb_notFull q) = {}"
    if "0 < n" and "awake (bb_notEmpty q) = {}" and "awake (bb_notFull q) = {}"
    using that covers_quiet [OF e] covers_quiet [OF f] by (metis diff_zero less_numeral_extra(3))
  ultimately show ?thesis using ok unfolding bb_ok_def by blast
qed

definition list_ring :: "nat \<Rightarrow> ('a list, 'a) ring_ops" where
  "list_ring n = \<lparr>ring_empty = (\<lambda>b. b = []), ring_full = (\<lambda>b. length b = n), ring_push_back = (\<lambda>x b. b @ [x]),
     ring_front = hd, ring_pop_front = tl\<rparr>"

theorem bounded_queue_contract_witness:
  "\<exists>q v. (bb_step (list_ring 1))\<^sup>*\<^sup>* (new_bounded_queue [], (\<lambda>_. 0), [], []) (q, v, [5 :: nat], []) \<and> bb_queue q = [5]
     \<and> length (bb_queue q) \<le> 1"
proof -
  let ?R = "list_ring 1 :: (nat list, nat) ring_ops"
  let ?q = "\<lambda>xs b. \<lparr>bb_queue = xs, bb_notEmpty = no_waiters, bb_notFull = \<lparr>asleep = {}, awake = b\<rparr>\<rparr> :: nat list bounded_queue"
  let ?v = "(\<lambda>_. 0)(1 := 5) :: nat \<Rightarrow> nat"
  have laws: "ring_laws ?R (\<lambda>b. b) 1" by (simp add: ring_laws_def list_ring_def)
  have "bb_step ?R (new_bounded_queue [], (\<lambda>_. 0), [], []) (?q [] {1}, ?v, [], [])"
    using bb_call_put [of 1 "new_bounded_queue []" ?R "\<lambda>_. 0" "[]" "[]" 5] by (simp add: new_bounded_queue_def waiters_defs)
  moreover have "bb_step ?R (?q [] {1}, ?v, [], []) (?q [5] {}, ?v, [5], [])"
    using bb_pass_put [of 1 "?q [] {1}" "{}" ?R ?v True "?q [5] {}" "[]" "[]"]
    by (simp add: bb_put_def list_ring_def waiters_defs signal_ok_def)
  ultimately have run: "(bb_step ?R)\<^sup>*\<^sup>* (new_bounded_queue [], (\<lambda>_. 0), [], []) (?q [5] {}, ?v, [5], [])"
    by (meson converse_rtranclp_into_rtranclp rtranclp.rtrancl_refl)
  from bounded_queue_contract [OF laws _ run] run show ?thesis by (intro exI [of _ "?q [5] {}"] exI [of _ ?v]) simp
qed

section \<open>CountDownLatch\<close>

record latch =
  la_count :: int
  la_condition :: waiters

definition new_latch :: "int \<Rightarrow> latch" where
  "new_latch count = \<lparr>la_count = count, la_condition = no_waiters\<rparr>"

text \<open>One pass of \<open>wait\<close>: whether it returned.\<close>

definition latch_wait :: "nat \<Rightarrow> latch \<Rightarrow> bool \<times> latch" where
  "latch_wait t l =
     (if la_count l > 0 then (False, l\<lparr>la_condition := cond_wait t (la_condition l)\<rparr>)
      else (True, l\<lparr>la_condition := leave t (la_condition l)\<rparr>))"

definition countDown :: "latch \<Rightarrow> latch" where
  "countDown l =
     (let l1 = l\<lparr>la_count := la_count l - 1\<rparr>
      in if la_count l1 = 0 then l1\<lparr>la_condition := notifyAll (la_condition l1)\<rparr> else l1)"

definition getCount :: "latch \<Rightarrow> int" where
  "getCount l = la_count l"

text \<open>The history: how often \<open>countDown\<close> was called, and which threads came back from \<open>wait\<close>.\<close>

inductive latch_step :: "latch \<times> nat \<times> nat set \<Rightarrow> latch \<times> nat \<times> nat set \<Rightarrow> bool" where
  latch_call_wait: "t \<notin> inside (la_condition l) \<Longrightarrow>
    latch_step (l, n, R) (l\<lparr>la_condition := enter t (la_condition l)\<rparr>, n, R)"
| latch_pass_wait: "t \<in> awake (la_condition l) \<Longrightarrow> latch_wait t l = (r, l') \<Longrightarrow>
    latch_step (l, n, R) (l', n, if r then insert t R else R)"
| latch_count: "latch_step (l, n, R) (countDown l, Suc n, R)"
| latch_spurious: "t \<in> asleep (la_condition l) \<Longrightarrow>
    latch_step (l, n, R) (l\<lparr>la_condition := notify {t} (la_condition l)\<rparr>, n, R)"

inductive_cases latch_stepE: "latch_step s s'"

definition latch_ok :: "int \<Rightarrow> latch \<times> nat \<times> nat set \<Rightarrow> bool" where
  "latch_ok count s = (case s of (l, n, R) \<Rightarrow> la_count l = count - int n
      \<and> (asleep (la_condition l) \<noteq> {} \<longrightarrow> 0 < la_count l) \<and> (R \<noteq> {} \<longrightarrow> la_count l \<le> 0))"

lemma latch_ok_step: "latch_step s s' \<Longrightarrow> latch_ok c s \<Longrightarrow> latch_ok c s'"
  by (erule latch_stepE) (auto simp: latch_ok_def latch_wait_def countDown_def waiters_defs Let_def split: if_splits)

text \<open>
  Nobody passes a latch before it was counted down as often as it was set up for, and after that nobody
  stays: no thread sleeps, and the next pass of every thread inside \<open>wait\<close> returns.
\<close>

lemma latch_contract:
  assumes "latch_step\<^sup>*\<^sup>* (new_latch count, 0, {}) (l, downs, returned)"
  shows "getCount l = count - int downs \<and> (returned \<noteq> {} \<longrightarrow> count \<le> int downs)
    \<and> (count \<le> int downs \<longrightarrow> asleep (la_condition l) = {} \<and> (\<forall>t. fst (latch_wait t l)))"
proof -
  have "latch_ok count (l, downs, returned)"
    by (rule invariant_steps [OF assms, of "latch_ok count", OF _ latch_ok_step]) (simp_all add: latch_ok_def new_latch_def no_waiters_def)
  then show ?thesis by (auto simp: latch_ok_def latch_wait_def getCount_def)
qed

lemma latch_contract_witness:
  "\<exists>l. latch_step\<^sup>*\<^sup>* (new_latch 1, 0, {}) (l, 1, {}) \<and> asleep (la_condition l) = {} \<and> fst (latch_wait 7 l)"
proof -
  have run: "latch_step\<^sup>*\<^sup>* (new_latch 1, 0, {}) (countDown (new_latch 1), 1, {})"
    using latch_count [of "new_latch 1" 0 "{}"] by (simp add: r_into_rtranclp)
  from latch_contract [OF run] run show ?thesis by auto
qed

end
