(* ===== verification/ThreadPool.thy ===== *)
theory ThreadPool
  imports Monitors
begin

text \<open>
  \<open>base/ThreadPool.cc\<close>, with the part of \<open>base/Thread.cc\<close> that its calls depend on. Worker threads and
  callers of \<open>run\<close> interleave: a call is a sequence of passes under the mutex, as in theory \<open>Monitors\<close>;
  \<open>runInThread\<close> is a worker that checks \<open>running_\<close>, takes, runs the task and starts again. Tasks are values of
  a type \<open>'a\<close> and are assumed to return; \<^term>\<open>None\<close> is the empty \<open>Task\<close>.
\<close>

section \<open>Thread objects\<close>

record thread_object =
  th_name :: string
  th_started :: bool
  th_joined :: bool

definition new_thread :: "string \<Rightarrow> thread_object" where
  "new_thread name = \<lparr>th_name = name, th_started = False, th_joined = False\<rparr>"

definition thread_start :: "thread_object \<Rightarrow> thread_object checked" where
  "thread_start t = (if th_started t then None else Some (t\<lparr>th_started := True\<rparr>))"

definition thread_join :: "thread_object \<Rightarrow> thread_object checked" where
  "thread_join t = (if \<not> th_started t \<or> th_joined t then None else Some (t\<lparr>th_joined := True\<rparr>))"

section \<open>The pool\<close>

record 'a thread_pool =
  tp_name :: string
  tp_notEmpty :: waiters
  tp_notFull :: waiters
  tp_running :: bool
  tp_maxQueueSize :: nat
  tp_threadSize :: int
  tp_queue :: "'a list"
  tp_threads :: "thread_object list"

definition new_thread_pool :: "string \<Rightarrow> 'a thread_pool" where
  "new_thread_pool name = \<lparr>tp_name = name, tp_notEmpty = no_waiters, tp_notFull = no_waiters, tp_running = False,
     tp_maxQueueSize = 0, tp_threadSize = 0, tp_queue = [], tp_threads = []\<rparr>"

definition setMaxQueueSize :: "nat \<Rightarrow> 'a thread_pool \<Rightarrow> 'a thread_pool" where
  "setMaxQueueSize n p = p\<lparr>tp_maxQueueSize := n\<rparr>"

definition isFull :: "'a thread_pool \<Rightarrow> bool" where
  "isFull p \<longleftrightarrow> tp_maxQueueSize p > 0 \<and> length (tp_queue p) \<ge> tp_maxQueueSize p"

definition queueSize :: "'a thread_pool \<Rightarrow> nat" where
  "queueSize p = length (tp_queue p)"

text \<open>
  \<open>start\<close> appends a thread and starts the one at index \<open>i\<close>, which is the new one only when \<open>threads_\<close> was
  empty. \<open>reserve\<close> of a negative number throws.
\<close>

datatype start_error = Assertion_failed | Length_error

fun spawn :: "nat list \<Rightarrow> string \<Rightarrow> thread_object list \<Rightarrow> thread_object list checked" where
  "spawn [] name ts = Some ts"
| "spawn (i # is) name ts = do {
     let ts1 = ts @ [new_thread (name @ show_nat (i + 1))];
     t \<leftarrow> thread_start (ts1 ! i);
     spawn is name (ts1[i := t]) }"

definition tp_start :: "int \<Rightarrow> 'a thread_pool \<Rightarrow> start_error + 'a thread_pool" where
  "tp_start numThreads p =
     (if tp_running p then Inl Assertion_failed
      else if numThreads < 0 then Inl Length_error
      else case spawn [0..<nat numThreads] (tp_name p) (tp_threads p) of
        None \<Rightarrow> Inl Assertion_failed
      | Some ts \<Rightarrow>
          (let p1 = p\<lparr>tp_running := True, tp_threadSize := numThreads, tp_threads := ts\<rparr>
           in if numThreads = 0 \<and> ts \<noteq> []
              then (case thread_start (ts ! 0) of
                      None \<Rightarrow> Inl Assertion_failed
                    | Some t \<Rightarrow> Inr (p1\<lparr>tp_threads := ts[0 := t]\<rparr>))
              else Inr p1))"

text \<open>\<open>stop\<close> is two parts: the flag and the wake-ups under the mutex, then the joins once the workers are finished.\<close>

definition tp_stop :: "'a thread_pool \<Rightarrow> 'a thread_pool" where
  "tp_stop p = p\<lparr>tp_notEmpty := notifyAll (tp_notEmpty p), tp_notFull := notifyAll (tp_notFull p), tp_running := False\<rparr>"

definition join_all :: "'a thread_pool \<Rightarrow> 'a thread_pool checked" where
  "join_all p = map_option (\<lambda>ts. p\<lparr>tp_threads := ts\<rparr>) (those (map thread_join (tp_threads p)))"

datatype run_result = Ran_here | Waits | Dropped | Queued

text \<open>One pass of \<open>run\<close> by thread \<open>t\<close>; a failing assertion is \<^term>\<open>None\<close>.\<close>

definition tp_run :: "nat set \<Rightarrow> nat \<Rightarrow> 'a \<Rightarrow> 'a thread_pool \<Rightarrow> (run_result \<times> 'a thread_pool) checked" where
  "tp_run T t task p =
     (if tp_threads p = [] then Some (Ran_here, p\<lparr>tp_notFull := leave t (tp_notFull p)\<rparr>)
      else if isFull p \<and> tp_running p then Some (Waits, p\<lparr>tp_notFull := cond_wait t (tp_notFull p)\<rparr>)
      else if \<not> tp_running p then Some (Dropped, p\<lparr>tp_notFull := leave t (tp_notFull p)\<rparr>)
      else if isFull p then None
      else Some (Queued, p\<lparr>tp_notEmpty := notify T (tp_notEmpty p), tp_notFull := leave t (tp_notFull p),
                           tp_queue := tp_queue p @ [task]\<rparr>))"

text \<open>One pass of \<open>take\<close>: \<^term>\<open>None\<close> is another wait, \<^term>\<open>Some None\<close> the empty task.\<close>

definition tp_take :: "nat set \<Rightarrow> nat \<Rightarrow> 'a thread_pool \<Rightarrow> 'a option option \<times> 'a thread_pool" where
  "tp_take T t p =
     (if tp_queue p = [] \<and> tp_running p then (None, p\<lparr>tp_notEmpty := cond_wait t (tp_notEmpty p)\<rparr>)
      else case tp_queue p of
        [] \<Rightarrow> (Some None, p\<lparr>tp_notEmpty := leave t (tp_notEmpty p)\<rparr>)
      | front # queue \<Rightarrow>
          (Some (Some front),
           p\<lparr>tp_notEmpty := leave t (tp_notEmpty p),
             tp_notFull := (if tp_maxQueueSize p > 0 then notify T (tp_notFull p) else tp_notFull p),
             tp_queue := queue\<rparr>))"

section \<open>Workers and callers\<close>

datatype 'a worker = Checking_flag | Taking | Running 'a | Finished

record 'a pool_world =
  pw_pool :: "'a thread_pool"
  pw_worker :: "nat \<Rightarrow> 'a worker"
  pw_task :: "nat \<Rightarrow> 'a"
  pw_accepted :: "'a list"
  pw_taken :: "'a list"

text \<open>\<open>runInThread\<close>: a worker's steps, among the workers below \<open>n\<close>.\<close>

definition check_flag :: "nat \<Rightarrow> 'a pool_world \<Rightarrow> 'a pool_world" where
  "check_flag t w =
     (if tp_running (pw_pool w)
      then w\<lparr>pw_pool := (pw_pool w)\<lparr>tp_notEmpty := enter t (tp_notEmpty (pw_pool w))\<rparr>, pw_worker := (pw_worker w)(t := Taking)\<rparr>
      else w\<lparr>pw_worker := (pw_worker w)(t := Finished)\<rparr>)"

definition pass_take :: "nat set \<Rightarrow> nat \<Rightarrow> 'a pool_world \<Rightarrow> 'a pool_world" where
  "pass_take T t w =
     (case tp_take T t (pw_pool w) of
        (None, p) \<Rightarrow> w\<lparr>pw_pool := p\<rparr>
      | (Some None, p) \<Rightarrow> w\<lparr>pw_pool := p, pw_worker := (pw_worker w)(t := Checking_flag)\<rparr>
      | (Some (Some x), p) \<Rightarrow> w\<lparr>pw_pool := p, pw_worker := (pw_worker w)(t := Running x), pw_taken := pw_taken w @ [x]\<rparr>)"

inductive worker_step :: "nat \<Rightarrow> 'a pool_world \<Rightarrow> 'a pool_world \<Rightarrow> bool" for n :: nat where
  worker_check: "t < n \<Longrightarrow> pw_worker w t = Checking_flag \<Longrightarrow> worker_step n w (check_flag t w)"
| worker_take: "t < n \<Longrightarrow> t \<in> awake (tp_notEmpty (pw_pool w)) \<Longrightarrow> signal_ok T (tp_notFull (pw_pool w)) \<Longrightarrow>
    worker_step n w (pass_take T t w)"
| worker_done: "t < n \<Longrightarrow> pw_worker w t = Running x \<Longrightarrow>
    worker_step n w (w\<lparr>pw_worker := (pw_worker w)(t := Checking_flag)\<rparr>)"

inductive caller_step :: "'a pool_world \<Rightarrow> 'a pool_world \<Rightarrow> bool" where
  call_run: "t \<notin> inside (tp_notFull (pw_pool w)) \<Longrightarrow>
    caller_step w (w\<lparr>pw_pool := (pw_pool w)\<lparr>tp_notFull := enter t (tp_notFull (pw_pool w))\<rparr>, pw_task := (pw_task w)(t := x)\<rparr>)"
| pass_run: "t \<in> awake (tp_notFull (pw_pool w)) \<Longrightarrow> signal_ok T (tp_notEmpty (pw_pool w)) \<Longrightarrow>
    tp_run T t (pw_task w t) (pw_pool w) = Some (r, p) \<Longrightarrow>
    caller_step w (w\<lparr>pw_pool := p, pw_accepted := pw_accepted w @ (if r = Queued then [pw_task w t] else [])\<rparr>)"
| call_stop: "caller_step w (w\<lparr>pw_pool := tp_stop (pw_pool w)\<rparr>)"
| wake_taker: "t \<in> asleep (tp_notEmpty (pw_pool w)) \<Longrightarrow>
    caller_step w (w\<lparr>pw_pool := (pw_pool w)\<lparr>tp_notEmpty := notify {t} (tp_notEmpty (pw_pool w))\<rparr>\<rparr>)"
| wake_caller: "t \<in> asleep (tp_notFull (pw_pool w)) \<Longrightarrow>
    caller_step w (w\<lparr>pw_pool := (pw_pool w)\<lparr>tp_notFull := notify {t} (tp_notFull (pw_pool w))\<rparr>\<rparr>)"

inductive_cases worker_stepE: "worker_step n w w'"
inductive_cases caller_stepE: "caller_step w w'"

definition pool_step :: "nat \<Rightarrow> 'a pool_world \<Rightarrow> 'a pool_world \<Rightarrow> bool" where
  "pool_step n w w' \<longleftrightarrow> worker_step n w w' \<or> caller_step w w'"

text \<open>A started pool: its workers are about to check the flag for the first time.\<close>

definition pool_world_of :: "'a thread_pool \<Rightarrow> (nat \<Rightarrow> 'a) \<Rightarrow> 'a pool_world" where
  "pool_world_of p v = \<lparr>pw_pool = p, pw_worker = (\<lambda>_. Checking_flag), pw_task = v, pw_accepted = [], pw_taken = []\<rparr>"

section \<open>The invariant\<close>

definition pool_waits :: "'a thread_pool \<Rightarrow> bool" where
  "pool_waits p \<longleftrightarrow> (0 < tp_maxQueueSize p \<longrightarrow> length (tp_queue p) \<le> tp_maxQueueSize p)
     \<and> covers (if tp_running p then length (tp_queue p) else 0) (tp_notEmpty p)
     \<and> covers (if tp_running p then tp_maxQueueSize p - length (tp_queue p) else 0) (tp_notFull p)
     \<and> (\<not> tp_running p \<longrightarrow> asleep (tp_notEmpty p) = {})
     \<and> (\<not> tp_running p \<or> tp_maxQueueSize p = 0 \<longrightarrow> asleep (tp_notFull p) = {})"

lemma covers_any: "covers n w \<Longrightarrow> asleep w = {} \<Longrightarrow> covers m w"
  by (simp add: covers_def)

lemma inside_simps [simp]:
  "t \<in> awake w \<Longrightarrow> inside (cond_wait t w) = inside w"
  "T \<subseteq> asleep w \<Longrightarrow> inside (notify T w) = inside w"
  "inside (notifyAll w) = inside w"
  "inside (enter t w) = insert t (inside w)"
  by (auto simp: waiters_defs)

lemma inside_leave: "covers n w \<Longrightarrow> t \<in> awake w \<Longrightarrow> inside (leave t w) = inside w - {t}"
  by (auto simp: covers_def waiters_defs)

lemma asleep_simps [simp]:
  "asleep (leave t w) = asleep w" "asleep (enter t w) = asleep w" "asleep (notifyAll w) = {}"
  "asleep (notify T w) = asleep w - T"
  by (simp_all add: waiters_defs)

lemma covers_leave_any: "covers 0 w \<Longrightarrow> asleep w = {} \<Longrightarrow> covers n (leave t w)"
  by (auto simp: covers_def waiters_defs)

text \<open>What one pass of \<open>take\<close> does, and that it keeps the invariant.\<close>

lemma tp_take_ok:
  assumes "pool_waits p" and "t \<in> awake (tp_notEmpty p)" and "signal_ok T (tp_notFull p)" and "tp_take T t p = (r, p')"
  shows "pool_waits p' \<and> tp_running p' = tp_running p \<and> tp_maxQueueSize p' = tp_maxQueueSize p \<and> tp_threads p' = tp_threads p
    \<and> (case r of None \<Rightarrow> tp_running p \<and> tp_queue p = [] \<and> tp_queue p' = [] \<and> inside (tp_notEmpty p') = inside (tp_notEmpty p)
       | Some None \<Rightarrow> tp_queue p = [] \<and> tp_queue p' = [] \<and> inside (tp_notEmpty p') = inside (tp_notEmpty p) - {t}
       | Some (Some x) \<Rightarrow> tp_queue p = x # tp_queue p' \<and> inside (tp_notEmpty p') = inside (tp_notEmpty p) - {t})"
proof (cases "tp_queue p")
  case Nil
  with assms show ?thesis
    by (auto simp: tp_take_def pool_waits_def covers_wait inside_leave covers_leave_any split: if_splits)
next
  case (Cons x xs)
  have nf: "covers (if tp_running p then tp_maxQueueSize p - length xs else 0) (notify T (tp_notFull p))"
    if "0 < tp_maxQueueSize p"
  proof -
    have "covers (if tp_running p then tp_maxQueueSize p - Suc (length xs) else 0) (tp_notFull p)" "Suc (length xs) \<le> tp_maxQueueSize p"
      using assms(1) Cons that by (auto simp: pool_waits_def)
    with covers_signal [OF this(1) assms(3)] show ?thesis by (auto simp: Suc_diff_Suc Suc_le_eq intro: covers_less split: if_splits)
  qed
  have ne: "covers (if tp_running p then length xs else 0) (leave t (tp_notEmpty p))"
    using assms(1,2) Cons by (auto simp: pool_waits_def covers_leave covers_leave_any)
  have "covers 0 (tp_notFull p)" using assms(1) by (auto simp: pool_waits_def intro: covers_less)
  with assms Cons nf ne show ?thesis
    by (auto simp: tp_take_def pool_waits_def inside_leave split: if_splits)
qed

lemma tp_run_ok:
  assumes "pool_waits p" and "t \<in> awake (tp_notFull p)" and "signal_ok T (tp_notEmpty p)" and "tp_threads p \<noteq> []"
  shows "\<exists>r p'. tp_run T t x p = Some (r, p') \<and> pool_waits p' \<and> tp_running p' = tp_running p
    \<and> tp_maxQueueSize p' = tp_maxQueueSize p \<and> tp_threads p' = tp_threads p \<and> inside (tp_notEmpty p') = inside (tp_notEmpty p)
    \<and> tp_queue p' = tp_queue p @ (if r = Queued then [x] else []) \<and> (r = Queued \<longrightarrow> tp_running p)"
proof -
  have T: "T \<subseteq> asleep (tp_notEmpty p)" using assms(3) by (simp add: signal_ok_def)
  consider "\<not> tp_running p" | "tp_running p" "isFull p" | "tp_running p" "\<not> isFull p" by blast
  then show ?thesis
  proof cases
    case 1
    with assms show ?thesis by (auto simp: tp_run_def pool_waits_def covers_leave_any)
  next
    case 2
    with assms show ?thesis by (auto simp: tp_run_def pool_waits_def isFull_def covers_wait)
  next
    case 3
    have "covers (Suc (length (tp_queue p))) (notify T (tp_notEmpty p))"
      using assms 3 by (auto simp: pool_waits_def intro: covers_signal)
    moreover have "covers (tp_maxQueueSize p - Suc (length (tp_queue p))) (leave t (tp_notFull p))"
      using assms 3 by (cases "tp_maxQueueSize p = 0") (auto simp: pool_waits_def isFull_def Suc_diff_Suc intro: covers_leave covers_leave_any)
    ultimately show ?thesis using assms 3 T by (auto simp: tp_run_def pool_waits_def isFull_def)
  qed
qed

definition pool_ok :: "nat \<Rightarrow> 'a pool_world \<Rightarrow> bool" where
  "pool_ok n w \<longleftrightarrow> pool_waits (pw_pool w) \<and> tp_threads (pw_pool w) \<noteq> []
     \<and> pw_accepted w = pw_taken w @ tp_queue (pw_pool w)
     \<and> inside (tp_notEmpty (pw_pool w)) = {t. t < n \<and> pw_worker w t = Taking}"

lemma pool_waits_conds:
  assumes "pool_waits p"
  shows "t \<notin> inside (tp_notEmpty p) \<Longrightarrow> pool_waits (p\<lparr>tp_notEmpty := enter t (tp_notEmpty p)\<rparr>)"
    and "t \<notin> inside (tp_notFull p) \<Longrightarrow> pool_waits (p\<lparr>tp_notFull := enter t (tp_notFull p)\<rparr>)"
    and "t \<in> asleep (tp_notEmpty p) \<Longrightarrow> pool_waits (p\<lparr>tp_notEmpty := notify {t} (tp_notEmpty p)\<rparr>)"
    and "t \<in> asleep (tp_notFull p) \<Longrightarrow> pool_waits (p\<lparr>tp_notFull := notify {t} (tp_notFull p)\<rparr>)"
    and "pool_waits (tp_stop p)"
  using assms by (auto simp: pool_waits_def covers_enter covers_spurious tp_stop_def intro: covers_all)

lemma worker_step_ok:
  assumes "worker_step n w w'" and "pool_ok n w"
  shows "pool_ok n w'"
  using assms(1)
proof cases
  case (worker_check t)
  let ?p = "pw_pool w"
  have t: "t \<notin> inside (tp_notEmpty ?p)" using worker_check assms(2) by (simp add: pool_ok_def)
  have "insert t {t. t < n \<and> pw_worker w t = Taking} = {i. i < n \<and> ((pw_worker w)(t := Taking)) i = Taking}"
    "{t. t < n \<and> pw_worker w t = Taking} = {i. i < n \<and> ((pw_worker w)(t := Finished)) i = Taking}"
    using worker_check by auto
  with assms(2) pool_waits_conds(1) [OF _ t] show ?thesis
    unfolding worker_check(1) by (cases "tp_running ?p") (simp_all add: pool_ok_def check_flag_def del: fun_upd_apply)
next
  case (worker_take t T)
  obtain r p' where r: "tp_take T t (pw_pool w) = (r, p')" by fastforce
  have t: "t \<in> inside (tp_notEmpty (pw_pool w))" using worker_take by (simp add: inside_def)
  have q: "pool_waits p'" "tp_threads p' = tp_threads (pw_pool w)"
    "case r of None \<Rightarrow> tp_queue p' = tp_queue (pw_pool w) \<and> inside (tp_notEmpty p') = inside (tp_notEmpty (pw_pool w))
       | Some None \<Rightarrow> tp_queue p' = tp_queue (pw_pool w) \<and> inside (tp_notEmpty p') = inside (tp_notEmpty (pw_pool w)) - {t}
       | Some (Some x) \<Rightarrow> tp_queue (pw_pool w) = x # tp_queue p' \<and> inside (tp_notEmpty p') = inside (tp_notEmpty (pw_pool w)) - {t}"
    using tp_take_ok [OF _ worker_take(3,4) r] assms(2) by (simp_all add: pool_ok_def split: option.splits)
  consider "r = None" | "r = Some None" | x where "r = Some (Some x)" by (cases r) auto
  moreover have "{t. t < n \<and> pw_worker w t = Taking} - {t} = {i. i < n \<and> ((pw_worker w)(t := y)) i = Taking}" if "y \<noteq> Taking" for y
    using that by auto
  ultimately show ?thesis unfolding worker_take(1)
    using q assms(2) by cases (simp_all add: pool_ok_def pass_take_def r del: fun_upd_apply)
next
  case (worker_done t x)
  then have "{t. t < n \<and> pw_worker w t = Taking} = {i. i < n \<and> ((pw_worker w)(t := Checking_flag)) i = Taking}" by auto
  with assms(2) show ?thesis unfolding worker_done(1) by (simp add: pool_ok_def del: fun_upd_apply)
qed

lemma caller_step_ok:
  assumes "caller_step w w'" and "pool_ok n w"
  shows "pool_ok n w'"
  using assms(1)
proof cases
  case (pass_run t T r p)
  from tp_run_ok [OF _ pass_run(2,3), of "pw_task w t"] pass_run(4) assms(2) show ?thesis
    unfolding pass_run(1) by (auto simp: pool_ok_def)
qed (use assms(2) in \<open>auto simp: pool_ok_def pool_waits_conds tp_stop_def [THEN arg_cong [of _ _ tp_threads]]
      tp_stop_def [THEN arg_cong [of _ _ tp_queue]] tp_stop_def [THEN arg_cong [of _ _ tp_notEmpty]]\<close>)

lemma pool_step_ok: "pool_step n w w' \<Longrightarrow> pool_ok n w \<Longrightarrow> pool_ok n w'"
  by (auto simp: pool_step_def worker_step_ok caller_step_ok)

section \<open>Starting\<close>

lemma spawn_fresh: "length ts = k \<Longrightarrow> \<exists>us. spawn [k..<k + n] name ts = Some (ts @ us) \<and> length us = n"
proof (induction n arbitrary: ts k)
  case (Suc n)
  let ?t = "(new_thread (name @ show_nat (k + 1)))\<lparr>th_started := True\<rparr>"
  from Suc(2) Suc.IH [of "ts @ [?t]" "Suc k"] obtain us where
    "spawn [Suc k..<Suc k + n] name (ts @ [?t]) = Some ((ts @ [?t]) @ us)" "length us = n" by auto
  moreover have "[k..<k + Suc n] = k # [Suc k..<Suc k + n]" by (simp add: upt_conv_Cons del: upt_Suc)
  ultimately show ?case using Suc(2) by (auto simp: thread_start_def new_thread_def simp del: upt_Suc)
qed simp

definition fresh_pool :: "string \<Rightarrow> nat \<Rightarrow> 'a thread_pool" where
  "fresh_pool name maxSize = setMaxQueueSize maxSize (new_thread_pool name)"

lemma tp_start_fresh:
  assumes "tp_start (int n) (fresh_pool name maxSize :: 'a thread_pool) = Inr p" and "0 < n"
  shows "pool_ok n (pool_world_of p v) \<and> tp_running p \<and> length (tp_threads p) = n \<and> tp_maxQueueSize p = maxSize"
  using assms spawn_fresh [of "[]" 0 n name]
  by (auto simp: tp_start_def fresh_pool_def setMaxQueueSize_def new_thread_pool_def pool_ok_def pool_world_of_def pool_waits_def
      covers_new Let_def inside_def no_waiters_def [THEN arg_cong [of _ _ asleep]] no_waiters_def [THEN arg_cong [of _ _ awake]])

text \<open>
  C22: A pool started with at least one thread takes its tasks in the order in which \<open>run\<close> queued them, each
  once, never queues more than the bound, and never fails the assertion of \<open>run\<close>. While it runs no
  wake-up is lost: with a task queued and a worker inside \<open>take\<close> some awake worker's next pass gets
  the first task, and with room in the queue and a caller inside \<open>run\<close> some awake caller's next pass queues its task.
\<close>

theorem thread_pool_contract:
  fixes w :: "'a pool_world"
  assumes "0 < n" and "tp_start (int n) (fresh_pool name maxSize) = Inr p" and "(pool_step n)\<^sup>*\<^sup>* (pool_world_of p v) w"
  defines "q \<equiv> pw_pool w"
  shows "pw_accepted w = pw_taken w @ tp_queue q \<and> (0 < tp_maxQueueSize q \<longrightarrow> queueSize q \<le> tp_maxQueueSize q)
    \<and> (\<forall>t \<in> awake (tp_notFull q). \<forall>T x. signal_ok T (tp_notEmpty q) \<longrightarrow> tp_run T t x q \<noteq> None)
    \<and> (tp_running q \<and> tp_queue q \<noteq> [] \<and> (\<exists>t < n. pw_worker w t = Taking) \<longrightarrow>
         (\<exists>t \<in> awake (tp_notEmpty q). \<forall>T. fst (tp_take T t q) = Some (Some (hd (tp_queue q)))))
    \<and> (tp_running q \<and> \<not> isFull q \<and> inside (tp_notFull q) \<noteq> {} \<longrightarrow>
         (\<exists>t \<in> awake (tp_notFull q). \<forall>T x. \<exists>p'. tp_run T t x q = Some (Queued, p')))"
proof -
  have "pool_ok n w"
    by (rule invariant_steps [OF assms(3), of "pool_ok n", OF _ pool_step_ok]) (use tp_start_fresh [OF assms(2,1)] in simp_all)
  then have ok: "pool_waits q" "tp_threads q \<noteq> []" "pw_accepted w = pw_taken w @ tp_queue q"
    and ins: "inside (tp_notEmpty q) = {t. t < n \<and> pw_worker w t = Taking}" by (auto simp: pool_ok_def q_def)
  have "\<exists>t \<in> awake (tp_notEmpty q). \<forall>T. fst (tp_take T t q) = Some (Some (hd (tp_queue q)))"
    if "tp_running q" "tp_queue q \<noteq> []" "\<exists>t < n. pw_worker w t = Taking"
  proof -
    from ok(1) that have "awake (tp_notEmpty q) \<noteq> {}"
      by (intro covers_awake [of "length (tp_queue q)"]) (auto simp: pool_waits_def ins)
    then show ?thesis using that by (auto simp: tp_take_def neq_Nil_conv)
  qed
  moreover have "\<exists>t \<in> awake (tp_notFull q). \<forall>T x. \<exists>p'. tp_run T t x q = Some (Queued, p')"
    if "tp_running q" "\<not> isFull q" "inside (tp_notFull q) \<noteq> {}"
  proof -
    from ok(1) that have "awake (tp_notFull q) \<noteq> {}"
      using covers_awake [of "tp_maxQueueSize q - length (tp_queue q)" "tp_notFull q"]
      by (cases "tp_maxQueueSize q = 0") (auto simp: pool_waits_def isFull_def inside_def)
    then show ?thesis using that ok(2) by (auto simp: tp_run_def)
  qed
  moreover have "tp_run T t x q \<noteq> None" if "t \<in> awake (tp_notFull q)" "signal_ok T (tp_notEmpty q)" for t T x
    using tp_run_ok [OF ok(1) that ok(2), of x] by auto
  ultimately show ?thesis using ok by (auto simp: pool_waits_def queueSize_def)
qed

lemma show_one: "show_nat 1 = ''1''" "show_nat (Suc 0) = ''1''"
  by code_simp+

lemma start_one: "tp_start 1 (fresh_pool ''p'' 2) = Inr \<lparr>tp_name = ''p'', tp_notEmpty = no_waiters, tp_notFull = no_waiters,
    tp_running = True, tp_maxQueueSize = 2, tp_threadSize = 1, tp_queue = [],
    tp_threads = [\<lparr>th_name = ''p1'', th_started = True, th_joined = False\<rparr>]\<rparr>"
  by (simp add: tp_start_def fresh_pool_def setMaxQueueSize_def new_thread_pool_def upt_rec [of 0] thread_start_def new_thread_def
      show_one Let_def)

theorem thread_pool_contract_witness:
  "\<exists>p (w :: nat pool_world). tp_start 1 (fresh_pool ''p'' 2) = Inr p \<and> (pool_step 1)\<^sup>*\<^sup>* (pool_world_of p (\<lambda>_. 0)) w
     \<and> pw_accepted w = [] \<and> pw_accepted w = pw_taken w @ tp_queue (pw_pool w)"
  using thread_pool_contract [of 1 "''p''" 2 _ "\<lambda>_. 0 :: nat" "pool_world_of _ (\<lambda>_. 0)"] start_one
  by (fastforce simp: pool_world_of_def)

section \<open>Stopping\<close>

fun worker_weight :: "'a worker \<Rightarrow> nat" where
  "worker_weight Taking = 3"
| "worker_weight (Running x) = 2"
| "worker_weight Checking_flag = 1"
| "worker_weight Finished = 0"

definition pool_weight :: "nat \<Rightarrow> 'a pool_world \<Rightarrow> nat" where
  "pool_weight n w = (\<Sum>t<n. worker_weight (pw_worker w t))"

definition takers :: "nat \<Rightarrow> 'a pool_world \<Rightarrow> nat set" where
  "takers n w = {t. t < n \<and> pw_worker w t = Taking}"

lemma pool_weight_less:
  assumes "t < n" and "worker_weight x < worker_weight (pw_worker w t)"
  shows "(\<Sum>i<n. worker_weight (((pw_worker w)(t := x)) i)) < pool_weight n w"
  unfolding pool_weight_def using assms by (intro sum_strict_mono_ex1) auto

lemma takers_upd: "pw_worker w' = (pw_worker w)(t := x) \<Longrightarrow> x \<noteq> Taking \<Longrightarrow> takers n w' = takers n w - {t}"
  by (auto simp: takers_def)

text \<open>Once the flag is down, a worker's step brings the workers nearer to their end.\<close>

lemma stopped_worker_step:
  assumes "worker_step n w w'" and "pool_ok n w" and "\<not> tp_running (pw_pool w)"
  shows "\<not> tp_running (pw_pool w') \<and> pool_weight n w' < pool_weight n w \<and> pw_accepted w' = pw_accepted w
    \<and> length (tp_queue (pw_pool w)) + card (takers n w') \<le> length (tp_queue (pw_pool w')) + card (takers n w)"
  using assms(1)
proof cases
  case (worker_check t)
  moreover have "takers n w' = takers n w" using worker_check assms(3) by (auto simp: takers_def check_flag_def)
  ultimately show ?thesis using assms(3) pool_weight_less [of t n Finished w] by (simp add: check_flag_def pool_weight_def)
next
  case (worker_take t T)
  obtain r p' where r: "tp_take T t (pw_pool w) = (r, p')" by fastforce
  have t: "t < n" "pw_worker w t = Taking" using worker_take assms(2) by (auto simp: pool_ok_def inside_def)
  then have "t \<in> takers n w" "finite (takers n w)" by (auto simp: takers_def)
  then have c: "card (takers n w - {t}) + 1 = card (takers n w)" by (simp add: card_gt_0_iff) (metis Suc_pred card_gt_0_iff empty_iff)
  from tp_take_ok [OF _ worker_take(3,4) r] assms(2) have p: "tp_running p' = tp_running (pw_pool w)"
    "case r of None \<Rightarrow> tp_running (pw_pool w) | Some None \<Rightarrow> tp_queue (pw_pool w) = [] | Some (Some x) \<Rightarrow> tp_queue (pw_pool w) = x # tp_queue p'"
    by (auto simp: pool_ok_def split: option.splits)
  have wt: "(\<Sum>i<n. worker_weight (((pw_worker w)(t := Checking_flag)) i)) < pool_weight n w"
    "(\<Sum>i<n. worker_weight (((pw_worker w)(t := Running x)) i)) < pool_weight n w" for x
    by (rule pool_weight_less; use t in simp)+
  consider "r = Some None" | x where "r = Some (Some x)" using p(2) assms(3) by (cases r) auto
  then show ?thesis unfolding worker_take(1)
    using p assms(3) c wt
    by cases (simp_all add: pass_take_def r pool_weight_def takers_upd [where w = w and t = t] del: fun_upd_apply)
next
  case (worker_done t x)
  moreover have "takers n w' = takers n w" using worker_done by (auto simp: takers_def)
  ultimately show ?thesis using assms(3) pool_weight_less [of t n Checking_flag w] by (simp add: pool_weight_def)
qed

lemma stopped_caller_step:
  assumes "caller_step w w'" and "pool_ok n w" and "\<not> tp_running (pw_pool w)"
  shows "\<not> tp_running (pw_pool w') \<and> pw_worker w' = pw_worker w \<and> pw_accepted w' = pw_accepted w
    \<and> tp_queue (pw_pool w') = tp_queue (pw_pool w)"
  using assms(1)
proof cases
  case (pass_run t T r p)
  from tp_run_ok [OF _ pass_run(2,3), of "pw_task w t"] pass_run(4) assms(2,3) show ?thesis
    unfolding pass_run(1) by (auto simp: pool_ok_def)
qed (use assms(3) in \<open>simp_all add: tp_stop_def\<close>)

definition stopped_ok :: "nat \<Rightarrow> 'a pool_world \<Rightarrow> 'a pool_world \<Rightarrow> bool" where
  "stopped_ok n w w' \<longleftrightarrow> pool_ok n w' \<and> \<not> tp_running (pw_pool w') \<and> pw_accepted w' = pw_accepted w
     \<and> length (tp_queue (pw_pool w)) + card (takers n w') \<le> length (tp_queue (pw_pool w')) + card (takers n w)"

lemma stopped_ok_step: "pool_step n u v \<Longrightarrow> stopped_ok n w u \<Longrightarrow> stopped_ok n w v"
  using stopped_worker_step [of n u v] stopped_caller_step [of u v n] pool_step_ok [of n u v]
  by (auto simp: stopped_ok_def pool_step_def takers_def)

lemma worker_can_step:
  assumes "pool_ok n w" and "\<not> tp_running (pw_pool w)" and "t < n" and "pw_worker w t \<noteq> Finished"
  shows "\<exists>w'. worker_step n w w'"
proof (cases "pw_worker w t")
  case Taking
  then have "t \<in> awake (tp_notEmpty (pw_pool w))" using assms by (auto simp: pool_ok_def pool_waits_def inside_def)
  moreover have "signal_ok {} (tp_notFull (pw_pool w))" using assms by (simp add: pool_ok_def pool_waits_def signal_ok_def)
  ultimately show ?thesis using assms(3) worker_take by blast
qed (use assms in \<open>auto intro: worker_check worker_done\<close>)

lemma worker_steps_weight:
  assumes "(worker_step n ^^ k) w w'" and "pool_ok n w" and "\<not> tp_running (pw_pool w)"
  shows "pool_ok n w' \<and> \<not> tp_running (pw_pool w') \<and> k + pool_weight n w' \<le> pool_weight n w"
  using assms(1)
proof (induction k arbitrary: w')
  case (Suc k)
  then obtain u where u: "(worker_step n ^^ k) w u" "worker_step n u w'" by auto
  with Suc.IH stopped_worker_step [OF u(2)] worker_step_ok [OF u(2)] show ?case by fastforce
qed (use assms in simp)

lemma pool_weight_bound: "pool_weight n w \<le> 3 * n"
proof -
  have "worker_weight x \<le> 3" for x :: "'a worker" by (cases x) auto
  then have "pool_weight n w \<le> (\<Sum>t<n. 3)" unfolding pool_weight_def by (intro sum_mono)
  then show ?thesis by simp
qed

text \<open>
  C33: \<open>stop\<close> ends, but not gracefully. Once the flag is down the workers make at most three more steps each, and
  when none of them can make one they are all finished, so the joins return. But a worker takes at most
  one more task after \<open>stop\<close>: of the tasks queued then, all but as many as there were workers inside
  \<open>take\<close> are still queued at the end and never run, and no task is accepted any more.
\<close>

theorem thread_pool_stop:
  fixes w :: "'a pool_world"
  assumes "0 < n" and "tp_start (int n) (fresh_pool name maxSize) = Inr p" and "(pool_step n)\<^sup>*\<^sup>* (pool_world_of p v) w"
    and "\<not> tp_running (pw_pool w)"
  shows "((worker_step n ^^ k) w w' \<longrightarrow>
      k \<le> 3 * n \<and> ((\<nexists>u. worker_step n w' u) \<longrightarrow> (\<forall>t<n. pw_worker w' t = Finished)))
    \<and> ((pool_step n)\<^sup>*\<^sup>* w u \<longrightarrow> pw_accepted u = pw_accepted w
      \<and> queueSize (pw_pool w) - card (takers n w) \<le> queueSize (pw_pool u))"
proof -
  have ok: "pool_ok n w"
    by (rule invariant_steps [OF assms(3), of "pool_ok n", OF _ pool_step_ok]) (use tp_start_fresh [OF assms(2,1)] in simp_all)
  have "k \<le> 3 * n \<and> ((\<nexists>u. worker_step n w' u) \<longrightarrow> (\<forall>t<n. pw_worker w' t = Finished))" if "(worker_step n ^^ k) w w'"
    using worker_steps_weight [OF that ok assms(4)] pool_weight_bound [of n w] worker_can_step [of n w'] by force
  moreover have "stopped_ok n w u" if "(pool_step n)\<^sup>*\<^sup>* w u"
    by (rule invariant_steps [OF that, of "stopped_ok n w", OF _ stopped_ok_step]) (use ok assms(4) in \<open>simp_all add: stopped_ok_def\<close>)
  ultimately show ?thesis by (auto simp: stopped_ok_def queueSize_def)
qed

text \<open>A task is queued, the pool is stopped before its worker looked at the flag, and the task is never run.\<close>

theorem thread_pool_stop_witness:
  "\<exists>p (w :: nat pool_world) u. tp_start 1 (fresh_pool ''p'' 2) = Inr p \<and> (pool_step 1)\<^sup>*\<^sup>* (pool_world_of p (\<lambda>_. 0)) w
     \<and> (pool_step 1)\<^sup>*\<^sup>* w u \<and> pw_accepted w = [7] \<and> pw_worker u 0 = Finished \<and> 1 \<le> queueSize (pw_pool u)"
proof -
  obtain p :: "nat thread_pool" where p: "tp_start 1 (fresh_pool ''p'' 2) = Inr p" "tp_notEmpty p = no_waiters" "tp_notFull p = no_waiters"
      "tp_running p" "tp_maxQueueSize p = 2" "tp_queue p = []" "tp_threads p \<noteq> []"
    by (rule that [OF start_one]) simp_all
  let ?w = "\<lambda>q a f. \<lparr>pw_pool = q, pw_worker = (\<lambda>_. Checking_flag)(0 := f), pw_task = (\<lambda>_. 0)(1 := 7), pw_accepted = a, pw_taken = []\<rparr>"
  let ?p1 = "p\<lparr>tp_notFull := \<lparr>asleep = {}, awake = {1}\<rparr>\<rparr>" and ?p2 = "p\<lparr>tp_queue := [7]\<rparr>"
  let ?s = "?w (tp_stop ?p2) [7] Checking_flag"
  have "pool_step 1 (pool_world_of p (\<lambda>_. 0)) (?w ?p1 [] Checking_flag)"
    using call_run [of 1 "pool_world_of p (\<lambda>_. 0)" 7] by (simp add: pool_step_def pool_world_of_def p waiters_defs fun_upd_idem)
  moreover have "tp_run {} 1 7 ?p1 = Some (Queued, ?p2)"
    by (cases p) (use p in \<open>simp add: tp_run_def isFull_def waiters_defs\<close>)
  then have "pool_step 1 (?w ?p1 [] Checking_flag) (?w ?p2 [7] Checking_flag)"
    using pass_run [of 1 "?w ?p1 [] Checking_flag" "{}" Queued ?p2] by (simp add: pool_step_def p waiters_defs signal_ok_def)
  moreover have "pool_step 1 (?w ?p2 [7] Checking_flag) (?w (tp_stop ?p2) [7] Checking_flag)"
    using call_stop [of "?w ?p2 [7] Checking_flag"] by (simp add: pool_step_def)
  ultimately have run: "(pool_step 1)\<^sup>*\<^sup>* (pool_world_of p (\<lambda>_. 0)) ?s"
    by (meson converse_rtranclp_into_rtranclp rtranclp.rtrancl_refl)
  have "worker_step 1 ?s (check_flag 0 ?s)" by (rule worker_check) simp_all
  then have u: "(pool_step 1)\<^sup>*\<^sup>* ?s (check_flag 0 ?s)" by (simp add: pool_step_def r_into_rtranclp)
  have "takers 1 ?s = {}" "queueSize (pw_pool ?s) = 1" "\<not> tp_running (pw_pool ?s)"
    by (auto simp: takers_def queueSize_def tp_stop_def)
  with thread_pool_stop [of 1 "''p''" 2 p "\<lambda>_. 0" ?s 0 ?s "check_flag 0 ?s"] p(1) run u
  have "1 \<le> queueSize (pw_pool (check_flag 0 ?s))" by simp
  moreover have "pw_worker (check_flag 0 ?s) 0 = Finished" by (simp add: check_flag_def tp_stop_def)
  ultimately show ?thesis using p(1) run u by (intro exI [of _ p] exI [of _ ?s] exI [of _ "check_flag 0 ?s"]) simp
qed

text \<open>A pool cannot be started twice: \<open>threads_\<close> keeps the joined threads, and \<open>start\<close> starts the first of them again.\<close>

lemma thread_pool_restart_aborts:
  assumes "tp_threads p = t # ts" and "th_started t" and "0 < m"
  shows "tp_start (int m) (tp_stop p) = Inl Assertion_failed"
proof -
  have "[0..<m] = 0 # [1..<m]" using assms(3) by (simp add: upt_rec)
  with assms show ?thesis by (simp add: tp_start_def tp_stop_def thread_start_def)
qed

end
