(* ===== verification/LogStream.thy ===== *)
theory LogStream
  imports Prelude "HOL-Library.Signed_Division" "HOL-Library.Sublist"
begin

text \<open>
  \<open>base/LogStream.h\<close> and \<open>base/LogStream.cc\<close>: the conversion of integers to text, fixed buffers and the stream of
  one log line. A \<open>FixedBuffer\<close> is its size and the bytes before \<open>cur_\<close>; what \<open>snprintf\<close> prints for a floating
  point number is given with the item.
\<close>

section \<open>Integers\<close>

text \<open>\<open>zero\<close> points into the middle of \<open>digits\<close>, so that negative remainders index it too.\<close>

definition digits :: string where
  "digits = ''9876543210123456789''"

definition zero_at :: "int \<Rightarrow> char" where
  "zero_at lsd = digits ! nat (9 + lsd)"

definition digitsHex :: string where
  "digitsHex = ''0123456789ABCDEF''"

lemma abs_sdiv: "\<bar>i sdiv 10\<bar> = \<bar>i\<bar> div (10 :: int)"
  by (simp add: signed_divide_int_def abs_mult sgn_if)

text \<open>The characters before the final \<open>reverse\<close>.\<close>

function convert_loop :: "int \<Rightarrow> string" where
  "convert_loop i =
     (let lsd = i smod 10; i' = i sdiv 10
      in zero_at lsd # (if i' \<noteq> 0 then convert_loop i' else []))"
  by pat_completeness auto
termination
proof (relation "measure (\<lambda>i. nat \<bar>i\<bar>)")
  fix i i' :: int
  assume i: "i' = i sdiv 10" "i' \<noteq> 0"
  from i(1) have "\<bar>i'\<bar> = \<bar>i\<bar> div 10" by (simp only: abs_sdiv)
  moreover from i(2) have "0 < \<bar>i'\<bar>" by (simp only: zero_less_abs_iff) simp
  ultimately have "\<bar>i'\<bar> < \<bar>i\<bar>" by linarith
  then show "(i', i) \<in> measure (\<lambda>i. nat \<bar>i\<bar>)" by simp
qed simp

declare convert_loop.simps [simp del]

definition convert :: "int \<Rightarrow> string" where
  "convert v = rev (convert_loop v @ (if v < 0 then [CHR 0x2D] else []))"

fun convertHex_loop :: "nat \<Rightarrow> string" where
  "convertHex_loop i =
     (let lsd = i mod 16; i' = i div 16
      in digitsHex ! lsd # (if i' \<noteq> 0 then convertHex_loop i' else []))"

declare convertHex_loop.simps [simp del]

definition convertHex :: "nat \<Rightarrow> string" where
  "convertHex v = rev (convertHex_loop v)"

section \<open>Fixed buffers and the stream\<close>

record fixed_buffer =
  fb_size :: nat
  fb_data :: string

definition new_fixed_buffer :: "nat \<Rightarrow> fixed_buffer" where
  "new_fixed_buffer n = \<lparr>fb_size = n, fb_data = []\<rparr>"

definition fb_length :: "fixed_buffer \<Rightarrow> nat" where
  "fb_length b = length (fb_data b)"

definition avail :: "fixed_buffer \<Rightarrow> int" where
  "avail b = int (fb_size b) - int (fb_length b)"

definition fb_append :: "string \<Rightarrow> fixed_buffer \<Rightarrow> fixed_buffer" where
  "fb_append s b = (if avail b > int (length s) then b\<lparr>fb_data := fb_data b @ s\<rparr> else b)"

definition fb_reset :: "fixed_buffer \<Rightarrow> fixed_buffer" where
  "fb_reset b = b\<lparr>fb_data := []\<rparr>"

definition kSmallBuffer :: nat where
  "kSmallBuffer = 4000"

definition kLargeBuffer :: nat where
  "kLargeBuffer = 4000 * 1000"

definition kMaxNumericSize :: int where
  "kMaxNumericSize = 48"

definition formatInteger :: "int \<Rightarrow> fixed_buffer \<Rightarrow> fixed_buffer" where
  "formatInteger v b = (if avail b \<ge> kMaxNumericSize then b\<lparr>fb_data := fb_data b @ convert v\<rparr> else b)"

text \<open>The arguments of \<open>operator<<\<close>; a null pointer to characters is \<^term>\<open>None\<close>.\<close>

datatype log_item = LBool bool | LInteger int | LPointer nat | LDouble string | LChar char
  | LCString "string option" | LString string

definition format_pointer :: "nat \<Rightarrow> fixed_buffer \<Rightarrow> fixed_buffer" where
  "format_pointer v b = (if avail b \<ge> kMaxNumericSize then b\<lparr>fb_data := fb_data b @ ''0x'' @ convertHex v\<rparr> else b)"

definition format_double :: "string \<Rightarrow> fixed_buffer \<Rightarrow> fixed_buffer" where
  "format_double s b = (if avail b \<ge> kMaxNumericSize then b\<lparr>fb_data := fb_data b @ s\<rparr> else b)"

fun stream_put :: "log_item \<Rightarrow> fixed_buffer \<Rightarrow> fixed_buffer" where
  "stream_put (LBool v) b = fb_append (if v then ''1'' else ''0'') b"
| "stream_put (LInteger v) b = formatInteger v b"
| "stream_put (LPointer p) b = format_pointer p b"
| "stream_put (LDouble s) b = format_double s b"
| "stream_put (LChar c) b = fb_append [c] b"
| "stream_put (LCString str) b = (case str of Some s \<Rightarrow> fb_append s b | None \<Rightarrow> fb_append ''(null)'' b)"
| "stream_put (LString s) b = fb_append s b"

section \<open>Conversion is exact\<close>

lemma zero_at_digit: "\<bar>d\<bar> < 10 \<Longrightarrow> zero_at d = char_of (48 + nat \<bar>d\<bar>)"
proof -
  assume "\<bar>d\<bar> < 10"
  then have "d \<in> set [-9..9]" unfolding set_upto atLeastAtMost_iff by linarith
  moreover have "\<forall>d \<in> set [-9..9]. zero_at d = char_of (48 + nat \<bar>d\<bar>)" by code_simp
  ultimately show ?thesis by blast
qed

lemma convert_loop_show: "rev (convert_loop i) = show_nat (nat \<bar>i\<bar>)"
proof (induction i rule: convert_loop.induct)
  case (1 i)
  have m: "\<bar>i smod 10\<bar> = \<bar>i\<bar> mod 10" by (simp add: signed_modulo_int_def abs_mult sgn_if)
  then have z: "zero_at (i smod 10) = char_of (48 + nat \<bar>i\<bar> mod 10)"
    by (subst zero_at_digit) (simp_all add: nat_mod_distrib)
  have d: "nat \<bar>i sdiv 10\<bar> = nat \<bar>i\<bar> div 10" by (simp add: abs_sdiv nat_div_distrib)
  have zero: "i sdiv 10 = 0 \<longleftrightarrow> nat \<bar>i\<bar> < 10" using d by (metis abs_0_eq abs_ge_zero div_eq_0_iff le_zero_eq nat_0_iff order_antisym zero_neq_numeral)
  show ?case
  proof (cases "i sdiv 10 = 0")
    case True
    then show ?thesis using z zero by (subst convert_loop.simps, subst show_nat.simps) (simp add: Let_def)
  next
    case False
    then show ?thesis using 1 [OF refl refl False] z d zero
      by (subst convert_loop.simps, subst show_nat.simps) (simp add: Let_def)
  qed
qed

lemma convert_show: "convert v = show_int v"
  by (simp add: convert_def show_int_def convert_loop_show)

lemma length_convert:
  assumes "- (2 ^ 63) \<le> v" and "v < 2 ^ 64"
  shows "length (convert v) \<le> 20"
proof (cases "v < 0")
  case True
  then have "nat (- v) < 10 ^ 19" using assms by (simp add: nat_less_iff)
  then have "length (show_nat (nat (- v))) \<le> 19" by (intro length_show_nat_le) simp_all
  with True show ?thesis by (simp add: convert_show show_int_def)
next
  case False
  then have "nat v < 10 ^ 20" using assms by (simp add: nat_less_iff)
  then have "length (show_nat (nat v)) \<le> 20" by (intro length_show_nat_le) simp_all
  with False show ?thesis by (simp add: convert_show show_int_def)
qed

definition int_of_text :: "string \<Rightarrow> int" where
  "int_of_text s = (if s \<noteq> [] \<and> hd s = CHR 0x2D then - int (nat_of_digits (tl s)) else int (nat_of_digits s))"

lemma show_nat_no_minus: "hd (show_nat n) \<noteq> CHR 0x2D"
  using show_nat_digits [of n] by (cases "show_nat n") (auto simp: is_digit_def)

lemma int_of_text_show: "int_of_text (show_int v) = v"
  using show_nat_no_minus [of "nat v"] by (auto simp: int_of_text_def show_int_def)

definition hex_value :: "string \<Rightarrow> nat" where
  "hex_value s = foldl (\<lambda>n c. 16 * n + length (takeWhile (\<lambda>d. d \<noteq> c) digitsHex)) 0 s"

lemma digitsHex_pos: "d < 16 \<Longrightarrow> length (takeWhile (\<lambda>c. c \<noteq> digitsHex ! d) digitsHex) = d"
proof -
  assume "d < 16"
  moreover have "\<forall>d \<in> set [0..<16]. length (takeWhile (\<lambda>c. c \<noteq> digitsHex ! d) digitsHex) = d" by code_simp
  ultimately show ?thesis by simp
qed

lemma hex_value_loop: "hex_value (rev (convertHex_loop n)) = n"
proof (induction n rule: convertHex_loop.induct)
  case (1 n)
  show ?case
  proof (cases "n div 16 = 0")
    case True
    then show ?thesis by (subst convertHex_loop.simps) (simp add: Let_def hex_value_def digitsHex_pos)
  next
    case False
    then show ?thesis using 1 [OF refl refl False]
      by (subst convertHex_loop.simps) (simp add: Let_def hex_value_def digitsHex_pos)
  qed
qed

lemma length_convertHex_loop: "0 < k \<Longrightarrow> n < 16 ^ k \<Longrightarrow> length (convertHex_loop n) \<le> k"
proof (induction n arbitrary: k rule: convertHex_loop.induct)
  case (1 n)
  show ?case
  proof (cases "n div 16 = 0")
    case True
    then show ?thesis using 1(2) by (subst convertHex_loop.simps) (simp add: Let_def)
  next
    case False
    obtain j where k: "k = Suc j" using 1(2) by (cases k) auto
    moreover have "0 < j" using False 1(3) k by (intro gr0I) auto
    moreover have "n div 16 < 16 ^ j" using 1(3) k by (simp add: less_mult_imp_div_less mult.commute)
    ultimately have "length (convertHex_loop (n div 16)) \<le> j" using 1(1) [OF refl refl False] by blast
    then show ?thesis using k by (subst convertHex_loop.simps) (simp add: Let_def)
  qed
qed

text \<open>
  C35: The table-driven conversion prints every integer of up to 64 bits, signed or unsigned, as its decimal
  numeral, the most negative one included: it equals the usual printer and reads back as the number. The text and
  its final zero stay within the 48 bytes that the callers make sure of, also for addresses in hexadecimal,
  which read back too.
\<close>

theorem convert_exact:
  assumes "- (2 ^ 63) \<le> v" and "v < 2 ^ 64" and "p < 2 ^ 64"
  shows "convert v = show_int v \<and> int_of_text (convert v) = v \<and> int (length (convert v)) + 1 \<le> kMaxNumericSize
    \<and> hex_value (convertHex p) = p \<and> 2 + int (length (convertHex p)) + 1 \<le> kMaxNumericSize"
proof -
  have "length (convertHex p) \<le> 16"
    unfolding convertHex_def length_rev using assms(3) by (intro length_convertHex_loop) simp_all
  then show ?thesis
    using length_convert [OF assms(1,2)] by (simp add: convert_show int_of_text_show convertHex_def hex_value_loop kMaxNumericSize_def)
qed

theorem convert_exact_witness:
  "convert (- 9223372036854775808) = show_int (- 9223372036854775808)
   \<and> int_of_text (convert (- 9223372036854775808)) = - 9223372036854775808 \<and> hex_value (convertHex 48879) = 48879"
  using convert_exact [of "- 9223372036854775808" 48879] by auto

section \<open>A log line\<close>

text \<open>What an item prints, and which items the code prints in the guarded 48 bytes.\<close>

fun item_text :: "log_item \<Rightarrow> string" where
  "item_text (LBool v) = (if v then ''1'' else ''0'')"
| "item_text (LInteger v) = show_int v"
| "item_text (LPointer p) = ''0x'' @ convertHex p"
| "item_text (LDouble s) = s"
| "item_text (LChar c) = [c]"
| "item_text (LCString str) = (case str of Some s \<Rightarrow> s | None \<Rightarrow> ''(null)'')"
| "item_text (LString s) = s"

fun item_ok :: "log_item \<Rightarrow> bool" where
  "item_ok (LInteger v) \<longleftrightarrow> - (2 ^ 63) \<le> v \<and> v < 2 ^ 64"
| "item_ok (LPointer p) \<longleftrightarrow> p < 2 ^ 64"
| "item_ok (LDouble s) \<longleftrightarrow> length s < 48"
| "item_ok i \<longleftrightarrow> True"

lemma item_numeric_length:
  "item_ok (LInteger v) \<Longrightarrow> length (show_int v) < 48" "item_ok (LPointer p) \<Longrightarrow> length (item_text (LPointer p)) < 48"
  using length_convert [of v] length_convertHex_loop [of 16 p] by (simp_all add: convert_show convertHex_def)

text \<open>An item is printed completely or not at all, and it is printed when there is room for 48 bytes more than it needs.\<close>

definition put_ok :: "string \<Rightarrow> fixed_buffer \<Rightarrow> fixed_buffer \<Rightarrow> bool" where
  "put_ok s b b' \<longleftrightarrow> fb_size b' = fb_size b \<and> fb_length b' < fb_size b
     \<and> (fb_data b' = fb_data b @ s \<or> b' = b \<and> fb_size b < fb_length b + length s + 48)"

lemma fb_append_put: "fb_length b < fb_size b \<Longrightarrow> put_ok s b (fb_append s b)"
  by (auto simp: put_ok_def fb_append_def avail_def fb_length_def)

lemma numeric_put:
  "fb_length b < fb_size b \<Longrightarrow> length s < 48 \<Longrightarrow>
   put_ok s b (if avail b \<ge> kMaxNumericSize then b\<lparr>fb_data := fb_data b @ s\<rparr> else b)"
  by (auto simp: put_ok_def avail_def fb_length_def kMaxNumericSize_def)

lemma stream_put_ok:
  assumes "item_ok i" and "fb_length b < fb_size b"
  shows "put_ok (item_text i) b (stream_put i b)"
proof (cases i)
  case (LInteger v)
  with assms item_numeric_length(1) [of v] numeric_put [of b "show_int v"] show ?thesis
    by (simp add: formatInteger_def convert_show split: if_splits)
next
  case (LPointer p)
  have "put_ok (item_text i) b (if avail b \<ge> kMaxNumericSize then b\<lparr>fb_data := fb_data b @ item_text i\<rparr> else b)"
    using assms item_numeric_length(2) [of p] by (intro numeric_put) (simp_all add: LPointer)
  then show ?thesis by (simp add: LPointer format_pointer_def split: if_splits)
next
  case (LDouble s)
  with assms numeric_put [of b s] show ?thesis by (simp add: format_double_def split: if_splits)
qed (use assms in \<open>auto simp: fb_append_put split: option.splits\<close>)

fun stream_all :: "log_item list \<Rightarrow> fixed_buffer \<Rightarrow> fixed_buffer" where
  "stream_all [] b = b"
| "stream_all (i # is) b = stream_all is (stream_put i b)"

lemma stream_all_kept:
  assumes "\<forall>i \<in> set items. item_ok i" and "fb_length b < fb_size b"
  shows "\<exists>kept. subseq kept items \<and> fb_data (stream_all items b) = fb_data b @ concat (map item_text kept)
    \<and> fb_length (stream_all items b) < fb_size b
    \<and> (fb_length b + length (concat (map item_text items)) + 48 \<le> fb_size b \<longrightarrow> kept = items)"
  using assms
proof (induction items arbitrary: b)
  case (Cons i items)
  let ?b = "stream_put i b"
  have c: "fb_size ?b = fb_size b" "fb_length ?b < fb_size b"
    "fb_data ?b = fb_data b @ item_text i \<or> ?b = b \<and> fb_size b < fb_length b + length (item_text i) + 48"
    using stream_put_ok [of i b] Cons.prems by (auto simp: put_ok_def)
  obtain kept where k: "subseq kept items" "fb_data (stream_all items ?b) = fb_data ?b @ concat (map item_text kept)"
    "fb_length (stream_all items ?b) < fb_size ?b"
    "fb_length ?b + length (concat (map item_text items)) + 48 \<le> fb_size ?b \<longrightarrow> kept = items"
    using Cons.IH [of ?b] Cons.prems c by auto
  from c(3) show ?case
  proof
    assume "fb_data ?b = fb_data b @ item_text i"
    with k c show ?thesis by (intro exI [of _ "i # kept"]) (auto simp: fb_length_def)
  next
    assume "?b = b \<and> fb_size b < fb_length b + length (item_text i) + 48"
    with k show ?thesis by (intro exI [of _ kept]) (auto simp: list_emb_Cons)
  qed
qed (auto intro: exI [of _ "[]"])

lemma log_line_complete:
  assumes "\<forall>i \<in> set items. item_ok i" and "fb_length b < fb_size b"
    and "fb_length b + length (concat (map item_text items)) + 48 \<le> fb_size b"
  shows "fb_data (stream_all items b) = fb_data b @ concat (map item_text items)"
  using stream_all_kept [OF assms(1,2)] assms(3) by auto

text \<open>
  A log line built by any sequence of \<open>operator<<\<close> never overruns its buffer, and it is the concatenation of the
  items that found room, in order and each of them complete; if the whole line and 48 bytes more fit, no
  item is missing.
\<close>

lemma log_line_exact:
  assumes "\<forall>i \<in> set items. item_ok i" and "fb_length b < fb_size b"
  shows "\<exists>kept. subseq kept items \<and> fb_data (stream_all items b) = fb_data b @ concat (map item_text kept)
    \<and> fb_length (stream_all items b) < fb_size b
    \<and> (fb_length b + length (concat (map item_text items)) + 48 \<le> fb_size b \<longrightarrow> kept = items)"
  by (rule stream_all_kept [OF assms])

lemma log_line_exact_witness:
  "fb_data (stream_all [LCString None, LChar CHR 0x3D, LInteger (- 12)] (new_fixed_buffer kSmallBuffer)) = ''(null)'' @ ''='' @ show_int (- 12)
   \<and> fb_length (stream_all [LCString None, LChar CHR 0x3D, LInteger (- 12)] (new_fixed_buffer kSmallBuffer)) < 4000"
proof -
  let ?is = "[LCString None, LChar CHR 0x3D, LInteger (- 12)]"
  have "length (show_int (- 12)) < 48" by (rule item_numeric_length) simp
  then have "fb_length (new_fixed_buffer kSmallBuffer) + length (concat (map item_text ?is)) + 48 \<le> fb_size (new_fixed_buffer kSmallBuffer)"
    by (simp add: new_fixed_buffer_def kSmallBuffer_def fb_length_def)
  with log_line_exact [of ?is "new_fixed_buffer kSmallBuffer"] show ?thesis
    by (auto simp: new_fixed_buffer_def kSmallBuffer_def fb_length_def)
qed

end
