(* ===== verification/AsyncLogging.thy ===== *)
theory AsyncLogging
  imports LogStream
begin

text \<open>
  \<open>base/AsyncLogging.*\<close> with the files it writes: \<open>FileUtil::AppendFile\<close> and \<open>base/LogFile.*\<close>. Logging threads append
  under the mutex; the back end swaps the buffers under the mutex and writes them without it. The outcomes
  of \<open>fwrite_unlocked\<close>, the clock, the formatted time, the host name and the process number are arguments.
\<close>

section \<open>Files that are appended to\<close>

record append_file =
  af_name :: string
  af_text :: string
  af_writtenBytes :: nat

definition new_append_file :: "string \<Rightarrow> append_file" where
  "new_append_file name = \<lparr>af_name = name, af_text = [], af_writtenBytes = 0\<rparr>"

text \<open>
  An outcome of \<open>fwrite_unlocked\<close> is how many bytes it took and whether \<open>ferror\<close> holds then; after the given outcomes it
  takes everything. The result is what the stream took and how many bytes were counted: an error ends
  the loop before its own bytes are counted.
\<close>

fun append_loop :: "(nat \<times> bool) list \<Rightarrow> string \<Rightarrow> string \<times> nat" where
  "append_loop outcomes [] = ([], 0)"
| "append_loop [] logline = (logline, length logline)"
| "append_loop ((k, err) # outcomes) logline =
     (let remain = length logline; n = min k remain
      in if n \<noteq> remain \<and> err then (take n logline, 0)
         else (let (text, written) = append_loop outcomes (drop n logline) in (take n logline @ text, n + written)))"

definition af_append :: "(nat \<times> bool) list \<Rightarrow> string \<Rightarrow> append_file \<Rightarrow> append_file" where
  "af_append outcomes logline f =
     (let (text, written) = append_loop outcomes logline
      in f\<lparr>af_text := af_text f @ text, af_writtenBytes := af_writtenBytes f + written\<rparr>)"

section \<open>Log files\<close>

definition kRollPerSeconds :: int where
  "kRollPerSeconds = 60 * 60 * 24"

record log_file =
  lf_rollSize :: nat
  lf_flushInterval :: int
  lf_checkEveryN :: int
  lf_count :: int
  lf_startOfPeriod :: int
  lf_lastRoll :: int
  lf_lastFlush :: int
  lf_file :: append_file
  lf_closed :: "append_file list"

definition getLogFileName :: "string \<Rightarrow> string \<Rightarrow> string \<Rightarrow> nat \<Rightarrow> string" where
  "getLogFileName basename timebuf hostname pid = basename @ timebuf @ hostname @ ''.'' @ show_nat pid @ ''.log''"

text \<open>\<open>now\<close> is the time that \<open>getLogFileName\<close> returns with the name; the files that \<open>reset\<close> closes are kept in order.\<close>

definition rollFile :: "int \<Rightarrow> string \<Rightarrow> log_file \<Rightarrow> bool \<times> log_file" where
  "rollFile now filename logf =
     (let start = now div kRollPerSeconds * kRollPerSeconds
      in if now > lf_lastRoll logf
         then (True, logf\<lparr>lf_startOfPeriod := start, lf_lastRoll := now, lf_lastFlush := now,
                        lf_file := new_append_file filename, lf_closed := lf_closed logf @ [lf_file logf]\<rparr>)
         else (False, logf))"

text \<open>The constructor: its \<open>rollFile\<close> opens the first file, as the clock is past 0.\<close>

definition new_log_file :: "nat \<Rightarrow> int \<Rightarrow> int \<Rightarrow> int \<Rightarrow> string \<Rightarrow> log_file" where
  "new_log_file rollSize flushInterval checkEveryN now filename =
     \<lparr>lf_rollSize = rollSize, lf_flushInterval = flushInterval, lf_checkEveryN = checkEveryN, lf_count = 0,
      lf_startOfPeriod = now div kRollPerSeconds * kRollPerSeconds, lf_lastRoll = now, lf_lastFlush = now,
      lf_file = new_append_file filename, lf_closed = []\<rparr>"

definition append_unlocked :: "(nat \<times> bool) list \<Rightarrow> int \<Rightarrow> int \<Rightarrow> string \<Rightarrow> string \<Rightarrow> log_file \<Rightarrow> log_file" where
  "append_unlocked outcomes now now' filename logline logf =
     (let lf1 = logf\<lparr>lf_file := af_append outcomes logline (lf_file logf)\<rparr>
      in if af_writtenBytes (lf_file lf1) > lf_rollSize lf1 then snd (rollFile now' filename lf1)
         else let lf2 = lf1\<lparr>lf_count := lf_count lf1 + 1\<rparr>
              in if lf_count lf2 \<ge> lf_checkEveryN lf2
                 then let lf3 = lf2\<lparr>lf_count := 0\<rparr>;
                          thisPeriod = now div kRollPerSeconds * kRollPerSeconds
                      in if thisPeriod \<noteq> lf_startOfPeriod lf3 then snd (rollFile now' filename lf3)
                         else if now - lf_lastFlush lf3 > lf_flushInterval lf3 then lf3\<lparr>lf_lastFlush := now\<rparr>
                         else lf3
                 else lf2)"

section \<open>The front end and the back end\<close>

record async_logging =
  al_running :: bool
  al_currentBuffer :: fixed_buffer
  al_nextBuffer :: "fixed_buffer option"
  al_buffers :: "fixed_buffer list"

abbreviation large_buffer :: fixed_buffer where
  "large_buffer \<equiv> new_fixed_buffer kLargeBuffer"

definition new_async_logging :: async_logging where
  "new_async_logging = \<lparr>al_running = False, al_currentBuffer = large_buffer, al_nextBuffer = Some large_buffer, al_buffers = []\<rparr>"

definition al_append :: "string \<Rightarrow> async_logging \<Rightarrow> async_logging" where
  "al_append logline a =
     (if avail (al_currentBuffer a) > int (length logline)
      then a\<lparr>al_currentBuffer := fb_append logline (al_currentBuffer a)\<rparr>
      else let current = (case al_nextBuffer a of Some b \<Rightarrow> b | None \<Rightarrow> large_buffer)
           in a\<lparr>al_currentBuffer := fb_append logline current, al_nextBuffer := None,
                al_buffers := al_buffers a @ [al_currentBuffer a]\<rparr>)"

definition al_start :: "async_logging \<Rightarrow> async_logging" where
  "al_start a = a\<lparr>al_running := True\<rparr>"

definition al_stop :: "async_logging \<Rightarrow> async_logging" where
  "al_stop a = a\<lparr>al_running := False\<rparr>"

text \<open>
  \<open>threadFunc\<close>: at the head of its loop, in \<open>waitForSeconds\<close>, after the critical section, or returned. A moved-from
  pointer is \<^term>\<open>None\<close>; \<open>be_output\<close> is the list of calls of \<open>output.append\<close>.
\<close>

datatype backend_phase = Loop_head | Waiting_for_buffers | Swapped | Returned

record backend =
  be_phase :: backend_phase
  be_newBuffer1 :: "fixed_buffer option"
  be_newBuffer2 :: "fixed_buffer option"
  be_buffersToWrite :: "fixed_buffer list"
  be_output :: "string list"

definition new_backend :: backend where
  "new_backend = \<lparr>be_phase = Loop_head, be_newBuffer1 = Some large_buffer, be_newBuffer2 = Some large_buffer,
     be_buffersToWrite = [], be_output = []\<rparr>"

definition is_empty_buffer :: "fixed_buffer option \<Rightarrow> bool" where
  "is_empty_buffer b = (case b of None \<Rightarrow> False | Some b \<Rightarrow> fb_length b = 0)"

definition be_check :: "async_logging \<Rightarrow> backend \<Rightarrow> backend checked" where
  "be_check a b =
     (if \<not> al_running a then Some (b\<lparr>be_phase := Returned\<rparr>)
      else if \<not> is_empty_buffer (be_newBuffer1 b) \<or> \<not> is_empty_buffer (be_newBuffer2 b) \<or> be_buffersToWrite b \<noteq> [] then None
      else Some (b\<lparr>be_phase := Waiting_for_buffers\<rparr>))"

text \<open>The rest of the critical section, once the buffers are not empty or the wait is over.\<close>

definition be_swap :: "async_logging \<Rightarrow> backend \<Rightarrow> (async_logging \<times> backend) checked" where
  "be_swap a b = do {
     current \<leftarrow> be_newBuffer1 b;
     let buffers = al_buffers a @ [al_currentBuffer a];
     let b1 = b\<lparr>be_phase := Swapped, be_newBuffer1 := None, be_buffersToWrite := buffers\<rparr>;
     Some (case al_nextBuffer a of
             Some n \<Rightarrow> (a\<lparr>al_currentBuffer := current, al_buffers := be_buffersToWrite b\<rparr>, b1)
           | None \<Rightarrow> (a\<lparr>al_currentBuffer := current, al_nextBuffer := be_newBuffer2 b, al_buffers := be_buffersToWrite b\<rparr>,
                      b1\<lparr>be_newBuffer2 := None\<rparr>)) }"

text \<open>Refilling one of the spare buffers from the written ones.\<close>

definition reuse :: "fixed_buffer option \<Rightarrow> fixed_buffer list \<Rightarrow> (fixed_buffer option \<times> fixed_buffer list) checked" where
  "reuse spare written =
     (case spare of
        Some b \<Rightarrow> Some (Some b, written)
      | None \<Rightarrow> (if written = [] then None else Some (Some (fb_reset (last written)), butlast written)))"

definition be_write :: "string \<Rightarrow> backend \<Rightarrow> backend checked" where
  "be_write dropped_text b =
     (if be_buffersToWrite b = [] then None
      else do {
        let (notice, written) = (if length (be_buffersToWrite b) > 25 then ([dropped_text], take 2 (be_buffersToWrite b))
                                 else ([], be_buffersToWrite b));
        let kept = (if length written > 2 then take 2 written else written);
        (new1, kept1) \<leftarrow> reuse (be_newBuffer1 b) kept;
        (new2, kept2) \<leftarrow> reuse (be_newBuffer2 b) kept1;
        Some \<lparr>be_phase = Loop_head, be_newBuffer1 = new1, be_newBuffer2 = new2, be_buffersToWrite = [],
              be_output = be_output b @ notice @ map fb_data written\<rparr> })"

section \<open>Interleavings\<close>

text \<open>The history: the lines appended, and whether the back end ever met more than 25 buffers.\<close>

record log_world =
  lw_front :: async_logging
  lw_back :: backend
  lw_lines :: "string list"
  lw_overload :: bool

inductive log_step :: "log_world \<Rightarrow> log_world \<Rightarrow> bool" where
  log_append: "log_step w (w\<lparr>lw_front := al_append line (lw_front w), lw_lines := lw_lines w @ [line]\<rparr>)"
| log_check: "be_phase (lw_back w) = Loop_head \<Longrightarrow> be_check (lw_front w) (lw_back w) = Some b \<Longrightarrow>
    log_step w (w\<lparr>lw_back := b\<rparr>)"
| log_swap: "be_phase (lw_back w) = Waiting_for_buffers \<Longrightarrow> be_swap (lw_front w) (lw_back w) = Some (a, b) \<Longrightarrow>
    log_step w (w\<lparr>lw_front := a, lw_back := b\<rparr>)"
| log_write: "be_phase (lw_back w) = Swapped \<Longrightarrow> be_write msg (lw_back w) = Some b \<Longrightarrow>
    log_step w (w\<lparr>lw_back := b, lw_overload := (lw_overload w \<or> length (be_buffersToWrite (lw_back w)) > 25)\<rparr>)"
| log_stop: "log_step w (w\<lparr>lw_front := al_stop (lw_front w)\<rparr>)"

inductive_cases log_stepE: "log_step w w'"

definition started_logging :: log_world where
  "started_logging = \<lparr>lw_front = al_start new_async_logging, lw_back = new_backend, lw_lines = [], lw_overload = False\<rparr>"

section \<open>The invariant\<close>

definition fits :: "string \<Rightarrow> bool" where
  "fits line \<longleftrightarrow> length line < kLargeBuffer"

definition waiting_text :: "async_logging \<Rightarrow> string" where
  "waiting_text a = concat (map fb_data (al_buffers a)) @ fb_data (al_currentBuffer a)"

definition front_ok :: "async_logging \<Rightarrow> bool" where
  "front_ok a \<longleftrightarrow> (\<forall>x \<in> insert (al_currentBuffer a) (set (al_buffers a)). fb_size x = kLargeBuffer)
     \<and> (case al_nextBuffer a of Some b \<Rightarrow> b = large_buffer | None \<Rightarrow> al_buffers a \<noteq> [])"

definition back_ok :: "backend \<Rightarrow> bool" where
  "back_ok b \<longleftrightarrow> (\<forall>x \<in> set (be_buffersToWrite b). fb_size x = kLargeBuffer)
     \<and> (case be_phase b of
          Swapped \<Rightarrow> be_newBuffer1 b = None \<and> be_buffersToWrite b \<noteq> []
            \<and> (be_newBuffer2 b = Some large_buffer \<or> be_newBuffer2 b = None \<and> 2 \<le> length (be_buffersToWrite b))
        | Returned \<Rightarrow> be_buffersToWrite b = []
        | _ \<Rightarrow> be_newBuffer1 b = Some large_buffer \<and> be_newBuffer2 b = Some large_buffer \<and> be_buffersToWrite b = [])"

definition log_ok :: "log_world \<Rightarrow> bool" where
  "log_ok w \<longleftrightarrow> front_ok (lw_front w) \<and> back_ok (lw_back w)
     \<and> (\<not> lw_overload w \<longrightarrow>
          concat (be_output (lw_back w)) @ concat (map fb_data (be_buffersToWrite (lw_back w))) @ waiting_text (lw_front w)
            = concat (filter fits (lw_lines w)))"

lemma large_buffer_simps [simp]: "fb_size large_buffer = kLargeBuffer" "fb_data large_buffer = []" "fb_length large_buffer = 0"
  by (simp_all add: new_fixed_buffer_def fb_length_def)

lemma append_empty: "fb_append line large_buffer = large_buffer\<lparr>fb_data := if fits line then line else []\<rparr>"
  by (simp add: fb_append_def avail_def fits_def new_fixed_buffer_def fb_length_def)

lemma al_append_ok:
  assumes "front_ok a"
  shows "front_ok (al_append line a) \<and> waiting_text (al_append line a) = waiting_text a @ (if fits line then line else [])"
proof (cases "avail (al_currentBuffer a) > int (length line)")
  case True
  then have "fits line" using assms by (simp add: avail_def fits_def front_ok_def)
  with True assms show ?thesis by (auto simp: al_append_def front_ok_def waiting_text_def fb_append_def split: option.splits)
next
  case False
  have "(case al_nextBuffer a of Some b \<Rightarrow> b | None \<Rightarrow> large_buffer) = large_buffer"
    using assms by (auto simp: front_ok_def split: option.splits)
  with False assms show ?thesis by (auto simp: al_append_def Let_def append_empty front_ok_def waiting_text_def)
qed

lemma be_check_ok: "back_ok b \<Longrightarrow> be_phase b = Loop_head \<Longrightarrow>
    \<exists>b'. be_check a b = Some b' \<and> back_ok b' \<and> be_output b' = be_output b \<and> be_buffersToWrite b' = be_buffersToWrite b"
  by (auto simp: be_check_def back_ok_def is_empty_buffer_def)

lemma be_swap_ok: "front_ok a \<Longrightarrow> back_ok b \<Longrightarrow> be_phase b = Waiting_for_buffers \<Longrightarrow>
    \<exists>a' b'. be_swap a b = Some (a', b') \<and> front_ok a' \<and> back_ok b' \<and> be_output b' = be_output b
      \<and> be_buffersToWrite b' = al_buffers a @ [al_currentBuffer a] \<and> waiting_text a' = []"
  by (auto simp: be_swap_def back_ok_def front_ok_def waiting_text_def Let_def Suc_le_eq split: option.splits)

lemma reset_large: "fb_size x = kLargeBuffer \<Longrightarrow> fb_reset x = large_buffer"
  by (simp add: fb_reset_def new_fixed_buffer_def)

lemma be_write_ok:
  assumes "back_ok b" and "be_phase b = Swapped"
  shows "\<exists>b'. be_write msg b = Some b' \<and> back_ok b' \<and> be_phase b' = Loop_head \<and> be_buffersToWrite b' = []
    \<and> (length (be_buffersToWrite b) \<le> 25 \<longrightarrow> be_output b' = be_output b @ map fb_data (be_buffersToWrite b))"
proof -
  define written where "written = (if length (be_buffersToWrite b) > 25 then take 2 (be_buffersToWrite b) else be_buffersToWrite b)"
  define kept where "kept = (if length written > 2 then take 2 written else written)"
  have b: "be_newBuffer1 b = None" "be_buffersToWrite b \<noteq> []" "\<forall>x \<in> set (be_buffersToWrite b). fb_size x = kLargeBuffer"
    "be_newBuffer2 b = Some large_buffer \<or> be_newBuffer2 b = None \<and> 2 \<le> length (be_buffersToWrite b)"
    using assms by (auto simp: back_ok_def)
  have kept: "kept \<noteq> []" "\<forall>x \<in> set kept. fb_size x = kLargeBuffer" "2 \<le> length (be_buffersToWrite b) \<longrightarrow> 2 \<le> length kept"
    using b by (auto simp: kept_def written_def dest: in_set_takeD)
  have one: "reuse None kept = Some (Some large_buffer, butlast kept)"
    using kept by (simp add: reuse_def reset_large)
  have "\<exists>kept2. reuse (be_newBuffer2 b) (butlast kept) = Some (Some large_buffer, kept2)"
  proof (cases "be_newBuffer2 b")
    case None
    then have two: "2 \<le> length kept" using b kept by simp
    then have "butlast kept \<noteq> []" by (cases kept rule: rev_cases) auto
    moreover have "last (butlast kept) \<in> set kept" using calculation in_set_butlastD last_in_set by fastforce
    ultimately show ?thesis using None kept(2) by (simp add: reuse_def reset_large)
  next
    case (Some x)
    with b show ?thesis by (simp add: reuse_def)
  qed
  with one b show ?thesis
    by (auto simp: be_write_def back_ok_def kept_def written_def Let_def split: if_splits)
qed

lemma log_ok_start: "log_ok started_logging"
  by (simp add: log_ok_def started_logging_def al_start_def new_async_logging_def new_backend_def front_ok_def back_ok_def waiting_text_def)

lemma log_ok_step: "log_step w w' \<Longrightarrow> log_ok w \<Longrightarrow> log_ok w'"
proof (erule log_stepE)
  fix line assume "log_ok w" "w' = w\<lparr>lw_front := al_append line (lw_front w), lw_lines := lw_lines w @ [line]\<rparr>"
  then show "log_ok w'" using al_append_ok [of "lw_front w" line] by (auto simp: log_ok_def)
next
  fix b assume "log_ok w" "be_phase (lw_back w) = Loop_head" "be_check (lw_front w) (lw_back w) = Some b" "w' = w\<lparr>lw_back := b\<rparr>"
  then show "log_ok w'" using be_check_ok [of "lw_back w" "lw_front w"] by (auto simp: log_ok_def)
next
  fix a b assume "log_ok w" "be_phase (lw_back w) = Waiting_for_buffers" "be_swap (lw_front w) (lw_back w) = Some (a, b)"
    "w' = w\<lparr>lw_front := a, lw_back := b\<rparr>"
  then show "log_ok w'" using be_swap_ok [of "lw_front w" "lw_back w"]
    by (auto simp: log_ok_def) (auto simp: waiting_text_def back_ok_def)
next
  fix msg b assume "log_ok w" "be_phase (lw_back w) = Swapped" "be_write msg (lw_back w) = Some b"
    "w' = w\<lparr>lw_back := b, lw_overload := (lw_overload w \<or> length (be_buffersToWrite (lw_back w)) > 25)\<rparr>"
  then show "log_ok w'" using be_write_ok [of "lw_back w" msg] by (auto simp: log_ok_def not_less)
next
  assume "log_ok w" "w' = w\<lparr>lw_front := al_stop (lw_front w)\<rparr>"
  then show "log_ok w'" by (simp add: log_ok_def al_stop_def front_ok_def waiting_text_def split: option.splits)
qed

lemma log_ok_reachable: "log_step\<^sup>*\<^sup>* started_logging w \<Longrightarrow> log_ok w"
  by (induction rule: rtranclp_induct) (auto intro: log_ok_start log_ok_step)

text \<open>
  C23: Whatever the logging threads do, the back end never fails one of its assertions: the spare buffers it
  gives away come back. As long as it never meets more than 25 buffers at once, what it has written,
  what it holds and what waits in the front end is together exactly the text of the lines appended, in
  order and once, except lines of 4 million bytes and more; so what was waiting at a swap is all in the
  file after the write that follows.
\<close>

theorem async_logging_contract:
  assumes "log_step\<^sup>*\<^sup>* started_logging w"
  defines "a \<equiv> lw_front w" and "b \<equiv> lw_back w"
  shows "(be_phase b = Loop_head \<longrightarrow> be_check a b \<noteq> None) \<and> (be_phase b = Waiting_for_buffers \<longrightarrow> be_swap a b \<noteq> None)
    \<and> (be_phase b = Swapped \<longrightarrow> be_write msg b \<noteq> None)
    \<and> (\<not> lw_overload w \<longrightarrow>
        concat (be_output b) @ concat (map fb_data (be_buffersToWrite b)) @ waiting_text a = concat (filter fits (lw_lines w))
        \<and> (be_phase b = Waiting_for_buffers \<and> length (al_buffers a) < 25 \<longrightarrow>
            (\<exists>a' b' b''. be_swap a b = Some (a', b') \<and> be_write msg b' = Some b'' \<and> waiting_text a' = []
               \<and> concat (be_output b'') = concat (filter fits (lw_lines w)))))"
proof -
  have ok: "log_ok w" by (rule log_ok_reachable [OF assms(1)])
  then have f: "front_ok a" and b: "back_ok b" by (simp_all add: log_ok_def a_def b_def)
  have stream: "concat (be_output b) @ concat (map fb_data (be_buffersToWrite b)) @ waiting_text a = concat (filter fits (lw_lines w))"
    if "\<not> lw_overload w" using ok that by (simp add: log_ok_def a_def b_def)
  have round: "\<exists>a' b' b''. be_swap a b = Some (a', b') \<and> be_write msg b' = Some b'' \<and> waiting_text a' = []
      \<and> concat (be_output b'') = concat (filter fits (lw_lines w))"
    if wait: "be_phase b = Waiting_for_buffers" and few: "length (al_buffers a) < 25" and "\<not> lw_overload w"
  proof -
    obtain a' b' where s: "be_swap a b = Some (a', b')" "back_ok b'" "be_output b' = be_output b"
      "be_buffersToWrite b' = al_buffers a @ [al_currentBuffer a]" "waiting_text a' = []"
      using be_swap_ok [OF f b wait] by blast
    have "be_phase b' = Swapped" using s(1) by (auto simp: be_swap_def Let_def split: option.splits bind_splits)
    from be_write_ok [OF s(2) this, of msg] s few obtain b'' where
      "be_write msg b' = Some b''" "be_output b'' = be_output b @ map fb_data (al_buffers a @ [al_currentBuffer a])" by auto
    moreover have "be_buffersToWrite b = []" using b wait by (simp add: back_ok_def)
    ultimately show ?thesis using s stream [OF that(3)] by (auto simp: waiting_text_def)
  qed
  have "be_phase b = Loop_head \<longrightarrow> be_check a b \<noteq> None" using be_check_ok [OF b] by fastforce
  moreover have "be_phase b = Waiting_for_buffers \<longrightarrow> be_swap a b \<noteq> None" using be_swap_ok [OF f b] by fastforce
  moreover have "be_phase b = Swapped \<longrightarrow> be_write msg b \<noteq> None" using be_write_ok [OF b] by fastforce
  ultimately show ?thesis using stream round by blast
qed

lemma one_line_logged:
  "log_step\<^sup>*\<^sup>* started_logging (started_logging\<lparr>lw_front := al_append line (al_start new_async_logging), lw_lines := [line]\<rparr>)"
  using log_append [of started_logging line] by (simp add: started_logging_def r_into_rtranclp)

theorem async_logging_contract_witness:
  "\<exists>w. log_step\<^sup>*\<^sup>* started_logging w \<and> lw_lines w = [''hello''] \<and> be_check (lw_front w) (lw_back w) \<noteq> None
     \<and> waiting_text (lw_front w) = ''hello''"
proof -
  let ?w = "started_logging\<lparr>lw_front := al_append ''hello'' (al_start new_async_logging), lw_lines := [''hello'']\<rparr>"
  have "be_phase (lw_back ?w) = Loop_head" "\<not> lw_overload ?w" "be_output (lw_back ?w) = []" "be_buffersToWrite (lw_back ?w) = []"
    "fits ''hello''"
    by (simp_all add: started_logging_def new_backend_def fits_def kLargeBuffer_def)
  with async_logging_contract [OF one_line_logged, of "''hello''"] show ?thesis
    by (intro exI [of _ ?w]) (simp add: one_line_logged)
qed

text \<open>
  \<open>stop\<close> does not flush: the back end leaves its loop as soon as it sees the flag, and what was appended since
  the last swap is never written. A program that logs a line and stops the logger before the back end's first check of
  the flag logs nothing.
\<close>

lemma async_stop_loses_lines:
  "\<exists>w. log_step\<^sup>*\<^sup>* started_logging w \<and> be_phase (lw_back w) = Returned \<and> lw_lines w = [''hello''] \<and> be_output (lw_back w) = []"
proof -
  let ?a = "al_append ''hello'' (al_start new_async_logging)"
  let ?w = "started_logging\<lparr>lw_front := al_stop ?a, lw_lines := [''hello'']\<rparr>"
  have "log_step\<^sup>*\<^sup>* started_logging ?w"
    using rtranclp.rtrancl_into_rtrancl [OF one_line_logged log_stop, of "''hello''"] by (simp add: started_logging_def)
  moreover have "log_step ?w (?w\<lparr>lw_back := new_backend\<lparr>be_phase := Returned\<rparr>\<rparr>)"
    by (rule log_check) (simp_all add: started_logging_def new_backend_def be_check_def al_stop_def)
  ultimately have "log_step\<^sup>*\<^sup>* started_logging (?w\<lparr>lw_back := new_backend\<lparr>be_phase := Returned\<rparr>\<rparr>)" by simp
  then show ?thesis
    by (intro exI [of _ "?w\<lparr>lw_back := new_backend\<lparr>be_phase := Returned\<rparr>\<rparr>"]) (simp add: new_backend_def)
qed

section \<open>Rolling keeps everything\<close>

definition no_errors :: "(nat \<times> bool) list \<Rightarrow> bool" where
  "no_errors outcomes \<longleftrightarrow> list_all (\<lambda>(k, err). \<not> err) outcomes"

lemma append_loop_complete: "no_errors outcomes \<Longrightarrow> append_loop outcomes s = (s, length s)"
  by (induction outcomes s rule: append_loop.induct) (auto simp: no_errors_def Let_def min_def)

definition log_text :: "log_file \<Rightarrow> string" where
  "log_text logf = concat (map af_text (lf_closed logf)) @ af_text (lf_file logf)"

text \<open>One call: the outcomes of its writes, the two readings of the clock, the name of a new file, and the line.\<close>

type_synonym log_call = "(nat \<times> bool) list \<times> int \<times> int \<times> string \<times> string"

fun run_call :: "log_call \<Rightarrow> log_file \<Rightarrow> log_file" where
  "run_call (outcomes, now, now', filename, line) logf = append_unlocked outcomes now now' filename line logf"

fun call_line :: "log_call \<Rightarrow> string" where
  "call_line (outcomes, now, now', filename, line) = line"

fun call_ok :: "log_call \<Rightarrow> bool" where
  "call_ok (outcomes, now, now', filename, line) = no_errors outcomes"

definition file_counted :: "log_file \<Rightarrow> bool" where
  "file_counted logf \<longleftrightarrow> af_writtenBytes (lf_file logf) = length (af_text (lf_file logf))"

lemma rollFile_text: "log_text (snd (rollFile now name logf)) = log_text logf"
    "file_counted logf \<Longrightarrow> file_counted (snd (rollFile now name logf))"
    "lf_rollSize (snd (rollFile now name logf)) = lf_rollSize logf"
  by (simp_all add: rollFile_def log_text_def new_append_file_def file_counted_def Let_def)

lemma run_call_text:
  assumes "call_ok c" and "file_counted logf"
  shows "log_text (run_call c logf) = log_text logf @ call_line c \<and> file_counted (run_call c logf)
    \<and> lf_rollSize (run_call c logf) = lf_rollSize logf"
proof -
  obtain outcomes now now' name line where c: "c = (outcomes, now, now', name, line)" by (cases c)
  let ?l = "logf\<lparr>lf_file := af_append outcomes line (lf_file logf)\<rparr>"
  have "log_text ?l = log_text logf @ line" "file_counted ?l"
    using assms by (simp_all add: c af_append_def append_loop_complete log_text_def file_counted_def)
  moreover have "log_text (l\<lparr>lf_count := n\<rparr>) = log_text l" "file_counted (l\<lparr>lf_count := n\<rparr>) = file_counted l"
    "log_text (l\<lparr>lf_lastFlush := t\<rparr>) = log_text l" "file_counted (l\<lparr>lf_lastFlush := t\<rparr>) = file_counted l" for l n t
    by (simp_all add: log_text_def file_counted_def)
  ultimately show ?thesis by (simp add: c append_unlocked_def Let_def rollFile_text)
qed

text \<open>
  C36: A log file that rolls, by size or by day, loses nothing: the texts of its files in the order in which it
  opened them, the current one last, are the lines appended, as long as no write reports an error. Whenever the current
  file is over the limit after an append, that is because a file was already opened in the same second.
\<close>

theorem rolling_keeps_lines:
  fixes rollSize :: nat and flushInterval checkEveryN t0 :: int and name0 :: string
  assumes "list_all call_ok calls" and "call_ok (outcomes, now, now', name, line)"
  defines "logf \<equiv> fold run_call calls (new_log_file rollSize flushInterval checkEveryN t0 name0)"
  defines "logf' \<equiv> append_unlocked outcomes now now' name line logf"
  shows "log_text logf' = concat (map call_line calls) @ line
    \<and> (length (af_text (lf_file logf')) > rollSize \<longrightarrow> now' \<le> lf_lastRoll logf')"
proof -
  have run: "log_text (fold run_call cs l) = log_text l @ concat (map call_line cs) \<and> file_counted (fold run_call cs l)
      \<and> lf_rollSize (fold run_call cs l) = lf_rollSize l" if "list_all call_ok cs" "file_counted l" for cs l
    using that by (induction cs arbitrary: l) (auto simp: run_call_text)
  have logf: "log_text logf = concat (map call_line calls)" "file_counted logf" "lf_rollSize logf = rollSize"
    using run [OF assms(1), of "new_log_file rollSize flushInterval checkEveryN t0 name0"]
    by (simp_all add: logf_def new_log_file_def log_text_def file_counted_def new_append_file_def)
  have "log_text logf' = concat (map call_line calls) @ line" "file_counted logf'" "lf_rollSize logf' = rollSize"
    using run_call_text [OF assms(2) logf(2)] logf by (simp_all add: logf'_def)
  moreover have "af_writtenBytes (lf_file logf') > rollSize \<longrightarrow> now' \<le> lf_lastRoll logf'"
    using logf(3) by (auto simp: logf'_def append_unlocked_def rollFile_def new_append_file_def Let_def)
  ultimately show ?thesis by (simp add: file_counted_def)
qed

theorem rolling_keeps_lines_witness:
  "log_text (append_unlocked [(1, False)] 7 8 ''b'' ''xy'' (fold run_call [([], 6, 6, ''c'', ''abc'')] (new_log_file 2 3 1024 5 ''a''))) = ''abcxy''"
  using rolling_keeps_lines [of "[([], 6, 6, ''c'', ''abc'')]" "[(1, False)]" 7 8 "''b''" "''xy''" 2 3 1024 5 "''a''"]
  by (simp add: no_errors_def)

end
