(* ===== verification/Times.thy ===== *)
theory Times
  imports Dates "HOL-Library.Signed_Division"
begin

text \<open>
  \<open>base/Timestamp.*\<close> and \<open>base/TimeZone.*\<close>: printing time stamps, and local times. \<open>gmtime_r\<close> and \<open>timegm\<close> of
  the C library are the Gregorian calendar of theory \<open>Dates\<close> and the time of day; \<open>mktime\<close> also subtracts the
  offset of the process's own time zone, which is an argument (daylight saving time is left out). Time
  stamps are from the epoch on, where the divisions of C++ and HOL agree.
\<close>

section \<open>The C library's calendar\<close>

record tm =
  tm_year :: int
  tm_mon :: int
  tm_mday :: int
  tm_hour :: int
  tm_min :: int
  tm_sec :: int
  tm_isdst :: bool

definition gmtime :: "int \<Rightarrow> tm" where
  "gmtime seconds =
     (let ymd = getYearMonthDay (epoch_day + seconds div 86400); rest = seconds mod 86400
      in \<lparr>tm_year = ymd_year ymd - 1900, tm_mon = ymd_month ymd - 1, tm_mday = ymd_day ymd,
          tm_hour = rest div 3600, tm_min = rest mod 3600 div 60, tm_sec = rest mod 60, tm_isdst = False\<rparr>)"

definition timegm :: "tm \<Rightarrow> int" where
  "timegm t = (getJulianDayNumber (tm_year t + 1900) (tm_mon t + 1) (tm_mday t) - epoch_day) * 86400
     + tm_hour t * 3600 + tm_min t * 60 + tm_sec t"

definition mktime :: "int \<Rightarrow> tm \<Rightarrow> int" where
  "mktime process_offset t = timegm t - process_offset"

lemma timegm_gmtime:
  assumes "0 \<le> s"
  shows "timegm (gmtime s) = s"
proof -
  have "epoch_day \<le> epoch_day + s div 86400" using assms by simp
  note j = jdn_getYearMonthDay(2) [OF this]
  define r where "r = s mod 86400"
  have "r mod 3600 mod 60 = r mod 60" by (rule mod_mod_cancel) simp
  then have "r div 3600 * 3600 + r mod 3600 div 60 * 60 + r mod 60 = r"
    using div_mult_mod_eq [of r 3600] div_mult_mod_eq [of "r mod 3600" 60] by (metis add.assoc)
  moreover have "s div 86400 * 86400 + r = s" unfolding r_def by (rule div_mult_mod_eq)
  moreover have "timegm (gmtime s) = s div 86400 * 86400 + r div 3600 * 3600 + r mod 3600 div 60 * 60 + r mod 60"
    by (simp only: timegm_def gmtime_def Let_def tm.select_convs diff_add_cancel j add_diff_cancel_left' r_def)
  ultimately show ?thesis by (metis add.assoc)
qed

lemma timegm_isdst: "timegm (t\<lparr>tm_isdst := b\<rparr>) = timegm t"
  by (simp add: timegm_def)

section \<open>Timestamp\<close>

definition kMicroSecondsPerSecond :: int where
  "kMicroSecondsPerSecond = 1000 * 1000"

definition fromUnixTime :: "int \<Rightarrow> int \<Rightarrow> int" where
  "fromUnixTime t microseconds = t * kMicroSecondsPerSecond + microseconds"

definition secondsSinceEpoch :: "int \<Rightarrow> int" where
  "secondsSinceEpoch us = us div kMicroSecondsPerSecond"

definition toString :: "int \<Rightarrow> string" where
  "toString us =
     (let seconds = us div kMicroSecondsPerSecond; microseconds = us mod kMicroSecondsPerSecond
      in show_int seconds @ ''.'' @ pad_left (CHR ''0'') 6 (show_int microseconds))"

text \<open>The format \<open>%4d%02d%02d %02d:%02d:%02d\<close>, which \<open>Logging.cc\<close> uses too.\<close>

definition format_tm :: "tm \<Rightarrow> string" where
  "format_tm t = pad_left (CHR '' '') 4 (show_int (tm_year t + 1900)) @ pad_left (CHR ''0'') 2 (show_int (tm_mon t + 1))
     @ pad_left (CHR ''0'') 2 (show_int (tm_mday t)) @ '' '' @ pad_left (CHR ''0'') 2 (show_int (tm_hour t)) @ '':''
     @ pad_left (CHR ''0'') 2 (show_int (tm_min t)) @ '':'' @ pad_left (CHR ''0'') 2 (show_int (tm_sec t))"

definition toFormattedString :: "bool \<Rightarrow> int \<Rightarrow> string" where
  "toFormattedString showMicroseconds us =
     (let seconds = us div kMicroSecondsPerSecond; tm_time = gmtime seconds
      in if showMicroseconds
         then format_tm tm_time @ ''.'' @ pad_left (CHR ''0'') 6 (show_int (us mod kMicroSecondsPerSecond))
         else format_tm tm_time)"

section \<open>TimeZone\<close>

record transition =
  tr_gmttime :: int
  tr_localtime :: int
  tr_localtimeIdx :: nat

record local_time =
  lt_gmtOffset :: int
  lt_isDst :: bool
  lt_desigIdx :: int

record zone_data =
  zd_transitions :: "transition list"
  zd_localtimes :: "local_time list"
  zd_tzstring :: string

definition empty_zone :: zone_data where
  "empty_zone = \<lparr>zd_transitions = [], zd_localtimes = [], zd_tzstring = []\<rparr>"

definition addLocalTime :: "int \<Rightarrow> bool \<Rightarrow> int \<Rightarrow> zone_data \<Rightarrow> zone_data" where
  "addLocalTime utcOffset isDst desigIdx d =
     d\<lparr>zd_localtimes := zd_localtimes d @ [\<lparr>lt_gmtOffset = utcOffset, lt_isDst = isDst, lt_desigIdx = desigIdx\<rparr>]\<rparr>"

text \<open>An index past the end is undefined behaviour: \<^term>\<open>None\<close>.\<close>

definition local_at :: "zone_data \<Rightarrow> nat \<Rightarrow> local_time option" where
  "local_at d i = (if i < length (zd_localtimes d) then Some (zd_localtimes d ! i) else None)"

definition addTransition :: "int \<Rightarrow> nat \<Rightarrow> zone_data \<Rightarrow> zone_data option" where
  "addTransition when localIdx d =
     map_option (\<lambda>l. d\<lparr>zd_transitions := zd_transitions d
         @ [\<lparr>tr_gmttime = when, tr_localtime = when + lt_gmtOffset l, tr_localtimeIdx = localIdx\<rparr>]\<rparr>) (local_at d localIdx)"

text \<open>
  \<open>upper_bound\<close> over transitions sorted by local time. The sentry is built with the searched time in its first
  field, but the comparison reads the second, which is 0.
\<close>

definition findLocalTime :: "int \<Rightarrow> zone_data \<Rightarrow> local_time option" where
  "findLocalTime localtime d =
     (case zd_transitions d of
        [] \<Rightarrow> local_at d 0
      | front # rest \<Rightarrow>
          if localtime < tr_localtime front then local_at d 0
          else let sentry = \<lparr>tr_gmttime = localtime, tr_localtime = 0, tr_localtimeIdx = 0\<rparr>;
                   before = takeWhile (\<lambda>t. \<not> tr_localtime sentry < tr_localtime t) (zd_transitions d)
               in if before \<noteq> [] then local_at d (tr_localtimeIdx (last before))
                  else local_at d (tr_localtimeIdx front))"

definition zones :: "(string \<times> int) list" where
  "zones = [(''Asia/Shanghai'', 8 * 3600), (''Asia/Tokyo'', 9 * 3600), (''America/New_York'', - 5 * 3600),
     (''Europe/London'', 0), (''UTC'', 0)]"

text \<open>A time zone is its data, or \<^term>\<open>None\<close> when it is not valid.\<close>

definition TimeZone_file :: "string \<Rightarrow> zone_data option" where
  "TimeZone_file zonefile =
     map_option (\<lambda>offset. (addLocalTime offset False 0 empty_zone)\<lparr>zd_tzstring := zonefile\<rparr>) (map_of zones zonefile)"

definition TimeZone_offset :: "int \<Rightarrow> string \<Rightarrow> zone_data option" where
  "TimeZone_offset eastOfUtc name = Some ((addLocalTime eastOfUtc False 0 empty_zone)\<lparr>zd_tzstring := name\<rparr>)"

definition toLocalTime :: "zone_data option \<Rightarrow> int \<Rightarrow> tm option" where
  "toLocalTime tz seconds =
     (case tz of
        None \<Rightarrow> Some (gmtime seconds)
      | Some d \<Rightarrow> map_option (\<lambda>local. (gmtime (seconds + lt_gmtOffset local))\<lparr>tm_isdst := lt_isDst local\<rparr>) (findLocalTime seconds d))"

definition fromLocalTime :: "int \<Rightarrow> zone_data option \<Rightarrow> tm \<Rightarrow> int option" where
  "fromLocalTime process_offset tz localTm =
     (case tz of
        Some d \<Rightarrow> (let local = mktime process_offset localTm
                   in map_option (\<lambda>localTime. local - lt_gmtOffset localTime) (findLocalTime local d))
      | None \<Rightarrow> Some (mktime process_offset localTm))"

definition utcTime :: "int \<Rightarrow> tm" where
  "utcTime seconds = gmtime seconds"

definition fromUtcTime :: "tm \<Rightarrow> int" where
  "fromUtcTime utc = timegm utc"

section \<open>Local times\<close>

lemma zone_offset: "findLocalTime t (addLocalTime off False 0 empty_zone\<lparr>zd_tzstring := name\<rparr>) =
    Some \<lparr>lt_gmtOffset = off, lt_isDst = False, lt_desigIdx = 0\<rparr>"
  by (simp add: findLocalTime_def addLocalTime_def empty_zone_def local_at_def)

text \<open>
  Going to local time and back gives the time again exactly when the process itself runs in UTC: in every time
  zone that the constructors can make, \<open>fromLocalTime\<close> is wrong by the offset of the process's own zone,
  because it uses \<open>mktime\<close>; \<open>fromUtcTime\<close> after \<open>utcTime\<close> is always right.
\<close>

lemma local_time_roundtrip:
  assumes "0 \<le> s" and "0 \<le> s + off" and "tz = None \<or> tz = TimeZone_offset off name \<or> (TimeZone_file name = tz \<and> map_of zones name = Some off)"
  shows "\<exists>t. toLocalTime tz s = Some t \<and> fromLocalTime process_offset tz t = Some (s - process_offset)
    \<and> fromUtcTime (utcTime s) = s"
proof -
  have z: "tz = None \<or> tz = Some ((addLocalTime off False 0 empty_zone)\<lparr>zd_tzstring := name\<rparr>)"
    using assms(3) by (auto simp: TimeZone_offset_def TimeZone_file_def)
  then show ?thesis
  proof
    assume "tz = None"
    then show ?thesis
      by (simp add: toLocalTime_def fromLocalTime_def mktime_def utcTime_def fromUtcTime_def timegm_gmtime [OF assms(1)])
  next
    assume "tz = Some ((addLocalTime off False 0 empty_zone)\<lparr>zd_tzstring := name\<rparr>)"
    then show ?thesis
      by (simp add: toLocalTime_def fromLocalTime_def mktime_def utcTime_def fromUtcTime_def zone_offset timegm_isdst
          timegm_gmtime [OF assms(1)] timegm_gmtime [OF assms(2)])
  qed
qed

lemma local_time_roundtrip_witness:
  "\<exists>t. toLocalTime (TimeZone_file ''Asia/Shanghai'') 1000000000 = Some t
     \<and> fromLocalTime 0 (TimeZone_file ''Asia/Shanghai'') t = Some 1000000000"
  using local_time_roundtrip [of 1000000000 28800 "TimeZone_file ''Asia/Shanghai''" "''Asia/Shanghai''" 0]
  by (auto simp: zones_def)

text \<open>With transitions, which no constructor makes, the search would not depend on the time searched for.\<close>

lemma findLocalTime_ignores_time:
  assumes "zd_transitions d = f # r" and "tr_localtime f \<le> s" and "tr_localtime f \<le> t"
  shows "findLocalTime s d = findLocalTime t d"
  using assms by (simp add: findLocalTime_def Let_def)

section \<open>Reading time stamps back\<close>

lemma nat_of_digits_zeros: "nat_of_digits (replicate k (CHR ''0'') @ s) = nat_of_digits s"
  by (induction k) (simp_all add: nat_of_digits_def digit_val_def)

text \<open>A number in a field of fixed width.\<close>

definition field :: "nat \<Rightarrow> nat \<Rightarrow> string \<Rightarrow> int" where
  "field i k s = int (nat_of_digits (take k (drop i s)))"

lemma padded_field:
  assumes "0 \<le> n" and "n < 10 ^ k" and "0 < k"
  shows "length (pad_left (CHR ''0'') k (show_int n)) = k" and "int (nat_of_digits (pad_left (CHR ''0'') k (show_int n))) = n"
proof -
  have "nat n < 10 ^ k" using assms(1,2) by (simp add: nat_less_iff)
  then have "length (show_nat (nat n)) \<le> k" using assms(3) by (intro length_show_nat_le)
  with assms(1) show "length (pad_left (CHR ''0'') k (show_int n)) = k"
    and "int (nat_of_digits (pad_left (CHR ''0'') k (show_int n))) = n"
    by (simp_all add: pad_left_def show_int_def nat_of_digits_zeros)
qed

lemma show_year:
  assumes "1000 \<le> y" and "y \<le> 9999"
  shows "length (show_int y) = 4" and "int (nat_of_digits (show_int y)) = y" and "pad_left c 4 (show_int y) = show_int y"
proof -
  have "length (show_nat (nat y)) \<le> 4" using assms by (intro length_show_nat_le) simp_all
  moreover have "\<not> length (show_nat (nat y)) \<le> 3"
  proof
    assume "length (show_nat (nat y)) \<le> 3"
    then have "(10 :: nat) ^ length (show_nat (nat y)) \<le> 10 ^ 3" by (intro power_increasing) simp_all
    moreover have "nat y < 10 ^ length (show_nat (nat y))"
      using nat_of_digits_bound [OF show_nat_digits [of "nat y"]] by (simp only: nat_of_digits_show_nat)
    ultimately have "nat y < 10 ^ 3" by (rule less_le_trans [rotated])
    with assms(1) show False by simp
  qed
  ultimately show "length (show_int y) = 4" and "int (nat_of_digits (show_int y)) = y" and "pad_left c 4 (show_int y) = show_int y"
    using assms by (simp_all add: show_int_def pad_left_def)
qed

definition read_tm :: "string \<Rightarrow> tm" where
  "read_tm s = \<lparr>tm_year = field 0 4 s - 1900, tm_mon = field 4 2 s - 1, tm_mday = field 6 2 s, tm_hour = field 9 2 s,
     tm_min = field 12 2 s, tm_sec = field 15 2 s, tm_isdst = False\<rparr>"

lemma read_format_tm:
  assumes "1000 \<le> tm_year t + 1900" and "tm_year t + 1900 \<le> 9999" and "0 \<le> tm_mon t" and "tm_mon t < 12"
    and "1 \<le> tm_mday t" and "tm_mday t \<le> 31" and "0 \<le> tm_hour t" and "tm_hour t < 24" and "0 \<le> tm_min t" and "tm_min t < 60"
    and "0 \<le> tm_sec t" and "tm_sec t < 60"
  shows "length (format_tm t) = 17" and "read_tm (format_tm t @ rest) = t\<lparr>tm_isdst := False\<rparr>"
proof -
  note f = padded_field [where k = 2, simplified]
  note y = show_year [OF assms(1,2)]
  let ?p = "\<lambda>n. pad_left (CHR ''0'') 2 (show_int n)"
  have l: "length (?p (tm_mon t + 1)) = 2" "length (?p (tm_mday t)) = 2" "length (?p (tm_hour t)) = 2" "length (?p (tm_min t)) = 2"
    "length (?p (tm_sec t)) = 2" using assms by (simp_all add: f)
  have v: "int (nat_of_digits (?p (tm_mon t + 1))) = tm_mon t + 1" "int (nat_of_digits (?p (tm_mday t))) = tm_mday t"
    "int (nat_of_digits (?p (tm_hour t))) = tm_hour t" "int (nat_of_digits (?p (tm_min t))) = tm_min t"
    "int (nat_of_digits (?p (tm_sec t))) = tm_sec t" using assms by (simp_all add: f)
  show "length (format_tm t) = 17" by (simp add: format_tm_def y l)
  show "read_tm (format_tm t @ rest) = t\<lparr>tm_isdst := False\<rparr>"
    by (cases t) (use y l v in \<open>simp add: read_tm_def field_def format_tm_def\<close>)
qed

lemma gmtime_ranges:
  assumes "0 \<le> s"
  shows "1970 \<le> tm_year (gmtime s) + 1900" and "0 \<le> tm_mon (gmtime s)" and "tm_mon (gmtime s) < 12"
    and "1 \<le> tm_mday (gmtime s)" and "tm_mday (gmtime s) \<le> 31" and "0 \<le> tm_hour (gmtime s)" and "tm_hour (gmtime s) < 24"
    and "0 \<le> tm_min (gmtime s)" and "tm_min (gmtime s) < 60" and "0 \<le> tm_sec (gmtime s)" and "tm_sec (gmtime s) < 60"
    and "\<not> tm_isdst (gmtime s)"
proof -
  have "epoch_day \<le> epoch_day + s div 86400" using assms by simp
  note j = jdn_getYearMonthDay [OF this]
  have dim: "days_in_month y m \<le> 31" for y m by (simp add: days_in_month_def)
  show "1970 \<le> tm_year (gmtime s) + 1900" "0 \<le> tm_mon (gmtime s)" "tm_mon (gmtime s) < 12" "1 \<le> tm_mday (gmtime s)"
    using j by (simp_all add: gmtime_def Let_def valid_date_def)
  show "tm_mday (gmtime s) \<le> 31" using j(1) order_trans [OF _ dim] by (auto simp: gmtime_def Let_def valid_date_def)
  show "0 \<le> tm_hour (gmtime s)" "0 \<le> tm_min (gmtime s)" "0 \<le> tm_sec (gmtime s)" "tm_sec (gmtime s) < 60" "\<not> tm_isdst (gmtime s)"
    by (simp_all add: gmtime_def Let_def)
  have "s mod 86400 < 24 * 3600" "s mod 86400 mod 3600 < 60 * 60" by simp_all
  then show "tm_hour (gmtime s) < 24" "tm_min (gmtime s) < 60" by (simp_all add: gmtime_def Let_def)
qed

lemma formatted_parts:
  assumes "0 \<le> us" and "tm_year (gmtime (secondsSinceEpoch us)) + 1900 \<le> 9999"
  defines "s \<equiv> us div kMicroSecondsPerSecond" and "m \<equiv> us mod kMicroSecondsPerSecond"
  shows "toFormattedString True us = format_tm (gmtime s) @ ''.'' @ pad_left (CHR ''0'') 6 (show_int m)"
    and "toFormattedString False us = format_tm (gmtime s)"
    and "0 \<le> s" and "0 \<le> m" and "m < 10 ^ 6" and "length (format_tm (gmtime s)) = 17"
    and "read_tm (format_tm (gmtime s) @ rest) = (gmtime s)\<lparr>tm_isdst := False\<rparr>"
proof -
  show s: "0 \<le> s" and "0 \<le> m" and "m < 10 ^ 6" using assms(1) by (simp_all add: s_def m_def kMicroSecondsPerSecond_def)
  show "toFormattedString True us = format_tm (gmtime s) @ ''.'' @ pad_left (CHR ''0'') 6 (show_int m)"
    and "toFormattedString False us = format_tm (gmtime s)" by (simp_all add: toFormattedString_def Let_def s_def m_def)
  show "length (format_tm (gmtime s)) = 17" and "read_tm (format_tm (gmtime s) @ rest) = (gmtime s)\<lparr>tm_isdst := False\<rparr>"
    using read_format_tm [of "gmtime s"] gmtime_ranges [OF s] assms(2) by (simp_all add: secondsSinceEpoch_def s_def)
qed

lemma formatted_length:
  assumes "0 \<le> us" and "tm_year (gmtime (secondsSinceEpoch us)) + 1900 \<le> 9999"
  shows "length (toFormattedString True us) = 24" and "length (toFormattedString False us) = 17"
  using formatted_parts [OF assms] padded_field(1) [of "us mod kMicroSecondsPerSecond" 6] by simp_all

text \<open>
  C39: A formatted time stamp has 24 characters up to the year 9999, and its fields read back, through the calendar,
  to the very microsecond; without microseconds it has 17 and reads back to the second.
\<close>

theorem timestamp_format_roundtrip:
  assumes "0 \<le> us" and "tm_year (gmtime (secondsSinceEpoch us)) + 1900 \<le> 9999"
  shows "length (toFormattedString True us) = 24 \<and> length (toFormattedString False us) = 17
    \<and> fromUnixTime (timegm (read_tm (toFormattedString True us))) (field 18 6 (toFormattedString True us)) = us
    \<and> timegm (read_tm (toFormattedString False us)) = secondsSinceEpoch us"
proof -
  let ?s = "us div kMicroSecondsPerSecond" and ?m = "us mod kMicroSecondsPerSecond"
  note p = formatted_parts [OF assms]
  have "field 18 6 (toFormattedString True us) = ?m"
    unfolding p(1) using padded_field [OF p(4,5)] p(6) by (simp add: field_def)
  moreover have "timegm (read_tm (toFormattedString True us)) = ?s" "timegm (read_tm (toFormattedString False us)) = ?s"
    using p(7) [of "[]"] unfolding p(1,2) by (simp_all only: p(7) timegm_isdst timegm_gmtime [OF p(3)] append_Nil2)
  moreover have "?s * kMicroSecondsPerSecond + ?m = us" by (rule div_mult_mod_eq)
  ultimately show ?thesis
    using formatted_length [OF assms] by (simp only: fromUnixTime_def secondsSinceEpoch_def simp_thms)
qed

theorem timestamp_format_roundtrip_witness:
  "length (toFormattedString True 0) = 24 \<and> timegm (read_tm (toFormattedString False 0)) = 0"
proof -
  have "valid_date 1970 1 1" "getJulianDayNumber 1970 1 1 = epoch_day"
    by (simp_all add: valid_date_def days_in_month_def getJulianDayNumber_def epoch_day_def)
  then have "getYearMonthDay epoch_day = \<lparr>ymd_year = 1970, ymd_month = 1, ymd_day = 1\<rparr>"
    using getYearMonthDay_jdn [of 1970 1 1] by simp
  then have y: "tm_year (gmtime 0) + 1900 \<le> 9999" by (simp add: gmtime_def Let_def)
  have z: "secondsSinceEpoch 0 = 0" by (simp add: secondsSinceEpoch_def)
  from timestamp_format_roundtrip [of 0, unfolded z, OF order_refl y] show ?thesis by blast
qed

end
