(* ===== verification/Logger.thy ===== *)
theory Logger
  imports LogStream Times
begin

text \<open>
  \<open>base/Logging.h\<close> and \<open>base/Logging.cc\<close>: one log message, from the macro to the text that is handed to the output
  function. The clock, \<open>errno\<close> and the text of \<open>strerror_r\<close> are arguments; the per-thread cache of the
  formatted second is explicit.
\<close>

section \<open>Levels\<close>

datatype log_level = TRACE | DEBUG | INFO | WARN | ERROR | FATAL

fun level_number :: "log_level \<Rightarrow> nat" where
  "level_number TRACE = 0"
| "level_number DEBUG = 1"
| "level_number INFO = 2"
| "level_number WARN = 3"
| "level_number ERROR = 4"
| "level_number FATAL = 5"

lemma level_number_inject: "level_number a = level_number b \<Longrightarrow> a = b"
  by (cases a; cases b) simp_all

instantiation log_level :: linorder
begin

definition less_eq_log_level :: "log_level \<Rightarrow> log_level \<Rightarrow> bool" where
  "less_eq_log_level a b \<longleftrightarrow> level_number a \<le> level_number b"

definition less_log_level :: "log_level \<Rightarrow> log_level \<Rightarrow> bool" where
  "less_log_level a b \<longleftrightarrow> level_number a < level_number b"

instance
  by standard (auto simp: less_eq_log_level_def less_log_level_def intro: level_number_inject)

end

fun LogLevelName :: "log_level \<Rightarrow> string" where
  "LogLevelName TRACE = ''TRACE ''"
| "LogLevelName DEBUG = ''DEBUG ''"
| "LogLevelName INFO = ''INFO  ''"
| "LogLevelName WARN = ''WARN  ''"
| "LogLevelName ERROR = ''ERROR ''"
| "LogLevelName FATAL = ''FATAL ''"

section \<open>One message\<close>

definition SourceFile :: "string \<Rightarrow> string" where
  "SourceFile filename = rev (takeWhile (\<lambda>c. c \<noteq> CHR ''/'') (rev filename))"

record time_cache =
  t_time :: string
  t_lastSecond :: int

text \<open>What \<open>formatTime\<close> streams, and the cache after it; the assertion on the printed length can fail.\<close>

definition formatTime :: "int \<Rightarrow> time_cache \<Rightarrow> (log_item list \<times> time_cache) checked" where
  "formatTime us c =
     (let seconds = us div kMicroSecondsPerSecond;
          microseconds = us mod kMicroSecondsPerSecond;
          c1 = (if seconds \<noteq> t_lastSecond c
                then \<lparr>t_time = format_tm (gmtime seconds), t_lastSecond = seconds\<rparr> else c);
          buf = ''.'' @ pad_left (CHR ''0'') 6 (show_int microseconds) @ '' ''
      in if seconds \<noteq> t_lastSecond c \<and> length (t_time c1) \<noteq> 17 then None
         else Some ([LCString (Some (t_time c1)), LCString (Some buf)], c1))"

text \<open>The constructors that the macros use; the last one is \<open>LOG_SYSERR\<close> and \<open>LOG_SYSFATAL\<close>, with \<open>errno\<close> and its text.\<close>

datatype log_macro = Log_func log_level string | Log_plain log_level | Log_sys bool int string

fun macro_level :: "log_macro \<Rightarrow> log_level" where
  "macro_level (Log_func level func) = level"
| "macro_level (Log_plain level) = level"
| "macro_level (Log_sys toAbort savedErrno msg) = (if toAbort then FATAL else ERROR)"

fun macro_head :: "log_macro \<Rightarrow> log_item list" where
  "macro_head (Log_func level func) = [LCString (Some func), LChar (CHR '' '')]"
| "macro_head (Log_plain level) = []"
| "macro_head (Log_sys toAbort savedErrno msg) =
     (if savedErrno \<noteq> 0 then [LCString (Some msg), LCString (Some '' (errno=''), LInteger savedErrno, LCString (Some '') '')] else [])"

text \<open>The macros below \<open>WARN\<close> check the level first.\<close>

definition log_enabled :: "log_level \<Rightarrow> log_macro \<Rightarrow> bool" where
  "log_enabled g_logLevel m \<longleftrightarrow> (macro_level m \<le> INFO \<longrightarrow> g_logLevel \<le> macro_level m)"

definition finish :: "string \<Rightarrow> int \<Rightarrow> log_item list" where
  "finish path line = [LCString (Some '' - ''), LCString (Some (SourceFile path)), LChar (CHR '':''), LInteger line, LChar (CHR 0x0A)]"

text \<open>
  A whole statement: the text given to \<open>g_output\<close>, if the level is enabled, whether the process aborts then, and the
  cache.
\<close>

definition log_statement ::
  "log_level \<Rightarrow> log_macro \<Rightarrow> string \<Rightarrow> int \<Rightarrow> log_item list \<Rightarrow> int \<Rightarrow> time_cache \<Rightarrow> (string option \<times> bool \<times> time_cache) checked" where
  "log_statement g_logLevel m path line items us c =
     (if \<not> log_enabled g_logLevel m then Some (None, False, c)
      else do {
        (time, c1) \<leftarrow> formatTime us c;
        let b = stream_all (time @ LCString (Some (LogLevelName (macro_level m))) # macro_head m @ items @ finish path line)
                  (new_fixed_buffer kSmallBuffer);
        Some (Some (fb_data b), macro_level m = FATAL, c1) })"

section \<open>What is logged\<close>

definition cache_ok :: "time_cache \<Rightarrow> bool" where
  "cache_ok c \<longleftrightarrow> 0 \<le> t_lastSecond c \<and> (t_lastSecond c \<noteq> 0 \<longrightarrow> t_time c = format_tm (gmtime (t_lastSecond c)))"

definition new_cache :: time_cache where
  "new_cache = \<lparr>t_time = [], t_lastSecond = 0\<rparr>"

lemma cache_ok_new: "cache_ok new_cache"
  by (simp add: cache_ok_def new_cache_def)

lemma formatTime_ok:
  assumes "cache_ok c" and "kMicroSecondsPerSecond \<le> us" and "tm_year (gmtime (secondsSinceEpoch us)) + 1900 \<le> 9999"
  shows "\<exists>c'. formatTime us c = Some ([LCString (Some (toFormattedString False us)),
      LCString (Some (''.'' @ pad_left (CHR ''0'') 6 (show_int (us mod kMicroSecondsPerSecond)) @ '' ''))], c') \<and> cache_ok c'"
proof -
  let ?s = "us div kMicroSecondsPerSecond"
  have k: "0 < kMicroSecondsPerSecond" by (simp add: kMicroSecondsPerSecond_def)
  then have s: "0 < ?s" using assms(2) by (simp add: pos_imp_zdiv_pos_iff)
  have "length (format_tm (gmtime ?s)) = 17"
    using read_format_tm(1) [of "gmtime ?s"] gmtime_ranges [of ?s] s assms(3) by (simp add: secondsSinceEpoch_def)
  moreover have "toFormattedString False us = format_tm (gmtime ?s)" by (simp add: toFormattedString_def)
  ultimately show ?thesis using assms(1) s by (auto simp: formatTime_def cache_ok_def Let_def)
qed

lemma macro_head_ok: "(\<And>a e s. m = Log_sys a e s \<Longrightarrow> - (2 ^ 31) \<le> e \<and> e < 2 ^ 31) \<Longrightarrow> \<forall>i \<in> set (macro_head m). item_ok i"
  by (cases m) force+

text \<open>
  C38: An enabled log statement hands one complete line to the output, if it fits: the time to the microsecond, the
  level, the system error of the two system macros, the function of the tracing ones, the message, and the
  file without its directories with the line. The cached text of the second never shows another second,
  and the assertion on it holds up to the year 9999; only the fatal levels abort, after the output.
\<close>

theorem log_statement_line:
  fixes path :: string
  assumes "cache_ok c" and "kMicroSecondsPerSecond \<le> us" and "tm_year (gmtime (secondsSinceEpoch us)) + 1900 \<le> 9999"
    and "log_enabled g m" and "\<forall>i \<in> set items. item_ok i" and "- (2 ^ 31) \<le> line" and "line < 2 ^ 31"
    and "\<And>a e s. m = Log_sys a e s \<Longrightarrow> - (2 ^ 31) \<le> e \<and> e < 2 ^ 31"
  defines "whole \<equiv> toFormattedString True us @ '' '' @ LogLevelName (macro_level m) @ concat (map item_text (macro_head m))
      @ concat (map item_text items) @ '' - '' @ SourceFile path @ '':'' @ show_int line @ [CHR 0x0A]"
  assumes "length whole + 48 \<le> kSmallBuffer"
  shows "\<exists>c'. log_statement g m path line items us c = Some (Some whole, macro_level m = FATAL, c') \<and> cache_ok c'"
proof -
  obtain c' where f: "formatTime us c = Some ([LCString (Some (toFormattedString False us)),
      LCString (Some (''.'' @ pad_left (CHR ''0'') 6 (show_int (us mod kMicroSecondsPerSecond)) @ '' ''))], c')" "cache_ok c'"
    using formatTime_ok [OF assms(1-3)] by blast
  let ?is = "[LCString (Some (toFormattedString False us)),
      LCString (Some (''.'' @ pad_left (CHR ''0'') 6 (show_int (us mod kMicroSecondsPerSecond)) @ '' ''))]
      @ LCString (Some (LogLevelName (macro_level m))) # macro_head m @ items @ finish path line"
  let ?b = "new_fixed_buffer kSmallBuffer"
  have t: "concat (map item_text ?is) = whole"
    by (simp add: whole_def finish_def toFormattedString_def Let_def)
  have "\<forall>i \<in> set ?is. item_ok i" using assms(5-7) macro_head_ok [OF assms(8)] by (auto simp: finish_def)
  moreover have "fb_length ?b < fb_size ?b" "fb_data ?b = []" "fb_length ?b = 0" "fb_size ?b = kSmallBuffer"
    by (simp_all add: new_fixed_buffer_def fb_length_def kSmallBuffer_def)
  moreover have "fb_length ?b + length (concat (map item_text ?is)) + 48 \<le> fb_size ?b"
    unfolding t using assms(10) \<open>fb_length ?b = 0\<close> \<open>fb_size ?b = kSmallBuffer\<close> by simp
  ultimately have "fb_data (stream_all ?is ?b) = concat (map item_text ?is)"
    using log_line_complete [of ?is ?b] by simp
  then have "fb_data (stream_all ?is ?b) = whole" unfolding t .
  with f assms(4) show ?thesis by (simp add: log_statement_def Let_def)
qed

theorem log_statement_line_witness:
  "\<exists>c'. log_statement INFO (Log_plain WARN) ''net/Poller.cc'' 7 [LCString (Some ''low'')] kMicroSecondsPerSecond new_cache
     = Some (Some (toFormattedString True kMicroSecondsPerSecond @ '' WARN  low - Poller.cc:'' @ show_int 7 @ [CHR 0x0A]), False, c')"
proof -
  have "valid_date 1970 1 1" "getJulianDayNumber 1970 1 1 = epoch_day"
    by (simp_all add: valid_date_def days_in_month_def getJulianDayNumber_def epoch_day_def)
  then have "getYearMonthDay epoch_day = \<lparr>ymd_year = 1970, ymd_month = 1, ymd_day = 1\<rparr>"
    using getYearMonthDay_jdn [of 1970 1 1] by simp
  then have y: "tm_year (gmtime (secondsSinceEpoch kMicroSecondsPerSecond)) + 1900 \<le> 9999"
    by (simp add: gmtime_def Let_def secondsSinceEpoch_def kMicroSecondsPerSecond_def)
  have "kMicroSecondsPerSecond \<ge> 0" by (simp add: kMicroSecondsPerSecond_def)
  from formatted_length(1) [OF this y] have l: "length (toFormattedString True kMicroSecondsPerSecond) = 24" .
  have n: "length (show_int 7) < 48" by (rule item_numeric_length) simp
  have f: "SourceFile ''net/Poller.cc'' = ''Poller.cc''" by code_simp
  have e: "log_enabled INFO (Log_plain WARN)" by (simp add: log_enabled_def less_eq_log_level_def)
  from log_statement_line [OF cache_ok_new order_refl y e, of "[LCString (Some ''low'')]" 7 "''net/Poller.cc''"] l n
  show ?thesis by (auto simp: f kSmallBuffer_def)
qed

end
