(* ===== verification/ProcFiles.thy ===== *)
theory ProcFiles
  imports HttpParse
begin

text \<open>
  Reading small files (\<open>FileUtil::ReadSmallFile\<close>, \<open>FileUtil::readFile\<close>) and what \<open>base/ProcessInfo.cc\<close> extracts from the
  files of \<open>/proc\<close>. The text of the file is an argument, with the outcomes of the calls of \<open>read\<close>: an
  error number, or how much a call may return at most; once they are used up a call returns all it can. A
  call before the end of the file returns at least one byte.
\<close>

section \<open>Reading a file\<close>

definition read_buffer_size :: nat where
  "read_buffer_size = 64 * 1024"

definition read_call :: "(int + nat) list \<Rightarrow> nat \<Rightarrow> int + nat" where
  "read_call outcomes most =
     (case outcomes of [] \<Rightarrow> Inr most | r # _ \<Rightarrow> (case r of Inl e \<Rightarrow> Inl e | Inr k \<Rightarrow> Inr (min (max 1 k) most)))"

lemma read_call_most: "read_call outcomes most = Inr n \<Longrightarrow> n \<le> most \<and> (0 < most \<longrightarrow> 0 < n)"
  by (auto simp: read_call_def split: list.splits sum.splits)

function read_loop :: "(int + nat) list \<Rightarrow> string \<Rightarrow> nat \<Rightarrow> string \<Rightarrow> int \<Rightarrow> string \<times> int" where
  "read_loop outcomes rest maxSize content err =
     (if length content < maxSize
      then let toRead = min (maxSize - length content) read_buffer_size
           in case read_call outcomes (min toRead (length rest)) of
                Inl e \<Rightarrow> (content, e)
              | Inr n \<Rightarrow> if n > 0 then read_loop (tl outcomes) (drop n rest) maxSize (content @ take n rest) err
                         else (content, err)
      else (content, err))"
  by pat_completeness auto
termination
proof (relation "measure (\<lambda>(outcomes, rest, maxSize, content, err). length rest)")
  fix outcomes rest maxSize content and err :: int and toRead n
  assume "read_call outcomes (min toRead (length rest)) = Inr n" and "0 < n"
  then have "n \<le> length rest" using read_call_most [of outcomes "min toRead (length rest)" n] by simp
  with \<open>0 < n\<close> show "((tl outcomes, drop n rest, maxSize, content @ take n rest, err), outcomes, rest, maxSize, content, err)
      \<in> measure (\<lambda>(outcomes, rest, maxSize, content, err). length rest)" by simp
qed simp

declare read_loop.simps [simp del]

text \<open>
  \<open>readToString\<close>: which of the optional results are asked for, the outcome of \<open>open\<close>, of \<open>fstat\<close> and of the reads.
  Results that are not stored are \<^term>\<open>None\<close>; a directory is \<open>EISDIR\<close>, and the reads go on.
\<close>

datatype file_kind = Regular_file | Directory | Other_file

record file_stat =
  st_kind :: file_kind
  st_size :: int
  st_mtime :: int
  st_ctime :: int

record read_result =
  rr_err :: int
  rr_content :: string
  rr_fileSize :: "int option"
  rr_modifyTime :: "int option"
  rr_createTime :: "int option"

definition EISDIR :: int where
  "EISDIR = 21"

definition readToString ::
  "bool \<Rightarrow> bool \<Rightarrow> bool \<Rightarrow> (int + string) \<Rightarrow> (int + file_stat) \<Rightarrow> (int + nat) list \<Rightarrow> nat \<Rightarrow> string \<Rightarrow> read_result" where
  "readToString fileSize modifyTime createTime opened statbuf outcomes maxSize content =
     (case opened of
        Inl err_ \<Rightarrow> \<lparr>rr_err = err_, rr_content = content, rr_fileSize = None, rr_modifyTime = None, rr_createTime = None\<rparr>
      | Inr contents \<Rightarrow>
          (let (err, size, mtime, ctime) =
                 (if fileSize
                  then (case statbuf of
                          Inr st \<Rightarrow> (if st_kind st = Directory then EISDIR else 0,
                                    if st_kind st = Regular_file then Some (st_size st) else None,
                                    if modifyTime then Some (st_mtime st) else None,
                                    if createTime then Some (st_ctime st) else None)
                        | Inl e \<Rightarrow> (e, None, None, None))
                  else (0, None, None, None));
               (content', err') = read_loop outcomes contents maxSize [] err
           in \<lparr>rr_err = err', rr_content = content', rr_fileSize = size, rr_modifyTime = mtime, rr_createTime = ctime\<rparr>))"

definition readFile :: "(int + string) \<Rightarrow> (int + nat) list \<Rightarrow> nat \<Rightarrow> string \<Rightarrow> bool \<times> string" where
  "readFile opened outcomes sizeLimit content =
     (let r = readToString False False False opened (Inl 0) outcomes sizeLimit content in (rr_err r = 0, rr_content r))"

text \<open>\<open>readToBuffer\<close>: the error number and the bytes stored in the buffer, with the zero that is written when there is room.\<close>

definition readToBuffer :: "(int + string) \<Rightarrow> (int + nat) \<Rightarrow> nat \<Rightarrow> int \<times> string" where
  "readToBuffer opened outcome bufsize =
     (case opened of
        Inl err \<Rightarrow> (err, [])
      | Inr txt \<Rightarrow>
          (case outcome of
             Inl err \<Rightarrow> (err, [])
           | Inr k \<Rightarrow> (let n = min k (min bufsize (length txt))
                       in (0, take n txt @ (if n < bufsize then [CHR 0x00] else [])))))"

definition no_read_errors :: "(int + nat) list \<Rightarrow> bool" where
  "no_read_errors outcomes \<longleftrightarrow> list_all (\<lambda>r. \<not> isl r) outcomes"

lemma read_call_ok: "no_read_errors outcomes \<Longrightarrow> \<exists>n. read_call outcomes most = Inr n"
  by (cases outcomes; cases "hd outcomes") (auto simp: read_call_def no_read_errors_def)

lemma read_loop_all:
  "no_read_errors outcomes \<Longrightarrow> read_loop outcomes rest maxSize content err = (content @ take (maxSize - length content) rest, err)"
proof (induction outcomes rest maxSize content err rule: read_loop.induct)
  case (1 outcomes rest maxSize content err)
  let ?most = "min (min (maxSize - length content) read_buffer_size) (length rest)"
  show ?case
  proof (cases "length content < maxSize")
    case room: True
    from read_call_ok [OF "1.prems"] obtain n where n: "read_call outcomes ?most = Inr n" by blast
    have b: "n \<le> ?most" "rest \<noteq> [] \<longrightarrow> 0 < n"
      using read_call_most [OF n] room by (auto simp: read_buffer_size_def)
    have step: "read_loop outcomes rest maxSize content err =
        (if n > 0 then read_loop (tl outcomes) (drop n rest) maxSize (content @ take n rest) err else (content, err))"
      using room n by (subst read_loop.simps) (simp add: Let_def)
    show ?thesis
    proof (cases "n > 0")
      case True
      have "no_read_errors (tl outcomes)" using "1.prems" by (cases outcomes) (auto simp: no_read_errors_def)
      from "1.IH" [OF room refl n True this] step True b(1)
      have "read_loop outcomes rest maxSize content err =
          (content @ take n rest @ take (maxSize - (length content + n)) (drop n rest), err)" by (simp add: min_absorb2)
      moreover have "take n rest @ take (maxSize - (length content + n)) (drop n rest) = take (maxSize - length content) rest"
      proof -
        have "n \<le> maxSize - length content" using b(1) by simp
        then have "n + (maxSize - (length content + n)) = maxSize - length content" by linarith
        then show ?thesis using take_add [of n "maxSize - (length content + n)" rest] by simp
      qed
      ultimately show ?thesis by simp
    next
      case False
      with b(2) step show ?thesis by simp
    qed
  qed (subst read_loop.simps, simp)
qed

section \<open>Process information\<close>

definition rfind_char :: "char \<Rightarrow> string \<Rightarrow> nat option" where
  "rfind_char c s = map_option (\<lambda>i. length s - Suc i) (find_char c (rev s))"

definition procname :: "string \<Rightarrow> string" where
  "procname stat =
     (case (find_char (CHR ''('') stat, rfind_char (CHR '')'') stat) of
        (Some lp, Some rp) \<Rightarrow> if lp < rp then take (rp - lp - 1) (drop (lp + 1) stat) else []
      | _ \<Rightarrow> [])"

definition numThreads :: "string \<Rightarrow> int" where
  "numThreads status =
     (case find_sub ''Threads:'' status of
        Some pos \<Rightarrow> atoi (drop (pos + 8) status)
      | None \<Rightarrow> 0)"

text \<open>The entries of a directory whose names start with a digit, counted or sorted.\<close>

definition openedFiles :: "string list \<Rightarrow> nat" where
  "openedFiles names = length (filter (\<lambda>d. d \<noteq> [] \<and> is_digit (hd d)) names)"

definition threads :: "string list \<Rightarrow> int list" where
  "threads names = sort (map atoi (filter (\<lambda>d. d \<noteq> [] \<and> is_digit (hd d)) names))"

definition maxOpenFiles :: "int option \<Rightarrow> string list \<Rightarrow> int" where
  "maxOpenFiles limit names = (case limit of None \<Rightarrow> int (openedFiles names) | Some rlim \<Rightarrow> int32_cast rlim)"

definition hostname :: "string option \<Rightarrow> string" where
  "hostname buf = (case buf of Some name \<Rightarrow> c_str (take 255 name) | None \<Rightarrow> ''unknownhost'')"

text \<open>
  A name in \<open>/proc/self/stat\<close> is found whatever it contains, parentheses too, because what follows it has none.
\<close>

lemma procname_exact:
  assumes "CHR ''('' \<notin> set pid" and "CHR '')'' \<notin> set rest"
  shows "procname (pid @ ''('' @ name @ '')'' @ rest) = name"
proof -
  have "find_char (CHR '')'') (rev (pid @ ''('' @ name @ '')'' @ rest)) = Some (length rest)"
    using assms(2) find_char_append [of "CHR '')''" "rev rest" "rev name @ ''('' @ rev pid"] by simp
  then have "rfind_char (CHR '')'') (pid @ ''('' @ name @ '')'' @ rest) = Some (length pid + 1 + length name)"
    by (simp add: rfind_char_def)
  moreover have "find_char (CHR ''('') (pid @ ''('' @ name @ '')'' @ rest) = Some (length pid)"
    using assms(1) find_char_append [of "CHR ''(''" pid "name @ '')'' @ rest"] by simp
  ultimately show ?thesis by (simp add: procname_def)
qed

lemma numThreads_exact:
  assumes "n < 2 ^ 31" and "find_sub ''Threads:'' status = Some pos"
    and "drop (pos + 8) status = CHR 0x09 # show_nat n @ CHR 0x0A # rest"
  shows "numThreads status = int n"
proof -
  have "atoi (CHR 0x09 # s) = atoi s" for s by (simp add: atoi_def is_space_def)
  moreover have "atoi (show_nat n @ CHR 0x0A # rest) = int32_cast (int n)"
    using assms(1) atoi_digits_cast [of "CHR 0x0A" n rest] by (simp add: is_digit_def)
  ultimately show ?thesis using assms by (simp add: numThreads_def int32_cast_small)
qed

text \<open>Of a regular file the size is reported too, and a directory is refused only by its error number.\<close>

lemma read_to_string_stat:
  assumes "no_read_errors outcomes"
  shows "readToString True m c (Inr contents) (Inr st) outcomes maxSize old =
    \<lparr>rr_err = (if st_kind st = Directory then EISDIR else 0), rr_content = take maxSize contents,
     rr_fileSize = (if st_kind st = Regular_file then Some (st_size st) else None),
     rr_modifyTime = (if m then Some (st_mtime st) else None), rr_createTime = (if c then Some (st_ctime st) else None)\<rparr>"
  using assms by (simp add: readToString_def read_loop_all Let_def)

text \<open>
  Reading a file gives its first \<open>maxSize\<close> bytes however the calls of \<open>read\<close> cut it, so a name in the
  first bytes of \<open>/proc/self/stat\<close> is what \<open>procname\<close> returns for it.
\<close>

lemma read_file_exact:
  assumes "no_read_errors outcomes"
  shows "readFile (Inr contents) outcomes limit old = (True, take limit contents)"
  using assms by (simp add: readFile_def readToString_def read_loop_all)

lemma read_procname:
  assumes "no_read_errors outcomes" and "CHR ''('' \<notin> set pid" and "CHR '')'' \<notin> set rest"
    and "length (pid @ ''('' @ name @ '')'' @ rest) \<le> 1024 * 1024"
  shows "procname (snd (readFile (Inr (pid @ ''('' @ name @ '')'' @ rest)) outcomes (1024 * 1024) [])) = name"
  using assms procname_exact [OF assms(2,3)] by (simp add: read_file_exact)

section \<open>The calls that read the files themselves\<close>

text \<open>
  The files below \<open>/proc\<close>: what \<open>open\<close> gives for a path, with the outcomes of the reads. \<open>FileUtil::readFile\<close> is called with the
  limit of its default argument, one megabyte; its error is dropped.
\<close>

type_synonym proc_fs = "string \<Rightarrow> (int + string) \<times> (int + nat) list"

definition read_proc :: "proc_fs \<Rightarrow> string \<Rightarrow> string" where
  "read_proc fs path = (case fs path of (opened, outcomes) \<Rightarrow> snd (readFile opened outcomes (1024 * 1024) []))"

definition procStatus :: "proc_fs \<Rightarrow> string" where
  "procStatus fs = read_proc fs ''/proc/self/status''"

definition procStat :: "proc_fs \<Rightarrow> string" where
  "procStat fs = read_proc fs ''/proc/self/stat''"

definition own_procname :: "proc_fs \<Rightarrow> string" where
  "own_procname fs = procname (procStat fs)"

definition threadStat_path :: "int \<Rightarrow> string" where
  "threadStat_path tid = take 63 (''/proc/self/task/'' @ show_int tid @ ''/stat'')"

definition threadStat :: "proc_fs \<Rightarrow> int \<Rightarrow> string" where
  "threadStat fs tid = read_proc fs (threadStat_path tid)"

text \<open>\<open>readlink\<close> fills at most 1024 bytes and does not end them with a zero.\<close>

definition exePath :: "string option \<Rightarrow> string" where
  "exePath target = (case target of None \<Rightarrow> [] | Some path \<Rightarrow> take 1024 path)"

definition pidString :: "int \<Rightarrow> string" where
  "pidString pid = take 31 (show_int pid)"

definition username :: "string option \<Rightarrow> string" where
  "username pw = (case pw of Some name \<Rightarrow> name | None \<Rightarrow> ''unknownuser'')"

text \<open>\<open>scandir\<close> calls the filter on every entry; the filters return 0, so nothing is kept and they work by their effect.\<close>

definition fdDirFilter :: "string \<Rightarrow> nat \<Rightarrow> nat" where
  "fdDirFilter d_name t_numOpenedFiles =
     (if d_name \<noteq> [] \<and> is_digit (hd d_name) then t_numOpenedFiles + 1 else t_numOpenedFiles)"

definition taskDirFilter :: "string \<Rightarrow> int list \<Rightarrow> int list" where
  "taskDirFilter d_name t_pids = (if d_name \<noteq> [] \<and> is_digit (hd d_name) then t_pids @ [atoi d_name] else t_pids)"

fun scanDir :: "(string \<Rightarrow> 's \<Rightarrow> 's) \<Rightarrow> string list \<Rightarrow> 's \<Rightarrow> 's" where
  "scanDir flt [] st = st"
| "scanDir flt (d # ds) st = scanDir flt ds (flt d st)"

lemma scanDir_fd: "scanDir fdDirFilter names k = k + openedFiles names"
  by (induction names arbitrary: k) (simp_all add: openedFiles_def fdDirFilter_def)

lemma scanDir_task:
  "scanDir taskDirFilter names ps = ps @ map atoi (filter (\<lambda>d. d \<noteq> [] \<and> is_digit (hd d)) names)"
  by (induction names arbitrary: ps) (simp_all add: taskDirFilter_def)

text \<open>The scans with their filters give what \<open>openedFiles\<close> counts and \<open>threads\<close> sorts.\<close>

lemma scans:
  "scanDir fdDirFilter names 0 = openedFiles names" "sort (scanDir taskDirFilter names []) = threads names"
  by (simp_all add: scanDir_fd scanDir_task threads_def)

text \<open>The path of a thread's file fits its buffer, and the name of the process is read back from its file.\<close>

lemma threadStat_path_whole:
  assumes "0 \<le> tid" and "tid < 2 ^ 31"
  shows "threadStat_path tid = ''/proc/self/task/'' @ show_int tid @ ''/stat''"
proof -
  have "nat tid < 10 ^ 10" using assms by simp
  then have "length (show_nat (nat tid)) \<le> 10" using length_show_nat_le [of 10 "nat tid"] by simp
  then show ?thesis using assms by (simp add: threadStat_path_def show_int_def)
qed

lemma own_procname_exact:
  assumes "fs ''/proc/self/stat'' = (Inr (pid @ ''('' @ name @ '')'' @ rest), outcomes)" and "no_read_errors outcomes"
    and "CHR ''('' \<notin> set pid" and "CHR '')'' \<notin> set rest" and "length (pid @ ''('' @ name @ '')'' @ rest) \<le> 1024 * 1024"
  shows "own_procname fs = name"
  using assms procname_exact [OF assms(3,4)] by (simp add: own_procname_def procStat_def read_proc_def read_file_exact)

end
