(* ===== verification/HttpTypes.thy ===== *)
theory HttpTypes
  imports HttpParse
begin

text \<open>
  The shape of what the parser leaves in \<open>HttpRequest\<close> and \<open>HttpContext\<close> (\<open>net/HttpContext.cc\<close>): a predicate
  on the context, and the contexts reachable from the constructor or \<open>reset\<close> by calls of \<open>parseRequest\<close> that do not report
  an error, whatever bytes arrive and however they are cut, and by what the handlers do to the context in between.
\<close>

section \<open>Well-formed requests and contexts\<close>

definition one_line :: "string \<Rightarrow> bool" where
  "one_line s \<longleftrightarrow> find_sub CRLF s = None"

definition target_typed :: "http_request \<Rightarrow> bool" where
  "target_typed r \<longleftrightarrow> CHR '' '' \<notin> set (rq_path r) \<and> CHR ''?'' \<notin> set (rq_path r) \<and> one_line (rq_path r)
     \<and> CHR '' '' \<notin> set (rq_query r) \<and> one_line (rq_query r) \<and> (rq_query r = [] \<or> hd (rq_query r) = CHR ''?'')"

definition headers_typed :: "http_request \<Rightarrow> bool" where
  "headers_typed r \<longleftrightarrow> (\<forall>f v. rq_headers r f = Some v \<longrightarrow>
     CHR '':'' \<notin> set f \<and> one_line f \<and> trimmed v \<and> one_line v)"

definition started_typed :: "http_request \<Rightarrow> bool" where
  "started_typed r \<longleftrightarrow> rq_method r \<noteq> kInvalid \<and> rq_version r \<noteq> kUnknown_version \<and> target_typed r"

text \<open>\<open>taken\<close> is the number of body bytes that a handler has already taken out of the request.\<close>

definition ctx_typed :: "nat \<Rightarrow> 'c http_context \<Rightarrow> bool" where
  "ctx_typed taken c \<longleftrightarrow> ctx_inv c \<and> headers_typed (hc_request c)
     \<and> length (rq_body (hc_request c)) + taken = hc_bodyReceived c
     \<and> (hc_isChunked c \<longrightarrow> hc_bodyReceived c = 0)
     \<and> (if hc_state c = kExpectRequestLine
        then rq_query (hc_request c) = [] \<and> rq_headers (hc_request c) = Map.empty \<and> hc_contentLength c = 0 \<and> \<not> hc_isChunked c
        else started_typed (hc_request c))
     \<and> (hc_state c = kGotAll \<longrightarrow> hc_bodyReceived c = hc_contentLength c \<and> \<not> hc_isChunked c)"

section \<open>Lines\<close>

lemma starts_with_longer: "starts_with p s \<Longrightarrow> starts_with p (s @ t)"
  by (induction p arbitrary: s) auto

lemma one_line_part:
  assumes "one_line (a @ t @ z)"
  shows "one_line t"
proof -
  have "\<not> starts_with CRLF (drop j t)" for j
  proof
    assume s: "starts_with CRLF (drop j t)"
    then have "j < length t" by (cases "j < length t") (simp_all add: CRLF_def)
    then have "drop (length a + j) (a @ t @ z) = drop j t @ z" by simp
    with starts_with_longer [OF s] assms show False unfolding one_line_def find_sub_None by metis
  qed
  then show ?thesis by (simp add: one_line_def find_sub_None)
qed

lemma one_line_take: "one_line s \<Longrightarrow> one_line (take n s)"
  using one_line_part [of "[]" "take n s" "drop n s"] by simp

lemma one_line_drop: "one_line s \<Longrightarrow> one_line (drop n s)"
  using one_line_part [of "take n s" "drop n s" "[]"] by simp

lemma one_line_dropWhile: "one_line s \<Longrightarrow> one_line (dropWhile P s)"
  using one_line_drop by (metis dropWhile_eq_drop)

lemma one_line_rtrim: "one_line s \<Longrightarrow> one_line (rtrim s)"
proof -
  have "rtrim s = take (length s - length (takeWhile is_space (rev s))) s"
    by (simp add: rtrim_def dropWhile_eq_drop drop_rev)
  then show "one_line s \<Longrightarrow> one_line (rtrim s)" by (simp add: one_line_take)
qed

lemmas one_line_parts = one_line_take one_line_drop one_line_dropWhile one_line_rtrim

lemma one_line_Nil [simp]: "one_line []"
  by (simp add: one_line_def CRLF_def)

lemma first_line:
  assumes "findCRLF b = Some i"
  shows "one_line (take i (peek b))"
  unfolding one_line_def find_sub_None
proof (intro allI notI)
  fix j assume j: "starts_with CRLF (drop j (take i (peek b)))"
  then have "j < i" by (cases "j < i") (auto simp: CRLF_def drop_take)
  then have "drop j (peek b) = drop j (take i (peek b)) @ drop i (peek b)"
    using append_take_drop_id [of "i - j" "drop j (peek b)"] by (simp add: drop_take)
  with starts_with_longer [OF j] \<open>j < i\<close> find_sub_Some(3) assms show False unfolding findCRLF_def by metis
qed

lemma trimmed_value: "trimmed (rtrim (dropWhile is_space s))"
proof (cases "dropWhile is_space s")
  case (Cons a t)
  then have a: "\<not> is_space a" using hd_dropWhile [of is_space s] by simp
  then have "rev (dropWhile is_space (rev t @ [a])) \<noteq> []" by (simp add: dropWhile_append)
  moreover have "hd (rev (dropWhile is_space (rev t @ [a]))) = a"
    using a by (simp add: hd_rev dropWhile_append)
  moreover have "\<not> is_space (hd (dropWhile is_space (rev t @ [a])))"
    by (rule hd_dropWhile) (use a in \<open>auto simp: dropWhile_eq_Nil_conv\<close>)
  ultimately show ?thesis using Cons a by (simp add: trimmed_def rtrim_def last_rev)
qed (simp only: trimmed_def rtrim_def, simp)

section \<open>The operations keep the shape\<close>

lemma ctx_typed_new: "ctx_typed 0 new_context"
  using ctx_inv_new by (simp add: ctx_typed_def headers_typed_def new_context_def new_request_def)

lemma ctx_typed_reset: "ctx_typed 0 (reset_context c)"
  using ctx_inv_reset [of c]
  by (simp add: ctx_typed_def headers_typed_def reset_context_def swap_request_def new_request_def)

lemma addHeader_typed:
  assumes "headers_typed r" and "one_line line" and "find_char CHR '':'' line = Some colon"
  shows "headers_typed (addHeader line colon r)"
  using assms find_char_Some [OF assms(3)]
  by (auto simp: headers_typed_def addHeader_def trimmed_value one_line_parts)

lemma addHeader_frame [simp]:
  "rq_body (addHeader line i r) = rq_body r" "started_typed (addHeader line i r) = started_typed r"
  by (simp_all add: addHeader_def started_typed_def target_typed_def)

text \<open>What holds while header lines are read.\<close>

definition in_headers :: "'c http_context \<Rightarrow> bool" where
  "in_headers c \<longleftrightarrow> headers_typed (hc_request c) \<and> started_typed (hc_request c) \<and> rq_body (hc_request c) = []
     \<and> hc_bodyReceived c = 0 \<and> hc_contentLength c < size_bound"

lemma header_effect_typed:
  assumes "in_headers c" and "findCRLF b = Some crlf" and "find_char CHR '':'' (take crlf (peek b)) = Some colon"
  shows "in_headers (header_effect b colon crlf c)"
  using assms addHeader_typed [OF _ first_line [OF assms(2)] assms(3)] header_effect_length [of c b colon crlf]
  by (auto simp: in_headers_def header_effect_def Let_def)

lemma processHeaders_typed:
  assumes "in_headers c" and "processHeaders c b = Some (c1, b1)"
  shows "in_headers c1"
  using assms
proof (induction c b rule: processHeaders.induct)
  case (1 c b)
  show ?case
  proof (cases "findCRLF b")
    case None
    with "1.prems" show ?thesis by (simp add: processHeaders.simps [of c b])
  next
    case (Some crlf)
    then obtain b' where b': "retrieveUntil (crlf + 2) b = Some b'"
      using "1.prems"(2) by (auto simp: processHeaders.simps [of c b] split: option.splits)
    show ?thesis
    proof (cases "find_char CHR '':'' (take crlf (peek b))")
      case None
      with Some b' "1.prems" show ?thesis by (auto simp: processHeaders.simps [of c b] in_headers_def)
    next
      case colon: (Some colon)
      from "1.prems"(2) Some colon b' have "processHeaders (header_effect b colon crlf c) b' = Some (c1, b1)"
        by (simp add: processHeaders.simps [of c b])
      with "1.IH" [OF Some colon b'] header_effect_typed [OF "1.prems"(1) Some colon] show ?thesis by blast
    qed
  qed
qed

definition target_of :: "string \<Rightarrow> http_request \<Rightarrow> http_request" where
  "target_of url r = (case find_char CHR ''?'' url of
      Some q \<Rightarrow> r\<lparr>rq_path := take q url, rq_query := drop q url\<rparr> | None \<Rightarrow> r\<lparr>rq_path := url\<rparr>)"

lemma target_of_typed:
  assumes "CHR '' '' \<notin> set url" and "one_line url" and "rq_query r = []"
  shows "target_typed (target_of url r)"
proof (cases "find_char CHR ''?'' url")
  case None
  then have "CHR ''?'' \<notin> set url" by (simp add: find_char_None)
  with None assms show ?thesis by (simp add: target_of_def target_typed_def)
next
  case (Some q)
  then have "drop q url \<noteq> []" "hd (drop q url) = CHR ''?''" using find_char_Some [OF Some] by (simp_all add: hd_drop_conv_nth)
  with Some assms find_char_Some [OF Some] show ?thesis
    by (auto simp: target_of_def target_typed_def one_line_parts dest: in_set_takeD in_set_dropD)
qed

lemma target_of_frame [simp]:
  "rq_method (target_of url r) = rq_method r" "rq_headers (target_of url r) = rq_headers r"
  "rq_body (target_of url r) = rq_body r"
  by (simp_all add: target_of_def split: option.splits)

lemma processRequestLine_typed:
  assumes "processRequestLine line r = Some (True, r')" and "one_line line" and "rq_query r = []"
  shows "started_typed r' \<and> rq_headers r' = rq_headers r \<and> rq_body r' = rq_body r"
proof -
  obtain sp where sp: "find_char CHR '' '' line = Some sp"
    using assms(1) by (cases "find_char CHR '' '' line") (auto simp: processRequestLine_def)
  then obtain r1 where r1: "setMethod (take sp line) r = Some (True, r1)"
    using assms(1) by (auto simp: processRequestLine_def split: if_splits Option.bind_splits)
  then have m: "rq_method r1 \<noteq> kInvalid" "rq_query r1 = []" "rq_headers r1 = rq_headers r" "rq_body r1 = rq_body r"
    using assms(3) by (auto simp: setMethod_def Let_def split: if_splits)
  obtain sp2 where sp2: "find_char CHR '' '' (drop (Suc sp) line) = Some sp2"
    using assms(1) sp r1 by (cases "find_char CHR '' '' (drop (Suc sp) line)") (auto simp: processRequestLine_def)
  let ?url = "take sp2 (drop (Suc sp) line)"
  have "target_typed (target_of ?url r1)"
    by (rule target_of_typed) (use find_char_Some [OF sp2] assms(2) m(2) in \<open>simp_all add: one_line_parts\<close>)
  moreover have "\<exists>v. v \<noteq> kUnknown_version \<and> r' = (target_of ?url r1)\<lparr>rq_version := v\<rparr>"
    using assms(1) sp r1 sp2
    by (auto simp: processRequestLine_def Let_def target_of_def [symmetric] split: if_splits)
  ultimately show ?thesis using m by (auto simp: started_typed_def target_typed_def)
qed

text \<open>One run of the loop: the shape is kept, and the result says whether the request is complete.\<close>

definition typed_post :: "nat \<Rightarrow> (parse_result \<times> 'c http_context \<times> buffer) run \<Rightarrow> bool" where
  "typed_post taken out \<longleftrightarrow> (case out of
       Done (res, c, b) \<Rightarrow> buf_inv b \<and> (res \<noteq> kError \<longrightarrow> ctx_typed taken c \<and> (res = kGotRequest \<longleftrightarrow> hc_state c = kGotAll))
     | Assert_failed \<Rightarrow> False
     | Out_of_fuel \<Rightarrow> True)"

lemma in_headers_ctx:
  assumes "in_headers c" and "hc_state c = kExpectHeaders \<or> hc_state c = kExpectBody"
  shows "ctx_typed 0 c"
  using assms by (auto simp: ctx_typed_def in_headers_def ctx_inv_def)

lemma ctx_in_headers: "ctx_typed taken c \<Longrightarrow> hc_state c = kExpectHeaders \<Longrightarrow> in_headers c \<and> taken = 0"
  by (auto simp: ctx_typed_def in_headers_def ctx_inv_def)

lemma body_step_typed:
  assumes "buf_inv b" and "ctx_typed taken c" and "hc_state c = kExpectBody" and "res \<noteq> kGotRequest"
  shows "typed_post taken (parse_loop (Suc n) now res c b)"
proof (cases "hc_isChunked c")
  case True
  with assms show ?thesis by (simp add: processBody_chunked typed_post_def)
next
  case False
  have inv: "ctx_inv c" using assms(2) by (simp add: ctx_typed_def)
  from processBody_spec [OF assms(1) inv False] assms False show ?thesis
    by (auto simp: typed_post_def ctx_typed_def ctx_inv_def appendToBody_def headers_typed_def started_typed_def
        target_typed_def)
qed

lemma parse_loop_typed:
  assumes "buf_inv b" and "ctx_typed taken c" and "res = kNeedMore \<or> res = kHeadersComplete"
  shows "typed_post taken (parse_loop n now res c b)"
  using assms
proof (induction n arbitrary: res c b)
  case 0
  then show ?case by (simp add: typed_post_def)
next
  case (Suc n)
  show ?case
  proof (cases "hc_state c")
    case kExpectRequestLine
    show ?thesis
    proof (cases "findCRLF b")
      case None
      with Suc.prems kExpectRequestLine show ?thesis by (auto simp: typed_post_def)
    next
      case (Some crlf)
      from retrieve_line [OF Suc.prems(1) Some] obtain b' where
        b': "retrieveUntil (crlf + 2) b = Some b'" "buf_inv b'" by blast
      from Suc.prems(2) kExpectRequestLine have q: "rq_query (hc_request c) = []"
        and inv: "ctx_inv c" and c: "rq_method (hc_request c) = kInvalid" "hc_bodyReceived c = 0"
        "rq_body (hc_request c) = []" "taken = 0" "headers_typed (hc_request c)" "hc_contentLength c < size_bound"
        by (auto simp: ctx_typed_def ctx_inv_def)
      obtain ok r where p: "processRequestLine (take crlf (peek b)) (hc_request c) = Some (ok, r)"
        using processRequestLine_Some [OF c(1)] by blast
      show ?thesis
      proof (cases ok)
        case True
        with p have "processRequestLine (take crlf (peek b)) (hc_request c) = Some (True, r)" by simp
        from processRequestLine_typed [OF this first_line [OF Some] q] c
        have "ctx_typed 0 (c\<lparr>hc_request := r\<lparr>rq_receiveTime := now\<rparr>, hc_state := kExpectHeaders\<rparr>)"
          by (intro in_headers_ctx)
            (simp_all add: in_headers_def headers_typed_def started_typed_def target_typed_def)
        with Suc.IH b' Suc.prems(3) \<open>taken = 0\<close> p True kExpectRequestLine Some show ?thesis by simp
      qed (use p b' kExpectRequestLine Some Suc.prems in \<open>simp add: typed_post_def\<close>)
    qed
  next
    case kExpectHeaders
    from ctx_in_headers [OF Suc.prems(2) kExpectHeaders] have h: "in_headers c" and [simp]: "taken = 0" by simp_all
    from processHeaders_spec [OF Suc.prems(1), of c] h kExpectHeaders
    obtain c1 b1 where p: "processHeaders c b = Some (c1, b1)" "buf_inv b1"
        "hc_state c1 = kExpectBody \<or> hc_state c1 = kExpectHeaders"
      by (fastforce simp: in_headers_def)
    from processHeaders_typed [OF h p(1)] have h1: "in_headers c1" .
    have "ctx_typed 0 (c1\<lparr>hc_state := kGotAll\<rparr>)" if "hc_contentLength c1 = 0" "\<not> hc_isChunked c1"
      using h1 that by (auto simp: ctx_typed_def in_headers_def ctx_inv_def size_bound_def)
    with p in_headers_ctx [OF h1] Suc.IH Suc.prems(3) kExpectHeaders show ?thesis by (auto simp: typed_post_def)
  next
    case kExpectBody
    with Suc.prems show ?thesis by (intro body_step_typed) auto
  next
    case kGotAll
    with Suc show ?thesis by simp
  qed
qed

section \<open>The life of a context\<close>

text \<open>
  The contexts of a connection until the parser reports an error, with the number of body bytes handlers have taken out.
  The constructor, and \<open>reset\<close> from whatever state; a call of \<open>parseRequest\<close> on any buffer; and what handlers do between
  calls: \<open>setPathParams\<close>, \<open>setBody("")\<close> after a piece of an upload is written, and \<open>setContext\<close>.
\<close>

inductive ctx_reachable :: "nat \<Rightarrow> 'c http_context \<Rightarrow> bool" where
  constructed: "ctx_reachable 0 new_context"
| after_reset: "ctx_reachable 0 (reset_context c)"
| parsed: "ctx_reachable taken c \<Longrightarrow> buf_inv b \<Longrightarrow> parseRequest fuel c b now = Done (res, c', b') \<Longrightarrow> res \<noteq> kError \<Longrightarrow>
    ctx_reachable taken c'"
| path_params: "ctx_reachable taken c \<Longrightarrow> ctx_reachable taken (c\<lparr>hc_request := setPathParams ps (hc_request c)\<rparr>)"
| body_taken: "ctx_reachable taken c \<Longrightarrow>
    ctx_reachable (length (rq_body (hc_request c)) + taken) (c\<lparr>hc_request := (hc_request c)\<lparr>rq_body := []\<rparr>\<rparr>)"
| custom_set: "ctx_reachable taken c \<Longrightarrow> ctx_reachable taken (c\<lparr>hc_custom := u\<rparr>)"

lemmas typed_defs = ctx_typed_def ctx_inv_def headers_typed_def started_typed_def target_typed_def

lemma ctx_typed_handler:
  assumes "ctx_typed taken c"
  shows "ctx_typed taken (c\<lparr>hc_request := setPathParams ps (hc_request c)\<rparr>)"
    and "ctx_typed (length (rq_body (hc_request c)) + taken) (c\<lparr>hc_request := (hc_request c)\<lparr>rq_body := []\<rparr>\<rparr>)"
    and "ctx_typed taken (c\<lparr>hc_custom := u\<rparr>)"
  using assms by (auto simp: typed_defs setPathParams_def split: if_splits)

lemma parseRequest_typed:
  assumes "ctx_typed taken c" and "buf_inv b"
  shows "typed_post taken (parseRequest fuel c b now)"
  unfolding parseRequest_def by (rule parse_loop_typed) (use assms in simp_all)

lemma reachable_typed: "ctx_reachable taken c \<Longrightarrow> ctx_typed taken c"
proof (induction rule: ctx_reachable.induct)
  case (parsed taken c b fuel now res c' b')
  from parseRequest_typed [OF parsed.IH parsed.hyps(2), of fuel now] parsed.hyps show ?case by (simp add: typed_post_def)
qed (simp_all add: ctx_typed_new ctx_typed_reset ctx_typed_handler)

text \<open>
  C6: The type of a parser's state. From a new or a reset context on and until a call of \<open>parseRequest\<close> reports an error,
  whatever bytes arrive in whatever pieces, and with handlers that set path parameters, take the body out or attach their own
  context in between: the context is well-formed, no call fails an assertion, and a call that returns leaves a
  well-formed buffer and, unless it reports an error, a well-formed context. Well-formed: past the request line the method and the
  version are known ones; the path has no space, question mark or line end, the query is empty or starts with a question mark; header
  names have no colon, header values no surrounding white space, and neither has a line end; as many body bytes
  are stored or were taken as are counted, never more than announced, and none of a chunked body; and in state \<open>kGotAll\<close>, which a
  call leaves exactly when it reports a complete request, as many as announced. Nothing is said after a call that
  reports an error: the server answers 400 without a reset, and a later call may then fail an assertion.
\<close>

theorem parser_state_typed:
  fixes c :: "'c http_context"
  assumes "ctx_reachable taken c" and "buf_inv b"
  shows "ctx_typed taken c
    \<and> (case parseRequest fuel c b now of
         Done (res, c', b') \<Rightarrow> buf_inv b'
           \<and> (res \<noteq> kError \<longrightarrow> ctx_typed taken c' \<and> (res = kGotRequest \<longleftrightarrow> hc_state c' = kGotAll))
       | Assert_failed \<Rightarrow> False
       | Out_of_fuel \<Rightarrow> True)"
  using reachable_typed [OF assms(1)] parseRequest_typed [OF reachable_typed [OF assms(1)] assms(2), of fuel now]
  by (simp add: typed_post_def)

text \<open>Two requests in one buffer, the handler of the first setting path parameters before the reset.\<close>

theorem parser_state_typed_witness:
  "\<exists>c b c' b'. parseRequest 3 (new_context :: unit http_context)
        (buffer_of (''GET /a?b HTTP/1.1'' @ CRLF @ ''Host:  h '' @ CRLF @ CRLF @ ''HEAD /x HTTP/1.0'' @ CRLF @ CRLF)) 0
      = Done (kGotRequest, c, b)
    \<and> ctx_typed 0 c \<and> rq_headers (hc_request c) ''Host'' = Some ''h''
    \<and> parseRequest 3 (reset_context (c\<lparr>hc_request := setPathParams Map.empty (hc_request c)\<rparr>)) b 0 = Done (kGotRequest, c', b')
    \<and> ctx_typed 0 c' \<and> rq_method (hc_request c') = kHead"
proof -
  define b0 where "b0 = buffer_of (''GET /a?b HTTP/1.1'' @ CRLF @ ''Host:  h '' @ CRLF @ CRLF @ ''HEAD /x HTTP/1.0'' @ CRLF @ CRLF)"
  let ?next = "\<lambda>c :: unit http_context. reset_context (c\<lparr>hc_request := setPathParams Map.empty (hc_request c)\<rparr>)"
  define heads where "heads c b \<longleftrightarrow>
      (case parseRequest 3 (?next c) b 0 of Done (res, c', b') \<Rightarrow> res = kGotRequest \<and> rq_method (hc_request c') = kHead | _ \<Rightarrow> False)" for c b
  have "case parseRequest 3 (new_context :: unit http_context) b0 0 of
      Done (res, c, b) \<Rightarrow> res = kGotRequest \<and> rq_headers (hc_request c) ''Host'' = Some ''h'' \<and> heads c b | _ \<Rightarrow> False"
    unfolding b0_def heads_def by code_simp
  then obtain c b where p1: "parseRequest 3 (new_context :: unit http_context) b0 0 = Done (kGotRequest, c, b)"
      "rq_headers (hc_request c) ''Host'' = Some ''h''" and "heads c b"
    by (auto split: run.splits)
  then obtain c' b' where p2: "parseRequest 3 (?next c) b 0 = Done (kGotRequest, c', b')" "rq_method (hc_request c') = kHead"
    by (auto simp: heads_def split: run.splits)
  have "buf_inv b0" by (simp add: b0_def buf_inv_buffer_of)
  from parser_state_typed [where 'c = unit, OF ctx_reachable.constructed this, of 3 0] p1(1) have c: "ctx_typed 0 c" "buf_inv b" by simp_all
  from parser_state_typed [OF ctx_reachable.after_reset c(2), of "c\<lparr>hc_request := setPathParams Map.empty (hc_request c)\<rparr>" 3 0] p2(1)
  have "ctx_typed 0 c'" by simp
  with p1 p2 c show ?thesis unfolding b0_def by blast
qed

end
