(* ===== verification/Atomics.thy ===== *)
theory Atomics
  imports Monitors "HOL-Library.Word" "HOL-Library.Signed_Division"
begin

text \<open>
  The building blocks of threads in \<open>base/\<close>: the atomic integers of \<open>Atomic.h\<close>, the per-thread variables of
  \<open>CurrentThread.*\<close>, and \<open>MutexLock\<close> of \<open>Mutex.h\<close> with its \<open>holder_\<close> field and the waiting of \<open>Condition.*\<close>.
  An atomic integer is its two's complement word; an operation of the compiler's \<open>__sync\<close> family is one step, and
  what a member function computes from its result is a later step of the same thread. Thread ids are the
  positive numbers \<open>gettid\<close> returns.
\<close>

section \<open>Atomic integers\<close>

definition new_atomic :: "'w::len word" where
  "new_atomic = 0"

definition sync_val_compare_and_swap :: "'w::len word \<Rightarrow> 'w word \<Rightarrow> 'w word \<Rightarrow> 'w word \<times> 'w word" where
  "sync_val_compare_and_swap old new v = (v, if v = old then new else v)"

text \<open>Every operation returns its result and the new \<open>value_\<close>.\<close>

definition atomic_get :: "'w::len word \<Rightarrow> 'w word \<times> 'w word" where
  "atomic_get v = sync_val_compare_and_swap 0 0 v"

definition getAndSet :: "'w::len word \<Rightarrow> 'w word \<Rightarrow> 'w word \<times> 'w word" where
  "getAndSet newValue v = (v, newValue)"

definition getAndAdd :: "'w::len word \<Rightarrow> 'w word \<Rightarrow> 'w word \<times> 'w word" where
  "getAndAdd x v = (v, v + x)"

definition addAndGet :: "'w::len word \<Rightarrow> 'w word \<Rightarrow> 'w word \<times> 'w word" where
  "addAndGet x v = (let (old, v') = getAndAdd x v in (old + x, v'))"

definition incrementAndGet :: "'w::len word \<Rightarrow> 'w word \<times> 'w word" where
  "incrementAndGet v = addAndGet 1 v"

definition decrementAndGet :: "'w::len word \<Rightarrow> 'w word \<times> 'w word" where
  "decrementAndGet v = addAndGet (- 1) v"

definition atomic_add :: "'w::len word \<Rightarrow> 'w word \<Rightarrow> 'w word" where
  "atomic_add x v = snd (getAndAdd x v)"

definition increment :: "'w::len word \<Rightarrow> 'w word" where
  "increment v = snd (incrementAndGet v)"

definition decrement :: "'w::len word \<Rightarrow> 'w word" where
  "decrement v = snd (decrementAndGet v)"

lemmas atomic_defs = atomic_get_def sync_val_compare_and_swap_def getAndSet_def getAndAdd_def addAndGet_def
  incrementAndGet_def decrementAndGet_def atomic_add_def increment_def decrement_def

text \<open>Reading changes nothing; the other operations return the value they leave, and wrap around together.\<close>

lemma atomic_get_pure: "atomic_get v = (v, v)"
  by (simp add: atomic_defs)

lemma addAndGet_new: "addAndGet x v = (v + x, v + x)"
  by (simp add: atomic_defs)

lemma increment_decrement [simp]: "decrement (increment v) = v" "increment (decrement v) = v"
  by (simp_all add: atomic_defs)

text \<open>\<open>incrementAndGet\<close> on the largest \<open>int32_t\<close> gives the smallest.\<close>

lemma increment_wraps: "sint (fst (incrementAndGet (2147483647 :: 32 word))) = - 2147483648"
  by (simp add: atomic_defs)

text \<open>
  Threads that call \<open>incrementAndGet\<close> at the same time. A call is the fetch, which is one step, and the addition to
  the fetched value, which is the thread's own. The history numbers the fetches.
\<close>

record 'v counter =
  co_value :: 'v
  co_fetches :: nat
  co_pending :: "nat \<rightharpoonup> nat \<times> 'v"
  co_returned :: "(nat \<times> 'v) list"

definition new_counter :: "'w::len word counter" where
  "new_counter = \<lparr>co_value = new_atomic, co_fetches = 0, co_pending = (\<lambda>_. None), co_returned = []\<rparr>"

inductive counter_step :: "'w::len word counter \<Rightarrow> 'w word counter \<Rightarrow> bool" where
  counter_fetch: "co_pending s t = None \<Longrightarrow> getAndAdd 1 (co_value s) = (old, v) \<Longrightarrow>
    counter_step s (s\<lparr>co_value := v, co_fetches := Suc (co_fetches s),
      co_pending := (co_pending s)(t \<mapsto> (co_fetches s, old))\<rparr>)"
| counter_return: "co_pending s t = Some (i, old) \<Longrightarrow>
    counter_step s (s\<lparr>co_pending := (co_pending s)(t := None), co_returned := co_returned s @ [(i, old + 1)]\<rparr>)"

inductive_cases counter_stepE: "counter_step s s'"

definition counter_ok :: "'w::len word counter \<Rightarrow> bool" where
  "counter_ok s \<longleftrightarrow> co_value s = of_nat (co_fetches s)
     \<and> (\<forall>t i old. co_pending s t = Some (i, old) \<longrightarrow> i < co_fetches s \<and> old = of_nat i \<and> i \<notin> fst ` set (co_returned s))
     \<and> (\<forall>t u i old old'. co_pending s t = Some (i, old) \<longrightarrow> co_pending s u = Some (i, old') \<longrightarrow> t = u)
     \<and> (\<forall>(i, v) \<in> set (co_returned s). i < co_fetches s \<and> v = of_nat (Suc i))
     \<and> distinct (map fst (co_returned s))"

lemma counter_ok_new: "counter_ok new_counter"
  by (simp add: counter_ok_def new_counter_def new_atomic_def)

lemma counter_ok_fetch:
  assumes "counter_ok s" and "co_pending s t = None" and "getAndAdd 1 (co_value s) = (old, v)"
  shows "counter_ok (s\<lparr>co_value := v, co_fetches := Suc (co_fetches s),
      co_pending := (co_pending s)(t \<mapsto> (co_fetches s, old))\<rparr>)"
  using assms unfolding counter_ok_def getAndAdd_def
  by (auto simp: add.commute less_Suc_eq image_iff)

lemma counter_ok_return:
  assumes "counter_ok s" and "co_pending s t = Some (i, old)"
  shows "counter_ok (s\<lparr>co_pending := (co_pending s)(t := None), co_returned := co_returned s @ [(i, old + 1)]\<rparr>)"
proof -
  have "i < co_fetches s" "old = of_nat i" "i \<notin> fst ` set (co_returned s)"
    using assms unfolding counter_ok_def by blast+
  moreover have "co_pending s u = Some (i, old') \<Longrightarrow> u = t" for u old' using assms unfolding counter_ok_def by blast
  ultimately show ?thesis using assms(1) unfolding counter_ok_def by (auto simp: add.commute)
qed

lemma counter_ok_step: "counter_step s s' \<Longrightarrow> counter_ok s \<Longrightarrow> counter_ok s'"
  by (erule counter_stepE) (auto intro: counter_ok_fetch counter_ok_return)

lemma of_nat_word_inject:
  assumes "i < 2 ^ LENGTH('w)" and "j < 2 ^ LENGTH('w)" and "of_nat i = (of_nat j :: 'w::len word)"
  shows "i = j"
proof -
  have "unat (of_nat i :: 'w word) = unat (of_nat j :: 'w word)" using assms(3) by simp
  with assms(1,2) show ?thesis by (simp add: unsigned_of_nat take_bit_nat_eq_self)
qed

text \<open>
  As long as there are at most as many calls as the type has values, no two calls of \<open>incrementAndGet\<close> return the
  same number, however they interleave, and the value is the number of fetches.
\<close>

lemma increments_distinct:
  assumes "counter_step\<^sup>*\<^sup>* (new_counter :: 'w::len word counter) s" and "co_fetches s \<le> 2 ^ LENGTH('w)"
  shows "distinct (map snd (co_returned s))" and "co_value s = of_nat (co_fetches s)"
    and "snd ` set (co_returned s) \<subseteq> (\<lambda>i. of_nat (Suc i)) ` {..<co_fetches s}"
proof -
  have ok: "counter_ok s"
    by (rule invariant_steps [OF assms(1), of counter_ok, OF counter_ok_new counter_ok_step])
  then show "co_value s = of_nat (co_fetches s)" by (simp add: counter_ok_def)
  have vals: "\<And>i v. (i, v) \<in> set (co_returned s) \<Longrightarrow> i < co_fetches s \<and> v = of_nat (Suc i)"
    using ok by (auto simp: counter_ok_def)
  then show "snd ` set (co_returned s) \<subseteq> (\<lambda>i. of_nat (Suc i)) ` {..<co_fetches s}" by force
  have "inj_on snd (set (co_returned s))"
  proof (rule inj_onI)
    fix x y assume a: "x \<in> set (co_returned s)" "y \<in> set (co_returned s)" "snd x = snd y"
    then have "fst x < co_fetches s" "fst y < co_fetches s" "snd x = of_nat (fst x) + 1" "snd y = of_nat (fst y) + 1"
      using vals [of "fst x" "snd x"] vals [of "fst y" "snd y"] by (metis add.commute of_nat_Suc prod.collapse)+
    with assms(2) a(3) have "fst x = fst y" using of_nat_word_inject [of "fst x" "fst y", where 'w = 'w] by simp
    with a(3) show "x = y" by (simp add: prod_eq_iff)
  qed
  moreover have "distinct (co_returned s)" using ok by (auto simp: counter_ok_def distinct_map)
  ultimately show "distinct (map snd (co_returned s))" by (simp add: distinct_map)
qed

section \<open>Per-thread variables\<close>

record thread_locals =
  tl_cachedTid :: int
  tl_tidString :: string
  tl_tidStringLength :: int
  tl_threadName :: string

definition new_locals :: thread_locals where
  "new_locals = \<lparr>tl_cachedTid = 0, tl_tidString = [], tl_tidStringLength = 6, tl_threadName = ''unknown''\<rparr>"

text \<open>\<open>%5d\<close> followed by a blank, into 32 bytes.\<close>

definition pad5 :: "int \<Rightarrow> string" where
  "pad5 n = (let s = show_int n in replicate (5 - length s) (CHR '' '') @ s @ '' '')"

definition cacheTid :: "int \<Rightarrow> thread_locals \<Rightarrow> thread_locals" where
  "cacheTid gettid l =
     (if tl_cachedTid l = 0
      then l\<lparr>tl_cachedTid := gettid, tl_tidString := take 31 (pad5 gettid), tl_tidStringLength := int (length (pad5 gettid))\<rparr>
      else l)"

definition tid :: "int \<Rightarrow> thread_locals \<Rightarrow> int \<times> thread_locals" where
  "tid gettid l = (let l' = (if tl_cachedTid l = 0 then cacheTid gettid l else l) in (tl_cachedTid l', l'))"

definition setName :: "string \<Rightarrow> thread_locals \<Rightarrow> thread_locals" where
  "setName n l = l\<lparr>tl_threadName := n\<rparr>"

definition isMainThread :: "int \<Rightarrow> int \<Rightarrow> thread_locals \<Rightarrow> bool \<times> thread_locals" where
  "isMainThread getpid gettid l = (let (t, l') = tid gettid l in (t = getpid, l'))"

text \<open>\<open>sleepUsec\<close>: the \<open>timeval\<close> passed to \<open>select\<close>, with the truncating division of C.\<close>

definition sleepUsec :: "int \<Rightarrow> int \<times> int" where
  "sleepUsec usec = (usec sdiv 1000000, usec smod 1000000)"

text \<open>The cache: a thread whose locals were only changed by these functions has its own id in it, or nothing yet.\<close>

definition locals_ok :: "int \<Rightarrow> thread_locals \<Rightarrow> bool" where
  "locals_ok t l \<longleftrightarrow> 0 < t \<and> t < 2 ^ 31 \<and>
     (tl_cachedTid l = 0 \<and> tl_tidString l = [] \<or>
      tl_cachedTid l = t \<and> tl_tidString l = pad5 t \<and> tl_tidStringLength l = int (length (tl_tidString l)))"

lemma length_pad5:
  assumes "0 < t" and "t < 2 ^ 31"
  shows "6 \<le> length (pad5 t) \<and> length (pad5 t) \<le> 11"
proof -
  have "nat t < 10 ^ 10" using assms by simp
  then have "length (show_nat (nat t)) \<le> 10" using length_show_nat_le [of 10 "nat t"] by simp
  then show ?thesis using assms by (auto simp: pad5_def show_int_def Let_def)
qed

lemma cacheTid_ok: "locals_ok t l \<Longrightarrow> locals_ok t (cacheTid t l) \<and> tl_cachedTid (cacheTid t l) = t"
  using length_pad5 [of t] by (auto simp: locals_ok_def cacheTid_def)

text \<open>
  \<open>tid()\<close> returns the thread's id, the second call without a system call, and leaves the printed id in place; the
  name survives. The printed id is missing while nobody called \<open>tid()\<close>, although its length reads 6.
\<close>

lemma tid_contract:
  assumes "locals_ok t l"
  shows "fst (tid t l) = t" and "locals_ok t (snd (tid t l))" and "tid g (snd (tid t l)) = (t, snd (tid t l))"
    and "tl_tidString (snd (tid t l)) = pad5 t" and "tl_threadName (snd (tid t l)) = tl_threadName l"
    and "tl_tidStringLength (snd (tid t l)) = int (length (pad5 t))"
proof -
  have t: "0 < t" "t < 2 ^ 31" using assms by (simp_all add: locals_ok_def)
  let ?l = "snd (tid t l)"
  have l: "?l = cacheTid t l" by (simp add: tid_def cacheTid_def)
  show "locals_ok t ?l" "fst (tid t l) = t" using cacheTid_ok [OF assms] by (auto simp: tid_def l cacheTid_def)
  then show "tid g ?l = (t, ?l)" "tl_tidString ?l = pad5 t" "tl_tidStringLength ?l = int (length (pad5 t))"
    using cacheTid_ok [OF assms] t by (auto simp: tid_def l locals_ok_def)
  show "tl_threadName ?l = tl_threadName l" by (simp add: l cacheTid_def)
qed

lemma new_locals_ok: "0 < t \<Longrightarrow> t < 2 ^ 31 \<Longrightarrow> locals_ok t new_locals"
  by (simp add: locals_ok_def new_locals_def)

lemma tidString_before_tid: "tl_tidString new_locals = [] \<and> tl_tidStringLength new_locals = 6"
  by (simp add: new_locals_def)

lemma sleepUsec_splits:
  assumes "0 \<le> usec" and "sleepUsec usec = (s, u)"
  shows "s * 1000000 + u = usec" and "0 \<le> u" and "u < 1000000"
  using assms by (cases "usec = 0"; simp add: sleepUsec_def signed_divide_int_def signed_modulo_int_def; fastforce)+

section \<open>Mutexes\<close>

text \<open>The operating system's mutex with its owner, and \<open>holder_\<close>, the id of the thread that the class believes to be inside.\<close>

record mutex_lock =
  mx_owner :: "nat option"
  mx_holder :: nat

definition new_mutex :: mutex_lock where
  "new_mutex = \<lparr>mx_owner = None, mx_holder = 0\<rparr>"

definition pthread_mutex_lock :: "nat \<Rightarrow> mutex_lock \<Rightarrow> mutex_lock option" where
  "pthread_mutex_lock t m = (if mx_owner m = None then Some (m\<lparr>mx_owner := Some t\<rparr>) else None)"

definition pthread_mutex_unlock :: "mutex_lock \<Rightarrow> mutex_lock" where
  "pthread_mutex_unlock m = m\<lparr>mx_owner := None\<rparr>"

definition assignHolder :: "nat \<Rightarrow> mutex_lock \<Rightarrow> mutex_lock" where
  "assignHolder gettid m = m\<lparr>mx_holder := gettid\<rparr>"

definition unassignHolder :: "mutex_lock \<Rightarrow> mutex_lock" where
  "unassignHolder m = m\<lparr>mx_holder := 0\<rparr>"

definition isLockedByThisThread :: "nat \<Rightarrow> mutex_lock \<Rightarrow> bool" where
  "isLockedByThisThread gettid m \<longleftrightarrow> mx_holder m = gettid"

definition assertLocked :: "nat \<Rightarrow> mutex_lock \<Rightarrow> unit checked" where
  "assertLocked gettid m = (if isLockedByThisThread gettid m then Some () else None)"

definition destroy_mutex :: "mutex_lock \<Rightarrow> unit checked" where
  "destroy_mutex m = (if mx_holder m = 0 then Some () else None)"

lemmas mutex_defs = new_mutex_def pthread_mutex_lock_def pthread_mutex_unlock_def assignHolder_def unassignHolder_def
  isLockedByThisThread_def assertLocked_def destroy_mutex_def

text \<open>
  Where a thread stands: \<open>lock\<close> and \<open>unlock\<close> are two steps each, and \<open>Condition::wait\<close> gives up and takes back the
  operating system's mutex without a change to \<open>holder_\<close>.
\<close>

datatype mutex_phase = Mx_outside | Mx_acquired | Mx_holding | Mx_releasing | Mx_waiting | Mx_reholding

fun mx_inside :: "mutex_phase \<Rightarrow> bool" where
  "mx_inside Mx_outside = False"
| "mx_inside Mx_waiting = False"
| "mx_inside _ = True"

inductive mutex_step :: "mutex_lock \<times> (nat \<Rightarrow> mutex_phase) \<Rightarrow> mutex_lock \<times> (nat \<Rightarrow> mutex_phase) \<Rightarrow> bool" where
  lock_acquires: "ph t = Mx_outside \<Longrightarrow> 0 < t \<Longrightarrow> pthread_mutex_lock t m = Some m' \<Longrightarrow>
    mutex_step (m, ph) (m', ph(t := Mx_acquired))"
| lock_assigns: "ph t = Mx_acquired \<Longrightarrow> mutex_step (m, ph) (assignHolder t m, ph(t := Mx_holding))"
| unlock_unassigns: "ph t = Mx_holding \<or> ph t = Mx_reholding \<Longrightarrow>
    mutex_step (m, ph) (unassignHolder m, ph(t := Mx_releasing))"
| unlock_releases: "ph t = Mx_releasing \<Longrightarrow> mutex_step (m, ph) (pthread_mutex_unlock m, ph(t := Mx_outside))"
| wait_releases: "ph t = Mx_holding \<or> ph t = Mx_reholding \<Longrightarrow>
    mutex_step (m, ph) (pthread_mutex_unlock m, ph(t := Mx_waiting))"
| wait_reacquires: "ph t = Mx_waiting \<Longrightarrow> pthread_mutex_lock t m = Some m' \<Longrightarrow>
    mutex_step (m, ph) (m', ph(t := Mx_reholding))"

inductive_cases mutex_stepE: "mutex_step s s'"

definition mutex_ok :: "mutex_lock \<times> (nat \<Rightarrow> mutex_phase) \<Rightarrow> bool" where
  "mutex_ok s = (case s of (m, ph) \<Rightarrow>
     (\<forall>t. mx_owner m = Some t \<longleftrightarrow> mx_inside (ph t))
     \<and> (\<forall>t. ph t = Mx_holding \<longrightarrow> mx_holder m = t)
     \<and> (\<forall>t. ph t = Mx_releasing \<longrightarrow> mx_holder m = 0)
     \<and> (mx_holder m = 0 \<or> ph (mx_holder m) \<in> {Mx_holding, Mx_waiting, Mx_reholding})
     \<and> (\<forall>t. ph t \<noteq> Mx_outside \<longrightarrow> 0 < t))"

lemma mutex_ok_new: "mutex_ok (new_mutex, \<lambda>_. Mx_outside)"
  by (simp add: mutex_ok_def new_mutex_def)

lemma mx_not_inside: "\<not> mx_inside p \<longleftrightarrow> p = Mx_outside \<or> p = Mx_waiting"
  by (cases p) simp_all

lemma mutex_okD:
  assumes "mutex_ok (m, ph)"
  shows "mx_owner m = Some t \<longleftrightarrow> mx_inside (ph t)" and "ph t = Mx_holding \<Longrightarrow> mx_holder m = t"
    and "ph t = Mx_releasing \<Longrightarrow> mx_holder m = 0" and "ph t \<noteq> Mx_outside \<Longrightarrow> 0 < t"
    and "mx_holder m = 0 \<or> ph (mx_holder m) \<in> {Mx_holding, Mx_waiting, Mx_reholding}"
  using assms by (auto simp: mutex_ok_def)

text \<open>A step of a thread that may be inside leaves everybody else outside or waiting.\<close>

lemma mutex_ok_upd:
  assumes "\<And>u. u \<noteq> t \<Longrightarrow> ph u = Mx_outside \<or> ph u = Mx_waiting \<and> 0 < u"
    and "mx_owner m = (if mx_inside p then Some t else None)" and "0 < t"
    and "p = Mx_holding \<Longrightarrow> mx_holder m = t" and "p = Mx_releasing \<Longrightarrow> mx_holder m = 0"
    and "mx_holder m = 0 \<or> (if mx_holder m = t then p \<in> {Mx_holding, Mx_waiting, Mx_reholding} else ph (mx_holder m) = Mx_waiting)"
  shows "mutex_ok (m, ph(t := p))"
proof -
  have n: "\<not> mx_inside (ph u)" "ph u \<noteq> Mx_holding" "ph u \<noteq> Mx_releasing" "ph u \<noteq> Mx_outside \<longrightarrow> 0 < u" if "u \<noteq> t" for u
    using assms(1) [OF that] by auto
  show ?thesis
    using assms(2-6) n by (auto simp: mutex_ok_def)
qed

lemma mutex_others:
  assumes "mutex_ok (m, ph)" and "mx_inside (ph t) \<or> mx_owner m = None" and "u \<noteq> t"
  shows "ph u = Mx_outside \<or> ph u = Mx_waiting \<and> 0 < u"
proof -
  have "mx_owner m \<noteq> Some u" using assms mutex_okD(1) [OF assms(1), of t] by auto
  then have "\<not> mx_inside (ph u)" using mutex_okD(1) [OF assms(1), of u] by simp
  then show ?thesis using mutex_okD(4) [OF assms(1), of u] by (auto simp: mx_not_inside)
qed

lemma mutex_ok_step: "mutex_step s s' \<Longrightarrow> mutex_ok s \<Longrightarrow> mutex_ok s'"
proof (induction rule: mutex_step.induct)
  case (lock_acquires ph t m m')
  then have n: "mx_owner m = None" and m': "m' = m\<lparr>mx_owner := Some t\<rparr>" by (auto simp: mutex_defs split: if_splits)
  note o = mutex_others [OF lock_acquires(4), of t]
  have "mx_holder m = 0 \<or> mx_holder m \<noteq> t \<and> ph (mx_holder m) = Mx_waiting"
    using mutex_okD(5) [OF lock_acquires(4)] o [of "mx_holder m"] lock_acquires(1) n
    by (cases "mx_holder m = t") auto
  with lock_acquires n o show ?case unfolding m' by (intro mutex_ok_upd) auto
next
  case (lock_assigns ph t m)
  note o = mutex_others [OF lock_assigns(2), of t]
  from lock_assigns mutex_okD(1,4) [OF lock_assigns(2), of t] o show ?case
    by (intro mutex_ok_upd) (auto simp: mutex_defs)
next
  case (unlock_unassigns ph t m)
  note o = mutex_others [OF unlock_unassigns(2), of t]
  from unlock_unassigns mutex_okD(1,4) [OF unlock_unassigns(2), of t] o show ?case
    by (intro mutex_ok_upd) (auto simp: mutex_defs)
next
  case (unlock_releases ph t m)
  note o = mutex_others [OF unlock_releases(2), of t]
  from unlock_releases mutex_okD(3,4) [OF unlock_releases(2), of t] o show ?case
    by (intro mutex_ok_upd) (auto simp: mutex_defs)
next
  case (wait_releases ph t m)
  have i: "mx_inside (ph t)" using wait_releases(1) by auto
  note o = mutex_others [OF wait_releases(2), of t]
  have "mx_holder m = 0 \<or> mx_holder m = t \<or> ph (mx_holder m) = Mx_waiting"
    using mutex_okD(5) [OF wait_releases(2)] o [of "mx_holder m"] i by (cases "mx_holder m = t") auto
  with wait_releases mutex_okD(4) [OF wait_releases(2), of t] o i show ?case
    by (intro mutex_ok_upd) (auto simp: mutex_defs)
next
  case (wait_reacquires ph t m m')
  then have n: "mx_owner m = None" and m': "m' = m\<lparr>mx_owner := Some t\<rparr>" by (auto simp: mutex_defs split: if_splits)
  note o = mutex_others [OF wait_reacquires(3), of t]
  have "mx_holder m = 0 \<or> mx_holder m = t \<or> ph (mx_holder m) = Mx_waiting"
    using mutex_okD(5) [OF wait_reacquires(3)] o [of "mx_holder m"] n by (cases "mx_holder m = t") auto
  with wait_reacquires mutex_okD(4) [OF wait_reacquires(3), of t] n o show ?case
    unfolding m' by (intro mutex_ok_upd) auto
qed

text \<open>
  The mutex under every interleaving: at most one thread is inside. \<open>isLockedByThisThread\<close> tells a thread that is
  not inside that it is not, and a thread that came in by \<open>lock\<close> that it is; when all threads have left, the
  assertion of the destructor holds.
\<close>

lemma mutex_contract:
  assumes "mutex_step\<^sup>*\<^sup>* (new_mutex, \<lambda>_. Mx_outside) (m, ph)"
  shows "mx_inside (ph t) \<Longrightarrow> mx_inside (ph u) \<Longrightarrow> t = u"
    and "ph t = Mx_holding \<Longrightarrow> isLockedByThisThread t m"
    and "isLockedByThisThread t m \<Longrightarrow> 0 < t \<Longrightarrow> ph t \<noteq> Mx_waiting \<Longrightarrow> mx_inside (ph t)"
    and "(\<And>t. ph t = Mx_outside) \<Longrightarrow> destroy_mutex m = Some () \<and> mx_owner m = None"
proof -
  have ok: "mutex_ok (m, ph)"
    by (rule invariant_steps [OF assms, of mutex_ok, OF mutex_ok_new mutex_ok_step])
  note own = mutex_okD(1) [OF ok]
  show "mx_inside (ph t) \<Longrightarrow> mx_inside (ph u) \<Longrightarrow> t = u" using own [of t] own [of u] by simp
  show "ph t = Mx_holding \<Longrightarrow> isLockedByThisThread t m" using mutex_okD(2) [OF ok] by (simp add: isLockedByThisThread_def)
  show "isLockedByThisThread t m \<Longrightarrow> 0 < t \<Longrightarrow> ph t \<noteq> Mx_waiting \<Longrightarrow> mx_inside (ph t)"
    using mutex_okD(5) [OF ok] by (auto simp: isLockedByThisThread_def)
  assume out: "\<And>t. ph t = Mx_outside"
  then have "mx_owner m \<noteq> Some t" for t using own [of t] by simp
  then have "mx_owner m = None" by (cases "mx_owner m") auto
  with out mutex_okD(5) [OF ok] show "destroy_mutex m = Some () \<and> mx_owner m = None" by (simp add: destroy_mutex_def)
qed

text \<open>
  After a wait \<open>holder_\<close> is what the thread that was inside meanwhile left there: a thread that owns the mutex again
  can fail \<open>assertLocked\<close>.
\<close>

lemma wait_loses_holder:
  "\<exists>m ph. mutex_step\<^sup>*\<^sup>* (new_mutex, \<lambda>_. Mx_outside) (m, ph) \<and> mx_owner m = Some 2 \<and> ph 2 = Mx_reholding
     \<and> assertLocked 2 m = None"
proof -
  let ?s = "\<lambda>o' h p1 p2. (\<lparr>mx_owner = o', mx_holder = h\<rparr>, (\<lambda>_ :: nat. Mx_outside)(2 := p1, 3 := p2))"
  note step = converse_rtranclp_into_rtranclp [of mutex_step]
  have eq: "f(3 := q, 2 := p) = f(2 := p, 3 := q)" for f :: "nat \<Rightarrow> mutex_phase" and p q
    by (rule fun_upd_twist) simp
  have "mutex_step\<^sup>*\<^sup>* (?s None 0 Mx_outside Mx_outside) (?s (Some 2) 0 Mx_reholding Mx_outside)"
  proof -
    have "mutex_step (?s None 0 Mx_outside Mx_outside) (?s (Some 2) 0 Mx_acquired Mx_outside)"
      using lock_acquires [of "snd (?s None 0 Mx_outside Mx_outside)" 2 "fst (?s None 0 Mx_outside Mx_outside)"]
      by (simp add: mutex_defs eq)
    moreover have "mutex_step (?s (Some 2) 0 Mx_acquired Mx_outside) (?s (Some 2) 2 Mx_holding Mx_outside)"
      using lock_assigns [of "snd (?s (Some 2) 0 Mx_acquired Mx_outside)" 2 "fst (?s (Some 2) 0 Mx_acquired Mx_outside)"]
      by (simp add: mutex_defs eq)
    moreover have "mutex_step (?s (Some 2) 2 Mx_holding Mx_outside) (?s None 2 Mx_waiting Mx_outside)"
      using wait_releases [of "snd (?s (Some 2) 2 Mx_holding Mx_outside)" 2 "fst (?s (Some 2) 2 Mx_holding Mx_outside)"]
      by (simp add: mutex_defs eq)
    moreover have "mutex_step (?s None 2 Mx_waiting Mx_outside) (?s (Some 3) 2 Mx_waiting Mx_acquired)"
      using lock_acquires [of "snd (?s None 2 Mx_waiting Mx_outside)" 3 "fst (?s None 2 Mx_waiting Mx_outside)"]
      by (simp add: mutex_defs eq)
    moreover have "mutex_step (?s (Some 3) 2 Mx_waiting Mx_acquired) (?s (Some 3) 3 Mx_waiting Mx_holding)"
      using lock_assigns [of "snd (?s (Some 3) 2 Mx_waiting Mx_acquired)" 3 "fst (?s (Some 3) 2 Mx_waiting Mx_acquired)"]
      by (simp add: mutex_defs eq)
    moreover have "mutex_step (?s (Some 3) 3 Mx_waiting Mx_holding) (?s (Some 3) 0 Mx_waiting Mx_releasing)"
      using unlock_unassigns [of "snd (?s (Some 3) 3 Mx_waiting Mx_holding)" 3 "fst (?s (Some 3) 3 Mx_waiting Mx_holding)"]
      by (simp add: mutex_defs eq)
    moreover have "mutex_step (?s (Some 3) 0 Mx_waiting Mx_releasing) (?s None 0 Mx_waiting Mx_outside)"
      using unlock_releases [of "snd (?s (Some 3) 0 Mx_waiting Mx_releasing)" 3 "fst (?s (Some 3) 0 Mx_waiting Mx_releasing)"]
      by (simp add: mutex_defs eq)
    moreover have "mutex_step (?s None 0 Mx_waiting Mx_outside) (?s (Some 2) 0 Mx_reholding Mx_outside)"
      using wait_reacquires [of "snd (?s None 0 Mx_waiting Mx_outside)" 2 "fst (?s None 0 Mx_waiting Mx_outside)"]
      by (simp add: mutex_defs eq)
    ultimately show ?thesis by (meson step rtranclp.rtrancl_refl)
  qed
  moreover have "?s None 0 Mx_outside Mx_outside = (new_mutex, \<lambda>_. Mx_outside)" by (simp add: new_mutex_def fun_eq_iff)
  ultimately show ?thesis
    by (intro exI [of _ "\<lparr>mx_owner = Some 2, mx_holder = 0\<rparr>"] exI [of _ "(\<lambda>_. Mx_outside)(2 := Mx_reholding, 3 := Mx_outside)"])
      (simp add: assertLocked_def isLockedByThisThread_def)
qed

text \<open>\<open>waitForSeconds\<close> waits until the clock's time plus the interval: a \<open>timespec\<close> of seconds and nanoseconds.\<close>

definition wait_deadline :: "int \<times> int \<Rightarrow> int \<Rightarrow> int \<times> int" where
  "wait_deadline now nanoseconds =
     (case now of (tv_sec, tv_nsec) \<Rightarrow>
        (tv_sec + (tv_nsec + nanoseconds) sdiv 1000000000, (tv_nsec + nanoseconds) smod 1000000000))"

lemma wait_deadline_exact:
  assumes "0 \<le> nsec" and "0 \<le> nanoseconds" and "wait_deadline (sec, nsec) nanoseconds = (s, n)"
  shows "s * 1000000000 + n = sec * 1000000000 + nsec + nanoseconds" and "0 \<le> n" and "n < 1000000000"
  using assms by (cases "nsec + nanoseconds = 0"; simp add: wait_deadline_def signed_divide_int_def signed_modulo_int_def; fastforce)+

end
