(* ===== verification/Threads.thy ===== *)
theory Threads
  imports Atomics ThreadPool
begin

text \<open>
  \<open>base/Thread.cc\<close>: default names, the hand-over between \<open>Thread::start\<close> and the new thread through a latch,
  what becomes of a thread function that throws, and the destructor; with \<open>base/Exception.cc\<close> and the error paths of
  \<open>ThreadPool::runInThread\<close>. The new thread works on a \<open>ThreadData\<close> that holds copies of the function and
  the name and two pointers into the \<open>Thread\<close> object; whether a pointer is still set is part of the state.
\<close>

section \<open>Names\<close>

definition setDefaultName :: "32 word \<Rightarrow> string \<Rightarrow> string \<times> 32 word" where
  "setDefaultName numCreated name =
     (let (num, numCreated') = incrementAndGet numCreated
      in (if name = [] then take 31 (''Thread'' @ show_int (sint num)) else name, numCreated'))"

definition construct_thread :: "string \<Rightarrow> 32 word \<Rightarrow> thread_object \<times> 32 word" where
  "construct_thread name numCreated =
     (let (name', n) = setDefaultName numCreated name in (new_thread name', n))"

definition numCreated :: "32 word \<Rightarrow> int" where
  "numCreated n = sint (fst (atomic_get n))"

fun construct_threads :: "string list \<Rightarrow> 32 word \<Rightarrow> thread_object list \<times> 32 word" where
  "construct_threads [] n = ([], n)"
| "construct_threads (name # names) n =
     (let (t, n1) = construct_thread name n; (ts, n2) = construct_threads names n1 in (t # ts, n2))"

lemma length_show_sint: "length (show_int (sint (w :: 32 word))) \<le> 11"
proof -
  have "- (2 ^ 31) \<le> sint w" "sint w < 2 ^ 31"
    using sint_greater_eq [of w] sint_less [of w] by simp_all
  then have "nat (sint w) < 10 ^ 10" "nat (- sint w) < 10 ^ 10" by simp_all
  then have "length (show_nat (nat (sint w))) \<le> 10" "length (show_nat (nat (- sint w))) \<le> 10"
    using length_show_nat_le [of 10] by simp_all
  then show ?thesis by (simp add: show_int_def)
qed

text \<open>The buffer of 32 bytes never cuts a default name.\<close>

lemma default_name: "fst (setDefaultName n []) = ''Thread'' @ show_int (sint (n + 1))"
  using length_show_sint [of "n + 1"] by (simp add: setDefaultName_def incrementAndGet_def addAndGet_new)

lemma default_name_counts: "snd (setDefaultName n name) = n + 1"
  by (simp add: setDefaultName_def incrementAndGet_def addAndGet_new)

lemma construct_thread_eq:
  "construct_thread name n = (new_thread (fst (setDefaultName n name)), n + 1)"
  using default_name_counts [of n name] by (simp add: construct_thread_def case_prod_beta)

lemma construct_threads_eq:
  "construct_threads names n =
     (map (\<lambda>i. new_thread (fst (setDefaultName (n + of_nat i) (names ! i)))) [0..<length names], n + of_nat (length names))"
proof (induction names arbitrary: n)
  case (Cons name names)
  have "[0..<length (name # names)] = 0 # map Suc [0..<length names]"
    using upt_conv_Cons [of 0 "Suc (length names)"] by (simp add: map_Suc_upt del: upt_Suc)
  then show ?case by (simp add: construct_thread_eq Cons.IH add.assoc add.commute add.left_commute o_def del: upt_Suc)
qed simp

text \<open>
  Threads without a name get different ones, up to \<open>2 ^ 32\<close> threads, in the order of their creation; \<open>numCreated\<close>
  counts all threads ever constructed, as a signed number.
\<close>

lemma default_names_distinct:
  assumes "length names \<le> 2 ^ 32" and "construct_threads names 0 = (ts, n)"
  shows "distinct (map (th_name \<circ> fst) (filter (\<lambda>(t, name). name = []) (zip ts names)))"
    and "length names < 2 ^ 31 \<Longrightarrow> numCreated n = int (length names)"
proof -
  let ?name = "\<lambda>i. fst (setDefaultName (of_nat i) (names ! i))"
  have ts: "ts = map (\<lambda>i. new_thread (?name i)) [0..<length names]" and n: "n = of_nat (length names)"
    using assms(2) by (simp_all add: construct_threads_eq)
  have zip: "zip ts names = map (\<lambda>i. (new_thread (?name i), names ! i)) [0..<length names]"
    by (rule nth_equalityI) (simp_all add: ts)
  have "inj_on ?name {i. i < length names \<and> names ! i = []}"
  proof (rule inj_onI)
    fix i j assume a: "i \<in> {i. i < length names \<and> names ! i = []}" "j \<in> {i. i < length names \<and> names ! i = []}"
      and "?name i = ?name j"
    then have "sint (of_nat i + 1 :: 32 word) = sint (of_nat j + 1 :: 32 word)" by (auto simp: default_name dest: show_int_inject)
    then have "of_nat i = (of_nat j :: 32 word)" by (metis add_right_cancel signed_word_eqI)
    with a assms(1) show "i = j" using of_nat_word_inject [of i j, where 'w = 32] by auto
  qed
  then show "distinct (map (th_name \<circ> fst) (filter (\<lambda>(t, name). name = []) (zip ts names)))"
    by (auto simp: zip filter_map distinct_map o_def new_thread_def inj_on_def)
  assume "length names < 2 ^ 31"
  then show "numCreated n = int (length names)"
    by (simp add: numCreated_def atomic_get_pure n signed_of_nat signed_take_bit_int_eq_self)
qed

section \<open>Exceptions\<close>

text \<open>
  \<open>base/Exception.cc\<close>: the constructor stores the message and the symbols \<open>backtrace_symbols\<close> gives, one to a line; none if
  it fails. \<open>%s\<close> prints what \<open>what()\<close> and \<open>stackTrace()\<close> point to up to the first null character.
\<close>

record muduo_exception =
  ex_message :: string
  ex_stack :: string

definition fillStackTrace :: "string list option \<Rightarrow> muduo_exception \<Rightarrow> muduo_exception" where
  "fillStackTrace strings e =
     (case strings of
        None \<Rightarrow> e
      | Some ss \<Rightarrow> fold (\<lambda>s e. e\<lparr>ex_stack := ex_stack e @ s @ [CHR 0x0A]\<rparr>) ss e)"

definition new_exception :: "string \<Rightarrow> string list option \<Rightarrow> muduo_exception" where
  "new_exception msg strings = fillStackTrace strings \<lparr>ex_message = msg, ex_stack = []\<rparr>"

definition c_text :: "string \<Rightarrow> string" where
  "c_text s = takeWhile (\<lambda>c. c \<noteq> CHR 0x00) s"

definition ex_what :: "muduo_exception \<Rightarrow> string" where
  "ex_what e = c_text (ex_message e)"

definition ex_stackTrace :: "muduo_exception \<Rightarrow> string" where
  "ex_stackTrace e = c_text (ex_stack e)"

fun lines_of :: "string \<Rightarrow> string \<Rightarrow> string list" where
  "lines_of acc [] = []"
| "lines_of acc (c # cs) = (if c = CHR 0x0A then acc # lines_of [] cs else lines_of (acc @ [c]) cs)"

lemma fill_symbols:
  "fold (\<lambda>s e. e\<lparr>ex_stack := ex_stack e @ s @ [CHR 0x0A]\<rparr>) ss e
     = e\<lparr>ex_stack := ex_stack e @ concat (map (\<lambda>s. s @ [CHR 0x0A]) ss)\<rparr>"
  by (induction ss arbitrary: e) simp_all

lemma lines_of_line: "CHR 0x0A \<notin> set s \<Longrightarrow> lines_of acc (s @ CHR 0x0A # r) = (acc @ s) # lines_of [] r"
  by (induction s arbitrary: acc) auto

text \<open>The lines of the printed trace are the symbols, in their order; the message is kept whole.\<close>

lemma stack_trace_lines:
  assumes "\<forall>s\<in>set ss. CHR 0x0A \<notin> set s \<and> CHR 0x00 \<notin> set s" and "CHR 0x00 \<notin> set msg"
  shows "lines_of [] (ex_stackTrace (new_exception msg (Some ss))) = ss" and "ex_what (new_exception msg strings) = msg"
proof -
  let ?t = "concat (map (\<lambda>s. s @ [CHR 0x0A]) ss)"
  have "CHR 0x00 \<notin> set ?t" using assms(1) by auto
  then have "c_text ?t = ?t" by (auto simp: c_text_def takeWhile_eq_all_conv)
  moreover have "lines_of [] ?t = ss" using assms(1) by (induction ss) (simp_all add: lines_of_line)
  ultimately show "lines_of [] (ex_stackTrace (new_exception msg (Some ss))) = ss"
    by (simp add: ex_stackTrace_def new_exception_def fillStackTrace_def fill_symbols)
  have "takeWhile (\<lambda>c. c \<noteq> CHR 0x00) msg = msg" using assms(2) by (auto simp: takeWhile_eq_all_conv)
  then show "ex_what (new_exception msg strings) = msg"
    by (simp add: ex_what_def c_text_def new_exception_def fillStackTrace_def fill_symbols split: option.splits)
qed

section \<open>The end of a thread function\<close>

datatype thread_end = Fn_returns | Fn_throws_Exception muduo_exception | Fn_throws_std string | Fn_throws_other

datatype process_fate = Continues | Aborts | Terminates

text \<open>The \<open>try\<close> of \<open>ThreadData::runInThread\<close>: the thread's variables, what is written to \<open>stderr\<close>, and what follows.\<close>

definition run_func :: "string \<Rightarrow> thread_end \<Rightarrow> thread_locals \<Rightarrow> thread_locals \<times> string list \<times> process_fate" where
  "run_func name r l =
     (case r of
        Fn_returns \<Rightarrow> (setName ''finished'' l, [], Continues)
      | Fn_throws_Exception ex \<Rightarrow>
          (setName ''crashed'' l,
           [''exception caught in Thread '' @ name, ''reason: '' @ ex_what ex, ''stack trace: '' @ ex_stackTrace ex], Aborts)
      | Fn_throws_std what \<Rightarrow>
          (setName ''crashed'' l, [''exception caught in Thread '' @ name, ''reason: '' @ what], Aborts)
      | Fn_throws_other \<Rightarrow> (setName ''crashed'' l, [''unknown exception caught in Thread '' @ name], Terminates))"

text \<open>
  \<open>ThreadPool::runInThread\<close>: each round reads \<open>running_\<close>, takes a task, which may be the empty one, and runs it.
  Result: how many tasks returned, the lines on \<open>stderr\<close>, and how the function itself ends; nothing while
  the rounds given do not bring an end.
\<close>

fun pool_runInThread :: "string \<Rightarrow> (bool \<times> thread_end option) list \<Rightarrow> (nat \<times> string list \<times> (process_fate + thread_end)) option" where
  "pool_runInThread name [] = None"
| "pool_runInThread name ((running, task) # rounds) =
     (if \<not> running then Some (0, [], Inr Fn_returns)
      else case task of
             None \<Rightarrow> pool_runInThread name rounds
           | Some Fn_returns \<Rightarrow> map_option (\<lambda>(n, r). (Suc n, r)) (pool_runInThread name rounds)
           | Some (Fn_throws_Exception ex) \<Rightarrow>
               Some (0, [''exception caught in ThreadPool '' @ name, ''reason: '' @ ex_what ex,
                 ''stack trace: '' @ ex_stackTrace ex], Inl Aborts)
           | Some (Fn_throws_std what) \<Rightarrow>
               Some (0, [''exception caught in ThreadPool '' @ name, ''reason: '' @ what], Inl Aborts)
           | Some Fn_throws_other \<Rightarrow> Some (0, [''unknown exception caught in ThreadPool '' @ name], Inr Fn_throws_other))"

text \<open>A worker of the pool: \<open>ThreadData::runInThread\<close> around it.\<close>

definition worker_fate :: "string \<Rightarrow> string \<Rightarrow> (bool \<times> thread_end option) list \<Rightarrow> thread_locals \<Rightarrow> (nat \<times> string list \<times> process_fate) option" where
  "worker_fate pool thread rounds l =
     (case pool_runInThread pool rounds of
        None \<Rightarrow> None
      | Some (n, lines, Inl fate) \<Rightarrow> Some (n, lines, fate)
      | Some (n, lines, Inr r) \<Rightarrow> (case run_func thread r l of (l', lines', fate) \<Rightarrow> Some (n, lines @ lines', fate)))"

definition round_throws :: "bool \<times> thread_end option \<Rightarrow> bool" where
  "round_throws r \<longleftrightarrow> snd r \<noteq> None \<and> snd r \<noteq> Some Fn_returns"

lemma worker_quiet:
  assumes "list_all (\<lambda>r. fst r \<and> \<not> round_throws r) rs"
  shows "pool_runInThread pool (rs @ rest) =
    map_option (\<lambda>(n, r). (length (filter (\<lambda>r. snd r \<noteq> None) rs) + n, r)) (pool_runInThread pool rest)"
  using assms
proof (induction rs)
  case (Cons r rs)
  then obtain k where "r = (True, k)" "k = None \<or> k = Some Fn_returns" by (cases r) (auto simp: round_throws_def)
  with Cons show ?case by (auto simp: option.map_comp o_def case_prod_beta map_prod_def)
qed (simp add: option.map_id case_prod_beta)

text \<open>
  A worker runs the tasks of its rounds until \<open>running_\<close> is false or a task throws. In the first case the
  thread ends in order. A task that throws takes the whole process with it, whatever it throws, after exactly
  the tasks before it have run.
\<close>

lemma worker_contract:
  assumes "list_all (\<lambda>r. fst r \<and> \<not> round_throws r) rs"
  shows "worker_fate pool thread (rs @ (False, k) # rest) l = Some (length (filter (\<lambda>r. snd r \<noteq> None) rs), [], Continues)"
    and "round_throws (True, k) \<Longrightarrow> \<exists>lines fate. fate \<noteq> Continues \<and> lines \<noteq> [] \<and>
      worker_fate pool thread (rs @ (True, k) # rest) l = Some (length (filter (\<lambda>r. snd r \<noteq> None) rs), lines, fate)"
proof -
  note simps = worker_fate_def worker_quiet [OF assms] run_func_def
  show "worker_fate pool thread (rs @ (False, k) # rest) l = Some (length (filter (\<lambda>r. snd r \<noteq> None) rs), [], Continues)"
    by (simp add: simps)
  assume "round_throws (True, k)"
  then obtain e where "k = Some e" "e \<noteq> Fn_returns" by (auto simp: round_throws_def)
  then show "\<exists>lines fate. fate \<noteq> Continues \<and> lines \<noteq> [] \<and>
      worker_fate pool thread (rs @ (True, k) # rest) l = Some (length (filter (\<lambda>r. snd r \<noteq> None) rs), lines, fate)"
    by (cases e) (simp_all add: simps)
qed

section \<open>Starting a thread\<close>

datatype starter = Not_called | Creating | Created | Latch_wait | Start_returned | Start_failed | Start_asserts

text \<open>
  The new thread: nothing yet, then before each of the statements \<open>*tid_ = tid()\<close>, \<open>tid_ = NULL\<close>, \<open>latch_->countDown()\<close>,
  \<open>latch_ = NULL\<close> and the naming, in the function, over. The two assignments of null change the \<open>ThreadData\<close>, which
  belongs to the new thread; the other two statements write to the \<open>Thread\<close> object of the starter.
\<close>

datatype child = No_child | Storing_tid | Clearing_tid | Counting_down | Clearing_latch | Naming | In_func | Child_over

record thread_world =
  tw_obj :: thread_object
  tw_alive :: bool
  tw_tid :: int
  tw_latch :: latch
  tw_starter :: starter
  tw_child :: child
  tw_tid_ptr :: bool
  tw_latch_ptr :: bool
  tw_locals :: thread_locals

definition new_thread_world :: "string \<Rightarrow> thread_world" where
  "new_thread_world name = \<lparr>tw_obj = new_thread name, tw_alive = True, tw_tid = 0, tw_latch = new_latch 1, tw_starter = Not_called,
     tw_child = No_child, tw_tid_ptr = False, tw_latch_ptr = False, tw_locals = new_locals\<rparr>"

text \<open>
  The steps of the new thread, \<open>gettid\<close> being its id. A write through a null pointer or into a destroyed \<open>Thread\<close> is
  \<^term>\<open>None\<close>. \<open>countDown\<close> is one step: it runs under the latch's mutex, which the starter needs to pass the latch.
\<close>

definition store_tid :: "int \<Rightarrow> thread_world \<Rightarrow> thread_world checked" where
  "store_tid gettid w =
     (if tw_tid_ptr w \<and> tw_alive w
      then let (t, l) = tid gettid (tw_locals w)
           in Some (w\<lparr>tw_tid := t, tw_child := Clearing_tid, tw_locals := l\<rparr>)
      else None)"

definition clear_tid :: "thread_world \<Rightarrow> thread_world" where
  "clear_tid w = w\<lparr>tw_tid_ptr := False, tw_child := Counting_down\<rparr>"

definition count_down :: "thread_world \<Rightarrow> thread_world checked" where
  "count_down w =
     (if tw_latch_ptr w \<and> tw_alive w
      then Some (w\<lparr>tw_latch := countDown (tw_latch w), tw_child := Clearing_latch\<rparr>) else None)"

definition clear_latch :: "thread_world \<Rightarrow> thread_world" where
  "clear_latch w = w\<lparr>tw_latch_ptr := False, tw_child := Naming\<rparr>"

definition name_thread :: "string \<Rightarrow> thread_world \<Rightarrow> thread_world" where
  "name_thread name w =
     w\<lparr>tw_child := In_func, tw_locals := setName (if name = [] then ''muduoThread'' else name) (tw_locals w)\<rparr>"

text \<open>The starter's pass through \<open>latch_.wait(); assert(tid_ > 0);\<close>.\<close>

definition wait_pass :: "nat \<Rightarrow> thread_world \<Rightarrow> thread_world" where
  "wait_pass me w =
     (case latch_wait me (tw_latch w) of
        (r, l) \<Rightarrow> w\<lparr>tw_latch := l, tw_starter := if \<not> r then Latch_wait else if 0 < tw_tid w then Start_returned else Start_asserts\<rparr>)"

text \<open>The owner may destroy the \<open>Thread\<close> as soon as \<open>start\<close> has returned, whatever the new thread is doing then.\<close>

inductive start_step :: "nat \<Rightarrow> int \<Rightarrow> string \<Rightarrow> thread_world \<Rightarrow> thread_world \<Rightarrow> bool" for me gettid name where
  call_start: "tw_starter w = Not_called \<Longrightarrow> thread_start (tw_obj w) = Some ob \<Longrightarrow>
    start_step me gettid name w (w\<lparr>tw_obj := ob, tw_starter := Creating\<rparr>)"
| create_fails: "tw_starter w = Creating \<Longrightarrow>
    start_step me gettid name w (w\<lparr>tw_obj := (tw_obj w)\<lparr>th_started := False\<rparr>, tw_starter := Start_failed\<rparr>)"
| create: "tw_starter w = Creating \<Longrightarrow>
    start_step me gettid name w (w\<lparr>tw_starter := Created, tw_child := Storing_tid, tw_tid_ptr := True, tw_latch_ptr := True\<rparr>)"
| call_wait: "tw_starter w = Created \<Longrightarrow>
    start_step me gettid name w (w\<lparr>tw_latch := (tw_latch w)\<lparr>la_condition := enter me (la_condition (tw_latch w))\<rparr>,
      tw_starter := Latch_wait\<rparr>)"
| pass_wait: "tw_starter w = Latch_wait \<Longrightarrow> me \<in> awake (la_condition (tw_latch w)) \<Longrightarrow>
    start_step me gettid name w (wait_pass me w)"
| spurious: "me \<in> asleep (la_condition (tw_latch w)) \<Longrightarrow>
    start_step me gettid name w (w\<lparr>tw_latch := (tw_latch w)\<lparr>la_condition := notify {me} (la_condition (tw_latch w))\<rparr>\<rparr>)"
| destroy: "tw_starter w = Start_returned \<Longrightarrow> start_step me gettid name w (w\<lparr>tw_alive := False\<rparr>)"
| child_stores: "tw_child w = Storing_tid \<Longrightarrow> store_tid gettid w = Some w' \<Longrightarrow> start_step me gettid name w w'"
| child_clears_tid: "tw_child w = Clearing_tid \<Longrightarrow> start_step me gettid name w (clear_tid w)"
| child_counts: "tw_child w = Counting_down \<Longrightarrow> count_down w = Some w' \<Longrightarrow> start_step me gettid name w w'"
| child_clears_latch: "tw_child w = Clearing_latch \<Longrightarrow> start_step me gettid name w (clear_latch w)"
| child_names: "tw_child w = Naming \<Longrightarrow> start_step me gettid name w (name_thread name w)"
| child_ends: "tw_child w = In_func \<Longrightarrow> run_func name r (tw_locals w) = (l, lines, Continues) \<Longrightarrow>
    start_step me gettid name w (w\<lparr>tw_child := Child_over, tw_locals := l\<rparr>)"

inductive_cases start_stepE: "start_step me gettid name w w'"

text \<open>The new thread is past its last write to the \<open>Thread\<close> object.\<close>

fun child_done_with_object :: "child \<Rightarrow> bool" where
  "child_done_with_object Clearing_latch = True"
| "child_done_with_object Naming = True"
| "child_done_with_object In_func = True"
| "child_done_with_object Child_over = True"
| "child_done_with_object _ = False"

definition start_ok :: "nat \<Rightarrow> int \<Rightarrow> thread_world \<Rightarrow> bool" where
  "start_ok me gettid w \<longleftrightarrow>
     0 < gettid \<and> gettid < 2 ^ 31
     \<and> (tw_child w \<in> {No_child, Storing_tid} \<longrightarrow> tw_locals w = new_locals)
     \<and> (tw_tid_ptr w \<longleftrightarrow> tw_child w = Storing_tid \<or> tw_child w = Clearing_tid)
     \<and> (tw_latch_ptr w \<longleftrightarrow> tw_child w \<in> {Storing_tid, Clearing_tid, Counting_down, Clearing_latch})
     \<and> la_count (tw_latch w) = (if child_done_with_object (tw_child w) then 0 else 1)
     \<and> (tw_child w \<notin> {No_child, Storing_tid} \<longrightarrow> tw_tid w = gettid)
     \<and> (tw_child w = No_child \<longleftrightarrow> tw_starter w \<in> {Not_called, Creating, Start_failed})
     \<and> (tw_starter w = Start_returned \<longrightarrow> child_done_with_object (tw_child w))
     \<and> (tw_starter w \<noteq> Start_returned \<longrightarrow> tw_alive w)
     \<and> tw_starter w \<noteq> Start_asserts
     \<and> (th_started (tw_obj w) \<longleftrightarrow> tw_starter w \<notin> {Not_called, Start_failed})
     \<and> (asleep (la_condition (tw_latch w)) \<noteq> {} \<longrightarrow> \<not> child_done_with_object (tw_child w))
     \<and> inside (la_condition (tw_latch w)) = (if tw_starter w = Latch_wait then {me} else {})
     \<and> asleep (la_condition (tw_latch w)) \<inter> awake (la_condition (tw_latch w)) = {}"

lemma start_ok_new: "0 < gettid \<Longrightarrow> gettid < 2 ^ 31 \<Longrightarrow> start_ok me gettid (new_thread_world name)"
  by (simp add: start_ok_def new_thread_world_def new_latch_def new_thread_def waiters_defs)

lemma start_ok_pass:
  assumes "start_ok me gettid w" and "tw_starter w = Latch_wait" and "me \<in> awake (la_condition (tw_latch w))"
  shows "start_ok me gettid (wait_pass me w)"
  using assms by (auto simp: start_ok_def wait_pass_def latch_wait_def waiters_defs split: if_splits)

lemma start_ok_child:
  assumes "start_ok me gettid w"
  shows "tw_child w = Storing_tid \<Longrightarrow> store_tid gettid w = Some w' \<Longrightarrow> start_ok me gettid w'"
    and "tw_child w = Clearing_tid \<Longrightarrow> start_ok me gettid (clear_tid w)"
    and "tw_child w = Counting_down \<Longrightarrow> count_down w = Some w' \<Longrightarrow> start_ok me gettid w'"
    and "tw_child w = Clearing_latch \<Longrightarrow> start_ok me gettid (clear_latch w)"
    and "tw_child w = Naming \<Longrightarrow> start_ok me gettid (name_thread name w)"
    and "tw_child w = In_func \<Longrightarrow> start_ok me gettid (w\<lparr>tw_child := Child_over, tw_locals := l\<rparr>)"
proof -
  have "0 < gettid" "gettid < 2 ^ 31" using assms by (simp_all add: start_ok_def)
  note t = tid_contract(1) [OF new_locals_ok [OF this]]
  show "tw_child w = Storing_tid \<Longrightarrow> store_tid gettid w = Some w' \<Longrightarrow> start_ok me gettid w'"
    using assms t by (auto simp: start_ok_def store_tid_def case_prod_beta split: if_splits)
  show "tw_child w = Clearing_tid \<Longrightarrow> start_ok me gettid (clear_tid w)"
    using assms by (auto simp: start_ok_def clear_tid_def split: if_splits)
  show "tw_child w = Counting_down \<Longrightarrow> count_down w = Some w' \<Longrightarrow> start_ok me gettid w'"
    using assms by (auto simp: start_ok_def count_down_def countDown_def notifyAll_def inside_def Let_def split: if_splits)
  show "tw_child w = Clearing_latch \<Longrightarrow> start_ok me gettid (clear_latch w)"
    using assms by (auto simp: start_ok_def clear_latch_def split: if_splits)
  show "tw_child w = Naming \<Longrightarrow> start_ok me gettid (name_thread name w)"
    using assms by (auto simp: start_ok_def name_thread_def split: if_splits)
  show "tw_child w = In_func \<Longrightarrow> start_ok me gettid (w\<lparr>tw_child := Child_over, tw_locals := l\<rparr>)"
    using assms by (auto simp: start_ok_def split: if_splits)
qed

lemma start_ok_starter:
  assumes "start_ok me gettid w"
  shows "tw_starter w = Not_called \<Longrightarrow> thread_start (tw_obj w) = Some ob \<Longrightarrow> start_ok me gettid (w\<lparr>tw_obj := ob, tw_starter := Creating\<rparr>)"
    and "tw_starter w = Creating \<Longrightarrow> start_ok me gettid (w\<lparr>tw_obj := (tw_obj w)\<lparr>th_started := False\<rparr>, tw_starter := Start_failed\<rparr>)"
    and "tw_starter w = Creating \<Longrightarrow>
      start_ok me gettid (w\<lparr>tw_starter := Created, tw_child := Storing_tid, tw_tid_ptr := True, tw_latch_ptr := True\<rparr>)"
    and "tw_starter w = Created \<Longrightarrow> start_ok me gettid
      (w\<lparr>tw_latch := (tw_latch w)\<lparr>la_condition := enter me (la_condition (tw_latch w))\<rparr>, tw_starter := Latch_wait\<rparr>)"
    and "me \<in> asleep (la_condition (tw_latch w)) \<Longrightarrow> start_ok me gettid
      (w\<lparr>tw_latch := (tw_latch w)\<lparr>la_condition := notify {me} (la_condition (tw_latch w))\<rparr>\<rparr>)"
    and "tw_starter w = Start_returned \<Longrightarrow> start_ok me gettid (w\<lparr>tw_alive := False\<rparr>)"
  using assms by (auto simp: start_ok_def thread_start_def waiters_defs split: if_splits)

lemma start_ok_step: "start_step me gettid name w w' \<Longrightarrow> start_ok me gettid w \<Longrightarrow> start_ok me gettid w'"
  by (induction rule: start_step.induct) (blast intro: start_ok_starter start_ok_pass start_ok_child)+

lemma start_ok_reachable:
  assumes "(start_step me gettid name)\<^sup>*\<^sup>* (new_thread_world nm) w" and "0 < gettid" and "gettid < 2 ^ 31"
  shows "start_ok me gettid w"
  by (rule invariant_steps [OF assms(1), of "start_ok me gettid", OF start_ok_new [OF assms(2,3)] start_ok_step])

lemma start_ok_writes:
  assumes "start_ok me gettid w"
  shows "tw_child w = Storing_tid \<Longrightarrow> store_tid gettid w \<noteq> None" and "tw_child w = Counting_down \<Longrightarrow> count_down w \<noteq> None"
  using assms by (auto simp: start_ok_def store_tid_def count_down_def case_prod_beta)

text \<open>
  C34: \<open>Thread::start\<close> hands a running thread over, in every order in which the caller and the new thread can run,
  spurious wake-ups of the latch included: the assertion on \<open>tid_\<close> never fails; when \<open>start\<close> has returned, \<open>tid()\<close> is
  the new thread's id and the new thread has made its last write to the \<open>Thread\<close> object, so that the
  object may be destroyed at once, even before the new thread has cleared its own copy of the pointer: no later
  step of the new thread writes into a destroyed object; and \<open>start\<close> is not left waiting: either the new
  thread has still a step to make up to its \<open>countDown\<close>, or the caller is awake and its next pass returns.
\<close>

theorem thread_start_handshake:
  assumes "(start_step me gettid name)\<^sup>*\<^sup>* (new_thread_world nm) w" and "0 < gettid" and "gettid < 2 ^ 31"
  shows "tw_starter w \<noteq> Start_asserts
    \<and> (tw_starter w = Start_returned \<longrightarrow> tw_tid w = gettid \<and> th_started (tw_obj w) \<and> child_done_with_object (tw_child w))
    \<and> (tw_child w = Storing_tid \<longrightarrow> store_tid gettid w \<noteq> None) \<and> (tw_child w = Counting_down \<longrightarrow> count_down w \<noteq> None)
    \<and> (tw_starter w = Latch_wait \<longrightarrow> tw_child w \<in> {Storing_tid, Clearing_tid, Counting_down}
         \<or> me \<in> awake (la_condition (tw_latch w)) \<and> tw_starter (wait_pass me w) = Start_returned)"
proof -
  note ok = start_ok_reachable [OF assms]
  have "tw_starter w = Latch_wait \<Longrightarrow> tw_child w \<in> {Storing_tid, Clearing_tid, Counting_down}
      \<or> me \<in> awake (la_condition (tw_latch w)) \<and> tw_starter (wait_pass me w) = Start_returned"
    using ok by (cases "tw_child w") (auto simp: start_ok_def wait_pass_def latch_wait_def inside_def)
  moreover have "tw_starter w = Start_returned \<Longrightarrow> tw_tid w = gettid \<and> th_started (tw_obj w)"
    using ok by (cases "tw_child w") (auto simp: start_ok_def)
  ultimately show ?thesis using ok start_ok_writes [OF ok] by (simp add: start_ok_def)
qed

theorem thread_start_handshake_witness:
  "\<exists>w. (start_step 1 7 ''t'')\<^sup>*\<^sup>* (new_thread_world ''t'') w \<and> tw_starter w = Start_returned \<and> tw_tid w = 7
     \<and> \<not> tw_alive w \<and> tw_latch_ptr w \<and> child_done_with_object (tw_child w)"
proof -
  let ?l = "snd (tid 7 new_locals)"
  let ?ob = "(new_thread ''t'')\<lparr>th_started := True\<rparr>"
  let ?w = "\<lambda>st ch al t p q n A l. \<lparr>tw_obj = ?ob, tw_alive = al, tw_tid = t, tw_latch = \<lparr>la_count = n, la_condition = \<lparr>asleep = {}, awake = A\<rparr>\<rparr>,
     tw_starter = st, tw_child = ch, tw_tid_ptr = p, tw_latch_ptr = q, tw_locals = l\<rparr>"
  have t: "fst (tid 7 new_locals) = 7"
    using tid_contract(1) [OF new_locals_ok, of 7] by simp
  have "start_step 1 7 ''t'' (new_thread_world ''t'') (?w Creating No_child True 0 False False 1 {} new_locals)"
    using call_start [of "new_thread_world ''t''" ?ob 1 7 "''t''"]
    by (simp add: new_thread_world_def thread_start_def new_thread_def new_latch_def no_waiters_def)
  moreover have "start_step 1 7 ''t'' (?w Creating No_child True 0 False False 1 {} new_locals) (?w Created Storing_tid True 0 True True 1 {} new_locals)"
    using start_step.create [of "?w Creating No_child True 0 False False 1 {} new_locals" 1 7 "''t''"] by simp
  moreover have "start_step 1 7 ''t'' (?w Created Storing_tid True 0 True True 1 {} new_locals) (?w Created Clearing_tid True 7 True True 1 {} ?l)"
    by (rule child_stores) (use t in \<open>simp_all add: store_tid_def case_prod_beta\<close>)
  moreover have "start_step 1 7 ''t'' (?w Created Clearing_tid True 7 True True 1 {} ?l) (?w Created Counting_down True 7 False True 1 {} ?l)"
    using child_clears_tid [of "?w Created Clearing_tid True 7 True True 1 {} ?l" 1 7 "''t''"] by (simp add: clear_tid_def)
  moreover have "start_step 1 7 ''t'' (?w Created Counting_down True 7 False True 1 {} ?l) (?w Created Clearing_latch True 7 False True 0 {} ?l)"
    by (rule child_counts) (simp_all add: count_down_def countDown_def notifyAll_def)
  moreover have "start_step 1 7 ''t'' (?w Created Clearing_latch True 7 False True 0 {} ?l) (?w Latch_wait Clearing_latch True 7 False True 0 {1} ?l)"
    using call_wait [of "?w Created Clearing_latch True 7 False True 0 {} ?l" 1 7 "''t''"] by (simp add: enter_def)
  moreover have "start_step 1 7 ''t'' (?w Latch_wait Clearing_latch True 7 False True 0 {1} ?l) (?w Start_returned Clearing_latch True 7 False True 0 {} ?l)"
    using pass_wait [of "?w Latch_wait Clearing_latch True 7 False True 0 {1} ?l" 1 7 "''t''"]
    by (simp add: wait_pass_def latch_wait_def leave_def)
  moreover have "start_step 1 7 ''t'' (?w Start_returned Clearing_latch True 7 False True 0 {} ?l) (?w Start_returned Clearing_latch False 7 False True 0 {} ?l)"
    using start_step.destroy [of "?w Start_returned Clearing_latch True 7 False True 0 {} ?l" 1 7 "''t''"] by simp
  ultimately have run: "(start_step 1 7 ''t'')\<^sup>*\<^sup>* (new_thread_world ''t'') (?w Start_returned Clearing_latch False 7 False True 0 {} ?l)"
    by (meson converse_rtranclp_into_rtranclp rtranclp.rtrancl_refl)
  from thread_start_handshake [OF run] run show ?thesis
    by (intro exI [of _ "?w Start_returned Clearing_latch False 7 False True 0 {} ?l"]) simp
qed

section \<open>The destructor\<close>

datatype thread_handle = Handle_joinable | Handle_detached | Handle_joined

definition destroy_thread :: "thread_object \<Rightarrow> thread_handle \<Rightarrow> thread_handle" where
  "destroy_thread t h = (if th_started t \<and> \<not> th_joined t then Handle_detached else h)"

text \<open>A thread that was started is never left joinable: \<open>join\<close> or the destructor gives it back to the system.\<close>

lemma thread_handle_released:
  assumes "thread_start (new_thread name) = Some t"
  shows "destroy_thread t Handle_joinable = Handle_detached"
    and "thread_join t = Some t' \<Longrightarrow> destroy_thread t' Handle_joined = Handle_joined"
    and "thread_join t = Some t' \<Longrightarrow> thread_join t' = None" and "thread_start t = None"
  using assms by (auto simp: thread_start_def thread_join_def new_thread_def destroy_thread_def)

end
