(* ===== verification/LoopLife.thy ===== *)
theory LoopLife
  imports Pollers EventLoop TimerQueue
begin

text \<open>
  The life of an event loop: \<open>net/EventLoop.cc\<close> (constructor, destructor, the calls that channels make),
  \<open>net/poller/DefaultPoller.cc\<close>, the channel operations of \<open>net/Channel.cc\<close> through the loop, and the constructor and
  destructor of \<open>net/TimerQueue.cc\<close>. Every operation takes the id of the thread that calls it; \<open>LOG_FATAL\<close> and failing
  assertions end the process and are \<^term>\<open>None\<close>. \<open>t_loopInThisThread\<close> of all threads together is a map from
  thread ids to loops.
\<close>

section \<open>The default poller\<close>

datatype any_poller = Epoll epoll_poller | Poll poll_poller

definition newDefaultPoller :: "bool \<Rightarrow> (chan_ptr \<Rightarrow> int) \<Rightarrow> any_poller" where
  "newDefaultPoller use_poll fds = (if use_poll then Poll (new_poll_poller fds) else Epoll (new_epoll_poller fds))"

text \<open>The virtual functions of \<open>Poller\<close>, and the channel store behind it.\<close>

fun any_updateChannel :: "chan_ptr \<Rightarrow> any_poller \<Rightarrow> any_poller checked" where
  "any_updateChannel p (Epoll s) = map_option Epoll (epoll_updateChannel p s)"
| "any_updateChannel p (Poll s) = map_option Poll (poll_updateChannel p s)"

fun any_removeChannel :: "chan_ptr \<Rightarrow> any_poller \<Rightarrow> any_poller checked" where
  "any_removeChannel p (Epoll s) = map_option Epoll (epoll_removeChannel p s)"
| "any_removeChannel p (Poll s) = map_option Poll (poll_removeChannel p s)"

fun any_hasChannel :: "any_poller \<Rightarrow> chan_ptr \<Rightarrow> bool" where
  "any_hasChannel (Epoll s) p = hasChannel s p"
| "any_hasChannel (Poll s) p = hasChannel s p"

fun any_chan :: "any_poller \<Rightarrow> chan_ptr \<Rightarrow> channel" where
  "any_chan (Epoll s) p = pl_chans s p"
| "any_chan (Poll s) p = pl_chans s p"

fun any_set_chan :: "chan_ptr \<Rightarrow> channel \<Rightarrow> any_poller \<Rightarrow> any_poller" where
  "any_set_chan p c (Epoll s) = Epoll (set_chan p c s)"
| "any_set_chan p c (Poll s) = Poll (set_chan p c s)"

section \<open>The loop object\<close>

record loop_object =
  lo_this :: nat
  lo_threadId :: nat
  lo_poller :: any_poller
  lo_state :: "unit event_loop"
  lo_ownerLoop :: "chan_ptr \<Rightarrow> nat"
  lo_timerfdChannel :: chan_ptr
  lo_wakeupChannel :: chan_ptr
  lo_closed :: "int list"

definition isInLoopThread :: "nat \<Rightarrow> loop_object \<Rightarrow> bool" where
  "isInLoopThread cur l \<longleftrightarrow> lo_threadId l = cur"

definition assertInLoopThread :: "nat \<Rightarrow> loop_object \<Rightarrow> unit checked" where
  "assertInLoopThread cur l = (if isInLoopThread cur l then Some () else None)"

definition loop_updateChannel :: "nat \<Rightarrow> chan_ptr \<Rightarrow> loop_object \<Rightarrow> loop_object checked" where
  "loop_updateChannel cur p l = do {
     asserting (lo_ownerLoop l p = lo_this l) ();
     assertInLoopThread cur l;
     s \<leftarrow> any_updateChannel p (lo_poller l);
     Some (l\<lparr>lo_poller := s\<rparr>) }"

definition loop_removes :: "nat \<Rightarrow> chan_ptr \<Rightarrow> loop_object \<Rightarrow> loop_object checked" where
  "loop_removes cur p l = do {
     asserting (lo_ownerLoop l p = lo_this l) ();
     assertInLoopThread cur l;
     loop_removeChannel (isInLoopThread cur l) p (lo_state l);
     s \<leftarrow> any_removeChannel p (lo_poller l);
     Some (l\<lparr>lo_poller := s\<rparr>) }"

definition loop_hasChannel :: "nat \<Rightarrow> chan_ptr \<Rightarrow> loop_object \<Rightarrow> bool checked" where
  "loop_hasChannel cur p l = do {
     asserting (lo_ownerLoop l p = lo_this l) ();
     assertInLoopThread cur l;
     Some (any_hasChannel (lo_poller l) p) }"

text \<open>\<open>events_ = e; update();\<close>, \<open>remove()\<close> and the destructor of a channel.\<close>

definition channel_update :: "nat \<Rightarrow> events \<Rightarrow> chan_ptr \<Rightarrow> loop_object \<Rightarrow> loop_object checked" where
  "channel_update cur e p l =
     loop_updateChannel cur p (l\<lparr>lo_poller := any_set_chan p (chan_update e (any_chan (lo_poller l) p)) (lo_poller l)\<rparr>)"

definition channel_remove :: "nat \<Rightarrow> chan_ptr \<Rightarrow> loop_object \<Rightarrow> loop_object checked" where
  "channel_remove cur p l = do {
     c \<leftarrow> chan_remove (any_chan (lo_poller l) p);
     loop_removes cur p (l\<lparr>lo_poller := any_set_chan p c (lo_poller l)\<rparr>) }"

definition channel_destroy :: "nat \<Rightarrow> chan_ptr \<Rightarrow> loop_object \<Rightarrow> unit checked" where
  "channel_destroy cur p l = do {
     asserting (\<not> ch_eventHandling (any_chan (lo_poller l) p)) ();
     asserting (\<not> ch_addedToLoop (any_chan (lo_poller l) p)) ();
     if isInLoopThread cur l
     then do { has \<leftarrow> loop_hasChannel cur p l; asserting (\<not> has) () }
     else Some () }"

section \<open>Construction and destruction\<close>

definition timer_queue_ctor :: "nat \<Rightarrow> loop_object \<Rightarrow> loop_object checked" where
  "timer_queue_ctor cur l =
     channel_update cur (ch_events (any_chan (lo_poller l) (lo_timerfdChannel l)) OR kReadEvent) (lo_timerfdChannel l) l"

definition event_loop_ctor ::
  "nat \<Rightarrow> bool \<Rightarrow> (chan_ptr \<Rightarrow> int) \<Rightarrow> (chan_ptr \<Rightarrow> nat) \<Rightarrow> nat \<Rightarrow> chan_ptr \<Rightarrow> chan_ptr \<Rightarrow> (nat \<rightharpoonup> nat)
     \<Rightarrow> (loop_object \<times> (nat \<rightharpoonup> nat)) checked" where
  "event_loop_ctor cur use_poll fds owner this tptr wptr reg = do {
     l1 \<leftarrow> timer_queue_ctor cur \<lparr>lo_this = this, lo_threadId = cur, lo_poller = newDefaultPoller use_poll fds,
       lo_state = new_event_loop, lo_ownerLoop = owner, lo_timerfdChannel = tptr, lo_wakeupChannel = wptr, lo_closed = []\<rparr>;
     reg' \<leftarrow> (case reg cur of Some other \<Rightarrow> None | None \<Rightarrow> Some (reg(cur \<mapsto> this)));
     l2 \<leftarrow> channel_update cur (ch_events (any_chan (lo_poller l1) wptr) OR kReadEvent) wptr l1;
     Some (l2, reg') }"

text \<open>\<open>delete\<close> of an address that is not allocated is a double free.\<close>

fun delete_timers :: "entry list \<Rightarrow> (nat \<rightharpoonup> 'c timer) \<Rightarrow> (nat \<rightharpoonup> 'c timer) checked" where
  "delete_timers [] heap = Some heap"
| "delete_timers ((e, a) # es) heap = (if heap a = None then None else delete_timers es (heap(a := None)))"

text \<open>A channel that is closed down by its owner: \<open>disableAll(); remove();\<close>, \<open>close\<close> of the descriptor.\<close>

definition close_down :: "nat \<Rightarrow> chan_ptr \<Rightarrow> loop_object \<Rightarrow> loop_object checked" where
  "close_down cur p l = do {
     l1 \<leftarrow> channel_update cur kNoneEvent p l;
     l2 \<leftarrow> channel_remove cur p l1;
     Some (l2\<lparr>lo_closed := lo_closed l2 @ [ch_fd (any_chan (lo_poller l2) p)]\<rparr>) }"

definition timer_queue_dtor :: "nat \<Rightarrow> loop_object \<times> 'c timer_queue \<Rightarrow> (loop_object \<times> (nat \<rightharpoonup> 'c timer)) checked" where
  "timer_queue_dtor cur lq = (case lq of (l, q) \<Rightarrow> do {
     l1 \<leftarrow> close_down cur (lo_timerfdChannel l) l;
     heap \<leftarrow> delete_timers (tq_timers q) (tq_heap q);
     channel_destroy cur (lo_timerfdChannel l) l1;
     Some (l1, heap) })"

text \<open>The body of the destructor, then the members in the reverse order of their declaration.\<close>

definition event_loop_dtor ::
  "nat \<Rightarrow> loop_object \<times> 'c timer_queue \<Rightarrow> (nat \<rightharpoonup> nat) \<Rightarrow> (loop_object \<times> (nat \<rightharpoonup> 'c timer) \<times> (nat \<rightharpoonup> nat)) checked" where
  "event_loop_dtor cur lq reg = (case lq of (l, q) \<Rightarrow> do {
     l1 \<leftarrow> close_down cur (lo_wakeupChannel l) l;
     let reg' = reg(cur := None);
     channel_destroy cur (lo_wakeupChannel l) l1;
     (l2, heap) \<leftarrow> timer_queue_dtor cur (l1, q);
     Some (l2, heap, reg') })"

definition getEventLoopOfCurrentThread :: "nat \<Rightarrow> (nat \<rightharpoonup> nat) \<Rightarrow> nat option" where
  "getEventLoopOfCurrentThread cur reg = reg cur"

section \<open>The default poller meets the contract\<close>

fun any_inv :: "any_poller \<Rightarrow> bool" where
  "any_inv (Epoll s) = ep_inv s"
| "any_inv (Poll s) = pp_inv s"

fun any_fd :: "any_poller \<Rightarrow> chan_ptr \<Rightarrow> int" where
  "any_fd (Epoll s) = fd_at s"
| "any_fd (Poll s) = fd_at s"

fun any_fresh :: "any_poller \<Rightarrow> chan_ptr \<Rightarrow> bool" where
  "any_fresh (Epoll s) = ep_fresh s"
| "any_fresh (Poll s) = pp_fresh s"

fun any_interest :: "any_poller \<Rightarrow> chan_ptr \<Rightarrow> events" where
  "any_interest (Epoll s) = chan_interest s"
| "any_interest (Poll s) = chan_interest s"

fun any_watch :: "any_poller \<Rightarrow> int \<Rightarrow> events" where
  "any_watch (Epoll s) = ep_watch s"
| "any_watch (Poll s) = pp_watch s"

definition any_change :: "events \<Rightarrow> chan_ptr \<Rightarrow> any_poller \<Rightarrow> any_poller checked" where
  "any_change e p s = any_updateChannel p (any_set_chan p (chan_update e (any_chan s p)) s)"

definition any_remove :: "chan_ptr \<Rightarrow> any_poller \<Rightarrow> any_poller checked" where
  "any_remove p s = do { c \<leftarrow> chan_remove (any_chan s p); any_removeChannel p (any_set_chan p c s) }"

lemma any_change_eq [simp]:
  "any_change e p (Epoll s) = map_option Epoll (epoll_change e p s)"
  "any_change e p (Poll s') = map_option Poll (poll_change e p s')"
  by (simp_all add: any_change_def change_interest_def)

lemma any_remove_eq [simp]:
  "any_remove p (Epoll s) = map_option Epoll (epoll_remove p s)"
  "any_remove p (Poll s') = map_option Poll (poll_remove p s')"
  by (simp_all add: any_remove_def remove_channel_def map_option_case split: bind_splits)

lemma any_has_eq: "any_hasChannel (Epoll s) = hasChannel s" "any_hasChannel (Poll s') = hasChannel s'"
  by (simp_all add: fun_eq_iff)

lemma any_change_law:
  assumes "any_inv s" and "e = interest_of r w"
    and "any_hasChannel s p \<or> any_fresh s p \<and> e \<noteq> 0 \<and> (\<forall>q. any_hasChannel s q \<longrightarrow> any_fd s q \<noteq> any_fd s p)"
  shows "\<exists>s'. any_change e p s = Some s' \<and> any_inv s' \<and> any_fd s' = any_fd s
        \<and> any_hasChannel s' = (any_hasChannel s)(p := True) \<and> any_fresh s' = (any_fresh s)(p := False)
        \<and> any_interest s' = (any_interest s)(p := e) \<and> any_watch s' = (any_watch s)(any_fd s p := e)"
proof (cases s)
  case (Epoll k)
  with ep.change_law [of k e r w p] assms obtain k' where "epoll_change e p k = Some k' \<and> ep_inv k' \<and> fd_at k' = fd_at k
        \<and> hasChannel k' = (hasChannel k)(p := True) \<and> ep_fresh k' = (ep_fresh k)(p := False)
        \<and> chan_interest k' = (chan_interest k)(p := e) \<and> ep_watch k' = (ep_watch k)(fd_at k p := e)" by auto
  with Epoll show ?thesis by (intro exI [of _ "Epoll k'"]) (simp add: any_has_eq)
next
  case (Poll k)
  with pp.change_law [of k e r w p] assms obtain k' where "poll_change e p k = Some k' \<and> pp_inv k' \<and> fd_at k' = fd_at k
        \<and> hasChannel k' = (hasChannel k)(p := True) \<and> pp_fresh k' = (pp_fresh k)(p := False)
        \<and> chan_interest k' = (chan_interest k)(p := e) \<and> pp_watch k' = (pp_watch k)(fd_at k p := e)" by auto
  with Poll show ?thesis by (intro exI [of _ "Poll k'"]) (simp add: any_has_eq)
qed

lemma any_remove_law:
  assumes "any_inv s" and "any_hasChannel s p" and "any_interest s p = 0"
  shows "\<exists>s'. any_remove p s = Some s' \<and> any_inv s' \<and> any_fd s' = any_fd s
        \<and> any_hasChannel s' = (any_hasChannel s)(p := False) \<and> (\<forall>q. any_fresh s q \<longrightarrow> any_fresh s' q)
        \<and> any_interest s' = any_interest s \<and> any_watch s' = (any_watch s)(any_fd s p := 0)"
proof (cases s)
  case (Epoll k)
  with ep.remove_law [of k p] assms obtain k' where "epoll_remove p k = Some k' \<and> ep_inv k' \<and> fd_at k' = fd_at k
        \<and> hasChannel k' = (hasChannel k)(p := False) \<and> (\<forall>q. ep_fresh k q \<longrightarrow> ep_fresh k' q)
        \<and> chan_interest k' = chan_interest k \<and> ep_watch k' = (ep_watch k)(fd_at k p := 0)" by auto
  with Epoll show ?thesis by (intro exI [of _ "Epoll k'"]) (simp add: any_has_eq)
next
  case (Poll k)
  with pp.remove_law [of k p] assms obtain k' where "poll_remove p k = Some k' \<and> pp_inv k' \<and> fd_at k' = fd_at k
        \<and> hasChannel k' = (hasChannel k)(p := False) \<and> (\<forall>q. pp_fresh k q \<longrightarrow> pp_fresh k' q)
        \<and> chan_interest k' = chan_interest k \<and> pp_watch k' = (pp_watch k)(fd_at k p := 0)" by auto
  with Poll show ?thesis by (intro exI [of _ "Poll k'"]) (simp add: any_has_eq)
qed

interpretation any: poller any_inv any_fd any_hasChannel any_fresh any_interest any_watch any_change any_remove
  by unfold_locales (use any_change_law any_remove_law in \<open>blast+\<close>)

section \<open>The loop meets the contract\<close>

text \<open>Through the loop, called in its own thread and outside of event handling, a poller behaves as on its own.\<close>

definition loop_ok :: "nat \<Rightarrow> loop_object \<Rightarrow> bool" where
  "loop_ok cur l \<longleftrightarrow> any_inv (lo_poller l) \<and> lo_threadId l = cur \<and> (\<forall>p. lo_ownerLoop l p = lo_this l)
     \<and> \<not> el_eventHandling (lo_state l)"

lemma channel_update_eq:
  assumes "lo_threadId l = cur" and "lo_ownerLoop l p = lo_this l"
  shows "channel_update cur e p l = map_option (\<lambda>s. l\<lparr>lo_poller := s\<rparr>) (any_change e p (lo_poller l))"
  using assms by (simp add: channel_update_def loop_updateChannel_def assertInLoopThread_def isInLoopThread_def
      any_change_def map_option_case asserting_def split: option.splits)

lemma channel_remove_eq:
  assumes "lo_threadId l = cur" and "lo_ownerLoop l p = lo_this l" and "\<not> el_eventHandling (lo_state l)"
  shows "channel_remove cur p l = map_option (\<lambda>s. l\<lparr>lo_poller := s\<rparr>) (any_remove p (lo_poller l))"
  using assms by (simp add: channel_remove_def loop_removes_def assertInLoopThread_def isInLoopThread_def
      loop_removeChannel_def any_remove_def map_option_case asserting_def split: option.splits bind_splits)

interpretation lp: poller "loop_ok cur" "\<lambda>l. any_fd (lo_poller l)" "\<lambda>l. any_hasChannel (lo_poller l)"
  "\<lambda>l. any_fresh (lo_poller l)" "\<lambda>l. any_interest (lo_poller l)" "\<lambda>l. any_watch (lo_poller l)"
  "channel_update cur" "channel_remove cur" for cur
proof unfold_locales
  fix l and e :: events and r w p
  assume ok: "loop_ok cur l" and e: "e = interest_of r w" and p: "any_hasChannel (lo_poller l) p \<or>
    any_fresh (lo_poller l) p \<and> e \<noteq> 0 \<and> (\<forall>q. any_hasChannel (lo_poller l) q \<longrightarrow> any_fd (lo_poller l) q \<noteq> any_fd (lo_poller l) p)"
  have inv: "any_inv (lo_poller l)" using ok by (simp add: loop_ok_def)
  from any_change_law [OF inv e p] obtain s' where s': "any_change e p (lo_poller l) = Some s' \<and> any_inv s' \<and> any_fd s' = any_fd (lo_poller l)
      \<and> any_hasChannel s' = (any_hasChannel (lo_poller l))(p := True) \<and> any_fresh s' = (any_fresh (lo_poller l))(p := False)
      \<and> any_interest s' = (any_interest (lo_poller l))(p := e)
      \<and> any_watch s' = (any_watch (lo_poller l))(any_fd (lo_poller l) p := e)"
    by blast
  with ok show "\<exists>l'. channel_update cur e p l = Some l' \<and> loop_ok cur l' \<and> any_fd (lo_poller l') = any_fd (lo_poller l)
      \<and> any_hasChannel (lo_poller l') = (any_hasChannel (lo_poller l))(p := True)
      \<and> any_fresh (lo_poller l') = (any_fresh (lo_poller l))(p := False)
      \<and> any_interest (lo_poller l') = (any_interest (lo_poller l))(p := e)
      \<and> any_watch (lo_poller l') = (any_watch (lo_poller l))(any_fd (lo_poller l) p := e)"
    by (intro exI [of _ "l\<lparr>lo_poller := s'\<rparr>"]) (simp add: channel_update_eq loop_ok_def)
next
  fix l p
  assume ok: "loop_ok cur l" and "any_hasChannel (lo_poller l) p" "any_interest (lo_poller l) p = 0"
  then obtain s' where "any_remove p (lo_poller l) = Some s' \<and> any_inv s' \<and> any_fd s' = any_fd (lo_poller l)
      \<and> any_hasChannel s' = (any_hasChannel (lo_poller l))(p := False)
      \<and> (\<forall>q. any_fresh (lo_poller l) q \<longrightarrow> any_fresh s' q) \<and> any_interest s' = any_interest (lo_poller l)
      \<and> any_watch s' = (any_watch (lo_poller l))(any_fd (lo_poller l) p := 0)"
    using any_remove_law [of "lo_poller l" p] by (auto simp: loop_ok_def)
  with ok show "\<exists>l'. channel_remove cur p l = Some l' \<and> loop_ok cur l' \<and> any_fd (lo_poller l') = any_fd (lo_poller l)
      \<and> any_hasChannel (lo_poller l') = (any_hasChannel (lo_poller l))(p := False)
      \<and> (\<forall>q. any_fresh (lo_poller l) q \<longrightarrow> any_fresh (lo_poller l') q)
      \<and> any_interest (lo_poller l') = any_interest (lo_poller l)
      \<and> any_watch (lo_poller l') = (any_watch (lo_poller l))(any_fd (lo_poller l) p := 0)"
    by (intro exI [of _ "l\<lparr>lo_poller := s'\<rparr>"]) (simp add: channel_remove_eq loop_ok_def)
qed

section \<open>What the calls leave alone\<close>

lemma epoll_update_chans: "epoll_update op p s = Some s' \<Longrightarrow> pl_chans s' = pl_chans s"
  by (auto simp: epoll_update_def Let_def split: option.splits if_splits)

lemma updateChannel_flags:
  "epoll_updateChannel p s = Some s' \<Longrightarrow>
    ch_eventHandling (pl_chans s' q) = ch_eventHandling (pl_chans s q) \<and> ch_addedToLoop (pl_chans s' q) = ch_addedToLoop (pl_chans s q)"
  "poll_updateChannel p k = Some k' \<Longrightarrow>
    ch_eventHandling (pl_chans k' q) = ch_eventHandling (pl_chans k q) \<and> ch_addedToLoop (pl_chans k' q) = ch_addedToLoop (pl_chans k q)"
  by (auto simp: epoll_updateChannel_def poll_updateChannel_def Let_def dest!: epoll_update_chans split: if_splits bind_splits)

lemma removeChannel_flags:
  "epoll_removeChannel p s = Some s' \<Longrightarrow>
    ch_eventHandling (pl_chans s' q) = ch_eventHandling (pl_chans s q) \<and> ch_addedToLoop (pl_chans s' q) = ch_addedToLoop (pl_chans s q)"
  "poll_removeChannel p k = Some k' \<Longrightarrow>
    ch_eventHandling (pl_chans k' q) = ch_eventHandling (pl_chans k q) \<and> ch_addedToLoop (pl_chans k' q) = ch_addedToLoop (pl_chans k q)"
  by (auto simp: epoll_removeChannel_def poll_removeChannel_def Let_def dest!: epoll_update_chans
      split: if_splits bind_splits option.splits)

lemma any_set_chan_get [simp]: "any_chan (any_set_chan p c s) q = (if q = p then c else any_chan s q)"
  by (cases s) simp_all

lemma any_change_flags:
  assumes "any_change e p s = Some s'"
  shows "ch_eventHandling (any_chan s' q) = ch_eventHandling (any_chan s q)"
    and "q \<noteq> p \<Longrightarrow> ch_addedToLoop (any_chan s' q) = ch_addedToLoop (any_chan s q)"
proof -
  have f: "ch_eventHandling (any_chan s' q) = ch_eventHandling (any_chan s q)
      \<and> (q \<noteq> p \<longrightarrow> ch_addedToLoop (any_chan s' q) = ch_addedToLoop (any_chan s q))"
    using assms by (cases s) (auto simp: change_interest_def chan_update_def dest!: updateChannel_flags [where q = q] split: if_splits)
  then show "ch_eventHandling (any_chan s' q) = ch_eventHandling (any_chan s q)" by simp
  from f show "q \<noteq> p \<Longrightarrow> ch_addedToLoop (any_chan s' q) = ch_addedToLoop (any_chan s q)" by simp
qed

lemma any_remove_flags:
  assumes "any_remove p s = Some s'"
  shows "ch_eventHandling (any_chan s' q) = ch_eventHandling (any_chan s q)"
    and "ch_addedToLoop (any_chan s' q) = (if q = p then False else ch_addedToLoop (any_chan s q))"
proof -
  have f: "ch_eventHandling (any_chan s' q) = ch_eventHandling (any_chan s q)
      \<and> ch_addedToLoop (any_chan s' q) = (if q = p then False else ch_addedToLoop (any_chan s q))"
    using assms by (cases s)
      (auto simp: remove_channel_def chan_remove_def dest!: removeChannel_flags [where q = q] split: bind_splits if_splits)
  then show "ch_eventHandling (any_chan s' q) = ch_eventHandling (any_chan s q)" by simp
  from f show "ch_addedToLoop (any_chan s' q) = (if q = p then False else ch_addedToLoop (any_chan s q))" by simp
qed

lemma channel_frame:
  "channel_update cur e p l = Some l' \<Longrightarrow> l' = l\<lparr>lo_poller := lo_poller l'\<rparr> \<and> any_change e p (lo_poller l) = Some (lo_poller l')"
  "channel_remove cur p l = Some l' \<Longrightarrow> l' = l\<lparr>lo_poller := lo_poller l'\<rparr> \<and> any_remove p (lo_poller l) = Some (lo_poller l')"
  by (auto simp: channel_update_def loop_updateChannel_def channel_remove_def loop_removes_def any_change_def any_remove_def
      asserting_def assertInLoopThread_def split: bind_splits if_splits)

lemma run_cmds_frame:
  "run_cmds (channel_update cur) (channel_remove cur) cs l = Some l' \<Longrightarrow>
    l' = l\<lparr>lo_poller := lo_poller l'\<rparr>
    \<and> (\<forall>q. ch_eventHandling (any_chan (lo_poller l') q) = ch_eventHandling (any_chan (lo_poller l) q))"
proof (induction cs arbitrary: l)
  case Nil
  then show ?case by simp
next
  case (Cons c cs)
  then obtain l1 where l1: "run_cmds (channel_update cur) (channel_remove cur) cs l1 = Some l'"
    "l1 = l\<lparr>lo_poller := lo_poller l1\<rparr>"
    "\<forall>q. ch_eventHandling (any_chan (lo_poller l1) q) = ch_eventHandling (any_chan (lo_poller l) q)"
    by (cases c) (auto dest!: channel_frame simp: any_change_flags any_remove_flags split: bind_splits)
  from Cons.IH [OF l1(1)] l1(2,3) show ?case by (metis loop_object.update_convs(3) loop_object.surjective)
qed

fun cmd_chan :: "poller_cmd \<Rightarrow> chan_ptr" where
  "cmd_chan (Interest e p) = p"
| "cmd_chan (Remove p) = p"

lemma spec_run_frame:
  "spec_run fd cs a = Some b \<Longrightarrow> p \<notin> cmd_chan ` set cs \<Longrightarrow>
    sp_registered b p = sp_registered a p \<and> sp_interest b p = sp_interest a p"
proof (induction cs arbitrary: a)
  case (Cons c cs)
  then have "spec_run fd cs (spec_step fd c a) = Some b" by (auto split: if_splits)
  with Cons.IH [of "spec_step fd c a"] Cons.prems(2) show ?case by (cases c) auto
qed simp

lemma delete_timers_ok:
  assumes "distinct (map snd es)" and "snd ` set es \<subseteq> dom heap"
  shows "\<exists>heap'. delete_timers es heap = Some heap' \<and> dom heap' = dom heap - snd ` set es"
  using assms
proof (induction es arbitrary: heap)
  case (Cons x es)
  obtain e a where x: "x = (e, a)" by (cases x)
  with Cons.prems have a: "heap a \<noteq> None" "snd ` set es \<subseteq> dom (heap(a := None))" "distinct (map snd es)" by auto
  from Cons.IH [OF a(3,2)] obtain heap' where
    h: "delete_timers es (heap(a := None)) = Some heap'" "dom heap' = dom (heap(a := None)) - snd ` set es" by blast
  have "dom (heap(a := None)) = dom heap - {a}" by simp
  with h a(1) x show ?case by (intro exI [of _ heap']) auto
qed simp

lemma delete_timers_wf:
  assumes "tq_wf P q"
  shows "\<exists>heap. delete_timers (tq_timers q) (tq_heap q) = Some heap \<and> dom heap = P"
proof -
  have "inj_on snd (set (tq_timers q))" using assms by (auto simp: inj_on_def tq_wf_timers(4))
  then have d: "distinct (map snd (tq_timers q))" using tq_wf_timers(2) [OF assms] by (simp add: distinct_map)
  have "a \<notin> P" if t: "(e, a) \<in> set (tq_timers q)" for e a
  proof
    assume "a \<in> P"
    from tq_wf_detached [OF assms this] t show False by metis
  qed
  then have disj: "P \<inter> snd ` set (tq_timers q) = {}" by force
  note dom = tq_wf_domain [OF assms]
  with delete_timers_ok [OF d, of "tq_heap q"] obtain heap where
    "delete_timers (tq_timers q) (tq_heap q) = Some heap" "dom heap = dom (tq_heap q) - snd ` set (tq_timers q)" by auto
  with disj dom show ?thesis by (intro exI [of _ heap]) auto
qed

section \<open>From construction to destruction\<close>

text \<open>The specification after the constructor: the two internal channels are registered for reading.\<close>

definition loop_spec :: "(chan_ptr \<Rightarrow> int) \<Rightarrow> chan_ptr \<Rightarrow> chan_ptr \<Rightarrow> poll_spec" where
  "loop_spec fds tptr wptr =
     spec_step fds (Interest kReadEvent wptr) (spec_step fds (Interest kReadEvent tptr) new_poll_spec)"

lemma read_interest: "kReadEvent = interest_of True False" "kReadEvent \<noteq> 0"
  by (simp_all add: event_defs interest_of_def)

lemma new_default_refines:
  assumes "\<forall>p. 0 \<le> fds p"
  shows "any.refines (newDefaultPoller use_poll fds) new_poll_spec" and "any_fd (newDefaultPoller use_poll fds) = fds"
    and "any_chan (newDefaultPoller use_poll fds) p = new_channel (fds p)"
proof -
  show "any.refines (newDefaultPoller use_poll fds) new_poll_spec"
    using new_pollers_refine [of fds] assms
    by (auto simp: newDefaultPoller_def any.refines_def ep.refines_def pp.refines_def any_has_eq)
  show "any_fd (newDefaultPoller use_poll fds) = fds" by (simp add: newDefaultPoller_def new_poller_fds)
  show "any_chan (newDefaultPoller use_poll fds) p = new_channel (fds p)"
    by (simp add: newDefaultPoller_def new_epoll_poller_def new_poll_poller_def)
qed

lemma any_interest_chan: "any_interest s p = ch_events (any_chan s p)" "any_fd s p = ch_fd (any_chan s p)"
  by (cases s; simp add: chan_interest_def fd_at_def)+

text \<open>Closing a channel down in the loop's thread takes it out of the poller, and its destructor's assertions hold.\<close>

lemma close_down_ok:
  assumes "lp.refines cur l a" and "sp_registered a p" and "\<not> ch_eventHandling (any_chan (lo_poller l) p)"
  shows "\<exists>l' s. close_down cur p l = Some l' \<and> lp.refines cur l' (a\<lparr>sp_registered := (sp_registered a)(p := False),
        sp_fresh := (sp_fresh a)(p := False), sp_interest := (sp_interest a)(p := 0),
        sp_watch := (sp_watch a)(any_fd (lo_poller l) p := 0)\<rparr>)
      \<and> channel_destroy cur p l' = Some ()
      \<and> l' = l\<lparr>lo_poller := s, lo_closed := lo_closed l @ [any_fd (lo_poller l) p]\<rparr> \<and> any_fd s = any_fd (lo_poller l)
      \<and> (\<forall>q. ch_eventHandling (any_chan s q) = ch_eventHandling (any_chan (lo_poller l) q))"
proof -
  have e: "(0 :: events) = interest_of False False" by (simp add: interest_of_values)
  have ok: "loop_ok cur l" "any_hasChannel (lo_poller l) p" using assms(1,2) by (simp_all add: lp.refines_def)
  from lp.change_law [OF ok(1) e, of p] ok(2) obtain l1 where
    l1: "channel_update cur 0 p l = Some l1" "loop_ok cur l1" "any_fd (lo_poller l1) = any_fd (lo_poller l)"
      "any_hasChannel (lo_poller l1) = (any_hasChannel (lo_poller l))(p := True)"
      "any_fresh (lo_poller l1) = (any_fresh (lo_poller l))(p := False)"
      "any_interest (lo_poller l1) = (any_interest (lo_poller l))(p := 0)"
      "any_watch (lo_poller l1) = (any_watch (lo_poller l))(any_fd (lo_poller l) p := 0)" by blast
  from lp.remove_law [OF l1(2), of p] l1(4,6) obtain l2 where
    l2: "channel_remove cur p l1 = Some l2" "loop_ok cur l2" "any_fd (lo_poller l2) = any_fd (lo_poller l1)"
      "any_hasChannel (lo_poller l2) = (any_hasChannel (lo_poller l1))(p := False)"
      "\<forall>q. any_fresh (lo_poller l1) q \<longrightarrow> any_fresh (lo_poller l2) q"
      "any_interest (lo_poller l2) = any_interest (lo_poller l1)"
      "any_watch (lo_poller l2) = (any_watch (lo_poller l1))(any_fd (lo_poller l1) p := 0)" by auto
  note f1 = channel_frame(1) [OF l1(1)] and f2 = channel_frame(2) [OF l2(1)]
  let ?l = "l2\<lparr>lo_closed := lo_closed l2 @ [any_fd (lo_poller l) p]\<rparr>"
  have eh: "ch_eventHandling (any_chan (lo_poller l2) q) = ch_eventHandling (any_chan (lo_poller l) q)" for q
    using f1 f2 any_change_flags(1) any_remove_flags(1) by metis
  have ad: "\<not> ch_addedToLoop (any_chan (lo_poller l2) p)" using f2 any_remove_flags(2) by metis
  have "close_down cur p l = Some ?l"
    using l1(1,3) l2(1,3) by (simp add: close_down_def kNoneEvent_def flip: any_interest_chan(2))
  moreover have "lp.refines cur ?l (a\<lparr>sp_registered := (sp_registered a)(p := False), sp_fresh := (sp_fresh a)(p := False),
      sp_interest := (sp_interest a)(p := 0), sp_watch := (sp_watch a)(any_fd (lo_poller l) p := 0)\<rparr>)"
    using l1 l2 assms(1) by (auto simp: lp.refines_def loop_ok_def)
  moreover have "channel_destroy cur p ?l = Some ()"
    using eh [of p] ad assms(3) l2(2,4)
    by (simp add: channel_destroy_def loop_hasChannel_def assertInLoopThread_def isInLoopThread_def loop_ok_def asserting_def)
  moreover have "?l = l\<lparr>lo_poller := lo_poller l2, lo_closed := lo_closed l @ [any_fd (lo_poller l) p]\<rparr>"
    using f1 f2 by (metis loop_object.select_convs(8) loop_object.surjective loop_object.update_convs(3,8))
  ultimately show ?thesis using eh l1(3) l2(3) by (intro exI [of _ ?l] exI [of _ "lo_poller l2"]) simp
qed

lemma event_loop_ctor_ok:
  assumes "\<forall>p. 0 \<le> fds p" and "fds tptr \<noteq> fds wptr" and "reg cur = None"
  shows "\<exists>l. event_loop_ctor cur use_poll fds (\<lambda>_. this) this tptr wptr reg = Some (l, reg(cur \<mapsto> this))
    \<and> lp.refines cur l (loop_spec fds tptr wptr) \<and> any_fd (lo_poller l) = fds
    \<and> lo_timerfdChannel l = tptr \<and> lo_wakeupChannel l = wptr \<and> lo_closed l = []
    \<and> (\<forall>q. \<not> ch_eventHandling (any_chan (lo_poller l) q))"
proof -
  let ?l = "\<lparr>lo_this = this, lo_threadId = cur, lo_poller = newDefaultPoller use_poll fds, lo_state = new_event_loop,
     lo_ownerLoop = (\<lambda>_. this), lo_timerfdChannel = tptr, lo_wakeupChannel = wptr, lo_closed = []\<rparr>"
  note n = new_default_refines [OF assms(1)]
  have ne: "tptr \<noteq> wptr" using assms(2) by auto
  have r0: "lp.refines cur ?l new_poll_spec"
    using n(1) by (simp add: lp.refines_def any.refines_def loop_ok_def new_event_loop_def)
  have "spec_run fds [Interest kReadEvent tptr] new_poll_spec = Some (spec_step fds (Interest kReadEvent tptr) new_poll_spec)"
    using read_interest by (auto simp: new_poll_spec_def)
  with lp.run_refines [OF r0, of "[Interest kReadEvent tptr]"] n(2) obtain l1 where
    l1: "channel_update cur kReadEvent tptr ?l = Some l1" "any_fd (lo_poller l1) = fds"
      "lp.refines cur l1 (spec_step fds (Interest kReadEvent tptr) new_poll_spec)" by (auto split: bind_splits)
  have "spec_run fds [Interest kReadEvent wptr] (spec_step fds (Interest kReadEvent tptr) new_poll_spec) = Some (loop_spec fds tptr wptr)"
    using read_interest assms(2) ne by (auto simp: new_poll_spec_def loop_spec_def)
  with lp.run_refines [OF l1(3), of "[Interest kReadEvent wptr]"] l1(2) obtain l2 where
    l2: "channel_update cur kReadEvent wptr l1 = Some l2" "any_fd (lo_poller l2) = fds"
      "lp.refines cur l2 (loop_spec fds tptr wptr)" by (auto split: bind_splits)
  have "any_interest (lo_poller l1) wptr = 0" using l1(3) ne by (simp add: lp.refines_def new_poll_spec_def)
  then have z: "ch_events (any_chan (lo_poller l1) wptr) = 0" by (simp add: any_interest_chan)
  have c: "event_loop_ctor cur use_poll fds (\<lambda>_. this) this tptr wptr reg = Some (l2, reg(cur \<mapsto> this))"
    using l1(1) l2(1) z assms(3)
    by (simp add: event_loop_ctor_def timer_queue_ctor_def n(3) new_channel_def)
  have "run_cmds (channel_update cur) (channel_remove cur) [Interest kReadEvent tptr, Interest kReadEvent wptr] ?l = Some l2"
    using l1(1) l2(1) by simp
  note f = run_cmds_frame [OF this]
  then have "\<not> ch_eventHandling (any_chan (lo_poller l2) q)" for q by (simp add: n(3) new_channel_def)
  moreover have "lo_timerfdChannel l2 = tptr" "lo_wakeupChannel l2 = wptr" "lo_closed l2 = []"
    using f by (metis loop_object.select_convs(6,7,8) loop_object.update_convs(3))+
  ultimately show ?thesis using c l2 by blast
qed

lemma event_loop_dtor_ok:
  assumes "lp.refines cur l a" and "sp_registered a (lo_timerfdChannel l)" and "sp_registered a (lo_wakeupChannel l)"
    and "lo_timerfdChannel l \<noteq> lo_wakeupChannel l" and "\<forall>q. \<not> ch_eventHandling (any_chan (lo_poller l) q)" and "tq_wf P q"
  shows "\<exists>l' heap. event_loop_dtor cur (l, q) reg = Some (l', heap, reg(cur := None)) \<and> dom heap = P
    \<and> lo_closed l' = lo_closed l @ [any_fd (lo_poller l) (lo_wakeupChannel l), any_fd (lo_poller l) (lo_timerfdChannel l)]
    \<and> any_hasChannel (lo_poller l') = (sp_registered a)(lo_wakeupChannel l := False, lo_timerfdChannel l := False)
    \<and> any_watch (lo_poller l') = (sp_watch a)(any_fd (lo_poller l) (lo_wakeupChannel l) := 0,
        any_fd (lo_poller l) (lo_timerfdChannel l) := 0)"
proof -
  let ?a = "a\<lparr>sp_registered := (sp_registered a)(lo_wakeupChannel l := False), sp_fresh := (sp_fresh a)(lo_wakeupChannel l := False),
    sp_interest := (sp_interest a)(lo_wakeupChannel l := 0), sp_watch := (sp_watch a)(any_fd (lo_poller l) (lo_wakeupChannel l) := 0)\<rparr>"
  from close_down_ok [OF assms(1,3)] assms(5) obtain l1 s1 where
    l1: "close_down cur (lo_wakeupChannel l) l = Some l1" "lp.refines cur l1 ?a" "channel_destroy cur (lo_wakeupChannel l) l1 = Some ()"
      "l1 = l\<lparr>lo_poller := s1, lo_closed := lo_closed l @ [any_fd (lo_poller l) (lo_wakeupChannel l)]\<rparr>"
      "any_fd s1 = any_fd (lo_poller l)" "\<forall>q. \<not> ch_eventHandling (any_chan s1 q)" by auto
  have "sp_registered ?a (lo_timerfdChannel l)" "\<not> ch_eventHandling (any_chan (lo_poller l1) (lo_timerfdChannel l))"
    using assms(2,4) l1(4,6) by simp_all
  from close_down_ok [OF l1(2) this] obtain l2 s2 where
    l2: "close_down cur (lo_timerfdChannel l) l1 = Some l2" "channel_destroy cur (lo_timerfdChannel l) l2 = Some ()"
      "lp.refines cur l2 (?a\<lparr>sp_registered := (sp_registered ?a)(lo_timerfdChannel l := False),
        sp_fresh := (sp_fresh ?a)(lo_timerfdChannel l := False), sp_interest := (sp_interest ?a)(lo_timerfdChannel l := 0),
        sp_watch := (sp_watch ?a)(any_fd (lo_poller l1) (lo_timerfdChannel l) := 0)\<rparr>)"
      "l2 = l1\<lparr>lo_poller := s2, lo_closed := lo_closed l1 @ [any_fd (lo_poller l1) (lo_timerfdChannel l)]\<rparr>" by auto
  from delete_timers_wf [OF assms(6)] obtain heap where
    h: "delete_timers (tq_timers q) (tq_heap q) = Some heap" "dom heap = P" by blast
  have t: "lo_timerfdChannel l1 = lo_timerfdChannel l" using l1(4) by simp
  have "event_loop_dtor cur (l, q) reg = Some (l2, heap, reg(cur := None))"
    using l1(1,3) l2(1,2) h(1) t by (simp add: event_loop_dtor_def timer_queue_dtor_def)
  moreover have "lo_closed l2 = lo_closed l @ [any_fd (lo_poller l) (lo_wakeupChannel l), any_fd (lo_poller l) (lo_timerfdChannel l)]"
    using l1(4,5) l2(4) by simp
  ultimately show ?thesis using h(2) l2(3) l1(4,5) by (auto simp: lp.refines_def)
qed

text \<open>
  C15: The life of an event loop. In a thread that has none, the constructor succeeds with either poller and
  leaves the timer and the wake-up descriptor watched for reading; a second loop in the same thread is fatal.
  After any sequence of registrations, changes and removals of other channels within the protocol, the
  destructor succeeds in the loop's own thread: no assertion fails, the two internal channels are gone from
  the poller and their descriptors are closed once, the other channels are untouched, every timer of the queue is
  deleted exactly once, and the thread may have a loop again. In any other thread the destructor is fatal.
\<close>

theorem event_loop_life:
  assumes "\<forall>p. 0 \<le> fds p" and "fds tptr \<noteq> fds wptr" and "reg cur = None"
    and "spec_run fds cs (loop_spec fds tptr wptr) = Some a" and "tptr \<notin> cmd_chan ` set cs" and "wptr \<notin> cmd_chan ` set cs"
    and "tq_wf P q"
  shows "\<exists>l l1 l2 heap. event_loop_ctor cur use_poll fds (\<lambda>_. this) this tptr wptr reg = Some (l, reg(cur \<mapsto> this))
    \<and> any_watch (lo_poller l) = (\<lambda>_. 0)(fds tptr := kReadEvent, fds wptr := kReadEvent)
    \<and> event_loop_ctor cur use_poll fds (\<lambda>_. other) other tptr wptr (reg(cur \<mapsto> this)) = None
    \<and> run_cmds (channel_update cur) (channel_remove cur) cs l = Some l1
    \<and> event_loop_dtor cur (l1, q) (reg(cur \<mapsto> this)) = Some (l2, heap, reg) \<and> dom heap = P
    \<and> lo_closed l2 = [fds wptr, fds tptr]
    \<and> any_hasChannel (lo_poller l2) = (sp_registered a)(wptr := False, tptr := False)
    \<and> any_watch (lo_poller l2) = (sp_watch a)(fds wptr := 0, fds tptr := 0)
    \<and> (\<forall>t reg'. t \<noteq> cur \<longrightarrow> event_loop_dtor t (l1, q) reg' = None)"
proof -
  have ne: "tptr \<noteq> wptr" using assms(2) by auto
  from event_loop_ctor_ok [of fds tptr wptr reg cur use_poll this, OF assms(1-3)] obtain l where
    l: "event_loop_ctor cur use_poll fds (\<lambda>_. this) this tptr wptr reg = Some (l, reg(cur \<mapsto> this))"
      "lp.refines cur l (loop_spec fds tptr wptr)" "any_fd (lo_poller l) = fds"
      "lo_timerfdChannel l = tptr" "lo_wakeupChannel l = wptr" "lo_closed l = []"
      "\<forall>q. \<not> ch_eventHandling (any_chan (lo_poller l) q)" by blast
  have w: "any_watch (lo_poller l) = (\<lambda>_. 0)(fds tptr := kReadEvent, fds wptr := kReadEvent)"
    using l(2) by (simp add: lp.refines_def loop_spec_def new_poll_spec_def)
  have twice: "event_loop_ctor cur use_poll fds (\<lambda>_. other) other tptr wptr (reg(cur \<mapsto> this)) = None"
    by (simp add: event_loop_ctor_def bind_eq_None_conv)
  from lp.run_refines [OF l(2)] assms(4) l(3) obtain l1 where
    l1: "run_cmds (channel_update cur) (channel_remove cur) cs l = Some l1" "any_fd (lo_poller l1) = fds" "lp.refines cur l1 a" by auto
  note f = run_cmds_frame [OF l1(1)]
  have c: "lo_timerfdChannel l1 = tptr" "lo_wakeupChannel l1 = wptr" "lo_closed l1 = []"
    using f l(4-6) by (metis loop_object.select_convs(6,7,8) loop_object.surjective loop_object.update_convs(3))+
  have "\<forall>q. \<not> ch_eventHandling (any_chan (lo_poller l1) q)" using f l(7) by simp
  moreover have "sp_registered a tptr" "sp_registered a wptr"
    using spec_run_frame [OF assms(4,5)] spec_run_frame [OF assms(4,6)] by (simp_all add: loop_spec_def)
  ultimately obtain l2 heap where
    l2: "event_loop_dtor cur (l1, q) (reg(cur \<mapsto> this)) = Some (l2, heap, reg(cur := None))" "dom heap = P"
      "lo_closed l2 = [fds wptr, fds tptr]"
      "any_hasChannel (lo_poller l2) = (sp_registered a)(wptr := False, tptr := False)"
      "any_watch (lo_poller l2) = (sp_watch a)(fds wptr := 0, fds tptr := 0)"
    using event_loop_dtor_ok [OF l1(3), of P q "reg(cur \<mapsto> this)"] c ne assms(7) l1(2) by auto
  have "lo_threadId l1 = cur" using l1(3) by (simp add: lp.refines_def loop_ok_def)
  then have other: "event_loop_dtor t (l1, q) reg' = None" if "t \<noteq> cur" for t reg'
    using that by (simp add: event_loop_dtor_def close_down_def channel_update_def loop_updateChannel_def
        assertInLoopThread_def isInLoopThread_def)
  have "reg(cur := None) = reg" using assms(3) by (simp add: fun_upd_idem)
  with l(1) w twice l1(1) l2 other show ?thesis by (intro exI [of _ l] exI [of _ l1] exI [of _ l2] exI [of _ heap]) simp
qed

theorem event_loop_life_witness:
  "\<exists>l l1 l2 heap. event_loop_ctor 7 False int (\<lambda>_. 1) 1 3 4 Map.empty = Some (l, [7 \<mapsto> 1])
    \<and> run_cmds (channel_update 7) (channel_remove 7) [Interest kReadEvent 5] l = Some l1
    \<and> event_loop_dtor 7 (l1, new_timer_queue :: nat timer_queue) [7 \<mapsto> 1] = Some (l2, heap, Map.empty)
    \<and> lo_closed l2 = [4, 3] \<and> any_watch (lo_poller l2) 5 = kReadEvent \<and> event_loop_dtor 8 (l1, new_timer_queue :: nat timer_queue) [7 \<mapsto> 1] = None"
proof -
  have "tq_wf {} (new_timer_queue :: nat timer_queue)" by (simp add: tq_wf_def new_timer_queue_def)
  moreover have "spec_run int [Interest kReadEvent 5] (loop_spec int 3 4) = Some (spec_step int (Interest kReadEvent 5) (loop_spec int 3 4))"
    using read_interest by (auto simp: loop_spec_def new_poll_spec_def)
  ultimately show ?thesis
    using event_loop_life [of int 3 4 Map.empty 7 "[Interest kReadEvent 5]"
        "spec_step int (Interest kReadEvent 5) (loop_spec int 3 4)" "{}" "new_timer_queue :: nat timer_queue" False 1 2]
    by (auto simp: loop_spec_def)
qed

end
