(* ===== verification/Storage.thy ===== *)
theory Storage
  imports Prelude
begin

text \<open>
  Objects that are made on first use and references that do not own: \<open>base/Singleton.h\<close>, \<open>base/ThreadLocal.h\<close>,
  \<open>base/ThreadLocalSingleton.h\<close>, \<open>base/WeakCallback.h\<close> and \<open>base/StringPiece.h\<close>. The heap is the set of addresses of
  live objects; an access to a deleted one or a failing assertion is \<^term>\<open>None\<close>. \<open>pthread_once\<close> runs its function
  once and makes concurrent callers wait, so a call of \<open>instance\<close> is one step. When a thread ends, the system
  takes the value of a key out and passes it to the key's destructor unless it is null.
\<close>

section \<open>Singletons\<close>

record singleton =
  sg_ponce :: bool
  sg_value :: "nat option"
  sg_atexit :: nat
  sg_live :: "nat set"

definition new_singleton :: singleton where
  "new_singleton = \<lparr>sg_ponce = False, sg_value = None, sg_atexit = 0, sg_live = {}\<rparr>"

definition singleton_init :: "bool \<Rightarrow> nat \<Rightarrow> singleton \<Rightarrow> singleton" where
  "singleton_init no_destroy a s =
     s\<lparr>sg_value := Some a, sg_atexit := (if no_destroy then sg_atexit s else Suc (sg_atexit s)), sg_live := insert a (sg_live s)\<rparr>"

definition singleton_instance :: "bool \<Rightarrow> nat \<Rightarrow> singleton \<Rightarrow> (nat \<times> singleton) checked" where
  "singleton_instance no_destroy a s =
     (let s1 = (if sg_ponce s then s else singleton_init no_destroy a (s\<lparr>sg_ponce := True\<rparr>))
      in case sg_value s1 of None \<Rightarrow> None | Some p \<Rightarrow> Some (p, s1))"

definition singleton_destroy :: "singleton \<Rightarrow> singleton" where
  "singleton_destroy s =
     s\<lparr>sg_value := None, sg_live := sg_live s - set_option (sg_value s)\<rparr>"

text \<open>The addresses the calls would get if they constructed the object, in the order of the calls.\<close>

fun instances :: "bool \<Rightarrow> nat list \<Rightarrow> singleton \<Rightarrow> (nat list \<times> singleton) checked" where
  "instances nd [] s = Some ([], s)"
| "instances nd (a # as) s = do {
     (p, s1) \<leftarrow> singleton_instance nd a s;
     (ps, s2) \<leftarrow> instances nd as s1;
     Some (p # ps, s2) }"

lemma instances_again:
  "sg_ponce s \<Longrightarrow> sg_value s = Some p \<Longrightarrow> instances nd as s = Some (replicate (length as) p, s)"
  by (induction as) (simp_all add: singleton_instance_def)

text \<open>
  However often it is asked for, there is one object: the first caller's; its destruction is registered once,
  if at all, and after it \<open>instance\<close> fails its assertion.
\<close>

lemma singleton_contract:
  obtains s where "instances nd (a # as) new_singleton = Some (replicate (Suc (length as)) a, s)"
    and "sg_live s = {a}" and "sg_atexit s = (if nd then 0 else 1)"
    and "sg_live (singleton_destroy s) = {}" and "singleton_instance nd b (singleton_destroy s) = None"
proof
  let ?s = "\<lparr>sg_ponce = True, sg_value = Some a, sg_atexit = if nd then 0 else 1, sg_live = {a}\<rparr>"
  show "instances nd (a # as) new_singleton = Some (replicate (Suc (length as)) a, ?s)"
    by (simp add: singleton_instance_def new_singleton_def singleton_init_def instances_again)
qed (simp_all add: singleton_destroy_def singleton_instance_def)

section \<open>One object per thread\<close>

text \<open>
  What a client of either class may rely on: \<open>slot\<close> is the object of each thread, \<open>live\<close> the objects there are.
  An access makes the object if there is none, with an address that no live object has.
\<close>

locale thread_storage =
  fixes inv :: "'s \<Rightarrow> bool"
    and slot :: "'s \<Rightarrow> nat \<rightharpoonup> nat"
    and live :: "'s \<Rightarrow> nat set"
    and acc :: "nat \<Rightarrow> nat \<Rightarrow> 's \<Rightarrow> (nat \<times> 's) option"
    and ends :: "nat \<Rightarrow> 's \<Rightarrow> 's option"
  assumes acc_law: "inv s \<Longrightarrow> a \<notin> live s \<Longrightarrow>
      \<exists>p s'. acc a t s = Some (p, s') \<and> inv s' \<and> slot s' = (slot s)(t \<mapsto> p)
        \<and> (case slot s t of None \<Rightarrow> p = a \<and> live s' = insert a (live s) | Some q \<Rightarrow> p = q \<and> live s' = live s)"
    and ends_law: "inv s \<Longrightarrow>
      \<exists>s'. ends t s = Some s' \<and> inv s' \<and> slot s' = (slot s)(t := None) \<and> live s' = live s - set_option (slot s t)"
begin

text \<open>No two threads share an object, and the live objects are those of the threads.\<close>

definition separate :: "'s \<Rightarrow> bool" where
  "separate s \<longleftrightarrow> inv s \<and> live s = ran (slot s) \<and> inj_on (slot s) (dom (slot s))"

lemma separate_acc:
  assumes "separate s" and "a \<notin> live s"
  shows "\<exists>p s'. acc a t s = Some (p, s') \<and> separate s' \<and> p \<in> live s' \<and> slot s' t = Some p"
proof -
  from acc_law [of s a t] assms obtain p s' where s': "acc a t s = Some (p, s')" "inv s'" "slot s' = (slot s)(t \<mapsto> p)"
    "case slot s t of None \<Rightarrow> p = a \<and> live s' = insert a (live s) | Some q \<Rightarrow> p = q \<and> live s' = live s"
    by (auto simp: separate_def)
  show ?thesis
  proof (cases "slot s t")
    case None
    with s'(4) have p: "p = a" "live s' = insert a (live s)" by simp_all
    have "slot s u \<noteq> Some a" for u using assms by (auto simp: separate_def ran_def)
    then have "inj_on (slot s') (dom (slot s'))"
      using assms(1) s'(3) p by (auto simp: separate_def inj_on_def)
    moreover have "ran (slot s') = insert a (ran (slot s))" using s'(3) p None by auto
    ultimately show ?thesis using s' p assms(1) by (auto simp: separate_def)
  next
    case (Some q)
    with s'(3,4) have "slot s' = slot s" "live s' = live s" "p = q" by (auto simp: fun_upd_idem)
    with s' Some assms(1) show ?thesis by (auto simp: separate_def ran_def)
  qed
qed

lemma separate_ends:
  assumes "separate s"
  shows "\<exists>s'. ends t s = Some s' \<and> separate s' \<and> slot s' t = None"
proof -
  from ends_law [of s t] assms obtain s' where
    s': "ends t s = Some s'" "inv s'" "slot s' = (slot s)(t := None)" "live s' = live s - set_option (slot s t)"
    by (auto simp: separate_def)
  have inj: "inj_on (slot s) (dom (slot s))" and l: "live s = ran (slot s)" using assms by (simp_all add: separate_def)
  have "ran (slot s') = ran (slot s) - set_option (slot s t)"
    using inj s'(3) by (auto simp: ran_def inj_on_def dom_def)
  moreover have "inj_on (slot s') (dom (slot s'))" using inj s'(3) by (auto simp: inj_on_def)
  ultimately show ?thesis using s' l by (auto simp: separate_def)
qed

text \<open>Between its first access and its end a thread always gets the same object.\<close>

lemma same_object:
  assumes "inv s" and "slot s t = Some p" and "a \<notin> live s"
  shows "\<exists>s'. acc a t s = Some (p, s') \<and> slot s' = slot s \<and> live s' = live s"
  using acc_law [OF assms(1,3), of t] assms(2) by (auto simp: fun_upd_idem)

end

record thread_local =
  tl_key :: "nat \<rightharpoonup> nat"
  tl_live :: "nat set"

definition new_thread_local :: thread_local where
  "new_thread_local = \<lparr>tl_key = Map.empty, tl_live = {}\<rparr>"

definition tl_value :: "nat \<Rightarrow> nat \<Rightarrow> thread_local \<Rightarrow> (nat \<times> thread_local) option" where
  "tl_value a t s =
     (case tl_key s t of
        Some perThreadValue \<Rightarrow> Some (perThreadValue, s)
      | None \<Rightarrow> Some (a, s\<lparr>tl_key := (tl_key s)(t \<mapsto> a), tl_live := insert a (tl_live s)\<rparr>))"

definition tl_destructor :: "nat \<Rightarrow> thread_local \<Rightarrow> thread_local option" where
  "tl_destructor x s = (if x \<in> tl_live s then Some (s\<lparr>tl_live := tl_live s - {x}\<rparr>) else None)"

definition tl_thread_ends :: "nat \<Rightarrow> thread_local \<Rightarrow> thread_local option" where
  "tl_thread_ends t s =
     (case tl_key s t of None \<Rightarrow> Some s | Some x \<Rightarrow> tl_destructor x (s\<lparr>tl_key := (tl_key s)(t := None)\<rparr>))"

text \<open>\<open>~ThreadLocal\<close> deletes the key; the objects of threads that are still running are not deleted any more.\<close>

definition destroy_thread_local :: "thread_local \<Rightarrow> nat set" where
  "destroy_thread_local s = tl_live s"

record thread_local_singleton =
  ts_value :: "nat \<rightharpoonup> nat"
  ts_key :: "nat \<rightharpoonup> nat"
  ts_live :: "nat set"

definition new_thread_local_singleton :: thread_local_singleton where
  "new_thread_local_singleton = \<lparr>ts_value = Map.empty, ts_key = Map.empty, ts_live = {}\<rparr>"

definition deleter_set :: "nat \<Rightarrow> nat \<Rightarrow> thread_local_singleton \<Rightarrow> thread_local_singleton option" where
  "deleter_set t newObj s = (if ts_key s t = None then Some (s\<lparr>ts_key := (ts_key s)(t \<mapsto> newObj)\<rparr>) else None)"

definition ts_instance :: "nat \<Rightarrow> nat \<Rightarrow> thread_local_singleton \<Rightarrow> (nat \<times> thread_local_singleton) option" where
  "ts_instance a t s =
     (case ts_value s t of
        Some p \<Rightarrow> Some (p, s)
      | None \<Rightarrow> do {
          s1 \<leftarrow> deleter_set t a (s\<lparr>ts_value := (ts_value s)(t \<mapsto> a), ts_live := insert a (ts_live s)\<rparr>);
          Some (a, s1) })"

definition ts_pointer :: "nat \<Rightarrow> thread_local_singleton \<Rightarrow> nat option" where
  "ts_pointer t s = ts_value s t"

definition ts_destructor :: "nat \<Rightarrow> nat \<Rightarrow> thread_local_singleton \<Rightarrow> thread_local_singleton option" where
  "ts_destructor t obj s =
     (if ts_value s t = Some obj \<and> obj \<in> ts_live s
      then Some (s\<lparr>ts_value := (ts_value s)(t := None), ts_live := ts_live s - {obj}\<rparr>) else None)"

definition ts_thread_ends :: "nat \<Rightarrow> thread_local_singleton \<Rightarrow> thread_local_singleton option" where
  "ts_thread_ends t s =
     (case ts_key s t of None \<Rightarrow> Some s | Some x \<Rightarrow> ts_destructor t x (s\<lparr>ts_key := (ts_key s)(t := None)\<rparr>))"

definition owns :: "(nat \<rightharpoonup> nat) \<Rightarrow> nat set \<Rightarrow> bool" where
  "owns m live \<longleftrightarrow> ran m \<subseteq> live \<and> inj_on m (dom m)"

lemma owns_new: "owns m live \<Longrightarrow> a \<notin> live \<Longrightarrow> m t = None \<Longrightarrow> owns (m(t \<mapsto> a)) (insert a live)"
  unfolding owns_def by (auto simp: inj_on_def dom_def ran_def split: if_splits)

lemma owns_end: "owns m live \<Longrightarrow> m t = Some x \<Longrightarrow> x \<in> live \<and> owns (m(t := None)) (live - {x})"
  unfolding owns_def by (fastforce simp: inj_on_def dom_def ran_def split: if_splits)

definition tl_ok :: "thread_local \<Rightarrow> bool" where
  "tl_ok s \<longleftrightarrow> owns (tl_key s) (tl_live s)"

definition ts_ok :: "thread_local_singleton \<Rightarrow> bool" where
  "ts_ok s \<longleftrightarrow> ts_key s = ts_value s \<and> owns (ts_value s) (ts_live s)"

interpretation tl: thread_storage tl_ok tl_key tl_live tl_value tl_thread_ends
proof unfold_locales
  fix s a t assume "tl_ok s" "a \<notin> tl_live s"
  then show "\<exists>p s'. tl_value a t s = Some (p, s') \<and> tl_ok s' \<and> tl_key s' = (tl_key s)(t \<mapsto> p)
      \<and> (case tl_key s t of None \<Rightarrow> p = a \<and> tl_live s' = insert a (tl_live s) | Some q \<Rightarrow> p = q \<and> tl_live s' = tl_live s)"
    using owns_new [of "tl_key s" "tl_live s" a t]
    by (cases "tl_key s t") (auto simp: tl_value_def tl_ok_def fun_upd_idem)
next
  fix s t assume "tl_ok s"
  then show "\<exists>s'. tl_thread_ends t s = Some s' \<and> tl_ok s' \<and> tl_key s' = (tl_key s)(t := None)
      \<and> tl_live s' = tl_live s - set_option (tl_key s t)"
    using owns_end [of "tl_key s" "tl_live s" t]
    by (cases "tl_key s t") (auto simp: tl_thread_ends_def tl_destructor_def tl_ok_def fun_upd_idem)
qed

interpretation ts: thread_storage ts_ok ts_value ts_live ts_instance ts_thread_ends
proof unfold_locales
  fix s a t assume "ts_ok s" "a \<notin> ts_live s"
  then show "\<exists>p s'. ts_instance a t s = Some (p, s') \<and> ts_ok s' \<and> ts_value s' = (ts_value s)(t \<mapsto> p)
      \<and> (case ts_value s t of None \<Rightarrow> p = a \<and> ts_live s' = insert a (ts_live s) | Some q \<Rightarrow> p = q \<and> ts_live s' = ts_live s)"
    using owns_new [of "ts_value s" "ts_live s" a t]
    by (cases "ts_value s t") (auto simp: ts_instance_def deleter_set_def ts_ok_def fun_upd_idem)
next
  fix s t assume "ts_ok s"
  then show "\<exists>s'. ts_thread_ends t s = Some s' \<and> ts_ok s' \<and> ts_value s' = (ts_value s)(t := None)
      \<and> ts_live s' = ts_live s - set_option (ts_value s t)"
    using owns_end [of "ts_value s" "ts_live s" t]
    by (cases "ts_value s t") (auto simp: ts_thread_ends_def ts_destructor_def ts_ok_def fun_upd_idem)
qed

text \<open>
  Both classes from the start: threads that access and end in any order never share an object, an object lives
  exactly from its thread's first access to the thread's end, and no assertion fails.
\<close>

datatype storage_event = Access nat nat | Thread_ends nat

fun storage_run :: "(nat \<Rightarrow> nat \<Rightarrow> 's \<Rightarrow> (nat \<times> 's) option) \<Rightarrow> (nat \<Rightarrow> 's \<Rightarrow> 's option) \<Rightarrow> storage_event list \<Rightarrow> 's \<Rightarrow> 's option" where
  "storage_run acc ends [] s = Some s"
| "storage_run acc ends (Access t a # es) s = do { (p, s') \<leftarrow> acc a t s; storage_run acc ends es s' }"
| "storage_run acc ends (Thread_ends t # es) s = do { s' \<leftarrow> ends t s; storage_run acc ends es s' }"

definition fresh_addresses :: "storage_event list \<Rightarrow> bool" where
  "fresh_addresses es \<longleftrightarrow> distinct (concat (map (\<lambda>e. case e of Access t a \<Rightarrow> [a] | Thread_ends t \<Rightarrow> []) es))"

context thread_storage
begin

lemma run_separate:
  assumes "separate s" and "fresh_addresses es" and "\<And>t a. Access t a \<in> set es \<Longrightarrow> a \<notin> live s"
  shows "\<exists>s'. storage_run acc ends es s = Some s' \<and> separate s'"
  using assms
proof (induction es arbitrary: s)
  case (Cons e es)
  have fresh: "fresh_addresses es" using Cons.prems(2) by (cases e) (auto simp: fresh_addresses_def)
  show ?case
  proof (cases e)
    case (Access t a)
    then have a: "a \<notin> live s" using Cons.prems(3) by auto
    from acc_law [of s a t] Cons.prems(1) a obtain p s1 where "acc a t s = Some (p, s1)"
      "case slot s t of None \<Rightarrow> p = a \<and> live s1 = insert a (live s) | Some q \<Rightarrow> p = q \<and> live s1 = live s"
      by (auto simp: separate_def)
    then have s1: "acc a t s = Some (p, s1)" "live s1 \<subseteq> insert a (live s)" by (auto split: option.splits)
    with separate_acc [OF Cons.prems(1) a, of t] have sep: "separate s1" by auto
    have "b \<noteq> a" if "Access u b \<in> set es" for u b
    proof
      assume "b = a"
      with that have "a \<in> set (concat (map (\<lambda>e. case e of Access t a \<Rightarrow> [a] | Thread_ends t \<Rightarrow> []) es))" by force
      with Cons.prems(2) Access show False by (simp add: fresh_addresses_def)
    qed
    with s1(2) Cons.prems(3) have "\<And>u b. Access u b \<in> set es \<Longrightarrow> b \<notin> live s1" by fastforce
    from Cons.IH [OF sep fresh this] s1(1) Access show ?thesis by auto
  next
    case (Thread_ends t)
    from ends_law [of s t] Cons.prems(1) obtain s1 where s1: "ends t s = Some s1" "live s1 \<subseteq> live s"
      by (auto simp: separate_def)
    with separate_ends [OF Cons.prems(1), of t] have sep: "separate s1" by auto
    from s1(2) Cons.prems(3) have "\<And>u b. Access u b \<in> set es \<Longrightarrow> b \<notin> live s1" by fastforce
    from Cons.IH [OF sep fresh this] s1(1) Thread_ends show ?thesis by auto
  qed
qed simp

end

lemma thread_storage_runs:
  assumes "fresh_addresses es"
  shows "\<exists>s. storage_run tl_value tl_thread_ends es new_thread_local = Some s
      \<and> tl_live s = ran (tl_key s) \<and> inj_on (tl_key s) (dom (tl_key s))"
    and "\<exists>s. storage_run ts_instance ts_thread_ends es new_thread_local_singleton = Some s
      \<and> ts_live s = ran (ts_value s) \<and> inj_on (ts_value s) (dom (ts_value s))"
  using tl.run_separate [of new_thread_local es] ts.run_separate [of new_thread_local_singleton es] assms
  by (auto simp: tl.separate_def ts.separate_def tl_ok_def ts_ok_def owns_def new_thread_local_def new_thread_local_singleton_def)

text \<open>What is left when a \<open>ThreadLocal\<close> is destroyed: the objects of the threads that still run are never deleted.\<close>

lemma thread_local_leaks:
  "storage_run tl_value tl_thread_ends [Access 1 10, Access 2 20, Thread_ends 1] new_thread_local = Some s
    \<Longrightarrow> destroy_thread_local s = {20}"
  by (auto simp: tl_value_def tl_thread_ends_def tl_destructor_def new_thread_local_def destroy_thread_local_def)

section \<open>Weak callbacks\<close>

text \<open>
  An object under \<open>shared_ptr\<close>: the number of owners and whether it was destroyed. A callback works on the program's
  state \<open>'s\<close> and may itself drop owners; while it runs, \<open>operator()\<close> holds one.
\<close>

record 's shared_object =
  so_owners :: nat
  so_destroyed :: bool
  so_state :: 's

definition release :: "'s shared_object \<Rightarrow> 's shared_object" where
  "release x =
     (let n = so_owners x - 1 in x\<lparr>so_owners := n, so_destroyed := (so_destroyed x \<or> so_owners x = 1)\<rparr>)"

definition weak_lock :: "'s shared_object \<Rightarrow> bool \<times> 's shared_object" where
  "weak_lock x = (if so_owners x = 0 then (False, x) else (True, x\<lparr>so_owners := Suc (so_owners x)\<rparr>))"

definition weak_callback :: "('s shared_object \<Rightarrow> 's shared_object) \<Rightarrow> 's shared_object \<Rightarrow> 's shared_object" where
  "weak_callback function x =
     (case weak_lock x of
        (ptr, x1) \<Rightarrow> if ptr then release (function x1) else x1)"

text \<open>What the callback does: change the state, and drop \<open>k\<close> of the owners there were before it was called.\<close>

definition callback_drops :: "nat \<Rightarrow> ('s \<Rightarrow> 's) \<Rightarrow> 's shared_object \<Rightarrow> 's shared_object" where
  "callback_drops k f x = (release ^^ k) (x\<lparr>so_state := f (so_state x)\<rparr>)"

definition shared_ok :: "'s shared_object \<Rightarrow> bool" where
  "shared_ok x \<longleftrightarrow> (so_destroyed x \<longleftrightarrow> so_owners x = 0)"

lemma release_many:
  "k < so_owners x \<Longrightarrow> shared_ok x \<Longrightarrow> (release ^^ k) x = x\<lparr>so_owners := so_owners x - k\<rparr>"
proof (induction k)
  case (Suc k)
  then have "so_owners x \<noteq> 0" "so_owners x - k \<noteq> 1" "\<not> so_destroyed x" by (simp_all add: shared_ok_def)
  with Suc show ?case by (simp add: release_def Let_def)
qed simp

text \<open>
  The callback runs if and only if the object is alive, once, and the object stays alive while it runs, even if the
  callback drops every other owner; in that case it is destroyed right after.
\<close>

lemma weak_callback_contract:
  assumes "shared_ok x" and "k \<le> so_owners x"
  shows "so_owners x = 0 \<Longrightarrow> weak_callback (callback_drops k f) x = x"
    and "0 < so_owners x \<Longrightarrow> \<not> so_destroyed (callback_drops k f (snd (weak_lock x)))
      \<and> weak_callback (callback_drops k f) x =
          x\<lparr>so_owners := so_owners x - k, so_destroyed := (k = so_owners x), so_state := f (so_state x)\<rparr>"
proof -
  show "so_owners x = 0 \<Longrightarrow> weak_callback (callback_drops k f) x = x" by (simp add: weak_callback_def weak_lock_def)
  assume pos: "0 < so_owners x"
  let ?y = "x\<lparr>so_owners := Suc (so_owners x), so_state := f (so_state x)\<rparr>"
  have d: "\<not> so_destroyed x" using pos assms(1) by (simp add: shared_ok_def)
  have c: "callback_drops k f (snd (weak_lock x)) = ?y\<lparr>so_owners := Suc (so_owners x) - k\<rparr>"
    using release_many [of k ?y] pos assms(2) d by (simp add: callback_drops_def weak_lock_def shared_ok_def)
  moreover have "weak_callback (callback_drops k f) x =
      x\<lparr>so_owners := so_owners x - k, so_destroyed := (k = so_owners x), so_state := f (so_state x)\<rparr>"
    using c pos assms(2) d by (cases x) (auto simp: weak_callback_def weak_lock_def release_def Let_def)
  ultimately show "\<not> so_destroyed (callback_drops k f (snd (weak_lock x)))
      \<and> weak_callback (callback_drops k f) x =
          x\<lparr>so_owners := so_owners x - k, so_destroyed := (k = so_owners x), so_state := f (so_state x)\<rparr>"
    using d by simp
qed

section \<open>String pieces\<close>

text \<open>A pointer, given by the bytes that are readable from there on, and a length.\<close>

record string_piece =
  sp_ptr :: string
  sp_length :: int

definition piece_ok :: "string_piece \<Rightarrow> bool" where
  "piece_ok p \<longleftrightarrow> 0 \<le> sp_length p \<and> nat (sp_length p) \<le> length (sp_ptr p)"

definition empty_piece :: string_piece where
  "empty_piece = \<lparr>sp_ptr = [], sp_length = 0\<rparr>"

definition piece_of :: "string \<Rightarrow> string_piece" where
  "piece_of str = \<lparr>sp_ptr = str, sp_length = int (length str)\<rparr>"

definition piece_at :: "string \<Rightarrow> int \<Rightarrow> string_piece" where
  "piece_at offset len = \<lparr>sp_ptr = offset, sp_length = len\<rparr>"

definition piece_get :: "string_piece \<Rightarrow> nat \<Rightarrow> char option" where
  "piece_get p i = (if i < length (sp_ptr p) then Some (sp_ptr p ! i) else None)"

definition remove_prefix :: "nat \<Rightarrow> string_piece \<Rightarrow> string_piece" where
  "remove_prefix n p = \<lparr>sp_ptr = drop n (sp_ptr p), sp_length = sp_length p - int n\<rparr>"

definition remove_suffix :: "nat \<Rightarrow> string_piece \<Rightarrow> string_piece" where
  "remove_suffix n p = p\<lparr>sp_length := sp_length p - int n\<rparr>"

definition memcmp_eq :: "string \<Rightarrow> string \<Rightarrow> nat \<Rightarrow> bool" where
  "memcmp_eq x y n \<longleftrightarrow> take n x = take n y"

definition piece_eq :: "string_piece \<Rightarrow> string_piece \<Rightarrow> bool" where
  "piece_eq p x \<longleftrightarrow> sp_length p = sp_length x \<and> memcmp_eq (sp_ptr p) (sp_ptr x) (nat (sp_length p))"

definition as_string :: "string_piece \<Rightarrow> string" where
  "as_string p = take (nat (sp_length p)) (sp_ptr p)"

definition piece_starts_with :: "string_piece \<Rightarrow> string_piece \<Rightarrow> bool" where
  "piece_starts_with p x \<longleftrightarrow> sp_length p \<ge> sp_length x \<and> memcmp_eq (sp_ptr p) (sp_ptr x) (nat (sp_length x))"

lemmas piece_defs = piece_ok_def empty_piece_def piece_of_def piece_at_def remove_prefix_def remove_suffix_def
  memcmp_eq_def piece_eq_def as_string_def piece_starts_with_def

text \<open>
  A piece stands for the string \<open>as_string\<close> gives: the constructors and the two removals make well-formed pieces
  from well-formed ones, as long as no more is removed than there is, and the operations are those on the string.
\<close>

lemma piece_refines:
  assumes "piece_ok p" and "piece_ok x"
  shows "piece_ok empty_piece \<and> as_string empty_piece = []" and "piece_ok (piece_of str) \<and> as_string (piece_of str) = str"
    and "n \<le> length (as_string p) \<Longrightarrow> piece_ok (remove_prefix n p) \<and> as_string (remove_prefix n p) = drop n (as_string p)"
    and "n \<le> length (as_string p) \<Longrightarrow>
      piece_ok (remove_suffix n p) \<and> as_string (remove_suffix n p) = take (length (as_string p) - n) (as_string p)"
    and "piece_eq p x \<longleftrightarrow> as_string p = as_string x"
    and "piece_starts_with p x \<longleftrightarrow> starts_with (as_string x) (as_string p)"
    and "i < length (as_string p) \<Longrightarrow> piece_get p i = Some (as_string p ! i)"
proof -
  show "piece_eq p x \<longleftrightarrow> as_string p = as_string x"
  proof
    assume eq: "as_string p = as_string x"
    then have "length (as_string p) = length (as_string x)" by simp
    then have "sp_length p = sp_length x" using assms by (auto simp: as_string_def piece_ok_def)
    with eq show "piece_eq p x" by (simp add: piece_eq_def as_string_def memcmp_eq_def)
  qed (auto simp: piece_defs)
  show "piece_starts_with p x \<longleftrightarrow> starts_with (as_string x) (as_string p)"
  proof (cases "sp_length x \<le> sp_length p")
    case True
    then have "nat (sp_length x) \<le> nat (sp_length p)" by simp
    then have "take (nat (sp_length x)) (as_string p) = take (nat (sp_length x)) (sp_ptr p)" by (simp add: as_string_def min_def)
    moreover have "length (as_string x) = nat (sp_length x)" using assms(2) by (simp add: as_string_def piece_ok_def)
    ultimately show ?thesis using True by (simp add: piece_starts_with_def memcmp_eq_def starts_with_def) (simp add: as_string_def)
  next
    case False
    then have "length (as_string p) < length (as_string x)" using assms by (auto simp: as_string_def piece_ok_def)
    with False show ?thesis using starts_with_length by (fastforce simp: piece_starts_with_def)
  qed
  show "i < length (as_string p) \<Longrightarrow> piece_get p i = Some (as_string p ! i)" by (simp add: piece_get_def as_string_def)
  obtain m where m: "sp_length p = int m" "m \<le> length (sp_ptr p)" using assms(1) unfolding piece_ok_def by (metis nat_0_le)
  assume "n \<le> length (as_string p)"
  then have n: "n \<le> m" using m by (simp add: as_string_def)
  show "piece_ok (remove_prefix n p) \<and> as_string (remove_prefix n p) = drop n (as_string p)"
    using m n by (simp add: piece_ok_def remove_prefix_def as_string_def drop_take nat_diff_distrib)
  show "piece_ok (remove_suffix n p) \<and> as_string (remove_suffix n p) = take (length (as_string p) - n) (as_string p)"
    using m n by (auto simp: piece_ok_def remove_suffix_def as_string_def min_def nat_diff_distrib)
qed (simp_all add: piece_defs)

end
