(* ===== verification/SocketFns.thy ===== *)
theory SocketFns
  imports Sockets
begin

text \<open>
  The functions of \<open>net/SocketsOps.cc\<close> and the class of \<open>net/Socket.cc\<close> over the socket table of the process, and the rest
  of \<open>net/InetAddress.cc\<close> and \<open>net/Endian.h\<close>. The result of each system call is an argument; a successful call has its
  documented effect on the table. \<open>LOG_SYSFATAL\<close> and \<open>LOG_FATAL\<close> end the process: \<^term>\<open>None\<close>.
\<close>

unbundle bit_operations_syntax

section \<open>Byte order of 64-bit words\<close>

definition hostToNetwork64 :: "64 word \<Rightarrow> 64 word" where
  "hostToNetwork64 x =
     push_bit 32 (ucast (hostToNetwork32 (ucast x))) OR ucast (hostToNetwork32 (ucast (drop_bit 32 x)))"

definition networkToHost64 :: "64 word \<Rightarrow> 64 word" where
  "networkToHost64 x =
     push_bit 32 (ucast (networkToHost32 (ucast x))) OR ucast (networkToHost32 (ucast (drop_bit 32 x)))"

lemma join_halves:
  "ucast (push_bit 32 (ucast (a :: 32 word)) OR ucast (b :: 32 word) :: 64 word) = b"
  "ucast (drop_bit 32 (push_bit 32 (ucast a) OR ucast b :: 64 word)) = a"
  by (rule bit_word_eqI; auto simp: bit_simps bit_beyond)+

lemma split_halves: "push_bit 32 (ucast (ucast (drop_bit 32 x) :: 32 word)) OR ucast (ucast x :: 32 word) = (x :: 64 word)"
proof (rule bit_word_eqI)
  fix n assume "n < LENGTH(64)"
  then show "bit (push_bit 32 (ucast (ucast (drop_bit 32 x) :: 32 word)) OR ucast (ucast x :: 32 word) :: 64 word) n \<longleftrightarrow> bit x n"
    by (auto simp: bit_simps)
qed

lemma network64_roundtrip [simp]: "networkToHost64 (hostToNetwork64 x) = x"
proof -
  have "ucast (hostToNetwork64 x) = hostToNetwork32 (ucast (drop_bit 32 x))"
    and "ucast (drop_bit 32 (hostToNetwork64 x)) = hostToNetwork32 (ucast x)"
    by (simp_all only: hostToNetwork64_def join_halves)
  then show ?thesis by (simp add: networkToHost64_def split_halves)
qed

section \<open>Sockets\<close>

record sock =
  sk_nonblock :: bool
  sk_cloexec :: bool
  sk_bound :: "inet_address option"
  sk_listening :: bool
  sk_wr_shut :: bool
  sk_noDelay :: bool
  sk_reuseAddr :: bool
  sk_reusePort :: bool
  sk_keepAlive :: bool

definition nonblocking_sock :: sock where
  "nonblocking_sock = \<lparr>sk_nonblock = True, sk_cloexec = True, sk_bound = None, sk_listening = False, sk_wr_shut = False,
     sk_noDelay = False, sk_reuseAddr = False, sk_reusePort = False, sk_keepAlive = False\<rparr>"

type_synonym sock_table = "int \<rightharpoonup> sock"

definition on_sock :: "(sock \<Rightarrow> sock) \<Rightarrow> int \<Rightarrow> sock_table \<Rightarrow> sock_table" where
  "on_sock f fd k = (case k fd of None \<Rightarrow> k | Some s \<Rightarrow> k(fd \<mapsto> f s))"

definition createNonblockingOrDie :: "int \<Rightarrow> sock_table \<Rightarrow> (int \<times> sock_table) checked" where
  "createNonblockingOrDie sockfd k = (if sockfd < 0 then None else Some (sockfd, k(sockfd \<mapsto> nonblocking_sock)))"

definition bindOrDie :: "int \<Rightarrow> int \<Rightarrow> inet_address \<Rightarrow> sock_table \<Rightarrow> sock_table checked" where
  "bindOrDie ret sockfd addr k = (if ret < 0 then None else Some (on_sock (\<lambda>s. s\<lparr>sk_bound := Some addr\<rparr>) sockfd k))"

definition listenOrDie :: "int \<Rightarrow> int \<Rightarrow> sock_table \<Rightarrow> sock_table checked" where
  "listenOrDie ret sockfd k = (if ret < 0 then None else Some (on_sock (\<lambda>s. s\<lparr>sk_listening := True\<rparr>) sockfd k))"

text \<open>\<open>accept4\<close> gives a descriptor and the peer's address, or an error.\<close>

definition sockets_accept :: "sys_errno + int \<times> inet_address \<Rightarrow> sock_table \<Rightarrow> ((sys_errno + int \<times> inet_address) \<times> sock_table) checked" where
  "sockets_accept res k =
     (case res of
        Inr (connfd, peer) \<Rightarrow> Some (res, k(connfd \<mapsto> nonblocking_sock))
      | Inl savedErrno \<Rightarrow> if accept_transient savedErrno then Some (res, k) else None)"

definition sockets_close :: "int \<Rightarrow> sock_table \<Rightarrow> sock_table" where
  "sockets_close sockfd k = k(sockfd := None)"

definition sockets_shutdownWrite :: "int \<Rightarrow> int \<Rightarrow> sock_table \<Rightarrow> sock_table" where
  "sockets_shutdownWrite ret sockfd k = (if ret < 0 then k else on_sock (\<lambda>s. s\<lparr>sk_wr_shut := True\<rparr>) sockfd k)"

definition getSocketError :: "int \<Rightarrow> int \<Rightarrow> int \<Rightarrow> int" where
  "getSocketError ret optval errno = (if ret < 0 then errno else optval)"

text \<open>\<open>getsockname\<close> and \<open>getpeername\<close>: on failure the zeroed structure is returned, whose family is none of the two.\<close>

definition getLocalAddr :: "(sys_errno + inet_address) \<Rightarrow> inet_address option" where
  "getLocalAddr res = (case res of Inl e \<Rightarrow> None | Inr a \<Rightarrow> Some a)"

definition getPeerAddr :: "(sys_errno + inet_address) \<Rightarrow> inet_address option" where
  "getPeerAddr res = (case res of Inl e \<Rightarrow> None | Inr a \<Rightarrow> Some a)"

definition self_connected :: "(sys_errno + inet_address) \<Rightarrow> (sys_errno + inet_address) \<Rightarrow> bool" where
  "self_connected local_res peer_res =
     (case getLocalAddr local_res of
        None \<Rightarrow> False
      | Some (Inet4 lp la) \<Rightarrow> isSelfConnect (Inet4 lp la) (case getPeerAddr peer_res of None \<Rightarrow> Inet4 0 0 | Some a \<Rightarrow> a)
      | Some (Inet6 lp la) \<Rightarrow> isSelfConnect (Inet6 lp la) (case getPeerAddr peer_res of None \<Rightarrow> Inet6 0 0 | Some a \<Rightarrow> a))"

section \<open>The class \<open>Socket\<close>\<close>

text \<open>The constructor makes the descriptor non-blocking; a failure is logged only.\<close>

definition Socket_ctor :: "int \<Rightarrow> int \<Rightarrow> sock_table \<Rightarrow> sock_table" where
  "Socket_ctor ret sockfd k = (if ret < 0 then k else on_sock (\<lambda>s. s\<lparr>sk_nonblock := True\<rparr>) sockfd k)"

definition Socket_dtor :: "int \<Rightarrow> sock_table \<Rightarrow> sock_table" where
  "Socket_dtor sockfd k = sockets_close sockfd k"

definition bindAddress :: "int \<Rightarrow> int \<Rightarrow> inet_address \<Rightarrow> sock_table \<Rightarrow> sock_table checked" where
  "bindAddress ret sockfd addr k = bindOrDie ret sockfd addr k"

definition Socket_listen :: "int \<Rightarrow> int \<Rightarrow> sock_table \<Rightarrow> sock_table checked" where
  "Socket_listen ret sockfd k = listenOrDie ret sockfd k"

text \<open>\<open>accept\<close> stores the peer's address only when there is a connection.\<close>

definition Socket_accept :: "sys_errno + int \<times> inet_address \<Rightarrow> inet_address \<Rightarrow> sock_table \<Rightarrow> (int \<times> inet_address \<times> sock_table) checked" where
  "Socket_accept res peeraddr k = do {
     (r, k1) \<leftarrow> sockets_accept res k;
     Some (case r of Inr (connfd, addr) \<Rightarrow> (connfd, addr, k1) | Inl e \<Rightarrow> (- 1, peeraddr, k1)) }"

definition Socket_shutdownWrite :: "int \<Rightarrow> int \<Rightarrow> sock_table \<Rightarrow> sock_table" where
  "Socket_shutdownWrite ret sockfd k = sockets_shutdownWrite ret sockfd k"

text \<open>The options: the new table and whether an error was logged; switching an option off never logs.\<close>

definition setTcpNoDelay :: "int \<Rightarrow> bool \<Rightarrow> int \<Rightarrow> sock_table \<Rightarrow> bool \<times> sock_table" where
  "setTcpNoDelay ret on fd k = (ret < 0 \<and> on, if ret < 0 then k else on_sock (\<lambda>s. s\<lparr>sk_noDelay := on\<rparr>) fd k)"

definition setReuseAddr :: "int \<Rightarrow> bool \<Rightarrow> int \<Rightarrow> sock_table \<Rightarrow> bool \<times> sock_table" where
  "setReuseAddr ret on fd k = (ret < 0 \<and> on, if ret < 0 then k else on_sock (\<lambda>s. s\<lparr>sk_reuseAddr := on\<rparr>) fd k)"

definition setReusePort :: "int \<Rightarrow> bool \<Rightarrow> int \<Rightarrow> sock_table \<Rightarrow> bool \<times> sock_table" where
  "setReusePort ret on fd k = (ret < 0 \<and> on, if ret < 0 then k else on_sock (\<lambda>s. s\<lparr>sk_reusePort := on\<rparr>) fd k)"

definition setKeepAlive :: "int \<Rightarrow> bool \<Rightarrow> int \<Rightarrow> sock_table \<Rightarrow> bool \<times> sock_table" where
  "setKeepAlive ret on fd k = (ret < 0 \<and> on, if ret < 0 then k else on_sock (\<lambda>s. s\<lparr>sk_keepAlive := on\<rparr>) fd k)"

lemmas sock_defs = createNonblockingOrDie_def bindOrDie_def listenOrDie_def sockets_close_def sockets_shutdownWrite_def
  Socket_ctor_def Socket_dtor_def bindAddress_def Socket_listen_def Socket_shutdownWrite_def setTcpNoDelay_def
  setReuseAddr_def setReusePort_def setKeepAlive_def on_sock_def nonblocking_sock_def

text \<open>
  How \<open>Acceptor\<close> makes its socket: if the process survives, the descriptor is a listening, non-blocking,
  close-on-exec socket bound to the address; the other descriptors are as before.
\<close>

definition listening_socket :: "int \<Rightarrow> int \<Rightarrow> int \<Rightarrow> int \<Rightarrow> int \<Rightarrow> bool \<Rightarrow> inet_address \<Rightarrow> sock_table \<Rightarrow> (int \<times> sock_table) checked" where
  "listening_socket fd flags_ret opt_ret bind_ret listen_ret reuseport addr k = do {
     (sockfd, k1) \<leftarrow> createNonblockingOrDie fd k;
     let k2 = Socket_ctor flags_ret sockfd k1;
     let k3 = snd (setReuseAddr opt_ret True sockfd k2);
     let k4 = snd (setReusePort opt_ret reuseport sockfd k3);
     k5 \<leftarrow> bindAddress bind_ret sockfd addr k4;
     k6 \<leftarrow> Socket_listen listen_ret sockfd k5;
     Some (sockfd, k6) }"

lemma listening_socket_ready:
  assumes "listening_socket fd flags_ret opt_ret bind_ret listen_ret reuseport addr k = Some (sockfd, k')"
  shows "sockfd = fd \<and> 0 \<le> fd \<and> (\<exists>s. k' fd = Some s \<and> sk_nonblock s \<and> sk_cloexec s \<and> sk_listening s \<and> sk_bound s = Some addr
      \<and> (sk_reuseAddr s \<longleftrightarrow> 0 \<le> opt_ret)) \<and> (\<forall>fd'. fd' \<noteq> fd \<longrightarrow> k' fd' = k fd')
    \<and> Socket_dtor sockfd k' = k(fd := None)"
  using assms by (auto simp: listening_socket_def sock_defs Let_def split: if_splits bind_splits)

text \<open>\<open>accept\<close> on its own: the process ends exactly for the errors outside the first group.\<close>

lemma accept_outcomes:
  "Socket_accept (Inr (connfd, peer)) p k = Some (connfd, peer, k(connfd \<mapsto> nonblocking_sock))"
  "accept_transient e \<Longrightarrow> Socket_accept (Inl e) p k = Some (- 1, p, k)"
  "\<not> accept_transient e \<Longrightarrow> Socket_accept (Inl e) p k = None"
  by (simp_all add: Socket_accept_def sockets_accept_def)

section \<open>Addresses as text\<close>

definition INET_ADDRSTRLEN :: nat where "INET_ADDRSTRLEN = 16"
definition INET6_ADDRSTRLEN :: nat where "INET6_ADDRSTRLEN = 46"

definition sockets_toIp :: "inet_lib \<Rightarrow> nat \<Rightarrow> inet_address \<Rightarrow> string checked" where
  "sockets_toIp lib n a =
     (case a of
        Inet4 p ip \<Rightarrow> if INET_ADDRSTRLEN \<le> n then Some (ntop_into n (ntop4 lib ip)) else None
      | Inet6 p ip \<Rightarrow> if INET6_ADDRSTRLEN \<le> n then Some (ntop_into n (ntop6 lib ip)) else None)"

definition sockets_toIpPort :: "inet_lib \<Rightarrow> nat \<Rightarrow> inet_address \<Rightarrow> string checked" where
  "sockets_toIpPort lib n a = do {
     buf \<leftarrow> sockets_toIp lib n a;
     let port = networkToHost16 (sin_port a);
     Some (buf @ snprintf_into (n - length buf) ('':'' @ show_nat (unat port))) }"

text \<open>An address that \<open>inet_pton\<close> does not accept leaves the old one in place.\<close>

definition fromIpPort4 :: "inet_lib \<Rightarrow> string \<Rightarrow> 16 word \<Rightarrow> 32 word \<Rightarrow> inet_address" where
  "fromIpPort4 lib ip port old = Inet4 (hostToNetwork16 port) (case pton4 lib ip of None \<Rightarrow> old | Some a \<Rightarrow> a)"

definition fromIpPort6 :: "inet_lib \<Rightarrow> string \<Rightarrow> 16 word \<Rightarrow> 128 word \<Rightarrow> inet_address" where
  "fromIpPort6 lib ip port old = Inet6 (hostToNetwork16 port) (case pton6 lib ip of None \<Rightarrow> old | Some a \<Rightarrow> a)"

definition ipv4NetEndian :: "inet_address \<Rightarrow> 32 word checked" where
  "ipv4NetEndian a = (case a of Inet4 p ip \<Rightarrow> Some ip | Inet6 p ip \<Rightarrow> None)"

text \<open>\<open>gethostbyname_r\<close> gives the first address of an entry, or nothing.\<close>

definition resolve :: "(string \<Rightarrow> 32 word option) \<Rightarrow> string \<Rightarrow> inet_address \<Rightarrow> bool \<times> inet_address" where
  "resolve gethostbyname hostname result =
     (case gethostbyname hostname of
        None \<Rightarrow> (False, result)
      | Some ip \<Rightarrow> (True, case result of Inet4 p old \<Rightarrow> Inet4 p ip | Inet6 p old \<Rightarrow> result))"

text \<open>Both printers agree on IPv4; for IPv6 the function of \<open>SocketsOps.cc\<close> leaves out the brackets.\<close>

lemma two_printers:
  "sockets_toIpPort lib 64 (Inet4 p ip) = Some (toIpPort lib (Inet4 p ip))"
  "length (ntop6 lib ip6) \<le> 45 \<Longrightarrow> sockets_toIpPort lib 64 (Inet6 p ip6) = Some (ntop6 lib ip6 @ '':'' @ show_nat (unat (networkToHost16 p)))"
  "length (ntop6 lib ip6) \<le> 45 \<Longrightarrow> toIpPort lib (Inet6 p ip6) = ''['' @ ntop6 lib ip6 @ '']:'' @ show_nat (unat (networkToHost16 p))"
  using length_show_port [of "networkToHost16 p"]
  by (auto simp: sockets_toIpPort_def sockets_toIp_def toIpPort_def INET_ADDRSTRLEN_def INET6_ADDRSTRLEN_def
      ntop_into_def snprintf_into_def Let_def)

text \<open>From text to an address and back; resolving a name changes the address and keeps the port.\<close>

lemma fromIpPort_roundtrip:
  assumes "pton4 lib ip = Some a" and "ntop4 lib a = ip" and "length ip \<le> 15"
  shows "sockets_toIpPort lib 64 (fromIpPort4 lib ip port old) = Some (ip @ '':'' @ show_nat (unat port))"
    and "ipv4NetEndian (fromIpPort4 lib ip port old) = Some a"
    and "resolve db host (fromIpPort4 lib ip port old) =
      (case db host of None \<Rightarrow> (False, fromIpPort4 lib ip port old) | Some b \<Rightarrow> (True, Inet4 (hostToNetwork16 port) b))"
  using assms length_show_port [of port]
  by (auto simp: fromIpPort4_def two_printers(1) toIpPort_def ntop_into_def snprintf_into_def Let_def ipv4NetEndian_def
      resolve_def split: option.splits)

end
