(* ===== verification/AppMain.thy ===== *)
theory AppMain
  imports Sharing ThreadPool TcpServer SocketFns
begin

text \<open>
  The beginning and the end of the program in \<open>application/http_upload.cc\<close>: the constructor and the destructor of
  \<open>HttpUploadHandler\<close> with the connection to the database, and what \<open>main\<close> puts together before it enters the loop.
  What MySQL answers to the three calls that set up the connection is an argument.
\<close>

section \<open>The database connection\<close>

record 'db db_answers =
  da_init :: bool
  da_connect :: "'db option"
  da_charset :: bool

text \<open>Whether \<open>initDatabase\<close> returns true, and the value of \<open>mysql\<close> it leaves.\<close>

definition initDatabase :: "'db db_answers \<Rightarrow> bool \<times> 'db option" where
  "initDatabase da =
     (if \<not> da_init da then (False, None)
      else case da_connect da of
             None \<Rightarrow> (False, None)
           | Some db \<Rightarrow> if da_charset da then (True, Some db) else (False, Some db))"

definition closeDatabase :: "'db app_state \<Rightarrow> 'db app_state" where
  "closeDatabase a = (case ap_mysql a of None \<Rightarrow> a | Some db \<Rightarrow> a\<lparr>ap_mysql := None\<rparr>)"

lemma initDatabase_true: "fst (initDatabase da) \<Longrightarrow> snd (initDatabase da) \<noteq> None"
  by (simp add: initDatabase_def split: if_splits option.splits)

text \<open>A server that runs without a database answers every query with a failure and does not change its state.\<close>

lemma no_database: "ap_mysql (hs_app s) = None \<Longrightarrow> executeQuery en q s = (Ret False, s)"
  by (simp add: executeQuery_def executeQueryWithResult_def bindE_def ret_def)

section \<open>The handler object\<close>

record 'db handler_object =
  ho_threadPool :: "unit thread_pool"
  ho_app :: "'db app_state"
  ho_routes :: "route_pattern list"

text \<open>\<open>dir\<close> says that the upload directory exists, \<open>mkdir\<close> that it can be made; otherwise \<open>create_directory\<close> throws.\<close>

datatype ctor_error = Pool_error start_error | Filesystem_error

definition handler_ctor ::
  "int \<Rightarrow> ('db, 'j) env \<Rightarrow> 'db db_answers \<Rightarrow> bool \<Rightarrow> bool \<Rightarrow> (string \<rightharpoonup> bytes) \<Rightarrow> ctor_error + 'db handler_object" where
  "handler_ctor numThreads en da dir mkdir files =
     (case tp_start numThreads (new_thread_pool ''UploadHandler'') of
        Inl e \<Rightarrow> Inl (Pool_error e)
      | Inr p \<Rightarrow>
          if \<not> dir \<and> \<not> mkdir then Inl Filesystem_error
          else
          let (ok, mysql) = initDatabase da;
              a = \<lparr>ap_mysql = mysql, ap_files = files, ap_mapping = [], ap_draws = 0, ap_downs = [], ap_sql = []\<rparr>
          in Inr \<lparr>ho_threadPool = p, ho_app = loadFilenameMapping en a, ho_routes = initRoutes\<rparr>)"

text \<open>\<open>stop\<close> of the pool joins the workers; then the mapping is saved and the connection closed. The pool's own
  destructor finds it stopped.\<close>

definition destroy_pool :: "'a thread_pool \<Rightarrow> 'a thread_pool checked" where
  "destroy_pool p = (if tp_running p then join_all (tp_stop p) else Some p)"

definition handler_dtor :: "('db, 'j) env \<Rightarrow> 'db handler_object \<Rightarrow> 'db handler_object checked" where
  "handler_dtor en h = do {
     p \<leftarrow> join_all (tp_stop (ho_threadPool h));
     let a = closeDatabase (saveFilenameMapping en (ho_app h));
     p' \<leftarrow> destroy_pool p;
     Some (h\<lparr>ho_threadPool := p', ho_app := a\<rparr>) }"

lemma handler_ctor_ok:
  assumes "0 \<le> n" and "dir \<or> mkdir"
  shows "\<exists>h. handler_ctor n en da dir mkdir files = Inr h \<and> length (tp_threads (ho_threadPool h)) = nat n
    \<and> list_all (\<lambda>t. th_started t \<and> \<not> th_joined t) (tp_threads (ho_threadPool h)) \<and> tp_running (ho_threadPool h)
    \<and> ho_routes h = initRoutes \<and> ap_mysql (ho_app h) = snd (initDatabase da)
    \<and> ap_files (ho_app h) = files"
proof -
  have sp: "\<exists>us. spawn [k..<k + m] name ts = Some (ts @ us) \<and> length us = m \<and> list_all (\<lambda>t. th_started t \<and> \<not> th_joined t) us"
    if "length ts = k" for k m ts name
    using that
  proof (induction m arbitrary: k ts)
    case (Suc m)
    let ?t = "(new_thread (name @ show_nat (k + 1)))\<lparr>th_started := True\<rparr>"
    from Suc.prems Suc.IH [of "ts @ [?t]" "Suc k"] obtain us where
      "spawn [Suc k..<Suc k + m] name (ts @ [?t]) = Some ((ts @ [?t]) @ us)" "length us = m"
      "list_all (\<lambda>t. th_started t \<and> \<not> th_joined t) us" by auto
    moreover have "[k..<k + Suc m] = k # [Suc k..<Suc k + m]" by (simp add: upt_conv_Cons del: upt_Suc)
    ultimately show ?case using Suc.prems by (auto simp: thread_start_def new_thread_def simp del: upt_Suc)
  qed simp
  from sp [of "[]" 0 "nat n" "''UploadHandler''"] obtain us where
    us: "spawn [0..<nat n] ''UploadHandler'' [] = Some us" "length us = nat n"
      "list_all (\<lambda>t. th_started t \<and> \<not> th_joined t) us" by auto
  have "ap_mysql (loadFilenameMapping en a) = ap_mysql a" "ap_files (loadFilenameMapping en a) = ap_files a" for a :: "'a app_state"
    by (simp_all add: loadFilenameMapping_def split: option.split)
  with us assms show ?thesis
    by (auto simp: handler_ctor_def tp_start_def new_thread_pool_def case_prod_beta Let_def)
qed

lemma join_started:
  "list_all (\<lambda>t. th_started t \<and> \<not> th_joined t) ts \<Longrightarrow> those (map thread_join ts) = Some (map (\<lambda>t. t\<lparr>th_joined := True\<rparr>) ts)"
  by (induction ts) (simp_all add: thread_join_def)

lemma handler_dtor_ok:
  assumes "list_all (\<lambda>t. th_started t \<and> \<not> th_joined t) (tp_threads (ho_threadPool h))"
  shows "\<exists>h'. handler_dtor en h = Some h' \<and> ho_app h' = closeDatabase (saveFilenameMapping en (ho_app h))"
  using join_started [OF assms] by (simp add: handler_dtor_def join_all_def tp_stop_def destroy_pool_def)

text \<open>
  A restart of the server keeps the filename mapping, if its names are valid UTF-8: what a destroyed handler saved is what the next one loads,
  whatever the handlers did to the mapping in between.
\<close>

lemma mapping_survives_restart:
  assumes "mapping_laws en" and "om_inv m" and "0 \<le> n" and "utf8_map m" and "handler_ctor n en da dir mkdir files = Inr h"
  shows "\<exists>h1 h2. handler_dtor en (h\<lparr>ho_app := (ho_app h)\<lparr>ap_mapping := m\<rparr>\<rparr>) = Some h1 \<and> ap_mysql (ho_app h1) = None
    \<and> handler_ctor n en da' True mkdir (ap_files (ho_app h1)) = Inr h2
    \<and> (\<forall>f. om_get (ap_mapping (ho_app h2)) f = om_get m f)"
proof -
  let ?h = "h\<lparr>ho_app := (ho_app h)\<lparr>ap_mapping := m\<rparr>\<rparr>"
  have th: "list_all (\<lambda>t. th_started t \<and> \<not> th_joined t) (tp_threads (ho_threadPool ?h))"
    using handler_ctor_ok [OF assms(3), of dir mkdir en da files] assms(5)
    by (cases "dir \<or> mkdir") (auto simp: handler_ctor_def split: sum.splits)
  from handler_dtor_ok [OF th, of en] obtain h1 where
    h1: "handler_dtor en ?h = Some h1" "ho_app h1 = closeDatabase (saveFilenameMapping en (ho_app ?h))" by blast
  from handler_ctor_ok [OF assms(3), of True mkdir en da' "ap_files (ho_app h1)"] obtain h2 where
    h2: "handler_ctor n en da' True mkdir (ap_files (ho_app h1)) = Inr h2" by blast
  from assms(1,2,4) obtain t where t: "en_mapping_dump en m = Some t" "en_mapping_parse en t = Some m" and o: "en_open_ok en mappingFile"
    unfolding mapping_laws_def by blast
  have files: "ap_files (ho_app h1) mappingFile = Some t" and db: "ap_mysql (ho_app h1) = None"
    using h1(2) t(1) o by (auto simp: closeDatabase_def saveFilenameMapping_def split: option.split)
  have "ap_mapping (ho_app h2) = fold (\<lambda>(k, v). om_put k v) m []"
    using h2 files t(2) by (auto simp: handler_ctor_def loadFilenameMapping_def case_prod_beta Let_def split: sum.splits)
  with h1(1) h2 db put_all_same [OF assms(2)] show ?thesis by auto
qed

section \<open>The program\<close>

text \<open>
  \<open>main\<close> up to \<open>loop.loop()\<close>: one loop, a server on port 8000 whose pool has no threads, a handler with four workers.
\<close>

record ('l, 'db) program =
  pr_loop :: 'l
  pr_server :: "'l tcp_server"
  pr_handler :: "'db handler_object"

definition app_main ::
  "inet_lib \<Rightarrow> 'l \<Rightarrow> (string \<Rightarrow> 'l) \<Rightarrow> ('db, 'j) env \<Rightarrow> 'db db_answers \<Rightarrow> bool \<Rightarrow> bool \<Rightarrow> (string \<rightharpoonup> bytes)
     \<Rightarrow> ('l, 'db) program checked" where
  "app_main lib loop startLoop en da dir mkdir files =
     (let server = new_server loop (toIpPort lib (InetAddress_port 8000 False)) ''http-upload-test''
      in case handler_ctor 4 en da dir mkdir files of
           Inl e \<Rightarrow> None
         | Inr handler \<Rightarrow> do {
             s \<leftarrow> server_start startLoop False (server_setThreadNum 0 server);
             Some \<lparr>pr_loop = loop, pr_server = s, pr_handler = handler\<rparr> })"

text \<open>
  Unless it cannot have its upload directory, the program starts, whatever the database answers, and its server gives every connection to the one loop of the main
  thread, so that all requests are handled in one thread; the handler's members need no lock.
\<close>

lemma next_loops_base: "lp_started p \<Longrightarrow> lp_loops p = [] \<Longrightarrow> next_loops k p = Some (replicate k (lp_baseLoop p), p)"
  by (induction k) (simp_all add: getNextLoop_def)

lemma main_one_thread:
  assumes "dir \<or> mkdir"
  shows "\<exists>pr. app_main lib loop startLoop en da dir mkdir files = Some pr \<and> ts_listening (pr_server pr)
    \<and> next_loops k (ts_pool (pr_server pr)) = Some (replicate k loop, ts_pool (pr_server pr))
    \<and> getAllLoops (ts_pool (pr_server pr)) = Some [loop] \<and> length (tp_threads (ho_threadPool (pr_handler pr))) = 4
    \<and> port_of (InetAddress_port 8000 False) = 8000"
proof -
  from handler_ctor_ok [of 4 dir mkdir en da files] assms obtain h where
    h: "handler_ctor 4 en da dir mkdir files = Inr h" "length (tp_threads (ho_threadPool h)) = 4" by auto
  let ?s = "\<lparr>ts_name = ''http-upload-test'', ts_ipPort = toIpPort lib (InetAddress_port 8000 False),
    ts_pool = (new_pool loop ''http-upload-test'')\<lparr>lp_started := True, lp_numThreads := 0\<rparr>, ts_started = True, ts_listening = True,
    ts_nextConnId = 1, ts_connections = (\<lambda>_. None)\<rparr>"
  have "app_main lib loop startLoop en da dir mkdir files = Some \<lparr>pr_loop = loop, pr_server = ?s, pr_handler = h\<rparr>"
    by (simp add: app_main_def h(1) server_start_def server_setThreadNum_def new_server_def setThreadNum_def pool_start_def
        new_pool_def)
  moreover have "next_loops k (ts_pool ?s) = Some (replicate k loop, ts_pool ?s)"
    using next_loops_base [of "ts_pool ?s" k] by (simp add: new_pool_def)
  moreover have "getAllLoops (ts_pool ?s) = Some [loop]" by (simp add: getAllLoops_def new_pool_def)
  moreover have "port_of (InetAddress_port 8000 False) = 8000" by (simp add: port_of_def InetAddress_port_def)
  ultimately show ?thesis using h(2) by auto
qed

end
