(* ===== verification/RouteBench.thy ===== *)
theory RouteBench
  imports RouteTrie Regex
begin

text \<open>
  The benchmark of \<open>application/route_test.cc\<close>, which routes random paths once through a list of regular expressions
  and once through a trie. Its trie has the nodes and the insertion of \<open>net/RouteTrie.cc\<close>, which are reused, but a search of
  its own that never goes back. The numbers its random generators give are arguments; the
  durations it prints are left out.
\<close>

section \<open>The trie of the benchmark\<close>

text \<open>The list of parameter names is passed and not used.\<close>

definition bench_addRoute :: "string \<Rightarrow> string \<Rightarrow> string \<Rightarrow> string list \<Rightarrow> trie_node \<Rightarrow> trie_node" where
  "bench_addRoute path meth handler names root = add_segments (splitPath path) meth handler root"

fun bench_walk :: "trie_node \<Rightarrow> string list \<Rightarrow> params \<Rightarrow> (trie_node \<times> params) option" where
  "bench_walk current [] ps = Some (current, ps)"
| "bench_walk current (segment # segments) ps =
     (case children current segment of
        Some c \<Rightarrow> bench_walk c segments ps
      | None \<Rightarrow>
          (case children current ''*'' of
             Some c \<Rightarrow> bench_walk c segments (if paramNames c = [] then ps else ps(last (paramNames c) \<mapsto> segment))
           | None \<Rightarrow> None))"

definition bench_findRoute :: "string \<Rightarrow> string \<Rightarrow> trie_node \<Rightarrow> string \<times> params" where
  "bench_findRoute path meth root =
     (case bench_walk root (splitPath path) Map.empty of
        None \<Rightarrow> ([], Map.empty)
      | Some (current, ps) \<Rightarrow>
          (case (isLeaf current, handlers current meth) of (True, Some h) \<Rightarrow> (h, ps) | _ \<Rightarrow> ([], Map.empty)))"

section \<open>Random routes and requests\<close>

definition chars :: string where
  "chars = ''abcdefghijklmnopqrstuvwxyz0123456789''"

text \<open>\<open>dis\<close> gives the numbers one generator draws; the second argument is how many were drawn before.\<close>

fun random_chars :: "(nat \<Rightarrow> nat) \<Rightarrow> nat \<Rightarrow> nat \<Rightarrow> string" where
  "random_chars dis k 0 = []"
| "random_chars dis k (Suc n) = chars ! dis k # random_chars dis (Suc k) n"

fun random_path :: "(nat \<Rightarrow> nat) \<Rightarrow> nat \<Rightarrow> nat list \<Rightarrow> string \<Rightarrow> string" where
  "random_path dis k [] path = path"
| "random_path dis k (i # is) path =
     (let path1 = (if 0 < i then path @ ''/'' else path)
      in if dis k mod 3 = 0 then random_path dis (k + 1) is (path1 @ '':param'' @ show_nat i)
         else let len = dis (k + 1) mod 5 + 3
              in random_path dis (k + 2 + len) is (path1 @ random_chars dis (k + 2) len))"

definition generateRandomPath :: "nat \<Rightarrow> (nat \<Rightarrow> nat) \<Rightarrow> string" where
  "generateRandomPath depth dis = random_path dis 0 [0..<depth] []"

text \<open>The names after \<open>:param\<close>, up to the next slash.\<close>

definition segment_end :: "string \<Rightarrow> nat \<Rightarrow> nat" where
  "segment_end path p = (case find_sub_from ''/'' path p of None \<Rightarrow> length path | Some e \<Rightarrow> e)"

lemma find_sub_from_Some:
  assumes "find_sub_from p s i = Some j"
  shows "i \<le> j" and "starts_with p (drop j s)"
  using assms find_sub_Some(2) [of p "drop i s" "j - i"]
  by (auto simp: find_sub_from_def add.commute split: if_splits)

lemma segment_end_after:
  assumes "find_sub_from '':param'' path pos = Some p"
  shows "pos < segment_end path p" and "pos < length path"
proof -
  from find_sub_from_Some [OF assms] obtain r where p: "pos \<le> p" "drop p path = CHR '':'' # r" by auto
  then have l: "p < length path" by (metis drop_all list.discI not_less)
  with p(1) show "pos < length path" by simp
  show "pos < segment_end path p"
  proof (cases "find_sub_from ''/'' path p")
    case None
    with p(1) l show ?thesis by (simp add: segment_end_def)
  next
    case (Some e)
    from find_sub_from_Some [OF Some] p(2) have "p \<le> e" "e \<noteq> p" by auto
    with p(1) Some show ?thesis by (simp add: segment_end_def)
  qed
qed

function param_list :: "string \<Rightarrow> nat \<Rightarrow> string list" where
  "param_list path pos =
     (case find_sub_from '':param'' path pos of
        None \<Rightarrow> []
      | Some p \<Rightarrow>
          (let e = segment_end path p
           in take (e - p - 6) (drop (p + 6) path) # param_list path e))"
  by pat_completeness auto
termination
  by (relation "measure (\<lambda>(path, pos). length path - pos)") (auto intro: diff_less_mono2 segment_end_after)

declare param_list.simps [simp del]

record bench_route =
  br_pattern :: "rx_item list"
  br_params :: "string list"
  br_handler :: string
  br_method :: string

record benchmark =
  bm_regexRoutes :: "bench_route list"
  bm_trieRoutes :: trie_node

definition new_benchmark :: benchmark where
  "new_benchmark = \<lparr>bm_regexRoutes = [], bm_trieRoutes = new_node\<rparr>"

definition bench_methods :: "string list" where
  "bench_methods = [''GET'', ''POST'', ''PUT'', ''DELETE'']"

text \<open>One route: its method, the depth of its path, and the draws for the path. A pattern \<open>std::regex\<close> rejects throws.\<close>

type_synonym route_draw = "nat \<times> nat \<times> (nat \<Rightarrow> nat)"

definition add_test_route :: "nat \<Rightarrow> route_draw \<Rightarrow> benchmark \<Rightarrow> benchmark option" where
  "add_test_route i d b =
     (case d of (methodDis, depth, dis) \<Rightarrow>
        (let meth = bench_methods ! methodDis;
             path = generateRandomPath depth dis;
             handler = ''handler'' @ show_nat i;
             names = param_list path 0
         in case rx_compile 1 [] (''^'' @ path @ ''$'') of
              None \<Rightarrow> None
            | Some pattern \<Rightarrow>
                Some (b\<lparr>bm_regexRoutes := bm_regexRoutes b @
                          [\<lparr>br_pattern = pattern, br_params = names, br_handler = handler, br_method = meth\<rparr>],
                        bm_trieRoutes := bench_addRoute path meth handler names (bm_trieRoutes b)\<rparr>)))"

fun add_test_routes :: "nat \<Rightarrow> route_draw list \<Rightarrow> benchmark \<Rightarrow> benchmark option" where
  "add_test_routes i [] b = Some b"
| "add_test_routes i (d # ds) b = do { b' \<leftarrow> add_test_route i d b; add_test_routes (Suc i) ds b' }"

definition generateTestData :: "route_draw list \<Rightarrow> benchmark \<Rightarrow> benchmark option" where
  "generateTestData ds b = add_test_routes 0 ds b"

section \<open>Counting the matches\<close>

definition regex_finds :: "bench_route list \<Rightarrow> string \<Rightarrow> string \<Rightarrow> bool" where
  "regex_finds routes path meth \<longleftrightarrow>
     list_ex (\<lambda>r. br_method r = meth \<and> regex_match (br_pattern r) path \<noteq> None) routes"

definition trie_finds :: "trie_node \<Rightarrow> string \<Rightarrow> string \<Rightarrow> bool" where
  "trie_finds root path meth \<longleftrightarrow> fst (bench_findRoute path meth root) \<noteq> []"

text \<open>Result: the number of requests the regular expressions match, the number the trie matches, and the object.\<close>

definition runBenchmark ::
  "route_draw list \<Rightarrow> (nat \<times> (nat \<Rightarrow> nat)) list \<Rightarrow> benchmark \<Rightarrow> (nat \<times> nat \<times> benchmark) option" where
  "runBenchmark ds rs b = do {
     b' \<leftarrow> generateTestData ds b;
     let requests = map (\<lambda>(depth, dis). (generateRandomPath depth dis, ''GET'')) rs;
     Some (length (filter (\<lambda>(path, meth). regex_finds (bm_regexRoutes b') path meth) requests),
           length (filter (\<lambda>(path, meth). trie_finds (bm_trieRoutes b') path meth) requests), b') }"

section \<open>What the paths look like\<close>

fun slash_join :: "string list \<Rightarrow> string" where
  "slash_join [] = []"
| "slash_join [s] = s"
| "slash_join (s # t # ss) = s @ CHR ''/'' # slash_join (t # ss)"

definition good_segment :: "string \<Rightarrow> bool" where
  "good_segment s \<longleftrightarrow> s \<noteq> [] \<and> CHR ''/'' \<notin> set s \<and> (\<forall>c\<in>set s. \<not> regex_special c)"

lemma slash_join_snoc: "segs \<noteq> [] \<Longrightarrow> slash_join (segs @ [s]) = slash_join segs @ CHR ''/'' # s"
  by (induction segs rule: slash_join.induct) simp_all

lemma split_slash_join:
  assumes "list_all good_segment segs"
  shows "splitPath (slash_join segs) = segs"
proof -
  have "getline_split [] (slash_join segs) = segs" using assms
  proof (induction segs rule: slash_join.induct)
    case (2 s)
    then show ?case by (simp add: good_segment_def getline_split_segment)
  next
    case (3 s t ss)
    then show ?case by (simp add: good_segment_def getline_split_segment)
  qed simp
  moreover have "filter (\<lambda>s. s \<noteq> []) segs = segs"
    using assms by (simp add: filter_id_conv list_all_iff good_segment_def)
  ultimately show ?thesis by (simp add: splitPath_def)
qed

lemma chars_plain: "c \<in> set chars \<Longrightarrow> c \<noteq> CHR ''/'' \<and> \<not> regex_special c \<and> c \<noteq> CHR '':''"
  by (auto simp: chars_def regex_special_def backslash_def)

lemma random_chars_segment:
  assumes "\<forall>k. dis k < 36"
  shows "set (random_chars dis k n) \<subseteq> set chars" and "length (random_chars dis k n) = n"
proof -
  have "length chars = 36" by (simp add: chars_def)
  with assms have "chars ! dis j \<in> set chars" for j by (intro nth_mem) simp
  then show "set (random_chars dis k n) \<subseteq> set chars" by (induction n arbitrary: k) auto
  show "length (random_chars dis k n) = n" by (induction n arbitrary: k) simp_all
qed

lemma param_segment: "good_segment ('':param'' @ show_nat i)"
proof -
  have "\<not> regex_special c \<and> c \<noteq> CHR ''/''" if "is_digit c" for c
    using that by (auto simp: regex_special_def backslash_def is_digit_def)
  then show ?thesis using show_nat_digits [of i]
    by (auto simp: good_segment_def list_all_iff) (auto simp: regex_special_def backslash_def)
qed

lemma random_path_join:
  assumes "\<forall>k. dis k < 36" and "list_all good_segment segs" and "length segs = i"
  shows "\<exists>segs'. random_path dis k [i..<i + n] (slash_join segs) = slash_join segs' \<and> list_all good_segment segs'
    \<and> length segs' = i + n"
  using assms(2,3)
proof (induction n arbitrary: i segs k)
  case (Suc n)
  let ?path = "if 0 < i then slash_join segs @ ''/'' else slash_join segs"
  have ix: "[i..<i + Suc n] = i # [Suc i..<Suc i + n]" by (simp add: upt_conv_Cons del: upt_Suc)
  have snoc: "?path @ s = slash_join (segs @ [s])" for s
    using Suc.prems(2) by (cases "segs = []") (auto simp: slash_join_snoc)
  let ?cs = "random_chars dis (k + 2) (dis (k + 1) mod 5 + 3)"
  have "?cs \<noteq> []" using random_chars_segment(2) [OF assms(1), of "k + 2" "dis (k + 1) mod 5 + 3"] by (metis add_is_0 list.size(3) zero_neq_numeral)
  then have "good_segment ?cs"
    using random_chars_segment(1) [OF assms(1)] chars_plain unfolding good_segment_def by blast
  then have "list_all good_segment (segs @ [if dis k mod 3 = 0 then '':param'' @ show_nat i else ?cs])"
    using Suc.prems(1) param_segment [of i] by simp
  from Suc.IH [OF this, of "Suc i" "if dis k mod 3 = 0 then k + 1 else k + 2 + (dis (k + 1) mod 5 + 3)"] Suc.prems(2)
  show ?case unfolding ix by (simp add: snoc Let_def del: upt_Suc split: if_splits)
qed (use assms in auto)

lemma generated_path:
  assumes "\<forall>k. dis k < 36"
  obtains segs where "generateRandomPath depth dis = slash_join segs" "list_all good_segment segs" "length segs = depth"
  using random_path_join [OF assms, of "[]" 0 0 depth] by (auto simp: generateRandomPath_def)

definition plain_path :: "string \<Rightarrow> bool" where
  "plain_path path \<longleftrightarrow> (\<exists>segs. path = slash_join segs \<and> list_all good_segment segs)"

lemma generated_plain: "\<forall>k. dis k < 36 \<Longrightarrow> plain_path (generateRandomPath depth dis)"
  by (metis generated_path plain_path_def)

lemma plain_path_split: "plain_path path \<Longrightarrow> slash_join (splitPath path) = path"
  by (auto simp: plain_path_def split_slash_join)

lemma plain_path_segments: "plain_path path \<Longrightarrow> list_all good_segment (splitPath path)"
  by (auto simp: plain_path_def split_slash_join)

lemma plain_path_literal:
  assumes "plain_path path"
  shows "escapeRegex path = path"
proof -
  have none: "escapeRegex p = p" if "\<forall>c\<in>set p. \<not> regex_special c" for p using that by (induction p) auto
  have "\<not> regex_special CHR ''/''" by (simp add: regex_special_def backslash_def)
  then have "\<forall>c\<in>set (slash_join segs). \<not> regex_special c" if "list_all good_segment segs" for segs
    using that by (induction segs rule: slash_join.induct) (auto simp: good_segment_def)
  with assms none show ?thesis by (auto simp: plain_path_def)
qed

text \<open>So every generated pattern is accepted, and it matches its own path and nothing else.\<close>

lemma generated_pattern:
  assumes "plain_path path"
  shows "rx_compile 1 [] (''^'' @ path @ ''$'') = Some (Bol # map (One \<circ> AChar) path @ [Eol])"
  using exact_pattern_match [of path] plain_path_literal [OF assms] by (simp add: exact_pattern_def)

section \<open>The two tables agree\<close>

text \<open>The routes the object has, as paths, methods and handlers: what both of its tables were built from.\<close>

definition bench_state :: "route list \<Rightarrow> benchmark \<Rightarrow> bool" where
  "bench_state rs b \<longleftrightarrow> bm_trieRoutes b = build_trie rs
     \<and> map (\<lambda>r. (br_pattern r, br_method r)) (bm_regexRoutes b)
         = map (\<lambda>(path, meth, h). (Bol # map (One \<circ> AChar) path @ [Eol], meth)) rs
     \<and> (\<forall>(path, meth, h)\<in>set rs. plain_path path \<and> h \<noteq> [])"

lemma bench_state_new: "bench_state [] new_benchmark"
  by (simp add: bench_state_def new_benchmark_def build_trie_def)

lemma bench_state_add:
  assumes "bench_state rs b" and "\<forall>k. dis k < 36"
  shows "\<exists>b'. add_test_route i (m, depth, dis) b = Some b'
    \<and> bench_state (rs @ [(generateRandomPath depth dis, bench_methods ! m, ''handler'' @ show_nat i)]) b'"
proof -
  note p = generated_plain [OF assms(2), of depth]
  show ?thesis using assms(1) p generated_pattern [OF p]
    by (auto simp: add_test_route_def bench_state_def bench_addRoute_def build_trie_snoc segments_of_def Let_def)
qed

lemma bench_state_adds:
  assumes "bench_state rs b" and "\<forall>d\<in>set ds. \<forall>k. snd (snd d) k < 36"
  shows "\<exists>b' rs'. add_test_routes i ds b = Some b' \<and> bench_state (rs @ rs') b' \<and> length rs' = length ds"
  using assms
proof (induction ds arbitrary: i rs b)
  case (Cons d ds)
  obtain m depth dis where d: "d = (m, depth, dis)" by (cases d)
  from bench_state_add [OF Cons.prems(1), of dis i m depth] Cons.prems(2) d obtain b1 r where
    b1: "add_test_route i d b = Some b1" "bench_state (rs @ [r]) b1" by auto
  from Cons.IH [OF b1(2), of "Suc i"] Cons.prems(2) obtain b' rs' where
    "add_test_routes (Suc i) ds b1 = Some b'" "bench_state ((rs @ [r]) @ rs') b'" "length rs' = length ds" by auto
  with b1(1) show ?case by (intro exI [of _ b'] exI [of _ "r # rs'"]) simp
qed auto

lemma regex_finds_iff:
  assumes "bench_state rs b"
  shows "regex_finds (bm_regexRoutes b) path meth \<longleftrightarrow> (\<exists>h. (path, meth, h) \<in> set rs)"
proof -
  have "regex_finds (bm_regexRoutes b) path meth \<longleftrightarrow>
      list_ex (\<lambda>(items, m). m = meth \<and> regex_match items path \<noteq> None) (map (\<lambda>r. (br_pattern r, br_method r)) (bm_regexRoutes b))"
    by (simp add: regex_finds_def list_ex_iff)
  also have "\<dots> \<longleftrightarrow> (\<exists>(p, m, h)\<in>set rs. m = meth \<and> path = p)"
    using assms unfolding bench_state_def
    by (simp add: list_ex_iff exact_pattern_match [THEN conjunct2] case_prod_beta) blast
  also have "\<dots> \<longleftrightarrow> (\<exists>h. (path, meth, h) \<in> set rs)" by auto
  finally show ?thesis .
qed

text \<open>The search follows the labels of a route's own path: no child is ever stored under a name that starts with a colon.\<close>

lemma bench_walk_labels:
  assumes "\<And>ks k. at (\<lambda>n. children n k \<noteq> None) n ks \<Longrightarrow> \<not> is_param k" and "walk n (map label segs) = Some c"
  shows "\<exists>ps'. bench_walk n segs ps = Some (c, ps')"
  using assms
proof (induction segs arbitrary: n ps)
  case (Cons s segs)
  from Cons.prems(2) obtain n1 where n1: "children n (label s) = Some n1" "walk n1 (map label segs) = Some c"
    by (auto split: option.splits)
  have "\<not> is_param k" if "at (\<lambda>n. children n k \<noteq> None) n1 ks" for ks k
    using that Cons.prems(1) [of k "label s # ks"] n1(1) by (simp add: at_Cons child_or_new_def)
  from Cons.IH [OF this n1(2)] n1(1) Cons.prems(1) [of s "[]"] show ?case
    by (auto simp: label_def split: option.splits if_splits)
qed simp

lemma bench_labels_no_colon: "at (\<lambda>n. children n k \<noteq> None) (build_trie rs) ks \<Longrightarrow> \<not> is_param k"
  by (drule child_in_build) (auto simp: label_def is_param_def split: if_splits)

lemma labelled_table_last:
  assumes "(path, meth, h) \<in> set rs"
  shows "\<exists>p' h'. (p', meth, h') \<in> set rs \<and> labelled_table rs (map label (splitPath path), meth) = Some h'"
proof -
  have "labelled_table rs (map label (splitPath path), meth) \<noteq> None"
    using assms by (auto simp: labelled_table_def map_of_eq_None_iff image_image segments_of_def intro: rev_image_eqI)
  then obtain h' where h': "labelled_table rs (map label (splitPath path), meth) = Some h'" by blast
  then show ?thesis by (auto simp: labelled_table_def dest!: map_of_SomeD) blast
qed

lemma trie_finds_own:
  assumes "bench_state rs b" and "(path, meth, h) \<in> set rs"
  shows "trie_finds (bm_trieRoutes b) path meth"
proof -
  let ?ks = "map label (splitPath path)"
  have t: "bm_trieRoutes b = build_trie rs" using assms(1) by (simp add: bench_state_def)
  from labelled_table_last [OF assms(2)] obtain p' h' where
    h': "(p', meth, h') \<in> set rs" "at handlers (build_trie rs) ?ks meth = Some h'" by (auto simp: handler_in_build)
  then obtain c where c: "walk (build_trie rs) ?ks = Some c" "handlers c meth = Some h'"
    by (auto simp: at_def split: option.splits)
  have "at isLeaf (build_trie rs) ?ks" using assms(2) by (force simp: leaf_in_build segments_of_def)
  with c(1) have "isLeaf c" by (simp add: at_def)
  moreover obtain ps where "bench_walk (build_trie rs) (splitPath path) Map.empty = Some (c, ps)"
    using bench_walk_labels [of "build_trie rs" "splitPath path" c] bench_labels_no_colon c(1) by metis
  moreover have "h' \<noteq> []" using assms(1) h'(1) by (auto simp: bench_state_def)
  ultimately show ?thesis using t c(2) by (simp add: trie_finds_def bench_findRoute_def)
qed

lemma bench_walk_static:
  assumes "\<And>ks. \<not> at (\<lambda>n. children n ''*'' \<noteq> None) n ks" and "bench_walk n segs ps = Some (c, ps')"
  shows "walk n segs = Some c"
  using assms
proof (induction segs arbitrary: n ps)
  case (Cons s segs)
  have "children n ''*'' = None" using Cons.prems(1) [of "[]"] by simp
  with Cons.prems(2) obtain n1 where n1: "children n s = Some n1" "bench_walk n1 segs ps = Some (c, ps')"
    by (auto split: option.splits)
  have "\<not> at (\<lambda>n. children n ''*'' \<noteq> None) n1 ks" for ks
    using Cons.prems(1) [of "s # ks"] n1(1) by (simp add: at_Cons child_or_new_def)
  from Cons.IH [OF this n1(2)] n1(1) show ?case by simp
qed simp

lemma static_labels:
  assumes "plain_path path" and "list_all (\<lambda>s. \<not> is_param s) (splitPath path)"
  shows "map label (splitPath path) = splitPath path" and "''*'' \<notin> set (splitPath path)"
proof -
  show "map label (splitPath path) = splitPath path"
    by (intro map_idI) (use assms(2) in \<open>simp add: label_def list_all_iff\<close>)
  have "regex_special CHR ''*''" by (simp add: regex_special_def)
  then show "''*'' \<notin> set (splitPath path)"
    using plain_path_segments [OF assms(1)] by (auto simp: list_all_iff good_segment_def)
qed

lemma trie_finds_static:
  assumes "bench_state rs b" and "\<forall>r\<in>set rs. list_all (\<lambda>s. \<not> is_param s) (splitPath (fst r))" and "plain_path path"
    and "trie_finds (bm_trieRoutes b) path meth"
  shows "\<exists>h. (path, meth, h) \<in> set rs"
proof -
  have plain: "plain_path (fst r)" if "r \<in> set rs" for r using assms(1) that by (auto simp: bench_state_def)
  note labels = static_labels [OF plain assms(2) [rule_format]]
  have "\<not> at (\<lambda>n. children n ''*'' \<noteq> None) (build_trie rs) ks" for ks
  proof
    assume "at (\<lambda>n. children n ''*'' \<noteq> None) (build_trie rs) ks"
    then obtain r i where r: "r \<in> set rs" "i < length (segments_of r)" "label (segments_of r ! i) = ''*''"
      by (drule_tac child_in_build) blast
    then have "''*'' \<in> set (map label (splitPath (fst r)))" by (metis in_set_conv_nth length_map nth_map segments_of_def)
    with labels [OF r(1) r(1)] show False by simp
  qed
  moreover obtain c ps where c: "bench_walk (build_trie rs) (splitPath path) Map.empty = Some (c, ps)" "handlers c meth \<noteq> None"
    using assms(1,4) by (auto simp: trie_finds_def bench_findRoute_def bench_state_def split: option.splits bool.splits)
  ultimately have "at handlers (build_trie rs) (splitPath path) meth \<noteq> None"
    using bench_walk_static [of "build_trie rs" "splitPath path" Map.empty c ps] by (simp add: at_def)
  then obtain r where r: "r \<in> set rs" "map label (segments_of r) = splitPath path" "fst (snd r) = meth"
    by (auto simp: handler_in_build labelled_table_def dest!: map_of_SomeD)
  then have "splitPath (fst r) = splitPath path" using labels [OF r(1) r(1)] by (simp add: segments_of_def)
  then have "fst r = path" using plain_path_split [OF plain [OF r(1)]] plain_path_split [OF assms(3)] by metis
  with r show ?thesis by (metis prod.collapse)
qed

definition bench_main ::
  "route_draw list list \<Rightarrow> (nat \<times> (nat \<Rightarrow> nat)) list list \<Rightarrow> (nat \<times> nat) list option" where
  "bench_main dss rss = do {
     (n1, m1, b1) \<leftarrow> runBenchmark (dss ! 0) (rss ! 0) new_benchmark;
     (n2, m2, b2) \<leftarrow> runBenchmark (dss ! 1) (rss ! 1) b1;
     (n3, m3, b3) \<leftarrow> runBenchmark (dss ! 2) (rss ! 2) b2;
     Some [(n1, m1), (n2, m2), (n3, m3)] }"

text \<open>
  A run of the benchmark never throws; the trie matches every request the regular expressions match, so its count is
  at least theirs, and the counts are equal when no route has a parameter. The object keeps the routes of earlier
  runs.
\<close>

lemma benchmark_contract:
  assumes "bench_state rs b" and "\<forall>d\<in>set ds. \<forall>k. snd (snd d) k < 36" and "\<forall>q\<in>set reqs. \<forall>k. snd q k < 36"
  shows "\<exists>n m b' rs'. runBenchmark ds reqs b = Some (n, m, b') \<and> n \<le> m \<and> bench_state (rs @ rs') b' \<and> length rs' = length ds
    \<and> ((\<forall>r\<in>set (rs @ rs'). list_all (\<lambda>s. \<not> is_param s) (splitPath (fst r))) \<longrightarrow> n = m)"
proof -
  from bench_state_adds [OF assms(1,2), of 0] obtain b' rs' where
    b': "generateTestData ds b = Some b'" "bench_state (rs @ rs') b'" "length rs' = length ds" by (auto simp: generateTestData_def)
  define R where "R = map (\<lambda>(depth, dis). (generateRandomPath depth dis, ''GET'')) reqs"
  have plain: "plain_path (fst q)" if "q \<in> set R" for q
    using that assms(3) by (auto simp: R_def intro!: generated_plain)
  let ?P = "\<lambda>(path, meth). regex_finds (bm_regexRoutes b') path meth"
  let ?Q = "\<lambda>(path, meth). trie_finds (bm_trieRoutes b') path meth"
  have PQ: "?P q \<Longrightarrow> ?Q q" for q
    using regex_finds_iff [OF b'(2)] trie_finds_own [OF b'(2)] by (cases q) blast
  have "length (filter ?P R) \<le> length (filter ?Q R)"
    using PQ by (induction R) auto
  moreover have "filter ?P R = filter ?Q R" if "\<forall>r\<in>set (rs @ rs'). list_all (\<lambda>s. \<not> is_param s) (splitPath (fst r))"
    using PQ plain trie_finds_static [OF b'(2) that] regex_finds_iff [OF b'(2)] by (intro filter_cong) auto
  moreover have "runBenchmark ds reqs b = Some (length (filter ?P R), length (filter ?Q R), b')"
    using b'(1) by (simp add: runBenchmark_def R_def)
  ultimately show ?thesis using b'(2,3) by auto
qed

text \<open>The whole program; its second run searches the routes of the first as well.\<close>

lemma bench_main_contract:
  assumes "\<forall>ds\<in>set dss. \<forall>d\<in>set ds. \<forall>k. snd (snd d) k < 36" and "\<forall>qs\<in>set rss. \<forall>q\<in>set qs. \<forall>k. snd q k < 36"
    and "length dss = 3" and "length rss = 3"
  shows "\<exists>counts. bench_main dss rss = Some counts \<and> length counts = 3 \<and> list_all (\<lambda>(n, m). n \<le> m) counts"
    and "\<exists>n1 m1 b1 n2 m2 b2. runBenchmark (dss ! 0) (rss ! 0) new_benchmark = Some (n1, m1, b1)
      \<and> runBenchmark (dss ! 1) (rss ! 1) b1 = Some (n2, m2, b2)
      \<and> length (bm_regexRoutes b2) = length (dss ! 0) + length (dss ! 1)"
proof -
  have mem: "dss ! i \<in> set dss" "rss ! i \<in> set rss" if "i < 3" for i using that assms(3,4) by simp_all
  note d = bspec [OF assms(1) mem(1)] and q = bspec [OF assms(2) mem(2)]
  have len: "length (bm_regexRoutes b) = length rs" if "bench_state rs b" for rs b
    using that by (auto simp: bench_state_def dest: map_eq_imp_length_eq)
  from benchmark_contract [OF bench_state_new d q, of 0 0] obtain n1 m1 b1 rs1 where
    b1: "runBenchmark (dss ! 0) (rss ! 0) new_benchmark = Some (n1, m1, b1)" "n1 \<le> m1" "bench_state rs1 b1" "length rs1 = length (dss ! 0)" by auto
  from benchmark_contract [OF b1(3) d q, of 1 1] obtain n2 m2 b2 rs2 where
    b2: "runBenchmark (dss ! 1) (rss ! 1) b1 = Some (n2, m2, b2)" "n2 \<le> m2" "bench_state (rs1 @ rs2) b2" "length rs2 = length (dss ! 1)" by auto
  from benchmark_contract [OF b2(3) d q, of 2 2] obtain n3 m3 b3 where
    b3: "runBenchmark (dss ! 2) (rss ! 2) b2 = Some (n3, m3, b3)" "n3 \<le> m3" by auto
  show "\<exists>counts. bench_main dss rss = Some counts \<and> length counts = 3 \<and> list_all (\<lambda>(n, m). n \<le> m) counts"
    using b1(1,2) b2(1,2) b3 by (simp add: bench_main_def)
  show "\<exists>n1 m1 b1 n2 m2 b2. runBenchmark (dss ! 0) (rss ! 0) new_benchmark = Some (n1, m1, b1)
      \<and> runBenchmark (dss ! 1) (rss ! 1) b1 = Some (n2, m2, b2)
      \<and> length (bm_regexRoutes b2) = length (dss ! 0) + length (dss ! 1)"
    using b1(1,4) b2(1,4) len [OF b2(3)] by auto
qed

text \<open>
  A parameter is not bound to its own name: \<open>addRoute\<close> stores the name one node above the one where \<open>findRoute\<close> looks for
  it. A route that ends in its only parameter binds nothing.
\<close>

lemma bench_parameter_lost:
  assumes "x \<noteq> []" and "CHR ''/'' \<notin> set x" and "CHR ''/'' \<notin> set name" and "CHR ''/'' \<notin> set a" and "a \<noteq> []"
    and "\<not> is_param a" and "x \<noteq> ''*''"
  shows "bench_findRoute (''/'' @ a @ ''/'' @ x) meth (bench_addRoute (''/'' @ a @ ''/:'' @ name) meth h [name] new_node) = (h, Map.empty)"
proof -
  have "splitPath (''/'' @ a @ ''/:'' @ name) = [a, CHR '':'' # name]" "splitPath (''/'' @ a @ ''/'' @ x) = [a, x]"
    using assms splitPath_two [of a "CHR '':'' # name"] splitPath_two [of a x] by simp_all
  then show ?thesis using assms(6,7)
    by (simp add: bench_findRoute_def bench_addRoute_def is_param_def child_or_new_def)
qed

end
