(* ===== verification/Spec2Isabelle.thy ===== *)
theory Spec2Isabelle
  imports EventLoop Pollers Sharing TimerQueue RouteTrie TcpServer Acceptor Connector Dates
    ThreadPool AsyncLogging Logger ProcFiles HttpTypes Threads LoopLife Storage SocketFns AppMain RouteBench
begin

text \<open>
  A verification library for the file server in \<open>application/http_upload.cc\<close> and the \<open>mymuduo\<close>
  network library (\<open>net/\<close> and \<open>base/\<close>) it runs on.

  \<^bold>\<open>The program.\<close> One thread runs an \<open>EventLoop\<close>: a poller reports which file descriptors are ready, the
  \<open>Channel\<close> of each calls back its owner, and functors that other code queued run after the events.
  A \<open>TcpConnection\<close> owns a channel and two \<open>Buffer\<close>s; what arrives goes to a message callback, what is
  sent goes to the socket or waits in the output buffer. \<open>HttpServer\<close> installs a message callback that
  feeds an \<open>HttpContext\<close> (the request parser, one per connection) and hands complete requests to the
  application, \<open>HttpUploadHandler\<close>, which routes them by regular expressions to handlers for accounts,
  uploads, downloads and sharing over a MySQL database and a directory of files. Around the loop, a
  \<open>TimerQueue\<close> turns a timer descriptor into callbacks, an \<open>Acceptor\<close> and a \<open>TcpServer\<close> make connections and spread
  them over the loops of an \<open>EventLoopThreadPool\<close>, a \<open>Connector\<close> and a \<open>TcpClient\<close> make outgoing ones. \<open>base/\<close> has the
  monitors, the thread pool, dates and the logging that all parts use.

  \<^bold>\<open>Theories.\<close>
  \<^item> \<open>Prelude\<close>: byte strings, searching, decimal numerals, runs of code that may not return.
  \<^item> \<open>Buffer\<close> (\<open>net/Buffer.h\<close>, \<open>.cc\<close>): the record of bytes and indices; every operation with its
    assertions; it implements a byte queue (locale \<open>byte_fifo\<close>, interpreted on the buffer).
  \<^item> \<open>HttpRequest\<close>, \<open>HttpContext\<close>, \<open>HttpParse\<close>, \<open>HttpTypes\<close> (\<open>net/HttpRequest.h\<close>, \<open>net/HttpContext.h\<close>, \<open>.cc\<close>): the
    request object, the parser, and what it accepts: round trip with a printer, segmentation of bodies,
    exactly when the loop does not return, its error paths, and the shape of every state it can reach before an error.
  \<^item> \<open>OrderedMap\<close>: \<open>std::map\<close> as a sorted list (locale \<open>dictionary\<close>). \<open>HttpResponse\<close>
    (\<open>net/HttpResponse.h\<close>): the response and its printing, read back by a reference reader.
  \<^item> \<open>Channel\<close>, \<open>Pollers\<close> (\<open>net/Channel.*\<close>, \<open>net/Poller.*\<close>, \<open>net/poller/\<close>): event words and dispatch; the
    epoll and the poll implementation, both shown to implement one abstract registry (locale \<open>poller\<close>).
  \<^item> \<open>EventLoop\<close> (\<open>net/EventLoop.*\<close>): the functor queue with the interleavings of other threads, before, during and after \<open>loop\<close>.
    \<open>LoopLife\<close> (\<open>net/EventLoop.*\<close>, \<open>net/Channel.cc\<close>, \<open>net/TimerQueue.cc\<close>, \<open>net/poller/DefaultPoller.cc\<close>): constructors
    and destructors of loop, timer queue and channel over either poller (the locale \<open>poller\<close> again).
  \<^item> \<open>TcpConnection\<close> (\<open>net/TcpConnection.*\<close>): the connection's state machine over an explicit socket;
    a step relation with invariants by rule induction: the output stream is never reordered, lost or
    duplicated, and output drains.
  \<^item> \<open>HttpServer\<close> (\<open>net/HttpServer.*\<close>): the glue between connection, parser and application, and when it answers 400.
  \<^item> \<open>Regex\<close>, \<open>Messages\<close>, \<open>AppBase\<close>, \<open>FileTransfer\<close>, \<open>Handlers\<close>, \<open>Routes\<close> (\<open>application/http_upload.cc\<close>): the
    part of \<open>std::regex\<close> that is used, the texts of answers, the handler's state and helpers, uploads and
    downloads, the handlers, the route table and \<open>onRequest\<close>.
  \<^item> \<open>Download\<close>, \<open>Access\<close>, \<open>Upload\<close>, \<open>Sharing\<close>: what a served file puts on the wire, who may do what, what an
    upload stores, share links, deletion and the filename mapping. \<open>AppMain\<close>: the handler's constructor and
    destructor, the connection to the database, and \<open>main\<close>.
  \<^item> \<open>TimerQueue\<close> (\<open>net/Timer*\<close>): the ordered set of timers, the active and the cancelled ones over an explicit
    heap; calls from callbacks and from other threads, including the late read of a timer's number in \<open>addTimer\<close>; timers run
    when due and in order, and the alarm is set whenever a timer waits.
  \<^item> \<open>RouteTrie\<close> (\<open>net/RouteTrie.*\<close>): the trie of routes, equal to a table for paths without parameters. \<open>RouteBench\<close>
    (\<open>application/route_test.cc\<close>): the benchmark of a second trie against regular expressions, and how their counts compare.
  \<^item> \<open>LoopThreads\<close> (\<open>net/EventLoopThread*\<close>), \<open>TcpServer\<close> (\<open>net/TcpServer.*\<close>): round robin over the loops, threads
    and their owners, the life of a connection from \<open>newConnection\<close> to its destruction across loops, with the connection
    counter as an \<open>int\<close> that must not overflow.
  \<^item> \<open>Sockets\<close>, \<open>SocketFns\<close>, \<open>Acceptor\<close>, \<open>Connector\<close> (\<open>net/Endian.h\<close>, \<open>net/InetAddress.*\<close>, \<open>net/SocketsOps.cc\<close>,
    \<open>net/Socket.cc\<close>, \<open>net/Acceptor.*\<close>, \<open>net/Connector.*\<close>, \<open>net/TcpClient.*\<close>): addresses and byte order, sockets and their
    options over a table of descriptors, accepting with a reserve descriptor (with what other threads do to the table as an
    argument), connecting with retries, and
    what is left to run when a client is destroyed.
  \<^item> \<open>Monitors\<close> (\<open>base/Condition.h\<close>, \<open>BlockingQueue.h\<close>, \<open>BoundedBlockingQueue.h\<close>, \<open>CountDownLatch.cc\<close>): waiters of a
    condition variable, queues and latch; first in first out (locale \<open>blocking_fifo\<close>) and no lost
    wake-up. \<open>ThreadPool\<close> (\<open>base/ThreadPool.cc\<close>): workers and callers over the same waiters, and what \<open>stop\<close> does.
  \<^item> \<open>Atomics\<close> (\<open>base/Atomic.h\<close>, \<open>CurrentThread.*\<close>, \<open>Mutex.h\<close>, \<open>Condition.cc\<close>): counters that wrap, the per-thread
    variables, the mutex and its recorded holder. \<open>Threads\<close> (\<open>base/Thread.*\<close>, \<open>Exception.*\<close>): default names, the hand-over from \<open>start\<close> to the
    new thread statement by statement, functions that throw. \<open>Storage\<close> (\<open>base/Singleton.h\<close>, \<open>ThreadLocal.h\<close>, \<open>ThreadLocalSingleton.h\<close>,
    \<open>WeakCallback.h\<close>, \<open>StringPiece.h\<close>): objects made on first use (locale \<open>thread_storage\<close>) and references that do not own.
  \<^item> \<open>Dates\<close> (\<open>base/Date.*\<close>): Julian day numbers against the Gregorian calendar. \<open>Times\<close> (\<open>base/Timestamp.*\<close>,
    \<open>base/TimeZone.*\<close>): formatted time stamps read back, local times. \<open>LogStream\<close> (\<open>base/LogStream.*\<close>):
    printing integers and log lines; \<open>Logger\<close> (\<open>base/Logging.*\<close>): whole log statements. \<open>AsyncLogging\<close> (\<open>base/AsyncLogging.*\<close>, \<open>LogFile.*\<close>, \<open>FileUtil.cc\<close>): double
    buffering and rolling files. \<open>ProcFiles\<close> (\<open>base/FileUtil.cc\<close>, \<open>base/ProcessInfo.cc\<close>): reading small files and
    what is extracted from them.

  \<^bold>\<open>Conventions.\<close> Definitions keep the names of the code. A failing \<open>assert\<close> is \<^term>\<open>None\<close> (type
  \<open>checked\<close>); a handler returns, throws, or runs into undefined behaviour (type \<open>outcome\<close>), and keeps the
  state it had changed before a throw. What is not in the repository is an argument: the outcomes of
  \<open>write\<close>, \<open>read\<close>, \<open>epoll_wait\<close> and \<open>poll\<close>; MySQL, nlohmann::json, \<open>std::hash\<close>, the clock, the random
  device and the file system's answers are the fields of the record \<open>env\<close>. Machine integers keep their
  width where it matters: event sets are 32-bit words, \<open>size_t\<close> differences wrap modulo \<open>2^64\<close>,
  \<open>atoi\<close> results are cut to 32 bits.
  Concurrency is interleaving: what a thread does while it holds a mutex, or in its own loop between two
  points where others can act, is one step of an \<open>inductive\<close> relation, and histories record what went in
  and out. The addresses an allocator returns, the sleepers a signal wakes and the calls that user
  callbacks make are arguments of the steps.

  \<^bold>\<open>Loops and fuel.\<close> The parser's loop takes fuel: three iterations are enough whenever it returns at all,
  and theory \<open>HttpParse\<close> proves exactly when no fuel is. The event loop is bounded by the list
  of poll results it is given. A download stream needs one call per started mebibyte and one more.

  \<^bold>\<open>Not modelled.\<close> Values of type \<open>double\<close>: \<open>cpuTime\<close>, \<open>timeDifference\<close> and the texts \<open>snprintf\<close> makes of them in \<open>Fmt\<close>;
  the calls that take a number of seconds as \<open>double\<close> have it as an integer number of the smaller unit.
  Branches for Valgrind are not compiled. Plain getters and setters, casts and
  functions that only pass on the answer of one system call have no logic of their own. The web pages are in another
  language, and the files under \<open>build/\<close> are generated.
\<close>

end
